(* ===== verification/Telltale_Prelude.thy ===== *)
theory Telltale_Prelude
  imports Main "HOL-Library.Word" "HOL-Library.List_Lexorder" "HOL-Library.Char_ord"
    "HOL-Library.Product_Lexorder" "HOL-Library.Option_ord" "HOL-Library.Sublist"
begin

text \<open>
  Shared vocabulary of the development: results and charged computations, checked machine
  arithmetic, \<open>BTreeMap\<close> and \<open>BTreeSet\<close> as sorted lists, and the part of Rust's
  \<open>str\<close> interface that the modelled code calls.

  A Rust string is the list of its UTF-8 bytes (\<^typ>\<open>string\<close>), so \<open>len()\<close> is
  \<^const>\<open>length\<close> and \<open>Ord\<close> is the bytewise lexicographic order of
  \<open>List_Lexorder\<close>. A predicate on ASCII characters holds of a \<open>char\<close> exactly when it
  holds of its one byte, and fails on every byte of a multi-byte character.
\<close>

section \<open>Collections of simplification rules\<close>

named_theorems rust_simps \<open>unfolding of the modelled standard library\<close>
named_theorems computes_intros \<open>a charged computation returns a given value\<close>

section \<open>Results\<close>

type_synonym ('e, 'a) result = "'e + 'a"

definition result_bind :: "('e, 'a) result \<Rightarrow> ('a \<Rightarrow> ('e, 'b) result) \<Rightarrow> ('e, 'b) result" where
  "result_bind r f = (case r of Inl e \<Rightarrow> Inl e | Inr x \<Rightarrow> f x)"

definition ok_or :: "'a option \<Rightarrow> 'e \<Rightarrow> ('e, 'a) result" where
  "ok_or x e = (case x of None \<Rightarrow> Inl e | Some v \<Rightarrow> Inr v)"

fun try_fold :: "('b \<Rightarrow> 'a \<Rightarrow> ('e, 'b) result) \<Rightarrow> 'b \<Rightarrow> 'a list \<Rightarrow> ('e, 'b) result" where
  "try_fold f acc [] = Inr acc"
| "try_fold f acc (x # xs) = result_bind (f acc x) (\<lambda>acc'. try_fold f acc' xs)"

fun try_map :: "('a \<Rightarrow> ('e, 'b) result) \<Rightarrow> 'a list \<Rightarrow> ('e, 'b list) result" where
  "try_map f [] = Inr []"
| "try_map f (x # xs) = result_bind (f x) (\<lambda>y. result_bind (try_map f xs) (\<lambda>ys. Inr (y # ys)))"

lemma result_bind_simps [simp]:
  "result_bind (Inl e) f = Inl e" "result_bind (Inr x) f = f x"
  by (simp_all add: result_bind_def)

lemma result_bind_eq_Inr_iff:
  "result_bind r f = Inr y \<longleftrightarrow> (\<exists>x. r = Inr x \<and> f x = Inr y)"
  by (cases r) auto

lemma result_bind_eq_Inl_iff:
  "result_bind r f = Inl e \<longleftrightarrow> r = Inl e \<or> (\<exists>x. r = Inr x \<and> f x = Inl e)"
  by (cases r) auto

lemma ok_or_simps [simp]: "ok_or None e = Inl e" "ok_or (Some v) e = Inr v"
  by (simp_all add: ok_or_def)

lemma ok_or_eq_Inr_iff [simp]: "ok_or x e = Inr v \<longleftrightarrow> x = Some v"
  by (cases x) auto

lemma ok_or_eq_Inl_iff [simp]: "ok_or x e = Inl e' \<longleftrightarrow> x = None \<and> e' = e"
  by (cases x) auto

lemmas result_iffs = result_bind_eq_Inr_iff result_bind_eq_Inl_iff

lemma try_fold_append:
  "try_fold f acc (xs @ ys) = result_bind (try_fold f acc xs) (\<lambda>acc'. try_fold f acc' ys)"
proof (induction xs arbitrary: acc)
  case (Cons x xs)
  then show ?case by (cases "f acc x") auto
qed simp

lemma try_fold_invariant:
  assumes "try_fold f acc xs = Inr r" and "I acc"
    and "\<And>a x a'. I a \<Longrightarrow> x \<in> set xs \<Longrightarrow> f a x = Inr a' \<Longrightarrow> I a'"
  shows "I r"
  using assms
proof (induction xs arbitrary: acc)
  case (Cons x xs)
  from Cons.prems(1) obtain acc' where f: "f acc x = Inr acc'" and rest: "try_fold f acc' xs = Inr r"
    by (auto simp: result_iffs)
  note rest
  moreover have "I acc'" using Cons.prems(2,3) f by (meson list.set_intros(1))
  moreover have "I a'" if "I a" "y \<in> set xs" "f a y = Inr a'" for a y a'
    using Cons.prems(3) that by (meson list.set_intros(2))
  ultimately show ?case by (rule Cons.IH)
qed simp

lemma try_map_eq_Inr_iff:
  "try_map f xs = Inr ys \<longleftrightarrow> list_all2 (\<lambda>x y. f x = Inr y) xs ys"
  by (induction xs arbitrary: ys) (auto simp: result_iffs list_all2_Cons1)

lemma try_map_mem: "try_map f xs = Inr ys \<Longrightarrow> y \<in> set ys \<Longrightarrow> \<exists>x \<in> set xs. f x = Inr y"
  by (induction xs arbitrary: ys) (auto simp: result_iffs)

lemma try_map_total: "(\<And>x. x \<in> set xs \<Longrightarrow> \<exists>y. f x = Inr y) \<Longrightarrow> \<exists>ys. try_map f xs = Inr ys"
proof (induction xs)
  case (Cons x xs)
  then obtain y ys where "f x = Inr y" "try_map f xs = Inr ys" by (meson list.set_intros)
  then show ?case by simp
qed simp

lemma try_map_append:
  "try_map f (xs @ ys) = result_bind (try_map f xs) (\<lambda>a. result_bind (try_map f ys) (\<lambda>b. Inr (a @ b)))"
proof (induction xs)
  case Nil
  then show ?case by (cases "try_map f ys") simp_all
next
  case (Cons x xs)
  then show ?case by (cases "f x"; cases "try_map f xs"; cases "try_map f ys") simp_all
qed

lemma try_map_covers: "try_map f xs = Inr ys \<Longrightarrow> x \<in> set xs \<Longrightarrow> \<exists>y \<in> set ys. f x = Inr y"
  by (induction xs arbitrary: ys) (auto simp: result_iffs)

lemma try_map_map: "try_map f (map g xs) = try_map (f \<circ> g) xs"
  by (induction xs) simp_all

section \<open>Lists\<close>

lemma snd_image_iff: "c \<in> snd ` A \<longleftrightarrow> (\<exists>k. (k, c) \<in> A)"
  by force

lemma foldl_filter_snoc:
  "foldl (\<lambda>acc x. if P x then acc @ [f x] else acc) acc xs = acc @ map f (filter P xs)"
  by (induction xs arbitrary: acc) auto

lemma foldl_map_snoc: "foldl (\<lambda>acc x. acc @ [f x]) acc xs = acc @ map f xs"
  by (induction xs arbitrary: acc) auto

lemma sort_key_eq_Cons:
  assumes "sort_key f xs = y # ys"
  shows "set xs = insert y (set ys)" "\<And>x. x \<in> set xs \<Longrightarrow> f y \<le> f x"
proof -
  show "set xs = insert y (set ys)"
    using set_sort [of f xs] assms by simp
  then show "\<And>x. x \<in> set xs \<Longrightarrow> f y \<le> f x"
    using sorted_sort_key [of f xs] assms by auto
qed

lemma find_sort_key:
  fixes f :: "'a \<Rightarrow> 'k::linorder"
  shows "find (\<lambda>y. f y = k) (sort_key f xs) = find (\<lambda>y. f y = k) xs"
proof -
  have "find P ys = (case filter P ys of [] \<Rightarrow> None | y # _ \<Rightarrow> Some y)" for P and ys :: "'a list"
    by (induction ys) auto
  moreover have "filter (\<lambda>y. f y = k) (sort_key f xs) = filter (\<lambda>y. f y = k) xs"
    using sort_key_stable [of f k xs] by simp
  ultimately show ?thesis by simp
qed

lemma sort_key_map: "sort_key k (map f xs) = map f (sort_key (k \<circ> f) xs)"
proof -
  have ins: "insort_key k (f x) (map f ys) = map f (insort_key (\<lambda>a. k (f a)) x ys)" for x ys
    by (induction ys) auto
  show ?thesis by (induction xs) (simp_all add: ins comp_def)
qed

lemma subseq_subset: "subseq xs ys \<Longrightarrow> set xs \<subseteq> set ys"
  by (auto dest: list_emb_set)

lemma sorted_wrt_insort_stable:
  fixes f :: "'a::linorder \<Rightarrow> 'b::linorder"
  assumes "sorted_wrt (\<lambda>x y. (f x, x) < (f y, y)) ys" and "\<forall>y \<in> set ys. x < y"
  shows "sorted_wrt (\<lambda>x y. (f x, x) < (f y, y)) (insort_key f x ys)"
  using assms by (induction ys) (auto simp: set_insort_key not_le)

lemma sort_key_stable_strict:
  fixes f :: "'a::linorder \<Rightarrow> 'b::linorder"
  assumes "sorted_wrt (<) xs"
  shows "sorted_wrt (\<lambda>x y. (f x, x) < (f y, y)) (sort_key f xs)"
  using assms
proof (induction xs)
  case (Cons x xs)
  then show ?case using sorted_wrt_insort_stable [of f "sort_key f xs" x] by simp
qed simp

lemma subseq_of_sorted:
  fixes f :: "'a \<Rightarrow> 'b::linorder"
  assumes "sorted_wrt (\<lambda>x y. f x < f y) ns" and "sorted_wrt (\<lambda>x y. f x < f y) xs" and "set ns \<subseteq> set xs"
  shows "subseq ns xs"
  using assms
proof (induction xs arbitrary: ns)
  case (Cons x xs)
  show ?case
  proof (cases ns)
    case (Cons n ns')
    show ?thesis
    proof (cases "n = x")
      case True
      then have "set ns' \<subseteq> set xs" using Cons.prems Cons by fastforce
      then show ?thesis using Cons.IH [of ns'] Cons.prems Cons True by simp
    next
      case False
      then have "n \<in> set xs" using Cons.prems(3) Cons by auto
      then have "f x < f n" using Cons.prems(2) by simp
      then have "x \<notin> set ns" using Cons.prems(1) Cons by (auto dest: less_asym)
      then have "set ns \<subseteq> set xs" using Cons.prems(3) by auto
      then show ?thesis using Cons.IH [of ns] Cons.prems by auto
    qed
  qed simp
qed simp

lemma the_mono: "x \<le> y \<Longrightarrow> x \<noteq> None \<Longrightarrow> y \<noteq> None \<Longrightarrow> the x \<le> the y"
  for x y :: "'a::linorder option"
  by (cases x; cases y) auto

lemma sorted_wrt_subseq: "subseq xs ys \<Longrightarrow> sorted_wrt P ys \<Longrightarrow> sorted_wrt P xs"
  by (induction xs ys rule: list_emb.induct) (auto dest: subseq_subset)

section \<open>Charged computations\<close>

text \<open>
  The evaluators take a closure \<open>charge: FnMut(usize) -> Result<(), E>\<close> and stop at the first
  error it reports. A computation maps the closure's captured state to a result and the state
  that the closure is left in.
\<close>

type_synonym ('s, 'e, 'a) comp = "'s \<Rightarrow> ('e, 'a) result \<times> 's"

definition ret :: "'a \<Rightarrow> ('s, 'e, 'a) comp" where
  "ret x s = (Inr x, s)"

definition cbind :: "('s, 'e, 'a) comp \<Rightarrow> ('a \<Rightarrow> ('s, 'e, 'b) comp) \<Rightarrow> ('s, 'e, 'b) comp" where
  "cbind m f s = (case m s of (Inl e, s') \<Rightarrow> (Inl e, s') | (Inr x, s') \<Rightarrow> f x s')"

definition throw :: "'e \<Rightarrow> ('s, 'e, 'a) comp" where
  "throw e s = (Inl e, s)"

fun cfold :: "('b \<Rightarrow> 'a \<Rightarrow> ('s, 'e, 'b) comp) \<Rightarrow> 'b \<Rightarrow> 'a list \<Rightarrow> ('s, 'e, 'b) comp" where
  "cfold f acc [] = ret acc"
| "cfold f acc (x # xs) = cbind (f acc x) (\<lambda>acc'. cfold f acc' xs)"

text \<open>\<open>computes c v\<close>: whenever \<open>c\<close> finishes without an error, it returns \<open>v\<close>.\<close>

definition computes :: "('s, 'e, 'a) comp \<Rightarrow> 'a \<Rightarrow> bool" where
  "computes c v \<longleftrightarrow> (\<forall>s r s'. c s = (Inr r, s') \<longrightarrow> r = v)"

text \<open>\<open>completes c\<close>: \<open>c\<close> never reports an error.\<close>

definition completes :: "('s, 'e, 'a) comp \<Rightarrow> bool" where
  "completes c \<longleftrightarrow> (\<forall>s. \<exists>r s'. c s = (Inr r, s'))"

lemma computesD: "computes c v \<Longrightarrow> c s = (Inr r, s') \<Longrightarrow> r = v"
  unfolding computes_def by blast

lemma completesD: "completes c \<Longrightarrow> \<exists>r s'. c s = (Inr r, s')"
  by (simp add: completes_def)

lemma computes_ret [computes_intros]: "computes (ret x) x"
  by (simp add: computes_def ret_def)

lemma computes_throw [computes_intros]: "computes (throw e) v"
  by (simp add: computes_def throw_def)

lemma computes_unit [computes_intros]: "computes c ()"
  by (simp add: computes_def)

lemma computes_bind:
  assumes "computes m x" and "computes (f x) y"
  shows "computes (cbind m f) y"
  unfolding computes_def
proof (intro allI impI)
  fix s r s'
  assume run: "cbind m f s = (Inr r, s')"
  obtain q t where m: "m s = (q, t)" by (cases "m s")
  with run obtain x' where q: "q = Inr x'" and f: "f x' t = (Inr r, s')"
    by (cases q) (auto simp: cbind_def)
  have "x' = x" using assms(1) m q by (auto dest: computesD)
  with f assms(2) show "r = y" by (auto dest: computesD)
qed

lemma computes_bind_unit [computes_intros]:
  fixes m :: "('s, 'e, unit) comp"
  shows "computes (f ()) y \<Longrightarrow> computes (cbind m f) y"
  by (rule computes_bind [OF computes_unit])

lemma computes_if [computes_intros]:
  "(b \<Longrightarrow> computes c x) \<Longrightarrow> (\<not> b \<Longrightarrow> computes d y) \<Longrightarrow>
   computes (if b then c else d) (if b then x else y)"
  by simp

lemma computes_cfold:
  assumes "\<And>acc x. x \<in> set xs \<Longrightarrow> computes (f acc x) (g acc x)"
  shows "computes (cfold f acc xs) (foldl g acc xs)"
  using assms by (induction xs arbitrary: acc) (auto intro!: computes_intros computes_bind)

lemma completes_ret: "completes (ret x)"
  by (simp add: completes_def ret_def)

lemma completes_bind:
  assumes "completes m" and "\<And>x. completes (f x)"
  shows "completes (cbind m f)"
  unfolding completes_def
proof
  fix s
  obtain x t where "m s = (Inr x, t)" using completesD [OF assms(1), of s] by blast
  moreover obtain r s' where "f x t = (Inr r, s')" using completesD [OF assms(2), of x t] by blast
  ultimately show "\<exists>r s'. cbind m f s = (Inr r, s')" by (simp add: cbind_def)
qed

lemma completes_cfold:
  "(\<And>acc x. completes (f acc x)) \<Longrightarrow> completes (cfold f acc xs)"
  by (induction xs arbitrary: acc) (auto intro: completes_ret completes_bind)

lemma completes_computes:
  assumes "completes c" and "computes c v"
  shows "\<exists>s'. c s = (Inr v, s')"
  using completesD [OF assms(1)] computesD [OF assms(2)] by metis

section \<open>Machine integers\<close>

text \<open>\<open>u64\<close> counters are words; a \<open>usize\<close> that only measures a length is a natural number.\<close>

type_synonym u64 = "64 word"
type_synonym u32 = "32 word"

definition checked_add :: "'l::len word \<Rightarrow> 'l word \<Rightarrow> 'l word option" where
  "checked_add a b = (if unat a + unat b < 2 ^ LENGTH('l) then Some (a + b) else None)"

definition checked_mul :: "'l::len word \<Rightarrow> 'l word \<Rightarrow> 'l word option" where
  "checked_mul a b = (if unat a * unat b < 2 ^ LENGTH('l) then Some (a * b) else None)"

definition saturating_add :: "'l::len word \<Rightarrow> 'l word \<Rightarrow> 'l word" where
  "saturating_add a b = (if unat a + unat b < 2 ^ LENGTH('l) then a + b else - 1)"

lemma unat_less_length: "unat (w :: 'l::len word) < 2 ^ LENGTH('l)"
  by (rule unsigned_less)

lemma ex_unat_iff: "(\<exists>w :: 'l::len word. unat w = n) \<longleftrightarrow> n < 2 ^ LENGTH('l)"
proof
  assume "n < 2 ^ LENGTH('l)"
  then have "unat (of_nat n :: 'l word) = n" by (simp add: unsigned_of_nat take_bit_nat_eq_self)
  then show "\<exists>w :: 'l word. unat w = n" by blast
qed (auto simp: unat_less_length)

lemma checked_add_Some_iff:
  "checked_add a b = Some c \<longleftrightarrow> unat c = unat a + unat b"
  for a :: "'l::len word"
proof
  assume "checked_add a b = Some c"
  then show "unat c = unat a + unat b"
    by (auto simp: checked_add_def unat_word_ariths split: if_splits)
next
  assume c: "unat c = unat a + unat b"
  then have lt: "unat a + unat b < 2 ^ LENGTH('l)"
    by (metis unsigned_less)
  then have "unat (a + b) = unat c"
    by (simp add: c unat_word_ariths)
  then show "checked_add a b = Some c"
    using lt by (simp add: checked_add_def word_unat_eq_iff)
qed

lemma checked_add_None_iff:
  "checked_add a b = None \<longleftrightarrow> 2 ^ LENGTH('l) \<le> unat a + unat b"
  for a :: "'l::len word"
  by (auto simp: checked_add_def)

lemma checked_mul_Some_iff:
  "checked_mul a b = Some c \<longleftrightarrow> unat c = unat a * unat b"
  for a :: "'l::len word"
proof
  assume "checked_mul a b = Some c"
  then show "unat c = unat a * unat b"
    by (auto simp: checked_mul_def unat_word_ariths split: if_splits)
next
  assume c: "unat c = unat a * unat b"
  then have lt: "unat a * unat b < 2 ^ LENGTH('l)"
    by (metis unsigned_less)
  then have "unat (a * b) = unat c"
    by (simp add: c unat_word_ariths)
  then show "checked_mul a b = Some c"
    using lt by (simp add: checked_mul_def word_unat_eq_iff)
qed

lemma checked_mul_None_iff:
  "checked_mul a b = None \<longleftrightarrow> 2 ^ LENGTH('l) \<le> unat a * unat b"
  for a :: "'l::len word"
  by (auto simp: checked_mul_def)

lemma unat_saturating_add:
  "unat (saturating_add a b) = min (unat a + unat b) (2 ^ LENGTH('l) - 1)"
  for a :: "'l::len word"
  by (auto simp: saturating_add_def unat_word_ariths unsigned_minus_1_eq_mask mask_eq_exp_minus_1)

text \<open>\<open>usize\<close> arithmetic on lengths.\<close>

definition USIZE_MAX :: nat where
  "USIZE_MAX = 2 ^ 64 - 1"

definition usize_saturating_add :: "nat \<Rightarrow> nat \<Rightarrow> nat" where
  "usize_saturating_add a b = min (a + b) USIZE_MAX"

definition usize_saturating_mul :: "nat \<Rightarrow> nat \<Rightarrow> nat" where
  "usize_saturating_mul a b = min (a * b) USIZE_MAX"

definition usize_checked_add :: "nat \<Rightarrow> nat \<Rightarrow> nat option" where
  "usize_checked_add a b = (if a + b \<le> USIZE_MAX then Some (a + b) else None)"

section \<open>Ordered maps and sets\<close>

text \<open>
  What the modelled code relies on of \<open>BTreeMap\<close>: a lookup after an insertion, and iteration
  in strictly increasing key order.
\<close>

locale ordered_map =
  fixes mempty :: 'm
    and get :: "'k::linorder \<Rightarrow> 'm \<Rightarrow> 'v option"
    and put :: "'k \<Rightarrow> 'v \<Rightarrow> 'm \<Rightarrow> 'm"
    and entries :: "'m \<Rightarrow> ('k \<times> 'v) list"
    and minv :: "'m \<Rightarrow> bool"
  assumes minv_empty: "minv mempty"
    and minv_put: "minv m \<Longrightarrow> minv (put k v m)"
    and get_empty: "get k mempty = None"
    and get_put: "minv m \<Longrightarrow> get k' (put k v m) = (if k' = k then Some v else get k' m)"
    and get_entries: "minv m \<Longrightarrow> get k m = map_of (entries m) k"
    and entries_sorted: "minv m \<Longrightarrow> sorted_wrt (<) (map fst (entries m))"
begin

lemma entries_distinct: "minv m \<Longrightarrow> distinct (map fst (entries m))"
  using entries_sorted strict_sorted_iff by blast

lemma entries_mem_iff: "minv m \<Longrightarrow> (k, v) \<in> set (entries m) \<longleftrightarrow> get k m = Some v"
  by (simp add: get_entries entries_distinct)

lemma entries_keys: "minv m \<Longrightarrow> set (map fst (entries m)) = {k. get k m \<noteq> None}"
  by (auto simp: get_entries map_of_eq_None_iff)

lemma keys_unique:
  assumes "minv m" and "finite K" and "{k. get k m \<noteq> None} = K"
  shows "map fst (entries m) = sorted_list_of_set K"
proof (rule sorted_distinct_set_unique)
  show "sorted (map fst (entries m))" and "distinct (map fst (entries m))"
    using entries_sorted [OF assms(1)] strict_sorted_iff by blast+
  show "set (map fst (entries m)) = set (sorted_list_of_set K)"
    using assms entries_keys by simp
qed simp_all

text \<open>Repeated insertion under a key function: the last element with a key is what is stored.\<close>

lemma put_all:
  assumes "minv m"
  shows "minv (foldl (\<lambda>m x. put (key x) (val x) m) m xs)"
    and "get k (foldl (\<lambda>m x. put (key x) (val x) m) m xs)
       = (case find (\<lambda>x. key x = k) (rev xs) of Some x \<Rightarrow> Some (val x) | None \<Rightarrow> get k m)"
  using assms by (induction xs rule: rev_induct) (auto simp: minv_put get_put)

end

text \<open>
  Grouping: \<open>map.entry(key).or_default().push(value)\<close> in a loop. Each group holds the
  elements with its key in their original order.
\<close>

locale grouping_map = ordered_map mempty get put entries minv
  for mempty :: 'm and get :: "'k::linorder \<Rightarrow> 'm \<Rightarrow> 'a list option"
    and put :: "'k \<Rightarrow> 'a list \<Rightarrow> 'm \<Rightarrow> 'm" and entries and minv +
  fixes push :: "'k \<Rightarrow> 'a \<Rightarrow> 'm \<Rightarrow> 'm"
  assumes push_put: "push k x m = put k ((case get k m of None \<Rightarrow> [] | Some ys \<Rightarrow> ys) @ [x]) m"
begin

lemma minv_group: "minv m \<Longrightarrow> minv (foldl (\<lambda>m (k, x). push k x m) m ps)"
  by (induction ps arbitrary: m) (auto simp: push_put minv_put)

lemma get_group_aux:
  assumes "minv m"
  shows "get k (foldl (\<lambda>m (k, x). push k x m) m ps)
    = (if k \<in> fst ` set ps
       then Some ((case get k m of None \<Rightarrow> [] | Some ys \<Rightarrow> ys)
                  @ map snd (filter (\<lambda>p. fst p = k) ps))
       else get k m)"
  using assms
proof (induction ps arbitrary: m)
  case (Cons p ps)
  obtain k' x where p: "p = (k', x)" by (cases p)
  have inv: "minv (push k' x m)" using Cons.prems by (simp add: push_put minv_put)
  show ?case
    using Cons.IH [OF inv] Cons.prems
    by (auto simp: p push_put get_put filter_empty_conv image_iff)
qed simp

lemma get_group:
  "get k (foldl (\<lambda>m (k, x). push k x m) mempty ps)
    = (if k \<in> fst ` set ps then Some (map snd (filter (\<lambda>p. fst p = k) ps)) else None)"
  by (simp add: get_group_aux [OF minv_empty] get_empty)

lemma group_keys:
  "map fst (entries (foldl (\<lambda>m (k, x). push k x m) mempty ps))
    = sorted_list_of_set (fst ` set ps)"
  by (rule keys_unique [OF minv_group [OF minv_empty]]) (auto simp: get_group)

end

text \<open>\<open>BTreeMap\<close> as an association list in strictly increasing key order.\<close>

type_synonym ('k, 'v) btree_map = "('k \<times> 'v) list"

fun bt_put :: "'k::linorder \<Rightarrow> 'v \<Rightarrow> ('k, 'v) btree_map \<Rightarrow> ('k, 'v) btree_map" where
  "bt_put k v [] = [(k, v)]"
| "bt_put k v (p # m) =
    (if fst p < k then p # bt_put k v m
     else if fst p = k then (k, v) # m
     else (k, v) # p # m)"

definition bt_get :: "'k \<Rightarrow> ('k, 'v) btree_map \<Rightarrow> 'v option" where
  "bt_get k m = map_of m k"

definition bt_inv :: "('k::linorder, 'v) btree_map \<Rightarrow> bool" where
  "bt_inv m \<longleftrightarrow> sorted_wrt (<) (map fst m)"

definition bt_push :: "'k::linorder \<Rightarrow> 'a \<Rightarrow> ('k, 'a list) btree_map \<Rightarrow> ('k, 'a list) btree_map" where
  "bt_push k x m = bt_put k ((case bt_get k m of None \<Rightarrow> [] | Some ys \<Rightarrow> ys) @ [x]) m"

definition bt_group :: "('k::linorder \<times> 'a) list \<Rightarrow> ('k, 'a list) btree_map" where
  "bt_group ps = foldl (\<lambda>m (k, x). bt_push k x m) [] ps"

lemma keys_bt_put: "fst ` set (bt_put k v m) = insert k (fst ` set m)"
  by (induction m) auto

lemma bt_inv_put: "bt_inv m \<Longrightarrow> bt_inv (bt_put k v m)"
proof (induction m)
  case (Cons p m)
  have "\<And>x. x \<in> fst ` set (bt_put k v m) \<Longrightarrow> fst p < k \<Longrightarrow> fst p < x"
    using Cons.prems by (auto simp: bt_inv_def keys_bt_put)
  with Cons show ?case by (fastforce simp: bt_inv_def)
qed (simp add: bt_inv_def)

lemma bt_get_put: "bt_inv m \<Longrightarrow> bt_get k' (bt_put k v m) = (if k' = k then Some v else bt_get k' m)"
  by (induction m) (auto simp: bt_inv_def bt_get_def)

interpretation bt: ordered_map "[]" bt_get bt_put "\<lambda>m. m" bt_inv
  by unfold_locales (auto simp: bt_inv_put bt_get_put, auto simp: bt_inv_def bt_get_def)

interpretation btg: grouping_map "[]" bt_get bt_put "\<lambda>m. m" bt_inv bt_push
  by unfold_locales (simp add: bt_push_def)

lemma bt_inv_Nil [simp]: "bt_inv []"
  by (rule bt.minv_empty)

lemma bt_get_Nil [simp]: "bt_get k [] = None"
  by (simp add: bt_get_def)

lemma bt_group_get:
  "bt_get k (bt_group ps)
    = (if k \<in> fst ` set ps then Some (map snd (filter (\<lambda>p. fst p = k) ps)) else None)"
  unfolding bt_group_def by (rule btg.get_group)

lemma bt_inv_group: "bt_inv (bt_group ps)"
  unfolding bt_group_def by (rule btg.minv_group [OF bt.minv_empty])

lemma bt_group_keys: "map fst (bt_group ps) = sorted_list_of_set (fst ` set ps)"
  unfolding bt_group_def by (rule btg.group_keys)

lemma bt_group_mem_iff:
  "(k, ys) \<in> set (bt_group ps)
    \<longleftrightarrow> k \<in> fst ` set ps \<and> ys = map snd (filter (\<lambda>p. fst p = k) ps)"
  by (auto simp: bt.entries_mem_iff [OF bt_inv_group] bt_group_get split: if_splits)

lemma bt_group_eq:
  "bt_group ps = map (\<lambda>k. (k, map snd (filter (\<lambda>p. fst p = k) ps))) (sorted_list_of_set (fst ` set ps))"
proof -
  let ?f = "\<lambda>k. (k, map snd (filter (\<lambda>p. fst p = k) ps))"
  have "?f (fst q) = q" if q: "q \<in> set (bt_group ps)" for q
    by (rule prod.exhaust [of q]) (use q in \<open>auto simp: bt_group_mem_iff\<close>)
  then have "bt_group ps = map ?f (map fst (bt_group ps))" by (simp add: map_idI)
  then show ?thesis by (simp only: bt_group_keys)
qed

lemma sum_list_bt_put:
  fixes f :: "'v \<Rightarrow> nat"
  assumes "bt_inv m"
  shows "sum_list (map (f \<circ> snd) (bt_put k v m)) + (case bt_get k m of None \<Rightarrow> 0 | Some w \<Rightarrow> f w)
    = sum_list (map (f \<circ> snd) m) + f v"
  using assms
proof (induction m)
  case (Cons p m)
  have "bt_get k m = None" if "k \<le> fst p"
    using that Cons.prems by (auto simp: bt_inv_def bt_get_def map_of_eq_None_iff)
  with Cons show ?case
    by (cases "bt_get k m"; cases "k \<le> fst p") (auto simp: bt_inv_def bt_get_def)
qed (simp add: bt_get_def)

lemma length_bt_put: "bt_inv m \<Longrightarrow> length (bt_put k v m) = length m + (if bt_get k m = None then 1 else 0)"
proof (induction m)
  case (Cons p m)
  have "bt_get k m = None" if "k < fst p"
    using that Cons.prems by (auto simp: bt_inv_def bt_get_def map_of_eq_None_iff)
  moreover have "fst p < k \<or> fst p = k \<or> k < fst p" by (rule linorder_less_linear)
  ultimately show ?case using Cons by (auto simp: bt_inv_def bt_get_def)
qed (simp add: bt_get_def)

lemma bt_get_map_values:
  assumes "\<And>r. fst (f r) = fst r"
  shows "bt_get k (map f m) = map_option (\<lambda>v. snd (f (k, v))) (bt_get k m)"
proof (induction m)
  case (Cons r m)
  obtain k' v where r: "r = (k', v)" by (cases r)
  have "f r = (k', snd (f r))" using assms [of r] by (simp add: r prod_eq_iff)
  then have "bt_get k (map f (r # m)) = (if k = k' then Some (snd (f r)) else bt_get k (map f m))"
    by (simp only: bt_get_def list.map map_of.simps fun_upd_apply fst_conv snd_conv split: if_split) (metis fst_conv snd_conv)
  then show ?case using Cons by (simp add: r bt_get_def)
qed (simp add: bt_get_def)

lemma bt_inv_map_values: "(\<And>r. fst (f r) = fst r) \<Longrightarrow> bt_inv (map f m) = bt_inv m"
  by (simp add: bt_inv_def comp_def)

lemma bt_eqI:
  assumes "bt_inv m" and "bt_inv m'" and "\<And>k. bt_get k m = bt_get k m'"
  shows "m = m'"
proof -
  have expand: "n = map (\<lambda>k. (k, the (bt_get k n))) (map fst n)" if "bt_inv n" for n :: "('a, 'b) btree_map"
    using bt.entries_mem_iff [OF that] by (auto intro!: map_idI [symmetric] simp: comp_def)
  have fin: "finite {k. bt_get k m \<noteq> None}"
    using bt.entries_keys [OF assms(1)] List.finite_set [of "map fst m"] by simp
  have "map fst m = map fst m'"
    using bt.keys_unique [OF assms(1) fin refl] bt.keys_unique [OF assms(2) fin] assms(3) by simp
  then have "map (\<lambda>k. (k, the (bt_get k m))) (map fst m)
      = map (\<lambda>k. (k, the (bt_get k m'))) (map fst m')"
    using assms(3) by simp
  then show ?thesis
    using expand [OF assms(1)] expand [OF assms(2)] by simp
qed

text \<open>
  \<open>BTreeSet\<close> is a strictly increasing list: \<open>collect()\<close> of a list, and the
  \<open>sort(); dedup()\<close> idiom on a vector.
\<close>

definition btree_set :: "'a::linorder list \<Rightarrow> 'a list" where
  "btree_set xs = sort (remdups xs)"

definition sort_dedup :: "'a::linorder list \<Rightarrow> 'a list" where
  "sort_dedup xs = remdups_adj (sort xs)"

lemma btree_set_eq: "btree_set xs = sorted_list_of_set (set xs)"
  by (simp add: btree_set_def sorted_list_of_set_sort_remdups)

lemma set_btree_set [simp]: "set (btree_set xs) = set xs"
  by (simp add: btree_set_def)

lemma strict_sorted_btree_set: "sorted_wrt (<) (btree_set xs)"
  by (simp add: btree_set_def strict_sorted_iff)

lemma distinct_remdups_adj_sorted: "sorted xs \<Longrightarrow> distinct (remdups_adj xs)"
proof (induction xs rule: remdups_adj.induct)
  case (3 x y xs)
  then show ?case by (auto simp: order.antisym)
qed simp_all

lemma sort_dedup_eq: "sort_dedup xs = sorted_list_of_set (set xs)"
  unfolding sort_dedup_def
  by (rule sorted_distinct_set_unique)
    (simp_all add: sorted_remdups_adj distinct_remdups_adj_sorted)

lemma set_sort_dedup [simp]: "set (sort_dedup xs) = set xs"
  by (simp add: sort_dedup_def)

section \<open>Strings\<close>

definition byte :: "char \<Rightarrow> nat" where
  "byte c = of_char c"

definition is_ascii_lowercase :: "char \<Rightarrow> bool" where
  "is_ascii_lowercase c \<longleftrightarrow> 97 \<le> byte c \<and> byte c \<le> 122"

definition is_ascii_uppercase :: "char \<Rightarrow> bool" where
  "is_ascii_uppercase c \<longleftrightarrow> 65 \<le> byte c \<and> byte c \<le> 90"

definition is_ascii_digit :: "char \<Rightarrow> bool" where
  "is_ascii_digit c \<longleftrightarrow> 48 \<le> byte c \<and> byte c \<le> 57"

definition is_ascii_alphabetic :: "char \<Rightarrow> bool" where
  "is_ascii_alphabetic c \<longleftrightarrow> is_ascii_lowercase c \<or> is_ascii_uppercase c"

definition is_ascii_alphanumeric :: "char \<Rightarrow> bool" where
  "is_ascii_alphanumeric c \<longleftrightarrow> is_ascii_alphabetic c \<or> is_ascii_digit c"

definition is_ascii_whitespace :: "char \<Rightarrow> bool" where
  "is_ascii_whitespace c \<longleftrightarrow> byte c \<in> {32, 9, 10, 12, 13}"

definition is_ascii :: "string \<Rightarrow> bool" where
  "is_ascii s \<longleftrightarrow> list_all (\<lambda>c. byte c < 128) s"

definition ascii_lower :: "char \<Rightarrow> char" where
  "ascii_lower c = (if is_ascii_uppercase c then char_of (byte c + 32) else c)"

definition to_ascii_lowercase :: "string \<Rightarrow> string" where
  "to_ascii_lowercase s = map ascii_lower s"

definition eq_ignore_ascii_case :: "string \<Rightarrow> string \<Rightarrow> bool" where
  "eq_ignore_ascii_case s t \<longleftrightarrow> to_ascii_lowercase s = to_ascii_lowercase t"

text \<open>\<open>chars().any(char::is_control)\<close>: the C0 controls, DEL, and the C1 controls, which are
  encoded as the byte C2 followed by a byte from 80 to 9F.\<close>

fun any_control :: "string \<Rightarrow> bool" where
  "any_control [] = False"
| "any_control [c] = (byte c < 32 \<or> byte c = 127)"
| "any_control (c # d # s) =
    (byte c < 32 \<or> byte c = 127 \<or> (byte c = 194 \<and> 128 \<le> byte d \<and> byte d < 160)
     \<or> any_control (d # s))"

text \<open>The UTF-8 encodings of the characters with the Unicode property \<open>White_Space\<close>.\<close>

definition whitespace_encodings :: "string list" where
  "whitespace_encodings = map (map char_of)
    ([[9 :: nat], [10], [11], [12], [13], [32], [194, 133], [194, 160], [225, 154, 128],
      [226, 128, 168], [226, 128, 169], [226, 128, 175], [226, 129, 159], [227, 128, 128]]
     @ map (\<lambda>b. [226, 128, b]) [128, 129, 130, 131, 132, 133, 134, 135, 136, 137, 138])"

text \<open>Removes elements of \<open>ps\<close> from the front of \<open>s\<close> as long as one is there.\<close>

function strip_front :: "string list \<Rightarrow> string \<Rightarrow> string" where
  "strip_front ps s =
    (case find (\<lambda>p. p \<noteq> [] \<and> prefix p s) ps of
       None \<Rightarrow> s | Some p \<Rightarrow> strip_front ps (drop (length p) s))"
  by pat_completeness auto
termination
proof (relation "measure (\<lambda>(ps, s). length s)")
  fix ps s p
  assume "find (\<lambda>p. p \<noteq> [] \<and> prefix p s) ps = Some p"
  then have "p \<noteq> []" "prefix p s" by (auto simp: find_Some_iff)
  then have "0 < length p" "length p \<le> length s" by (auto dest: prefix_length_le)
  then have "length s - length p < length s" by linarith
  then show "((ps, drop (length p) s), ps, s) \<in> measure (\<lambda>(ps, s). length s)" by simp
qed simp

declare strip_front.simps [simp del]

definition trim_start :: "string \<Rightarrow> string" where
  "trim_start s = strip_front whitespace_encodings s"

definition trim_end :: "string \<Rightarrow> string" where
  "trim_end s = rev (strip_front (map rev whitespace_encodings) (rev s))"

definition trim :: "string \<Rightarrow> string" where
  "trim s = trim_end (trim_start s)"

text \<open>\<open>trim_matches\<close> with a set of characters.\<close>

definition trim_matches :: "(char \<Rightarrow> bool) \<Rightarrow> string \<Rightarrow> string" where
  "trim_matches p s = rev (dropWhile p (rev (dropWhile p s)))"

text \<open>\<open>split\<close> on a character predicate: always at least one piece.\<close>

fun split_on :: "(char \<Rightarrow> bool) \<Rightarrow> string \<Rightarrow> string list" where
  "split_on p [] = [[]]"
| "split_on p (c # s) =
    (if p c then [] # split_on p s
     else (c # hd (split_on p s)) # tl (split_on p s))"

text \<open>\<open>split_once\<close> at the first occurrence of a non-empty pattern.\<close>

fun split_once :: "string \<Rightarrow> string \<Rightarrow> (string \<times> string) option" where
  "split_once pat [] = (if pat = [] then Some ([], []) else None)"
| "split_once pat (c # s) =
    (if prefix pat (c # s) then Some ([], drop (length pat) (c # s))
     else map_option (\<lambda>(l, r). (c # l, r)) (split_once pat s))"

definition strip_prefix :: "string \<Rightarrow> string \<Rightarrow> string option" where
  "strip_prefix p s = (if prefix p s then Some (drop (length p) s) else None)"

definition strip_suffix :: "string \<Rightarrow> string \<Rightarrow> string option" where
  "strip_suffix p s = (if suffix p s then Some (take (length s - length p) s) else None)"

definition join :: "string \<Rightarrow> string list \<Rightarrow> string" where
  "join sep xs = (case xs of [] \<Rightarrow> [] | x # ys \<Rightarrow> x @ concat (map (\<lambda>y. sep @ y) ys))"

text \<open>Decimal digits, most significant first: \<open>Display\<close> of an unsigned integer, and \<open>str::parse::<usize>\<close>,
  which accepts one leading plus sign and refuses an empty string and an overflow.\<close>

definition digit_char :: "nat \<Rightarrow> char" where
  "digit_char d = char_of (48 + d)"

fun show_nat :: "nat \<Rightarrow> string" where
  "show_nat n = (if n < 10 then [digit_char n] else show_nat (n div 10) @ [digit_char (n mod 10)])"

definition push_digit :: "nat option \<Rightarrow> char \<Rightarrow> nat option" where
  "push_digit acc c =
    (case acc of None \<Rightarrow> None
     | Some n \<Rightarrow> if 48 \<le> byte c \<and> byte c \<le> 57 \<and> n * 10 + (byte c - 48) \<le> USIZE_MAX then Some (n * 10 + (byte c - 48)) else None)"

definition parse_usize :: "string \<Rightarrow> nat option" where
  "parse_usize s =
    (let digits = (case s of c # rest \<Rightarrow> if c = CHR ''+'' \<and> rest \<noteq> [] then rest else s | [] \<Rightarrow> [])
     in if digits = [] then None else foldl push_digit (Some 0) digits)"

lemmas ascii_defs [rust_simps] =
  byte_def is_ascii_lowercase_def is_ascii_uppercase_def is_ascii_digit_def
  is_ascii_alphabetic_def is_ascii_alphanumeric_def is_ascii_whitespace_def is_ascii_def
  ascii_lower_def to_ascii_lowercase_def eq_ignore_ascii_case_def

lemma split_on_nonempty [simp]: "split_on p s \<noteq> []"
  by (cases s) auto

lemma split_on_pieces: "w \<in> set (split_on p s) \<Longrightarrow> \<forall>c \<in> set w. \<not> p c \<and> c \<in> set s"
proof (induction s arbitrary: w)
  case (Cons c s)
  have hd: "hd (split_on p s) \<in> set (split_on p s)" by simp
  show ?case
  proof (cases "p c")
    case True
    with Cons show ?thesis by auto
  next
    case False
    then consider "w = c # hd (split_on p s)" | "w \<in> set (split_on p s)"
      using Cons.prems by (auto dest: list.set_sel(2) [OF split_on_nonempty])
    then show ?thesis
    proof cases
      case 1
      with False Cons.IH [OF hd] show ?thesis by auto
    next
      case 2
      with Cons.IH show ?thesis by auto
    qed
  qed
qed simp

lemma split_once_Some:
  assumes "split_once pat s = Some (l, r)"
  shows "s = l @ pat @ r"
  using assms
proof (induction pat s arbitrary: l r rule: split_once.induct)
  case (2 pat c s)
  then show ?case
    by (auto split: if_splits simp: prefix_def)
qed (auto split: if_splits)

lemma split_once_None:
  assumes "split_once pat s = None"
  shows "\<not> sublist pat s"
  using assms
proof (induction s)
  case (Cons c s)
  then show ?case by (auto split: if_splits simp: sublist_Cons_right)
qed (auto split: if_splits)

lemma ascii_lower_not_upper: "\<not> is_ascii_uppercase (ascii_lower c)"
proof (cases "is_ascii_uppercase c")
  case True
  then have "byte c + 32 < 256" by (simp add: is_ascii_uppercase_def)
  then have "byte (char_of (byte c + 32)) = byte c + 32" by (simp add: byte_def)
  with True show ?thesis by (simp add: ascii_lower_def is_ascii_uppercase_def)
qed (simp add: ascii_lower_def)

lemma to_ascii_lowercase_idem [simp]:
  "to_ascii_lowercase (to_ascii_lowercase s) = to_ascii_lowercase s"
  using ascii_lower_not_upper by (simp add: to_ascii_lowercase_def ascii_lower_def)

lemma length_to_ascii_lowercase [simp]: "length (to_ascii_lowercase s) = length s"
  by (simp add: to_ascii_lowercase_def)

lemma strip_front_no_prefix:
  "p \<in> set ps \<Longrightarrow> p \<noteq> [] \<Longrightarrow> \<not> prefix p (strip_front ps s)"
proof (induction ps s rule: strip_front.induct)
  case (1 ps s)
  then show ?case
    by (subst strip_front.simps) (auto split: option.splits simp: find_None_iff)
qed

lemma strip_front_suffix: "suffix (strip_front ps s) s"
proof (induction ps s rule: strip_front.induct)
  case (1 ps s)
  then show ?case
    by (subst strip_front.simps)
      (auto split: option.splits intro: suffix_order.trans suffix_drop)
qed


text \<open>Trimming removes nothing but bytes of white-space encodings.\<close>

lemma strip_front_removes: "set s \<subseteq> set (concat ps) \<union> set (strip_front ps s)"
proof (induction ps s rule: strip_front.induct)
  case (1 ps s)
  show ?case
  proof (cases "find (\<lambda>p. p \<noteq> [] \<and> prefix p s) ps")
    case None
    then show ?thesis by (subst strip_front.simps) simp
  next
    case (Some p)
    then have p: "p \<in> set ps" "prefix p s"
      by (auto simp: find_Some_iff)
    then have "set s \<subseteq> set p \<union> set (drop (length p) s)" by (auto simp: prefix_def)
    with 1 [OF Some] p(1) show ?thesis by (subst strip_front.simps) (auto simp: Some)
  qed
qed

lemma whitespace_bytes: "c \<in> set (concat whitespace_encodings) \<Longrightarrow> byte c \<le> 32 \<or> 128 \<le> byte c"
  by (auto simp: whitespace_encodings_def byte_def)

lemma trim_keeps:
  assumes "c \<in> set s" and "32 < byte c" and "byte c < 128"
  shows "c \<in> set (trim s)"
proof -
  have "c \<notin> set (concat whitespace_encodings)"
    using whitespace_bytes [of c] assms by linarith
  moreover have "set (concat (map rev whitespace_encodings)) = set (concat whitespace_encodings)"
    by simp
  ultimately show ?thesis
    using strip_front_removes [of s whitespace_encodings]
      strip_front_removes [of "rev (trim_start s)" "map rev whitespace_encodings"] assms(1)
    by (auto simp: trim_def trim_end_def trim_start_def)
qed

lemma set_trim_subset: "set (trim s) \<subseteq> set s"
  using set_mono_suffix [OF strip_front_suffix [of "map rev whitespace_encodings" "rev (trim_start s)"]]
    set_mono_suffix [OF strip_front_suffix [of whitespace_encodings s]]
  by (auto simp: trim_def trim_end_def trim_start_def)

lemma strip_front_id:
  assumes "s \<noteq> []" and "hd s \<notin> set (concat ps)"
  shows "strip_front ps s = s"
proof -
  have "\<not> (p \<noteq> [] \<and> prefix p s)" if "p \<in> set ps" for p
    using that assms by (cases p) (auto simp: prefix_def)
  then have "find (\<lambda>p. p \<noteq> [] \<and> prefix p s) ps = None" by (simp add: find_None_iff)
  then show ?thesis by (subst strip_front.simps) simp
qed

lemma trim_id:
  assumes "s \<noteq> []" and "32 < byte (hd s)" "byte (hd s) < 128" and "32 < byte (last s)" "byte (last s) < 128"
  shows "trim s = s"
proof -
  have front: "hd s \<notin> set (concat whitespace_encodings)" using whitespace_bytes [of "hd s"] assms by auto
  have rear: "hd (rev s) \<notin> set (concat (map rev whitespace_encodings))"
    using whitespace_bytes [of "last s"] assms by (auto simp: hd_rev)
  show ?thesis
    unfolding trim_def trim_end_def trim_start_def strip_front_id [OF assms(1) front]
    using strip_front_id [OF _ rear] assms(1) by simp
qed

lemma split_on_last: "c \<in> set (last (split_on p s)) \<Longrightarrow> \<not> p c"
  using split_on_pieces [of "last (split_on p s)" p s] by simp

lemma split_on_eval:
  "split_on p (c # s) = (case split_on p s of [] \<Rightarrow> [[c]]
     | w # ws \<Rightarrow> if p c then [] # w # ws else (c # w) # ws)"
  by (cases "split_on p s") auto

lemma ascii_lower_other: "\<not> is_ascii_lowercase (ascii_lower c) \<Longrightarrow> ascii_lower c = c"
proof (cases "is_ascii_uppercase c")
  case True
  then have "byte c + 32 < 256" by (simp add: is_ascii_uppercase_def)
  then have "byte (char_of (byte c + 32)) = byte c + 32" by (simp add: byte_def)
  with True have "is_ascii_lowercase (ascii_lower c)"
    by (simp add: ascii_lower_def is_ascii_uppercase_def is_ascii_lowercase_def)
  then show "\<not> is_ascii_lowercase (ascii_lower c) \<Longrightarrow> ascii_lower c = c" by blast
qed (simp add: ascii_lower_def)

declare show_nat.simps [simp del]

lemma byte_digit_char: "d < 10 \<Longrightarrow> byte (digit_char d) = 48 + d"
  by (simp add: byte_def digit_char_def)

lemma show_nat_nonempty [simp]: "show_nat n \<noteq> []"
  by (subst show_nat.simps) simp

lemma show_nat_digits: "c \<in> set (show_nat n) \<Longrightarrow> 48 \<le> byte c \<and> byte c \<le> 57"
proof (induction n rule: show_nat.induct)
  case (1 n)
  then show ?case by (subst (asm) (2) show_nat.simps) (auto simp: byte_digit_char split: if_splits)
qed

lemma foldl_push_digit: "n \<le> USIZE_MAX \<Longrightarrow> foldl push_digit (Some 0) (show_nat n) = Some n"
proof (induction n rule: show_nat.induct)
  case (1 n)
  show ?case
  proof (cases "n < 10")
    case True
    then show ?thesis using "1.prems" by (subst show_nat.simps) (simp add: push_digit_def byte_digit_char)
  next
    case False
    have "foldl push_digit (Some 0) (show_nat (n div 10)) = Some (n div 10)"
      by (rule "1.IH") (use False "1.prems" in auto)
    then show ?thesis using False "1.prems"
      by (subst show_nat.simps) (simp add: push_digit_def byte_digit_char)
  qed
qed

lemma parse_show_nat: "n \<le> USIZE_MAX \<Longrightarrow> parse_usize (show_nat n) = Some n"
proof -
  assume n: "n \<le> USIZE_MAX"
  obtain c rest where s: "show_nat n = c # rest" by (cases "show_nat n") auto
  have "byte c \<noteq> byte (CHR ''+'')" using show_nat_digits [of c n] by (auto simp: s byte_def)
  then have "c \<noteq> CHR ''+''" by blast
  with foldl_push_digit [OF n] show ?thesis by (simp add: parse_usize_def s)
qed

end
