(* ===== verification/Scoring.thy ===== *)
theory Scoring
  imports Telltale_Prelude
begin

text \<open>
  Event 3.0 risk accounting, \<open>crates/telltale-schema/src/scoring.rs\<close>: rationale
  normalisation, risk contributions and their validation, the checked sum, canonical order, and
  severity thresholds with their process-wide configuration cell.

  The regular-expression filters of \<open>event/redaction.rs\<close> that the constructor consults are
  the fields of \<open>privacy_filters\<close>, an argument of the definitions that call them.
\<close>

section \<open>Rationale normalisation\<close>

definition MAX_RISK_RATIONALE_LENGTH :: nat where
  "MAX_RISK_RATIONALE_LENGTH = 256"

definition DEFAULT_RISK_RATIONALE :: string where
  "DEFAULT_RISK_RATIONALE = ''risk contribution''"

definition rationale_char :: "char \<Rightarrow> bool" where
  "rationale_char c \<longleftrightarrow> is_ascii_alphanumeric c
     \<or> c \<in> {CHR '' '', CHR '','', CHR ''_'', CHR '';'', CHR '':'', CHR 0x27,
            CHR ''('', CHR '')'', CHR ''-''}"

definition normalize_step :: "string \<Rightarrow> bool \<Rightarrow> char \<Rightarrow> string \<times> bool" where
  "normalize_step normalized pending_space c =
    (if is_ascii_whitespace c then (normalized, normalized \<noteq> [])
     else if rationale_char c then
       (let spaced =
          (if pending_space \<and> \<not> suffix '' '' normalized
              \<and> length normalized < MAX_RISK_RATIONALE_LENGTH
           then normalized @ '' '' else normalized)
        in (if length spaced < MAX_RISK_RATIONALE_LENGTH then spaced @ [c] else spaced, False))
     else (normalized, normalized \<noteq> []))"

fun normalize_loop :: "string \<Rightarrow> bool \<Rightarrow> string \<Rightarrow> string" where
  "normalize_loop normalized pending_space [] = normalized"
| "normalize_loop normalized pending_space (c # raw) =
    (case normalize_step normalized pending_space c of (normalized', pending_space') \<Rightarrow>
       if MAX_RISK_RATIONALE_LENGTH \<le> length normalized' then normalized'
       else normalize_loop normalized' pending_space' raw)"

definition normalize_risk_rationale :: "string \<Rightarrow> string" where
  "normalize_risk_rationale raw =
    (let normalized = normalize_loop [] False raw;
         headed = dropWhile (\<lambda>c. \<not> is_ascii_alphanumeric c) normalized;
         trimmed = rev (dropWhile (\<lambda>c. c = CHR '' '') (rev headed))
     in if trimmed = [] then DEFAULT_RISK_RATIONALE else trimmed)"

section \<open>Contributions\<close>

datatype RiskContributionType = DeterministicRule | ChainModifier | BaselineDeviation

text \<open>The derived \<open>Ord\<close> of the enum: declaration order.\<close>

fun contribution_type_rank :: "RiskContributionType \<Rightarrow> nat" where
  "contribution_type_rank DeterministicRule = 0"
| "contribution_type_rank ChainModifier = 1"
| "contribution_type_rank BaselineDeviation = 2"

lemma contribution_type_rank_inject [simp]:
  "contribution_type_rank a = contribution_type_rank b \<longleftrightarrow> a = b"
  by (cases a; cases b) auto

instantiation RiskContributionType :: linorder
begin

definition less_eq_RiskContributionType :: "RiskContributionType \<Rightarrow> RiskContributionType \<Rightarrow> bool" where
  "less_eq_RiskContributionType a b \<longleftrightarrow> contribution_type_rank a \<le> contribution_type_rank b"

definition less_RiskContributionType :: "RiskContributionType \<Rightarrow> RiskContributionType \<Rightarrow> bool" where
  "less_RiskContributionType a b \<longleftrightarrow> contribution_type_rank a < contribution_type_rank b"

instance
  by standard (auto simp: less_eq_RiskContributionType_def less_RiskContributionType_def)

end

record RiskContribution =
  rc_id :: string
  contribution_type :: RiskContributionType
  points :: u64
  rationale :: string

datatype RiskAccountingError =
  NonPositiveContribution string
| EmptyContributionId
| RationaleTooLong string
| RationaleContainsControlCharacter string
| InvalidRationale string
| InvalidContributionId string
| UnsafeRationale string
| Overflow
| ScoreMismatch u64 u64
| ConflictingContribution string
| NonCanonicalContributions
| InvalidRuleId string
| ContributionTypeNotAllowed string string RiskContributionType
| ContributionRuleIdMissing string
| EmptyEventField string string
| InvalidEventValue string string
| InvalidCorrelationCardinality nat
| DuplicateCorrelationValue string

record privacy_filters =
  high_confidence_marker :: "string \<Rightarrow> bool"
  credential_material :: "string \<Rightarrow> bool"
  redact_text :: "string \<Rightarrow> string"

definition id_component_char :: "char \<Rightarrow> bool" where
  "id_component_char c \<longleftrightarrow> is_ascii_lowercase c \<or> is_ascii_digit c \<or> c = CHR ''_''"

definition is_canonical_contribution_id :: "string \<Rightarrow> bool" where
  "is_canonical_contribution_id i =
    (if \<not> (1 \<le> length i \<and> length i \<le> 96) \<or> \<not> is_ascii i then False
     else case split_on (\<lambda>c. c = CHR ''.'') i of
       [] \<Rightarrow> False
     | first # components \<Rightarrow>
         if first = [] \<or> \<not> is_ascii_lowercase (hd first) \<or> \<not> list_all id_component_char first
         then False
         else list_all (\<lambda>w. w \<noteq> [] \<and> list_all id_component_char w) components
              \<and> components \<noteq> [])"

definition validate :: "privacy_filters \<Rightarrow> RiskContribution \<Rightarrow> (RiskAccountingError, unit) result" where
  "validate pf c =
    (if trim (rc_id c) = [] then Inl EmptyContributionId
     else if \<not> is_canonical_contribution_id (rc_id c) \<or> credential_material pf (rc_id c)
       then Inl (InvalidContributionId (rc_id c))
     else if points c = 0 then Inl (NonPositiveContribution (rc_id c))
     else if MAX_RISK_RATIONALE_LENGTH < length (rationale c) then Inl (RationaleTooLong (rc_id c))
     else if any_control (rationale c) then Inl (RationaleContainsControlCharacter (rc_id c))
     else if high_confidence_marker pf (rationale c) then Inl (UnsafeRationale (rc_id c))
     else if rationale c = [] \<or> \<not> is_ascii_alphanumeric (hd (rationale c))
             \<or> list_ex (\<lambda>x. \<not> rationale_char x) (rationale c)
       then Inl (InvalidRationale (rc_id c))
     else Inr ())"

definition new_contribution ::
  "privacy_filters \<Rightarrow> string \<Rightarrow> RiskContributionType \<Rightarrow> u64 \<Rightarrow> string
    \<Rightarrow> (RiskAccountingError, RiskContribution) result" where
  "new_contribution pf i t p raw =
    (if high_confidence_marker pf raw then Inl (UnsafeRationale i)
     else let c = \<lparr>rc_id = i, contribution_type = t, points = p,
                   rationale = normalize_risk_rationale (redact_text pf raw)\<rparr>
          in result_bind (validate pf c) (\<lambda>_. Inr c))"

definition try_from_wire ::
  "privacy_filters \<Rightarrow> RiskContribution \<Rightarrow> (RiskAccountingError, RiskContribution) result" where
  "try_from_wire pf wire = result_bind (validate pf wire) (\<lambda>_. Inr wire)"

definition checked_risk_sum ::
  "privacy_filters \<Rightarrow> RiskContribution list \<Rightarrow> (RiskAccountingError, u64) result" where
  "checked_risk_sum pf cs =
    try_fold (\<lambda>total c. result_bind (validate pf c)
       (\<lambda>_. ok_or (checked_add total (points c)) Overflow)) 0 cs"

definition contribution_key :: "RiskContribution \<Rightarrow> RiskContributionType \<times> string" where
  "contribution_key c = (contribution_type c, rc_id c)"

definition canonical_insert ::
  "privacy_filters \<Rightarrow> (RiskContributionType \<times> string, RiskContribution) btree_map \<Rightarrow> RiskContribution
    \<Rightarrow> (RiskAccountingError, (RiskContributionType \<times> string, RiskContribution) btree_map) result" where
  "canonical_insert pf canonical c =
    result_bind (validate pf c) (\<lambda>_.
      case bt_get (contribution_key c) canonical of
        Some existing \<Rightarrow>
          if existing \<noteq> c then Inl (ConflictingContribution (rc_id c)) else Inr canonical
      | None \<Rightarrow> Inr (bt_put (contribution_key c) c canonical))"

definition canonicalize_contributions ::
  "privacy_filters \<Rightarrow> RiskContribution list \<Rightarrow> (RiskAccountingError, RiskContribution list) result" where
  "canonicalize_contributions pf cs =
    result_bind (try_fold (canonical_insert pf) [] cs) (\<lambda>canonical.
      let values = map snd canonical
      in result_bind (checked_risk_sum pf values) (\<lambda>_. Inr values))"

section \<open>Thresholds and severity\<close>

record RiskThresholds =
  low :: u32
  medium :: u32
  high :: u32
  critical :: u32

definition default_thresholds :: RiskThresholds where
  "default_thresholds = \<lparr>low = 20, medium = 50, high = 70, critical = 90\<rparr>"

datatype RiskSeverity = Informational | Low | Medium | High | Critical

fun severity_as_str :: "RiskSeverity \<Rightarrow> string" where
  "severity_as_str Informational = ''informational''"
| "severity_as_str Low = ''low''"
| "severity_as_str Medium = ''medium''"
| "severity_as_str High = ''high''"
| "severity_as_str Critical = ''critical''"

record RiskAssessment =
  severity :: RiskSeverity
  high_required :: bool
  critical_required :: bool

text \<open>\<open>u64::from\<close> of a \<open>u32\<close>.\<close>

definition u64_from :: "u32 \<Rightarrow> u64" where
  "u64_from w = ucast w"

definition assess_risk_with_thresholds :: "u64 \<Rightarrow> RiskThresholds \<Rightarrow> RiskAssessment" where
  "assess_risk_with_thresholds score t =
    \<lparr>severity =
       (if u64_from (critical t) \<le> score then Critical
        else if u64_from (high t) \<le> score then High
        else if u64_from (medium t) \<le> score then Medium
        else if u64_from (low t) \<le> score then Low
        else Informational),
     high_required = (u64_from (high t) \<le> score),
     critical_required = (u64_from (critical t) \<le> score)\<rparr>"

text \<open>\<open>CONFIGURED_THRESHOLDS\<close> is a \<open>OnceLock\<close>: empty, or set once and for all.\<close>

type_synonym threshold_cell = "RiskThresholds option"

datatype ThresholdsAlreadyConfigured = ThresholdsAlreadyConfigured

definition get_or_init :: "threshold_cell \<Rightarrow> RiskThresholds \<Rightarrow> RiskThresholds \<times> threshold_cell" where
  "get_or_init cell t = (case cell of None \<Rightarrow> (t, Some t) | Some u \<Rightarrow> (u, Some u))"

definition configure_thresholds ::
  "RiskThresholds \<Rightarrow> threshold_cell \<Rightarrow> (ThresholdsAlreadyConfigured, unit) result \<times> threshold_cell" where
  "configure_thresholds t cell =
    (case get_or_init cell t of (stored, cell') \<Rightarrow>
       (if stored = t then Inr () else Inl ThresholdsAlreadyConfigured, cell'))"

definition load_thresholds :: "threshold_cell \<Rightarrow> RiskThresholds" where
  "load_thresholds cell = (case cell of None \<Rightarrow> default_thresholds | Some t \<Rightarrow> t)"

text \<open>A process makes configuration calls in some order.\<close>

fun configure_all ::
  "RiskThresholds list \<Rightarrow> threshold_cell
    \<Rightarrow> (ThresholdsAlreadyConfigured, unit) result list \<times> threshold_cell" where
  "configure_all [] cell = ([], cell)"
| "configure_all (t # ts) cell =
    (case configure_thresholds t cell of (r, cell') \<Rightarrow>
       case configure_all ts cell' of (rs, cell'') \<Rightarrow> (r # rs, cell''))"

section \<open>Normalised rationale text\<close>

text \<open>The grammar of the emitted rationale: bounded, safe characters, a leading alphanumeric
  character, no trailing and no doubled space.\<close>

definition normal_rationale :: "string \<Rightarrow> bool" where
  "normal_rationale s \<longleftrightarrow> s \<noteq> [] \<and> length s \<le> MAX_RISK_RATIONALE_LENGTH \<and> list_all rationale_char s
     \<and> is_ascii_alphanumeric (hd s) \<and> last s \<noteq> CHR '' ''
     \<and> successively (\<lambda>a b. a \<noteq> CHR '' '' \<or> b \<noteq> CHR '' '') s"

lemma rationale_char_space [simp]: "rationale_char (CHR '' '')"
  by (simp add: rationale_char_def)

lemma whitespace_space [simp]: "is_ascii_whitespace (CHR '' '')"
  by (simp add: rust_simps)

lemma rationale_char_whitespace: "rationale_char c \<Longrightarrow> is_ascii_whitespace c \<longleftrightarrow> c = CHR '' ''"
  by (auto simp: rationale_char_def rust_simps)

lemma alphanumeric_not_space [simp]: "\<not> is_ascii_alphanumeric (CHR '' '')"
  by (simp add: rust_simps)

lemma rationale_char_not_control: "list_all rationale_char s \<Longrightarrow> \<not> any_control s"
proof (induction s rule: any_control.induct)
  case (2 c)
  then show ?case by (auto simp: rationale_char_def rust_simps)
next
  case (3 c d s)
  moreover have "\<not> byte c < 32 \<and> byte c \<noteq> 127 \<and> byte c \<noteq> 194"
    using 3 by (auto simp: rationale_char_def rust_simps)
  ultimately show ?case by simp
qed simp

text \<open>What the loop keeps true of the text built so far.\<close>

definition partial_rationale :: "string \<Rightarrow> bool" where
  "partial_rationale n \<longleftrightarrow> length n \<le> MAX_RISK_RATIONALE_LENGTH \<and> list_all rationale_char n
     \<and> (length n < MAX_RISK_RATIONALE_LENGTH \<longrightarrow> \<not> suffix '' '' n)
     \<and> successively (\<lambda>a b. a \<noteq> CHR '' '' \<or> b \<noteq> CHR '' '') n"

lemma suffix_singleton: "suffix [x] n \<longleftrightarrow> n \<noteq> [] \<and> last n = x"
  by (cases n rule: rev_cases) auto

lemma partial_rationale_push:
  assumes "partial_rationale n" and "length n < MAX_RISK_RATIONALE_LENGTH"
    and "rationale_char c" and "c = CHR '' '' \<longrightarrow> Suc (length n) = MAX_RISK_RATIONALE_LENGTH"
  shows "partial_rationale (n @ [c])"
  using assms by (auto simp: partial_rationale_def suffix_singleton successively_append_iff)

lemma partial_rationale_spaced:
  assumes "partial_rationale n" and "Suc (length n) < MAX_RISK_RATIONALE_LENGTH"
    and "rationale_char c" and "c \<noteq> CHR '' ''"
  shows "partial_rationale (n @ [CHR '' '', c])"
  using assms by (auto simp: partial_rationale_def suffix_singleton successively_append_iff)

lemma partial_rationale_step:
  assumes n: "partial_rationale n" "length n < MAX_RISK_RATIONALE_LENGTH"
  shows "partial_rationale (fst (normalize_step n p c))"
proof (cases "rationale_char c \<and> \<not> is_ascii_whitespace c")
  case True
  then have c: "rationale_char c" "c \<noteq> CHR '' ''" by auto
  show ?thesis
  proof (cases "p \<and> \<not> suffix '' '' n")
    case sp: True
    show ?thesis
    proof (cases "Suc (length n) < MAX_RISK_RATIONALE_LENGTH")
      case True
      with n c sp partial_rationale_spaced [OF n(1) True c] show ?thesis
        using \<open>rationale_char c \<and> _\<close> by (simp add: normalize_step_def)
    next
      case False
      then have "partial_rationale (n @ '' '')"
        using n by (intro partial_rationale_push) auto
      with False n sp True show ?thesis
        using \<open>rationale_char c \<and> _\<close> by (simp add: normalize_step_def)
    qed
  next
    case False
    then have "fst (normalize_step n p c) = n @ [c]"
      using True n(2) by (auto simp: normalize_step_def)
    then show ?thesis using partial_rationale_push [OF n c(1)] c(2) by simp
  qed
next
  case False
  then show ?thesis using n(1) by (auto simp: normalize_step_def)
qed

lemma partial_rationale_loop:
  "partial_rationale n \<Longrightarrow> length n < MAX_RISK_RATIONALE_LENGTH \<Longrightarrow> partial_rationale (normalize_loop n p raw)"
proof (induction n p raw rule: normalize_loop.induct)
  case (2 n p c raw)
  obtain n' p' where step: "normalize_step n p c = (n', p')" by (cases "normalize_step n p c")
  have "partial_rationale n'" using partial_rationale_step [OF 2(2,3), of p c] step by simp
  then show ?case using 2(1) [OF step [symmetric]] by (simp add: step)
qed simp

lemma successively_suffix: "suffix s t \<Longrightarrow> successively P t \<Longrightarrow> successively P s"
  by (auto simp: suffix_def successively_append_iff)

lemma successively_prefix: "prefix s t \<Longrightarrow> successively P t \<Longrightarrow> successively P s"
  by (auto simp: prefix_def successively_append_iff)

lemma normal_default: "normal_rationale DEFAULT_RISK_RATIONALE"
  by (simp add: normal_rationale_def DEFAULT_RISK_RATIONALE_def MAX_RISK_RATIONALE_LENGTH_def
      rationale_char_def rust_simps)

lemma normal_normalize: "normal_rationale (normalize_risk_rationale raw)"
proof -
  let ?n = "normalize_loop [] False raw"
  let ?h = "dropWhile (\<lambda>c. \<not> is_ascii_alphanumeric c) ?n"
  let ?t = "rev (dropWhile (\<lambda>c. c = CHR '' '') (rev ?h))"
  have n: "partial_rationale ?n"
    by (rule partial_rationale_loop)
      (simp_all add: partial_rationale_def MAX_RISK_RATIONALE_LENGTH_def)
  have hn: "suffix ?h ?n" by (rule suffix_dropWhile)
  have th: "prefix ?t ?h" by (simp add: prefix_def suffix_def flip: suffix_to_prefix)
      (metis suffix_def suffix_dropWhile rev_append rev_rev_ident)
  show ?thesis
  proof (cases "?t = []")
    case True
    then show ?thesis by (simp add: normalize_risk_rationale_def normal_default)
  next
    case False
    have "?h \<noteq> []" using False by (metis dropWhile.simps(1) rev.simps(1))
    then have "is_ascii_alphanumeric (hd ?h)" by (metis hd_dropWhile)
    moreover have "hd ?t = hd ?h" using th False by (metis hd_append2 prefix_def)
    moreover have "last ?t \<noteq> CHR '' ''" using False by (metis (full_types) hd_dropWhile last_rev rev_is_Nil_conv)
    moreover have "set ?t \<subseteq> set ?n" "length ?t \<le> length ?n"
      using th hn by (meson set_mono_prefix set_mono_suffix subset_trans, meson le_trans prefix_length_le suffix_length_le)
    moreover have "successively (\<lambda>a b. a \<noteq> CHR '' '' \<or> b \<noteq> CHR '' '') ?t"
      using n unfolding partial_rationale_def
      by (intro successively_prefix [OF th] successively_suffix [OF hn]) blast
    ultimately have "normal_rationale ?t"
      using n False by (auto simp: normal_rationale_def partial_rationale_def list_all_iff)
    with False show ?thesis
      by (simp only: normalize_risk_rationale_def Let_def if_False)
  qed
qed


text \<open>The loop reproduces a normal text: the pending space is the one already read.\<close>

lemma normalize_loop_normal:
  assumes "normal_rationale (n @ (if p then '' '' else []) @ s)"
    and "p \<longrightarrow> n \<noteq> [] \<and> s \<noteq> [] \<and> hd s \<noteq> CHR '' ''"
    and "s \<noteq> [] \<longrightarrow> length n < MAX_RISK_RATIONALE_LENGTH"
  shows "normalize_loop n p s = n @ (if p then '' '' else []) @ s"
  using assms
proof (induction s arbitrary: n p)
  case (Cons c s)
  have c: "rationale_char c" and len: "length n < MAX_RISK_RATIONALE_LENGTH"
    and bound: "length (n @ (if p then '' '' else []) @ c # s) \<le> MAX_RISK_RATIONALE_LENGTH"
    using Cons.prems by (auto simp: normal_rationale_def)
  show ?case
  proof (cases "c = CHR '' ''")
    case True
    have "\<not> p" "n \<noteq> []" "s \<noteq> []" "hd s \<noteq> CHR '' ''"
      using Cons.prems True
      by (auto simp: normal_rationale_def successively_append_iff successively_Cons split: if_splits)
    moreover have "normalize_loop n True s = n @ '' '' @ s"
      using Cons.IH [of n True] Cons.prems True calculation len by simp
    ultimately show ?thesis using True len by (simp add: normalize_step_def)
  next
    case False
    let ?n = "n @ (if p then '' '' else []) @ [c]"
    have "p \<Longrightarrow> last n \<noteq> CHR '' ''"
      using Cons.prems by (auto simp: normal_rationale_def successively_append_iff)
    then have step: "normalize_step n p c = (?n, False)"
      using c False len bound
      by (auto simp: normalize_step_def suffix_singleton rationale_char_whitespace)
    show ?thesis
    proof (cases "MAX_RISK_RATIONALE_LENGTH \<le> length ?n")
      case True
      then have "s = []" using bound by (cases s; cases p) auto
      with True step show ?thesis by simp
    next
      case notfull: False
      then have "normalize_loop ?n False s = ?n @ s"
        using Cons.IH [of ?n False] Cons.prems(1) by simp
      with notfull step show ?thesis by simp
    qed
  qed
qed simp

lemma normalize_fixed:
  assumes "normal_rationale s"
  shows "normalize_risk_rationale s = s"
proof -
  have s: "s \<noteq> []" "is_ascii_alphanumeric (hd s)" "last s \<noteq> CHR '' ''"
    using assms by (auto simp: normal_rationale_def)
  have "normalize_loop [] False s = s"
    using normalize_loop_normal [of "[]" False s] assms
    by (simp add: MAX_RISK_RATIONALE_LENGTH_def)
  moreover have "dropWhile (\<lambda>c. \<not> is_ascii_alphanumeric c) s = s"
    using s by (cases s) auto
  moreover have "dropWhile (\<lambda>c. c = CHR '' '') (rev s) = rev s"
    using s by (cases s rule: rev_cases) auto
  moreover have "\<exists>x \<in> set s. x \<noteq> CHR '' ''" using s last_in_set by blast
  ultimately show ?thesis using s by (auto simp: normalize_risk_rationale_def)
qed

section \<open>Validation\<close>

abbreviation valid_contribution :: "privacy_filters \<Rightarrow> RiskContribution \<Rightarrow> bool" where
  "valid_contribution pf c \<equiv> validate pf c = Inr ()"

lemma canonical_id_not_blank:
  assumes "is_canonical_contribution_id i"
  shows "trim i \<noteq> []"
proof -
  obtain c r where i: "i = c # r" and c: "is_ascii_lowercase c"
  proof (cases i)
    case Nil
    with assms show ?thesis by (simp add: is_canonical_contribution_id_def)
  next
    case (Cons c r)
    with assms have "is_ascii_lowercase c"
      by (auto simp: is_canonical_contribution_id_def split: list.splits if_splits)
    with Cons that show ?thesis by blast
  qed
  from c have "32 < byte c" "byte c < 128" by (auto simp: is_ascii_lowercase_def)
  then have "c \<in> set (trim i)" by (intro trim_keeps) (auto simp: i)
  then show ?thesis by auto
qed


text \<open>Validation is a conjunction of independent conditions: the blank-identifier check is
  subsumed by the identifier grammar.\<close>

lemma validate_iff:
  "valid_contribution pf c \<longleftrightarrow>
     is_canonical_contribution_id (rc_id c) \<and> \<not> credential_material pf (rc_id c)
     \<and> points c \<noteq> 0 \<and> length (rationale c) \<le> MAX_RISK_RATIONALE_LENGTH
     \<and> \<not> high_confidence_marker pf (rationale c)
     \<and> rationale c \<noteq> [] \<and> is_ascii_alphanumeric (hd (rationale c))
     \<and> list_all rationale_char (rationale c)"
  using canonical_id_not_blank [of "rc_id c"] rationale_char_not_control [of "rationale c"]
  by (auto simp: validate_def list_ex_iff list_all_iff)

lemma validate_normalised:
  assumes "normal_rationale (rationale c)"
  shows "validate pf c =
    (if trim (rc_id c) = [] then Inl EmptyContributionId
     else if \<not> is_canonical_contribution_id (rc_id c) \<or> credential_material pf (rc_id c)
       then Inl (InvalidContributionId (rc_id c))
     else if points c = 0 then Inl (NonPositiveContribution (rc_id c))
     else if high_confidence_marker pf (rationale c) then Inl (UnsafeRationale (rc_id c))
     else Inr ())"
  using assms rationale_char_not_control [of "rationale c"]
  by (auto simp: validate_def normal_rationale_def list_ex_iff list_all_iff)

section \<open>The checked sum\<close>

definition points_total :: "RiskContribution list \<Rightarrow> nat" where
  "points_total cs = sum_list (map (\<lambda>c. unat (points c)) cs)"

lemma sum_fold_Inr_iff:
  "try_fold (\<lambda>total c. result_bind (validate pf c)
       (\<lambda>_. ok_or (checked_add total (points c)) Overflow)) acc cs = Inr t
   \<longleftrightarrow> (\<forall>c \<in> set cs. valid_contribution pf c) \<and> unat t = unat acc + points_total cs"
proof (induction cs arbitrary: acc)
  case Nil
  then show ?case by (auto simp: points_total_def word_unat_eq_iff)
next
  case (Cons c cs)
  show ?case
  proof
    assume "try_fold (\<lambda>total c. result_bind (validate pf c)
       (\<lambda>_. ok_or (checked_add total (points c)) Overflow)) acc (c # cs) = Inr t"
    then show "(\<forall>c \<in> set (c # cs). valid_contribution pf c) \<and> unat t = unat acc + points_total (c # cs)"
      by (auto simp: result_iffs Cons.IH checked_add_Some_iff points_total_def)
  next
    assume r: "(\<forall>c \<in> set (c # cs). valid_contribution pf c) \<and> unat t = unat acc + points_total (c # cs)"
    then have "unat acc + unat (points c) < 2 ^ 64"
      using unat_less_length [of t] by (simp add: points_total_def)
    then obtain a where a: "checked_add acc (points c) = Some a"
      by (auto simp: checked_add_def)
    then have "unat a = unat acc + unat (points c)" by (simp add: checked_add_Some_iff)
    with r a show "try_fold (\<lambda>total c. result_bind (validate pf c)
       (\<lambda>_. ok_or (checked_add total (points c)) Overflow)) acc (c # cs) = Inr t"
      by (simp add: Cons.IH points_total_def)
  qed
qed

lemma checked_risk_sum_Inr_iff:
  "checked_risk_sum pf cs = Inr t
   \<longleftrightarrow> (\<forall>c \<in> set cs. valid_contribution pf c) \<and> unat t = points_total cs"
  by (simp add: checked_risk_sum_def sum_fold_Inr_iff)

lemma checked_risk_sum_ex_iff:
  "(\<exists>t. checked_risk_sum pf cs = Inr t)
   \<longleftrightarrow> (\<forall>c \<in> set cs. valid_contribution pf c) \<and> points_total cs < 2 ^ 64"
  by (auto simp: checked_risk_sum_Inr_iff ex_unat_iff [where 'l = 64, simplified])

section \<open>Canonical order\<close>

text \<open>Two contributions conflict when they share a key and differ.\<close>

definition conflict_free :: "RiskContribution list \<Rightarrow> bool" where
  "conflict_free cs \<longleftrightarrow>
    (\<forall>a \<in> set cs. \<forall>b \<in> set cs. contribution_key a = contribution_key b \<longrightarrow> a = b)"

definition canonical_for :: "(RiskContributionType \<times> string, RiskContribution) btree_map
    \<Rightarrow> RiskContribution list \<Rightarrow> bool" where
  "canonical_for m cs \<longleftrightarrow> bt_inv m
     \<and> (\<forall>k c. bt_get k m = Some c \<longleftrightarrow> c \<in> set cs \<and> contribution_key c = k)"

lemma canonical_for_conflict_free: "canonical_for m cs \<Longrightarrow> conflict_free cs"
  unfolding canonical_for_def conflict_free_def by (metis option.inject)

lemma canonical_forD:
  assumes "canonical_for m cs"
  shows "bt_inv m" and "bt_get k m = Some c \<longleftrightarrow> c \<in> set cs \<and> contribution_key c = k"
  using assms unfolding canonical_for_def by blast+

lemma canonical_insert_step:
  assumes "canonical_for m cs" and "canonical_insert pf m d = Inr m'"
  shows "valid_contribution pf d" and "canonical_for m' (cs @ [d])"
proof -
  show v: "valid_contribution pf d"
    using assms(2) by (auto simp: canonical_insert_def result_iffs)
  note get = canonical_forD [OF assms(1)]
  show "canonical_for m' (cs @ [d])"
  proof (cases "bt_get (contribution_key d) m")
    case None
    then have "\<And>c. c \<in> set cs \<Longrightarrow> contribution_key c \<noteq> contribution_key d"
      using get(2) [of "contribution_key d"] by auto
    moreover have "m' = bt_put (contribution_key d) d m"
      using assms(2) v None by (auto simp: canonical_insert_def)
    ultimately show ?thesis
      using get by (auto simp: canonical_for_def bt_inv_put bt_get_put)
  next
    case (Some c)
    then have "c = d" "m' = m"
      using assms(2) v by (auto simp: canonical_insert_def split: if_splits)
    moreover have "c \<in> set cs" using Some get(2) by blast
    ultimately show ?thesis using get by (auto simp: canonical_for_def)
  qed
qed

lemma canonical_insert_ok:
  assumes "canonical_for m cs" and "valid_contribution pf d" and "conflict_free (cs @ [d])"
  shows "\<exists>m'. canonical_insert pf m d = Inr m'"
proof (cases "bt_get (contribution_key d) m")
  case None
  with assms(2) show ?thesis by (simp add: canonical_insert_def)
next
  case (Some c)
  then have "c \<in> set cs \<and> contribution_key c = contribution_key d"
    using canonical_forD(2) [OF assms(1)] by blast
  then have "c = d" using assms(3) by (auto simp: conflict_free_def)
  with Some assms(2) show ?thesis by (simp add: canonical_insert_def)
qed

lemma canonical_fold_sound:
  "canonical_for m cs \<Longrightarrow> try_fold (canonical_insert pf) m ds = Inr m'
    \<Longrightarrow> canonical_for m' (cs @ ds) \<and> (\<forall>d \<in> set ds. valid_contribution pf d)"
proof (induction ds arbitrary: m cs)
  case (Cons d ds)
  then obtain m1 where 1: "canonical_insert pf m d = Inr m1"
    and 2: "try_fold (canonical_insert pf) m1 ds = Inr m'"
    by (auto simp: result_iffs)
  note step = canonical_insert_step [OF Cons.prems(1) 1]
  from Cons.IH [OF step(2) 2] step(1) show ?case by simp
qed simp

lemma canonical_fold_complete:
  "canonical_for m cs \<Longrightarrow> \<forall>d \<in> set ds. valid_contribution pf d \<Longrightarrow> conflict_free (cs @ ds)
    \<Longrightarrow> \<exists>m'. try_fold (canonical_insert pf) m ds = Inr m'"
proof (induction ds arbitrary: m cs)
  case (Cons d ds)
  have "conflict_free (cs @ [d])" using Cons.prems(3) by (auto simp: conflict_free_def)
  with Cons.prems(1,2) obtain m1 where m1: "canonical_insert pf m d = Inr m1"
    using canonical_insert_ok by fastforce
  have "\<exists>m'. try_fold (canonical_insert pf) m1 ds = Inr m'"
    using canonical_insert_step(2) [OF Cons.prems(1) m1] Cons.prems by (intro Cons.IH) auto
  with m1 show ?case by simp
qed simp

lemma canonical_for_Nil: "canonical_for [] []"
  by (simp add: canonical_for_def)

lemmas canonical_start_sound = canonical_fold_sound [OF canonical_for_Nil, simplified]
lemmas canonical_start_complete = canonical_fold_complete [OF canonical_for_Nil, simplified]

text \<open>The values of a canonical map are determined by the set of contributions alone.\<close>

lemma canonical_for_values:
  assumes "canonical_for m cs"
  shows "set (map snd m) = set cs"
    and "map contribution_key (map snd m) = map fst m"
    and "map fst m = sorted_list_of_set (contribution_key ` set cs)"
proof -
  note get = canonical_forD [OF assms]
  have mem: "(k, c) \<in> set m \<longleftrightarrow> c \<in> set cs \<and> contribution_key c = k" for k c
    using bt.entries_mem_iff [OF get(1)] get(2) by simp
  have "set (map snd m) = {c. \<exists>k. (k, c) \<in> set m}" by force
  then show "set (map snd m) = set cs" using mem by simp
  show "map contribution_key (map snd m) = map fst m" using mem by (auto simp: comp_def)
  have "(\<exists>c. bt_get k m = Some c) \<longleftrightarrow> k \<in> contribution_key ` set cs" for k
    by (auto simp: get(2))
  then have "{k. \<exists>c. bt_get k m = Some c} = contribution_key ` set cs"
    by (simp only: Collect_mem_eq)
  then show "map fst m = sorted_list_of_set (contribution_key ` set cs)"
    by (intro bt.keys_unique [OF get(1)]) (simp_all only: not_None_eq finite_imageI List.finite_set)
qed

lemma canonical_for_unique:
  assumes "canonical_for m cs" and "canonical_for m' ds" and "set cs = set ds"
  shows "m = m'"
proof (rule bt_eqI)
  show "bt_inv m" "bt_inv m'" using assms canonical_forD(1) by blast+
  show "bt_get k m = bt_get k m'" for k
  proof -
    have "bt_get k m = Some c \<longleftrightarrow> bt_get k m' = Some c" for c
      using canonical_forD(2) [OF assms(1)] canonical_forD(2) [OF assms(2)] assms(3) by blast
    then show ?thesis by (metis not_None_eq)
  qed
qed

lemma canonicalize_Inr_iff:
  "canonicalize_contributions pf cs = Inr out \<longleftrightarrow>
    (\<exists>m. try_fold (canonical_insert pf) [] cs = Inr m \<and> out = map snd m
         \<and> points_total out < 2 ^ 64)"
proof -
  have "(\<forall>c \<in> set (map snd m). valid_contribution pf c)"
    if "try_fold (canonical_insert pf) [] cs = Inr m" for m
    using canonical_start_sound [OF that] canonical_for_values(1) by blast
  then show ?thesis
    using checked_risk_sum_ex_iff
    by (fastforce simp: canonicalize_contributions_def result_iffs Let_def)
qed

lemma points_total_mono_set:
  assumes "distinct cs" and "set cs = set ds" and "distinct ds"
  shows "points_total cs = points_total ds"
  using assms by (simp add: points_total_def sum_list_distinct_conv_sum_set)

lemma canonical_total:
  assumes "canonical_for m cs"
  shows "points_total (map snd m) = (\<Sum>c \<in> set cs. unat (points c))"
proof -
  have "distinct (map contribution_key (map snd m))"
    using bt.entries_distinct [OF canonical_forD(1) [OF assms]]
    by (simp only: canonical_for_values(2) [OF assms])
  then have "distinct (map snd m)" by (rule distinct_map [THEN iffD1, THEN conjunct1])
  then show ?thesis
    by (simp only: points_total_def sum_list_distinct_conv_sum_set canonical_for_values(1) [OF assms])
qed

lemma canonicalized:
  assumes "canonicalize_contributions pf given = Inr cs"
  shows "set cs = set given" "sorted_wrt (<) (map contribution_key cs)"
    "\<forall>c \<in> set given. valid_contribution pf c" "conflict_free given"
    "points_total cs = (\<Sum>c \<in> set given. unat (points c))" "points_total cs < 2 ^ 64"
proof -
  obtain m where m: "try_fold (canonical_insert pf) [] given = Inr m" and cs: "cs = map snd m"
    and total: "points_total cs < 2 ^ 64"
    using assms canonicalize_Inr_iff by blast
  have cf: "canonical_for m given" and valid: "\<forall>c \<in> set given. valid_contribution pf c"
    using canonical_start_sound [OF m] by auto
  show "set cs = set given" using canonical_for_values(1) [OF cf] cs by simp
  show "sorted_wrt (<) (map contribution_key cs)"
    unfolding cs canonical_for_values(2) [OF cf] by (rule bt.entries_sorted [OF canonical_forD(1) [OF cf]])
  show "points_total cs = (\<Sum>c \<in> set given. unat (points c))"
    unfolding cs by (rule canonical_total [OF cf])
  show "\<forall>c \<in> set given. valid_contribution pf c" "points_total cs < 2 ^ 64" by fact+
  show "conflict_free given" by (rule canonical_for_conflict_free [OF cf])
qed

lemma canonicalizes:
  assumes "\<forall>c \<in> set given. valid_contribution pf c" "conflict_free given"
    "(\<Sum>c \<in> set given. unat (points c)) < 2 ^ 64"
  shows "\<exists>cs. canonicalize_contributions pf given = Inr cs"
proof -
  obtain m where m: "try_fold (canonical_insert pf) [] given = Inr m"
    using canonical_start_complete assms by blast
  then have "canonical_for m given" using canonical_start_sound by blast
  from canonical_total [OF this] assms(3) m show ?thesis unfolding canonicalize_Inr_iff by metis
qed

section \<open>Properties\<close>

text \<open>C13. Canonicalisation keeps exactly the given contributions, each once, in strictly
  increasing order of (type, id); the total of the result is the exact sum of its points and
  fits 64 bits; and the result depends only on the set of contributions, not on their order or
  multiplicity, so canonical contributions are a fixed point.\<close>

theorem canonicalize_canonical:
  assumes "canonicalize_contributions pf cs = Inr out"
  shows "set out = set cs \<and> sorted_wrt (<) (map contribution_key out)
    \<and> (\<exists>total. checked_risk_sum pf out = Inr total \<and> unat total = points_total out)
    \<and> (\<forall>ds. set ds = set cs \<longrightarrow> canonicalize_contributions pf ds = Inr out)"
proof (intro conjI allI impI)
  obtain m where m: "try_fold (canonical_insert pf) [] cs = Inr m" and out: "out = map snd m"
    and total: "points_total out < 2 ^ 64"
    using assms canonicalize_Inr_iff by blast
  have cf: "canonical_for m cs" and valid: "\<forall>c \<in> set cs. valid_contribution pf c"
    using canonical_start_sound [OF m] by auto
  show set: "set out = set cs" using canonical_for_values(1) [OF cf] out by simp
  show "sorted_wrt (<) (map contribution_key out)"
    unfolding out canonical_for_values(2) [OF cf]
    by (rule bt.entries_sorted [OF canonical_forD(1) [OF cf]])
  show "\<exists>total. checked_risk_sum pf out = Inr total \<and> unat total = points_total out"
    using checked_risk_sum_ex_iff [of pf out] checked_risk_sum_Inr_iff valid set total by auto
  fix ds :: "RiskContribution list"
  assume ds: "set ds = set cs"
  have "conflict_free ds" "\<forall>d \<in> set ds. valid_contribution pf d"
    using canonical_for_conflict_free [OF cf] valid ds by (auto simp: conflict_free_def)
  then obtain m' where m': "try_fold (canonical_insert pf) [] ds = Inr m'"
    using canonical_start_complete by blast
  have "m' = m" using canonical_start_sound [OF m'] cf ds canonical_for_unique by blast
  then show "canonicalize_contributions pf ds = Inr out"
    using m' out total canonicalize_Inr_iff by blast
qed

text \<open>C25. Canonicalisation succeeds exactly when every contribution is valid, no two
  contributions of one type and id differ, and the points of the distinct contributions sum
  to less than 2 to the 64.\<close>

theorem canonicalize_succeeds_iff:
  "(\<exists>out. canonicalize_contributions pf cs = Inr out) \<longleftrightarrow>
     (\<forall>c \<in> set cs. valid_contribution pf c) \<and> conflict_free cs
     \<and> (\<Sum>c \<in> set cs. unat (points c)) < 2 ^ 64"
  using canonicalized [of pf cs] canonicalizes [of cs pf] by metis

text \<open>The normaliser always produces text of the emitted grammar, and leaves exactly the
  texts of that grammar unchanged (so it is idempotent).\<close>

theorem normalize_rationale_retract:
  "normal_rationale (normalize_risk_rationale raw)
   \<and> (normalize_risk_rationale raw = raw \<longleftrightarrow> normal_rationale raw)"
  using normal_normalize [of raw] normalize_fixed [of raw] by metis

text \<open>What the constructor returns on every path: an unsafe raw text, a blank identifier, a bad
  identifier, zero points and an unsafe normalised text are reported in this order, and otherwise
  the contribution stores the normalised redaction of the rationale and validates. The length or
  the characters of the rationale never make it fail.\<close>

theorem new_contribution_outcome:
  "new_contribution pf i t p raw =
    (let text = normalize_risk_rationale (redact_text pf raw);
         c = \<lparr>rc_id = i, contribution_type = t, points = p, rationale = text\<rparr>
     in if high_confidence_marker pf raw then Inl (UnsafeRationale i)
        else if trim i = [] then Inl EmptyContributionId
        else if \<not> (is_canonical_contribution_id i \<and> \<not> credential_material pf i)
          then Inl (InvalidContributionId i)
        else if p = 0 then Inl (NonPositiveContribution i)
        else if high_confidence_marker pf text then Inl (UnsafeRationale i)
        else Inr c)"
proof -
  have "normal_rationale (rationale \<lparr>rc_id = i, contribution_type = t, points = p,
      rationale = normalize_risk_rationale (redact_text pf raw)\<rparr>)"
    by (simp add: normal_normalize)
  note v = validate_normalised [OF this]
  show ?thesis by (auto simp: new_contribution_def Let_def v)
qed

lemma unat_u64_from: "unat (u64_from w) = unat w"
  using unat_less_length [of w]
  by (simp add: u64_from_def unsigned_ucast_eq take_bit_nat_eq_self)

text \<open>Severity is monotone in the score whatever the thresholds are, and with increasing
  thresholds the two flags say exactly whether the severity is at least high, or critical.\<close>

fun severity_level :: "RiskSeverity \<Rightarrow> nat" where
  "severity_level Informational = 0"
| "severity_level Low = 1"
| "severity_level Medium = 2"
| "severity_level High = 3"
| "severity_level Critical = 4"

theorem assess_monotone:
  "(a \<le> b \<longrightarrow> severity_level (severity (assess_risk_with_thresholds a t))
      \<le> severity_level (severity (assess_risk_with_thresholds b t)))
   \<and> (high t \<le> critical t \<longrightarrow>
       (high_required (assess_risk_with_thresholds a t)
          \<longleftrightarrow> severity (assess_risk_with_thresholds a t) \<in> {High, Critical})
     \<and> (critical_required (assess_risk_with_thresholds a t)
          \<longleftrightarrow> severity (assess_risk_with_thresholds a t) = Critical))"
proof -
  have "high t \<le> critical t \<Longrightarrow> u64_from (high t) \<le> u64_from (critical t)"
    by (simp add: word_le_nat_alt unat_u64_from)
  then show ?thesis by (auto simp: assess_risk_with_thresholds_def)
qed

text \<open>The first configuration call fixes the thresholds of the process: every later call
  succeeds exactly when it repeats them, and none changes what is loaded.\<close>

theorem configure_first_wins:
  "configure_all (t # ts) None
     = (map (\<lambda>u. if u = t then Inr () else Inl ThresholdsAlreadyConfigured) (t # ts), Some t)
   \<and> load_thresholds (snd (configure_all (t # ts) None)) = t"
proof -
  have "configure_all us (Some t)
      = (map (\<lambda>u. if u = t then Inr () else Inl ThresholdsAlreadyConfigured) us, Some t)" for us
    by (induction us) (auto simp: configure_thresholds_def get_or_init_def)
  then show ?thesis
    by (simp add: configure_thresholds_def get_or_init_def load_thresholds_def)
qed

section \<open>Witnesses\<close>

definition open_filters :: privacy_filters where
  "open_filters = \<lparr>high_confidence_marker = (\<lambda>_. False), credential_material = (\<lambda>_. False),
     redact_text = (\<lambda>s. s)\<rparr>"

definition sample_rule :: RiskContribution where
  "sample_rule = \<lparr>rc_id = ''shell.download'', contribution_type = DeterministicRule, points = 40,
     rationale = ''remote fetch''\<rparr>"

definition sample_modifier :: RiskContribution where
  "sample_modifier = \<lparr>rc_id = ''chain.exfil'', contribution_type = ChainModifier, points = 25,
     rationale = ''linked steps''\<rparr>"

lemma sample_contributions_valid:
  "valid_contribution open_filters sample_rule" "valid_contribution open_filters sample_modifier"
  by (simp_all add: validate_iff open_filters_def sample_rule_def sample_modifier_def
      is_canonical_contribution_id_def id_component_char_def rationale_char_def
      MAX_RISK_RATIONALE_LENGTH_def rust_simps)

lemma sample_keys:
  "contribution_key sample_rule = (DeterministicRule, ''shell.download'')"
  "contribution_key sample_modifier = (ChainModifier, ''chain.exfil'')"
  by (simp_all add: contribution_key_def sample_rule_def sample_modifier_def)

theorem canonicalize_canonical_witness:
  "canonicalize_contributions open_filters [sample_modifier, sample_rule, sample_modifier]
     = Inr [sample_rule, sample_modifier]
   \<and> canonicalize_contributions open_filters [sample_rule, sample_modifier]
     = Inr [sample_rule, sample_modifier]"
proof -
  have run: "canonicalize_contributions open_filters [sample_modifier, sample_rule, sample_modifier]
     = Inr [sample_rule, sample_modifier]"
  proof (subst canonicalize_Inr_iff, intro exI conjI)
    show "try_fold (canonical_insert open_filters) [] [sample_modifier, sample_rule, sample_modifier]
        = Inr [(contribution_key sample_rule, sample_rule), (contribution_key sample_modifier, sample_modifier)]"
      by (simp add: canonical_insert_def sample_contributions_valid sample_keys bt_get_def
          less_RiskContributionType_def less_eq_RiskContributionType_def)
  qed (simp_all add: points_total_def sample_rule_def sample_modifier_def)
  show ?thesis using run canonicalize_canonical [OF run] by simp
qed

theorem canonicalize_succeeds_witness:
  "\<exists>out. canonicalize_contributions open_filters [sample_modifier, sample_rule] = Inr out"
proof -
  have "conflict_free [sample_modifier, sample_rule]"
    by (simp add: conflict_free_def sample_keys)
  then show ?thesis
    unfolding canonicalize_succeeds_iff
    by (simp add: sample_contributions_valid) (simp add: sample_rule_def sample_modifier_def)
qed

theorem assess_monotone_witness:
  "severity_level (severity (assess_risk_with_thresholds 55 default_thresholds)) \<le> 4
   \<and> severity (assess_risk_with_thresholds 95 default_thresholds) = Critical"
  using assess_monotone [of 55 95 default_thresholds]
  by (simp add: assess_risk_with_thresholds_def default_thresholds_def u64_from_def)

end
