(* ===== verification/Segment.thy ===== *)
theory Segment
  imports Telltale_Prelude
begin

text \<open>
  Shell command segments of \<open>crates/telltale-rules/src/segment.rs\<close>: the quote-aware split of a
  command text at unquoted separators, as byte ranges found in one pass. A range
  \<open>start..end\<close> is a pair of positions. The iterator's state is the position it has reached;
  \<open>segments\<close> is the list of all ranges it yields.
\<close>

type_synonym byte_range = "nat \<times> nat"

definition QUOTE :: char where "QUOTE = CHR 0x27"

text \<open>One turn of the scanning loop: the body either moves on with a quote state, by one byte or
  past an escaped byte, or returns with a separator of one or two bytes.\<close>

datatype scan = Advance "char option" nat | Separator nat

definition scan_byte :: "char option \<Rightarrow> char \<Rightarrow> char option \<Rightarrow> scan" where
  "scan_byte quote b following =
    (case quote of
       Some q \<Rightarrow>
         if q = QUOTE then Advance (if b = QUOTE then None else quote) 1
         else if b = CHR 0x5C then Advance quote 2
         else if b = CHR 0x22 then Advance None 1
         else Advance quote 1
     | None \<Rightarrow>
         if b = CHR 0x5C then Advance quote 2
         else if b = QUOTE \<or> b = CHR 0x22 then Advance (Some b) 1
         else if b = CHR '';'' \<or> b = CHR 0x0A then Separator 1
         else if b = CHR ''|'' \<and> following = Some (CHR ''|'') then Separator 2
         else if b = CHR ''|'' then Separator 1
         else if b = CHR ''&'' \<and> following = Some (CHR ''&'') then Separator 2
         else Advance quote 1)"

definition byte_at :: "string \<Rightarrow> nat \<Rightarrow> char option" where
  "byte_at bytes index = (if index < length bytes then Some (bytes ! index) else None)"

lemma scan_byte_width:
  "scan_byte quote b following = Advance q n \<Longrightarrow> n = 1 \<or> n = 2"
  "scan_byte quote b following = Separator n \<Longrightarrow> n = 1 \<or> n = 2 \<and> following \<noteq> None"
  by (auto simp: scan_byte_def split: option.splits if_splits)

function segment_end_loop :: "string \<Rightarrow> char option \<Rightarrow> nat \<Rightarrow> nat \<times> nat" where
  "segment_end_loop bytes quote index =
    (if index < length bytes then
       (case scan_byte quote (bytes ! index) (byte_at bytes (Suc index)) of
          Advance quote' n \<Rightarrow> segment_end_loop bytes quote' (index + n)
        | Separator n \<Rightarrow> (index, index + n))
     else (length bytes, length bytes))"
  by pat_completeness auto
termination
  by (relation "measure (\<lambda>(bytes, quote, index). length bytes - index)")
    (auto dest: scan_byte_width)

declare segment_end_loop.simps [simp del]

definition segment_end :: "string \<Rightarrow> nat \<Rightarrow> nat \<times> nat" where
  "segment_end bytes start = segment_end_loop bytes None start"

function trim_range_start :: "string \<Rightarrow> nat \<Rightarrow> nat \<Rightarrow> nat" where
  "trim_range_start bytes first stop =
    (if first < stop \<and> is_ascii_whitespace (bytes ! first)
     then trim_range_start bytes (first + 1) stop else first)"
  by pat_completeness auto
termination
  by (relation "measure (\<lambda>(bytes, first, stop). stop - first)") auto

function trim_range_end :: "string \<Rightarrow> nat \<Rightarrow> nat \<Rightarrow> nat" where
  "trim_range_end bytes first stop =
    (if first < stop \<and> is_ascii_whitespace (bytes ! (stop - 1))
     then trim_range_end bytes first (stop - 1) else stop)"
  by pat_completeness auto
termination
  by (relation "measure (\<lambda>(bytes, first, stop). stop)") auto

declare trim_range_start.simps [simp del] trim_range_end.simps [simp del]

definition trim_range :: "string \<Rightarrow> byte_range \<Rightarrow> byte_range" where
  "trim_range bytes r =
    (case r of (first, stop) \<Rightarrow>
       let first' = trim_range_start bytes first stop
       in (first', trim_range_end bytes first' stop))"

lemma segment_end_loop_bounds:
  assumes "segment_end_loop bytes quote index = (stop, following)"
  shows "min index (length bytes) \<le> stop \<and> stop \<le> following \<and> following \<le> length bytes
    \<and> (index < length bytes \<longrightarrow> index < following)"
  using assms
proof (induction bytes quote index rule: segment_end_loop.induct)
  case (1 bytes quote index)
  show ?case
  proof (cases "index < length bytes")
    case True
    show ?thesis
    proof (cases "scan_byte quote (bytes ! index) (byte_at bytes (Suc index))")
      case (Advance q n)
      with 1 True have "min (index + n) (length bytes) \<le> stop \<and> stop \<le> following
          \<and> following \<le> length bytes \<and> (index + n < length bytes \<longrightarrow> index + n < following)"
        by (subst (asm) segment_end_loop.simps) simp
      with True scan_byte_width(1) [OF Advance] show ?thesis by auto
    next
      case (Separator n)
      with 1 True have "stop = index" "following = index + n"
        by (subst (asm) segment_end_loop.simps; simp)+
      with True scan_byte_width(2) [OF Separator] show ?thesis
        by (auto simp: byte_at_def split: if_splits)
    qed
  next
    case False
    with 1 show ?thesis by (subst (asm) segment_end_loop.simps) simp
  qed
qed

function segments_from :: "string \<Rightarrow> nat \<Rightarrow> byte_range list" where
  "segments_from bytes position =
    (if position < length bytes then
       (case segment_end bytes position of (stop, following) \<Rightarrow>
          let range = trim_range bytes (position, stop);
              rest = segments_from bytes following
          in if fst range < snd range then range # rest else rest)
     else [])"
  by pat_completeness auto
termination
proof (relation "measure (\<lambda>(bytes, position). length bytes - position)")
  fix bytes position stop following
  assume "position < length bytes" and "(stop, following) = segment_end bytes position"
  then have "position < following"
    by (metis segment_end_def segment_end_loop_bounds)
  with \<open>position < length bytes\<close>
  show "((bytes, following), bytes, position) \<in> measure (\<lambda>(bytes, position). length bytes - position)"
    by simp
qed simp

declare segments_from.simps [simp del]

definition segments :: "string \<Rightarrow> byte_range list" where
  "segments text = segments_from text 0"

section \<open>Reference definition\<close>

text \<open>The split by structural recursion on the text, and the text of a range.\<close>

definition prepend :: "string \<Rightarrow> string list \<Rightarrow> string list" where
  "prepend w ws = (w @ hd ws) # tl ws"

fun split_segments :: "char option \<Rightarrow> string \<Rightarrow> string list" where
  "split_segments quote [] = [[]]"
| "split_segments (Some q) [b] = [[b]]"
| "split_segments (Some q) (b # c # s) =
    (if q = QUOTE then prepend [b] (split_segments (if b = QUOTE then None else Some q) (c # s))
     else if b = CHR 0x5C then prepend [b, c] (split_segments (Some q) s)
     else prepend [b] (split_segments (if b = CHR 0x22 then None else Some q) (c # s)))"
| "split_segments None [b] =
    (if b \<in> {CHR '';'', CHR 0x0A, CHR ''|''} then [[], []] else [[b]])"
| "split_segments None (b # c # s) =
    (if b = CHR 0x5C then prepend [b, c] (split_segments None s)
     else if b \<in> {QUOTE, CHR 0x22} then prepend [b] (split_segments (Some b) (c # s))
     else if b \<in> {CHR ''|'', CHR ''&''} \<and> c = b then [] # split_segments None s
     else if b \<in> {CHR '';'', CHR 0x0A, CHR ''|''} then [] # split_segments None (c # s)
     else prepend [b] (split_segments None (c # s)))"

definition slice :: "string \<Rightarrow> byte_range \<Rightarrow> string" where
  "slice bytes r = take (snd r - fst r) (drop (fst r) bytes)"


section \<open>The scan computes the reference split\<close>

lemma split_segments_nonempty [simp]: "split_segments quote s \<noteq> []"
  by (induction quote s rule: split_segments.induct) (auto simp: prepend_def)

lemma split_segments_scan:
  "split_segments quote (b # s) =
    (case scan_byte quote b (case s of [] \<Rightarrow> None | c # _ \<Rightarrow> Some c) of
       Advance q n \<Rightarrow> prepend (take n (b # s)) (split_segments q (drop n (b # s)))
     | Separator n \<Rightarrow> [] # split_segments None (drop n (b # s)))"
proof (cases s)
  case Nil
  then show ?thesis
    by (cases quote) (auto simp: scan_byte_def QUOTE_def prepend_def)
next
  case (Cons c t)
  then show ?thesis
    by (cases quote) (simp_all add: scan_byte_def QUOTE_def)
qed

lemmas split_segments_Nil = split_segments.simps(1)

declare split_segments.simps [simp del] split_segments_Nil [simp]

lemma drop_Cons_nth: "i < length xs \<Longrightarrow> drop i xs = xs ! i # drop (Suc i) xs"
  by (simp add: Cons_nth_drop_Suc)

lemma segment_end_split:
  assumes "segment_end_loop bytes quote index = (stop, following)"
  shows "split_segments quote (drop index bytes) =
    (if stop < length bytes
     then take (stop - index) (drop index bytes) # split_segments None (drop following bytes)
     else [drop index bytes])"
  using assms
proof (induction bytes quote index rule: segment_end_loop.induct)
  case (1 bytes quote index)
  show ?case
  proof (cases "index < length bytes")
    case True
    let ?b = "bytes ! index" and ?s = "drop (Suc index) bytes"
    have next_byte: "(case ?s of [] \<Rightarrow> None | c # _ \<Rightarrow> Some c) = byte_at bytes (Suc index)"
      by (auto simp: byte_at_def drop_Cons_nth)
    have unfold: "drop index bytes = ?b # ?s" by (rule drop_Cons_nth [OF True])
    show ?thesis
    proof (cases "scan_byte quote ?b (byte_at bytes (Suc index))")
      case (Advance q n)
      have loop: "segment_end_loop bytes q (index + n) = (stop, following)"
        using 1(2) True Advance by (subst (asm) segment_end_loop.simps) simp
      have IH: "split_segments q (drop n (drop index bytes)) =
          (if stop < length bytes
           then take (stop - (index + n)) (drop (index + n) bytes) # split_segments None (drop following bytes)
           else [drop (index + n) bytes])"
        using 1(1) [OF True Advance loop] by (simp add: add.commute)
      have "stop < length bytes \<Longrightarrow> index + n \<le> stop"
        using segment_end_loop_bounds [OF loop] by auto
      moreover have "split_segments quote (drop index bytes) =
          prepend (take n (drop index bytes)) (split_segments q (drop n (drop index bytes)))"
        unfolding unfold split_segments_scan next_byte Advance by simp
      moreover have "take n (drop index bytes) @ take (stop - (index + n)) (drop n (drop index bytes))
          = take (stop - index) (drop index bytes)" if "index + n \<le> stop"
      proof -
        have "stop - index = n + (stop - (index + n))" using that by simp
        then show ?thesis by (simp only: take_add)
      qed
      moreover have "drop (index + n) bytes = drop n (drop index bytes)"
        by (simp add: add.commute)
      ultimately show ?thesis
        unfolding IH prepend_def by (auto simp del: drop_drop)
    next
      case (Separator n)
      have "stop = index" "following = index + n"
        using 1(2) True Separator by (subst (asm) segment_end_loop.simps; simp)+
      then show ?thesis
        using True unfolding unfold split_segments_scan next_byte Separator
        by (simp add: unfold [symmetric] add.commute del: drop_Suc_Cons)
    qed
  next
    case False
    with 1(2) have "stop = length bytes" by (subst (asm) segment_end_loop.simps) simp
    with False show ?thesis by simp
  qed
qed


section \<open>Trimming a range\<close>

lemma slice_step: "first < stop \<Longrightarrow> stop \<le> length bytes
    \<Longrightarrow> slice bytes (first, stop) = bytes ! first # slice bytes (Suc first, stop)"
  by (simp add: slice_def drop_Cons_nth take_Cons')

lemma slice_snoc: "first < stop \<Longrightarrow> stop \<le> length bytes
    \<Longrightarrow> slice bytes (first, stop) = slice bytes (first, stop - 1) @ [bytes ! (stop - 1)]"
proof -
  assume a: "first < stop" "stop \<le> length bytes"
  then have "stop - first = Suc (stop - 1 - first)" and "stop - 1 - first < length (drop first bytes)"
    by auto
  with a show ?thesis by (simp add: slice_def take_Suc_conv_app_nth del: take_Suc)
qed

lemma length_slice: "stop \<le> length bytes \<Longrightarrow> length (slice bytes (first, stop)) = stop - first"
  by (simp add: slice_def)

lemma slice_empty: "stop \<le> first \<Longrightarrow> slice bytes (first, stop) = []"
  by (simp add: slice_def)

lemma trim_range_start_spec:
  "first \<le> stop \<Longrightarrow> stop \<le> length bytes \<Longrightarrow>
   first \<le> trim_range_start bytes first stop \<and> trim_range_start bytes first stop \<le> stop
   \<and> slice bytes (trim_range_start bytes first stop, stop)
       = dropWhile is_ascii_whitespace (slice bytes (first, stop))
   \<and> (first < trim_range_start bytes first stop
       \<longrightarrow> is_ascii_whitespace (bytes ! (trim_range_start bytes first stop - 1)))"
proof (induction bytes first stop rule: trim_range_start.induct)
  case (1 bytes first stop)
  show ?case
  proof (cases "first < stop \<and> is_ascii_whitespace (bytes ! first)")
    case True
    with 1 show ?thesis
      by (auto simp: trim_range_start.simps [of bytes first stop] slice_step)
  next
    case False
    then have "trim_range_start bytes first stop = first"
      unfolding trim_range_start.simps [of bytes first stop] by (rule if_not_P)
    then show ?thesis using False "1.prems" by (cases "first < stop") (auto simp: slice_step slice_empty)
  qed
qed

lemma trim_range_end_spec:
  "first \<le> stop \<Longrightarrow> stop \<le> length bytes \<Longrightarrow>
   first \<le> trim_range_end bytes first stop \<and> trim_range_end bytes first stop \<le> stop
   \<and> rev (slice bytes (first, trim_range_end bytes first stop))
       = dropWhile is_ascii_whitespace (rev (slice bytes (first, stop)))
   \<and> (trim_range_end bytes first stop < stop
       \<longrightarrow> is_ascii_whitespace (bytes ! trim_range_end bytes first stop))"
proof (induction bytes first stop rule: trim_range_end.induct)
  case (1 bytes first stop)
  show ?case
  proof (cases "first < stop \<and> is_ascii_whitespace (bytes ! (stop - 1))")
    case True
    then have IH: "first \<le> trim_range_end bytes first (stop - 1)
        \<and> trim_range_end bytes first (stop - 1) \<le> stop - 1
        \<and> rev (slice bytes (first, trim_range_end bytes first (stop - 1)))
            = dropWhile is_ascii_whitespace (rev (slice bytes (first, stop - 1)))
        \<and> (trim_range_end bytes first (stop - 1) < stop - 1
            \<longrightarrow> is_ascii_whitespace (bytes ! trim_range_end bytes first (stop - 1)))"
      using 1 by auto
    have "trim_range_end bytes first stop = trim_range_end bytes first (stop - 1)"
      using True by (subst trim_range_end.simps) simp
    moreover have "rev (slice bytes (first, stop)) = bytes ! (stop - 1) # rev (slice bytes (first, stop - 1))"
      using True 1 by (simp add: slice_snoc)
    ultimately show ?thesis using IH True
      by (auto simp: le_less)
  next
    case False
    then have "trim_range_end bytes first stop = stop"
      unfolding trim_range_end.simps [of bytes first stop] by (rule if_not_P)
    moreover have "dropWhile is_ascii_whitespace (rev (slice bytes (first, stop))) = rev (slice bytes (first, stop))"
      using False "1.prems" by (cases "first < stop") (auto simp: slice_snoc slice_empty)
    ultimately show ?thesis using "1.prems" by simp
  qed
qed

lemma trim_range_spec:
  assumes "first \<le> stop" and "stop \<le> length bytes" and "trim_range bytes (first, stop) = (f, t)"
  shows "first \<le> f \<and> f \<le> t \<and> t \<le> stop
    \<and> slice bytes (f, t) = trim_matches is_ascii_whitespace (slice bytes (first, stop))
    \<and> (first < f \<longrightarrow> is_ascii_whitespace (bytes ! (f - 1)))
    \<and> (t < stop \<longrightarrow> is_ascii_whitespace (bytes ! t))"
proof -
  have f: "f = trim_range_start bytes first stop" and t: "t = trim_range_end bytes f stop"
    using assms(3) by (auto simp: trim_range_def Let_def)
  note start = trim_range_start_spec [OF assms(1,2), folded f]
  have fs: "f \<le> stop" using start by blast
  note stop_spec = trim_range_end_spec [OF fs assms(2), folded t]
  have "rev (slice bytes (f, t)) = dropWhile is_ascii_whitespace (rev (dropWhile is_ascii_whitespace (slice bytes (first, stop))))"
    using start stop_spec by simp
  then have "slice bytes (f, t) = trim_matches is_ascii_whitespace (slice bytes (first, stop))"
    by (metis rev_rev_ident trim_matches_def)
  with start stop_spec show ?thesis by auto
qed


section \<open>The iterator\<close>

lemma scan_separator_ascii:
  assumes "scan_byte quote b following = Separator n"
  shows "byte b < 128" and "n = 2 \<Longrightarrow> \<exists>c. following = Some c \<and> byte c < 128"
  using assms by (auto simp: scan_byte_def byte_def split: option.splits if_splits)

lemma segment_end_loop_ascii:
  assumes "segment_end_loop bytes quote index = (stop, following)"
  shows "if stop < length bytes
    then byte (bytes ! stop) < 128 \<and> byte (bytes ! (following - 1)) < 128
    else following = length bytes"
  using assms
proof (induction bytes quote index rule: segment_end_loop.induct)
  case (1 bytes quote index)
  show ?case
  proof (cases "index < length bytes")
    case True
    show ?thesis
    proof (cases "scan_byte quote (bytes ! index) (byte_at bytes (Suc index))")
      case (Advance q n)
      then show ?thesis using 1 True by (subst (asm) (2) segment_end_loop.simps) simp
    next
      case (Separator n)
      have "stop = index" "following = index + n"
        using 1(2) True Separator by (subst (asm) segment_end_loop.simps; simp)+
      moreover have "byte (bytes ! (index + n - 1)) < 128"
        using scan_byte_width(2) [OF Separator] scan_separator_ascii [OF Separator]
        by (auto simp: byte_at_def split: if_splits)
      ultimately show ?thesis using scan_separator_ascii(1) [OF Separator] True by simp
    qed
  next
    case False
    with 1(2) show ?thesis by (subst (asm) segment_end_loop.simps) simp
  qed
qed

lemma whitespace_ascii: "is_ascii_whitespace c \<Longrightarrow> byte c < 128"
  by (auto simp: is_ascii_whitespace_def)

text \<open>What one call of \<open>next\<close> relies on: a range delimited by ASCII bytes or the ends of the
  text. \<open>clean_from\<close> and \<open>clean_to\<close> say that a position is such a boundary.\<close>

definition clean_from :: "string \<Rightarrow> nat \<Rightarrow> bool" where
  "clean_from bytes p \<longleftrightarrow> p = 0 \<or> byte (bytes ! (p - 1)) < 128"

definition clean_to :: "string \<Rightarrow> nat \<Rightarrow> bool" where
  "clean_to bytes p \<longleftrightarrow> p = length bytes \<or> byte (bytes ! p) < 128"

lemma segments_from_induct [case_names finished step]:
  assumes "\<And>position. length bytes \<le> position \<Longrightarrow> P position"
    and "\<And>position stop following. position < length bytes \<Longrightarrow>
      segment_end bytes position = (stop, following) \<Longrightarrow> position < following \<Longrightarrow> P following \<Longrightarrow> P position"
  shows "P position"
proof (induction "length bytes - position" arbitrary: position rule: less_induct)
  case less
  obtain stop following where se: "segment_end bytes position = (stop, following)"
    by (cases "segment_end bytes position")
  show ?case
  proof (cases "position < length bytes")
    case True
    then have lt: "position < following"
      using segment_end_loop_bounds se by (metis segment_end_def)
    with True have "P following" by (intro less) simp
    with True se lt show ?thesis by (rule assms(2))
  qed (simp add: assms(1))
qed

lemma segments_from_done: "length bytes \<le> position \<Longrightarrow> segments_from bytes position = []"
  by (simp add: segments_from.simps [of bytes position])

lemma segments_from_step:
  assumes "position < length bytes" and "segment_end bytes position = (stop, following)"
    and "trim_range bytes (position, stop) = (f, t)"
  shows "segments_from bytes position =
    (if f < t then (f, t) # segments_from bytes following else segments_from bytes following)"
  using assms by (simp add: segments_from.simps [of bytes position] Let_def)

lemma segments_from_slices:
  "map (slice bytes) (segments_from bytes position) =
    filter (\<lambda>w. w \<noteq> []) (map (trim_matches is_ascii_whitespace) (split_segments None (drop position bytes)))"
proof (induction position rule: segments_from_induct [of bytes])
  case (finished position)
  then show ?case by (simp add: segments_from_done trim_matches_def)
next
  case (step position stop following)
  obtain f t where ft: "trim_range bytes (position, stop) = (f, t)" by (cases "trim_range bytes (position, stop)")
  have se: "segment_end_loop bytes None position = (stop, following)"
    using step(2) by (simp add: segment_end_def)
  have pos: "position \<le> stop" "stop \<le> length bytes"
    using segment_end_loop_bounds [OF se] step(1) by auto
  note tr = trim_range_spec [OF pos ft]
  have empty: "f < t \<longleftrightarrow> slice bytes (f, t) \<noteq> []"
    using tr pos length_slice [of t bytes f] by (metis le_trans length_greater_0_conv zero_less_diff)
  have split: "split_segments None (drop position bytes) =
      (if stop < length bytes then slice bytes (position, stop) # split_segments None (drop following bytes)
       else [slice bytes (position, stop)])"
    using segment_end_split [OF se] pos by (auto simp: slice_def)
  have ends: "\<not> stop < length bytes \<Longrightarrow> segments_from bytes following = []"
    using segment_end_loop_ascii [OF se] by (simp add: segments_from_done)
  show ?case
    using step(4) tr empty ends by (auto simp: segments_from_step [OF step(1,2) ft] split)
qed

lemma segments_from_ranges:
  assumes "clean_from bytes position"
  shows "sorted_wrt (\<lambda>r r'. snd r \<le> fst r') (segments_from bytes position)
    \<and> (\<forall>r \<in> set (segments_from bytes position). position \<le> fst r \<and> fst r < snd r \<and> snd r \<le> length bytes
        \<and> clean_from bytes (fst r) \<and> clean_to bytes (snd r))"
  using assms
proof (induction position rule: segments_from_induct [of bytes])
  case (finished position)
  then show ?case by (simp add: segments_from_done)
next
  case (step position stop following)
  obtain f t where ft: "trim_range bytes (position, stop) = (f, t)" by (cases "trim_range bytes (position, stop)")
  have se: "segment_end_loop bytes None position = (stop, following)"
    using step(2) by (simp add: segment_end_def)
  have pos: "position \<le> stop" "stop \<le> length bytes" "stop \<le> following" "following \<le> length bytes"
    using segment_end_loop_bounds [OF se] step(1) by auto
  note tr = trim_range_spec [OF pos(1,2) ft]
  note ascii = segment_end_loop_ascii [OF se]
  have rest: "segments_from bytes following = []" if "\<not> stop < length bytes"
    using ascii that by (simp add: segments_from_done)
  have "clean_from bytes f"
    using tr step(5) whitespace_ascii by (cases "position < f") (auto simp: clean_from_def)
  moreover have "clean_to bytes t"
    using tr ascii pos whitespace_ascii by (cases "t < stop") (auto simp: clean_to_def split: if_splits)
  moreover have "stop < length bytes \<Longrightarrow> clean_from bytes following"
    using ascii by (simp add: clean_from_def)
  ultimately show ?case
    using step(3,4) tr pos rest
    by (cases "stop < length bytes") (auto simp: segments_from_step [OF step(1,2) ft])
qed

section \<open>Properties\<close>

text \<open>C12. The one-pass byte scan yields exactly the trimmed, non-empty pieces of the
  quote-aware reference split, in order.\<close>

theorem segments_reference:
  "map (slice input) (segments input) =
    filter (\<lambda>w. w \<noteq> []) (map (trim_matches is_ascii_whitespace) (split_segments None input))"
  using segments_from_slices [of input 0] by (simp add: segments_def)

text \<open>The ranges are non-empty, in bounds, increasing and disjoint, and each begins after
  and ends before an ASCII byte or an end of the text, hence on a character boundary.\<close>

theorem segments_ranges:
  "sorted_wrt (\<lambda>r r'. snd r \<le> fst r') (segments input)
   \<and> list_all (\<lambda>r. fst r < snd r \<and> snd r \<le> length input
        \<and> (fst r = 0 \<or> byte (input ! (fst r - 1)) < 128)
        \<and> (snd r = length input \<or> byte (input ! snd r) < 128)) (segments input)"
  using segments_from_ranges [of input 0]
  by (auto simp: segments_def list_all_iff clean_from_def clean_to_def)

end
