(* ===== verification/Process_Chain_Rules.thy ===== *)
theory Process_Chain_Rules
  imports Scoring
begin

text \<open>
  Process-chain rules, \<open>crates/telltale-rules/src/process_chain.rs\<close>: the pack model and its
  compilation, name normalisation, and the evaluation of one parent/child observation with
  deduplication and the false-positive controls of the deployment.

  The \<open>regex\<close> crate is a parameter, the record \<open>regex_engine\<close>: compiling a pattern gives
  an error message or a compiled value of type \<open>'r\<close>, and a compiled value is matched against
  a subject. YAML parsing happens before \<open>compile_pack\<close> and is not modelled.
\<close>

record 'r regex_engine =
  regex_new :: "string \<Rightarrow> (string, 'r) result"
  regex_is_match :: "'r \<Rightarrow> string \<Rightarrow> bool"

section \<open>Constants and errors\<close>

definition SEVERITIES :: "string list" where
  "SEVERITIES = [''informational'', ''low'', ''medium'', ''high'', ''critical'']"

definition CONFIDENCES :: "string list" where
  "CONFIDENCES = [''low'', ''medium'', ''high'']"

datatype ProcessChainError =
  Parse string
| InvalidRegex string string
| InvalidChainRuleId string
| DuplicateRuleId string
| UnknownCategory string string
| InvalidSeverity string string
| InvalidConfidence string string
| InvalidMatchTarget string string
| ScoreOutOfBand string string u64
| EmptySequence string
| InvalidCorrelationWindow string u64

section \<open>The pack\<close>

record PackDefaults =
  defaults_enabled :: bool
  defaults_risk_entity :: string
  defaults_suppression_window_seconds :: u64

record CategoryMetadata =
  meta_detection_class :: string
  meta_analytic_intent :: string
  meta_investigation_fields :: "string list"
  meta_falsepositives :: "string list"

record ChainRuleDefinition =
  chain_id :: string
  chain_title :: string
  chain_category :: string
  chain_severity :: string
  chain_score :: u64
  chain_confidence :: string
  chain_parent :: string
  chain_child :: string
  chain_mitre :: "string list"
  chain_reason :: string
  child_command_line_any :: "string list"
  child_command_line_none :: "string list"
  child_path_any :: "string list"
  child_path_none :: "string list"
  source_severity :: "8 word option"
  chain_enabled :: "bool option"
  chain_dedup_key :: "string option"

record StandaloneRuleDefinition =
  standalone_id :: string
  standalone_title :: string
  standalone_category :: string
  standalone_severity :: string
  standalone_score :: u64
  standalone_confidence :: string
  standalone_mitre :: "string list"
  standalone_reason :: string
  standalone_match :: string
  standalone_patterns :: "string list"
  standalone_exclude :: "string list"
  standalone_enabled :: "bool option"

record CorrelationStepDefinition =
  step_any_category :: "string list"
  step_any_rule_id :: "string list"
  step_any_child :: "string list"

record CorrelationRuleDefinition =
  correlation_id :: string
  correlation_title :: string
  correlation_category :: string
  correlation_severity :: string
  correlation_score :: u64
  correlation_confidence :: string
  correlation_mitre :: "string list"
  correlation_reason :: string
  correlation_window_seconds :: u64
  correlation_entity :: string
  correlation_sequence :: "CorrelationStepDefinition list"
  correlation_enabled :: "bool option"

record ProcessChainPack =
  pack_version :: u32
  pack_description :: string
  pack_defaults :: PackDefaults
  pack_categories :: "(string, CategoryMetadata) btree_map"
  pack_rules :: "ChainRuleDefinition list"
  pack_standalone :: "StandaloneRuleDefinition list"
  pack_correlations :: "CorrelationRuleDefinition list"

section \<open>Observations and detections\<close>

record ProcessRef =
  proc_name :: string
  proc_path :: "string option"
  proc_pid :: "u64 option"
  proc_command_line :: "string option"

record ProcessObservation =
  obs_parent :: ProcessRef
  obs_child :: ProcessRef
  obs_grandparent :: "ProcessRef option"
  obs_host :: "string option"
  obs_user :: "string option"
  obs_timestamp :: "string option"
  obs_source_event_id :: "string option"
  parent_inferred :: bool

record ProcessChainDetection =
  rule_id :: string
  rule_name :: string
  rule_category :: string
  detection_class :: string
  signal_type :: string
  analytic_intent :: string
  det_severity :: string
  det_score :: u64
  det_confidence :: string
  mitre_attack_techniques :: "string list"
  detection_reason :: string
  informational :: bool
  risk_entity_type :: string
  risk_entity :: "string option"
  investigation_fields :: "string list"
  falsepositives :: "string list"
  secondary_rule_ids :: "string list"
  dedup_key :: string
  suppression_window_seconds :: u64
  risk_adjustment :: "string option"

section \<open>Compiled rules\<close>

record 'r CompiledChainRule =
  cc_definition :: ChainRuleDefinition
  cc_detection_class :: string
  cc_analytic_intent :: string
  cc_investigation_fields :: "string list"
  cc_falsepositives :: "string list"
  command_line_any :: "'r list"
  command_line_none :: "'r list"
  path_any :: "'r list"
  path_none :: "'r list"
  cc_dedup_key :: string

datatype StandaloneTarget = ProcessName | ProcessPath | CommandLine

record 'r CompiledStandaloneRule =
  cs_definition :: StandaloneRuleDefinition
  cs_detection_class :: string
  cs_analytic_intent :: string
  cs_investigation_fields :: "string list"
  cs_falsepositives :: "string list"
  cs_patterns :: "'r list"
  cs_exclude :: "'r list"
  cs_target :: StandaloneTarget

record CorrelationStep =
  any_category :: "string set"
  any_rule_id :: "string set"
  any_child :: "string set"

record CompiledCorrelationRule =
  cor_id :: string
  cor_title :: string
  cor_category :: string
  cor_detection_class :: string
  cor_analytic_intent :: string
  cor_severity :: string
  cor_score :: u64
  cor_confidence :: string
  cor_mitre_attack_techniques :: "string list"
  cor_reason :: string
  cor_window_seconds :: u64
  cor_entity :: string
  cor_steps :: "CorrelationStep list"
  cor_falsepositives :: "string list"

record 'r CompiledProcessChainRules =
  chain_rules :: "'r CompiledChainRule list"
  standalone_rules :: "'r CompiledStandaloneRule list"
  correlations :: "CompiledCorrelationRule list"
  default_risk_entity :: string
  default_suppression_window_seconds :: u64

definition step_matches :: "CorrelationStep \<Rightarrow> string \<Rightarrow> string \<Rightarrow> string \<Rightarrow> bool" where
  "step_matches st category rule child =
    (if any_category st \<noteq> {} \<and> category \<notin> any_category st then False
     else if any_rule_id st \<noteq> {} \<and> rule \<notin> any_rule_id st then False
     else if any_child st \<noteq> {} \<and> child \<notin> any_child st then False
     else True)"

section \<open>Normalisation\<close>

definition normalize_process_name :: "string \<Rightarrow> string" where
  "normalize_process_name raw =
    (let trimmed = trim (trim_matches (\<lambda>c. c = CHR 0x22 \<or> c = CHR 0x27) (trim raw));
         basename = trim (last (split_on (\<lambda>c. c = CHR 0x5C \<or> c = CHR ''/'') trimmed));
         lowered = to_ascii_lowercase basename;
         stem = (case strip_suffix ''.exe'' lowered of Some s \<Rightarrow> s | None \<Rightarrow> lowered)
     in map (\<lambda>c. if c = CHR ''.'' \<or> c = CHR ''-'' then CHR ''_'' else c) stem)"

definition normalized_name :: "ProcessRef \<Rightarrow> string" where
  "normalized_name p = normalize_process_name (proc_name p)"

definition path_text :: "ProcessRef \<Rightarrow> string" where
  "path_text p = (case proc_path p of Some path \<Rightarrow> if path \<noteq> [] then path else proc_name p
                  | None \<Rightarrow> proc_name p)"

definition command_line_text :: "ProcessRef \<Rightarrow> string" where
  "command_line_text p = (case proc_command_line p of Some c \<Rightarrow> c | None \<Rightarrow> [])"

section \<open>Compilation\<close>

definition register_id :: "string set \<Rightarrow> string \<Rightarrow> (ProcessChainError, string set) result" where
  "register_id seen i =
    (if \<not> is_canonical_contribution_id i then Inl (InvalidChainRuleId i)
     else if i \<in> seen then Inl (DuplicateRuleId i)
     else Inr (insert i seen))"

definition category_metadata ::
  "(string, CategoryMetadata) btree_map \<Rightarrow> string \<Rightarrow> string \<Rightarrow> (ProcessChainError, CategoryMetadata) result" where
  "category_metadata categories rid category =
    ok_or (bt_get category categories) (UnknownCategory rid category)"

definition validate_severity :: "string \<Rightarrow> string \<Rightarrow> (ProcessChainError, unit) result" where
  "validate_severity rid sev = (if sev \<in> set SEVERITIES then Inr () else Inl (InvalidSeverity rid sev))"

definition validate_confidence :: "string \<Rightarrow> string \<Rightarrow> (ProcessChainError, unit) result" where
  "validate_confidence rid conf =
    (if conf \<in> set CONFIDENCES then Inr () else Inl (InvalidConfidence rid conf))"

definition score_band :: "string \<Rightarrow> u64 \<times> u64" where
  "score_band sev =
    (if sev = ''informational'' then (0, 0)
     else if sev = ''low'' then (20, 39)
     else if sev = ''medium'' then (40, 49)
     else if sev = ''high'' then (50, 79)
     else if sev = ''critical'' then (80, 100)
     else (0, 100))"

definition validate_score_band :: "string \<Rightarrow> string \<Rightarrow> u64 \<Rightarrow> (ProcessChainError, unit) result" where
  "validate_score_band rid sev score =
    (if score < fst (score_band sev) \<or> snd (score_band sev) < score
     then Inl (ScoreOutOfBand rid sev score) else Inr ())"

definition compile_all ::
  "'r regex_engine \<Rightarrow> string \<Rightarrow> string list \<Rightarrow> (ProcessChainError, 'r list) result" where
  "compile_all eng rid patterns =
    try_map (\<lambda>pattern.
      case regex_new eng (''(?i:'' @ pattern @ '')'') of
        Inl message \<Rightarrow> Inl (InvalidRegex rid message)
      | Inr r \<Rightarrow> Inr r) patterns"

text \<open>The checks that every kind of rule shares, in the order the code makes them.\<close>

definition check_rule ::
  "ProcessChainPack \<Rightarrow> string set \<Rightarrow> string \<Rightarrow> string \<Rightarrow> string \<Rightarrow> string \<Rightarrow> u64
    \<Rightarrow> (ProcessChainError, string set \<times> CategoryMetadata) result" where
  "check_rule pack seen rid category sev conf score =
    result_bind (register_id seen rid) (\<lambda>seen'.
    result_bind (category_metadata (pack_categories pack) rid category) (\<lambda>metadata.
    result_bind (validate_severity rid sev) (\<lambda>_.
    result_bind (validate_confidence rid conf) (\<lambda>_.
    result_bind (validate_score_band rid sev score) (\<lambda>_.
    Inr (seen', metadata))))))"

definition rule_enabled :: "ProcessChainPack \<Rightarrow> bool option \<Rightarrow> bool" where
  "rule_enabled pack e = (case e of Some b \<Rightarrow> b | None \<Rightarrow> defaults_enabled (pack_defaults pack))"

definition compile_chain_rule ::
  "'r regex_engine \<Rightarrow> ProcessChainPack \<Rightarrow> string set \<times> 'r CompiledChainRule list \<Rightarrow> ChainRuleDefinition
    \<Rightarrow> (ProcessChainError, string set \<times> 'r CompiledChainRule list) result" where
  "compile_chain_rule eng pack st d =
    (if \<not> rule_enabled pack (chain_enabled d) then Inr st
     else result_bind (check_rule pack (fst st) (chain_id d) (chain_category d) (chain_severity d)
            (chain_confidence d) (chain_score d)) (\<lambda>(seen, metadata).
       let key = (case chain_dedup_key d of Some k \<Rightarrow> k
                  | None \<Rightarrow> ''chain:'' @ normalize_process_name (chain_parent d) @ ''>''
                            @ normalize_process_name (chain_child d))
       in result_bind (compile_all eng (chain_id d) (child_command_line_any d)) (\<lambda>cla.
          result_bind (compile_all eng (chain_id d) (child_command_line_none d)) (\<lambda>cln.
          result_bind (compile_all eng (chain_id d) (child_path_any d)) (\<lambda>pa.
          result_bind (compile_all eng (chain_id d) (child_path_none d)) (\<lambda>pn.
          Inr (seen, snd st @ [\<lparr>cc_definition = d,
             cc_detection_class = meta_detection_class metadata,
             cc_analytic_intent = meta_analytic_intent metadata,
             cc_investigation_fields = meta_investigation_fields metadata,
             cc_falsepositives = meta_falsepositives metadata,
             command_line_any = cla, command_line_none = cln, path_any = pa, path_none = pn,
             cc_dedup_key = key\<rparr>])))))))"

definition standalone_target :: "StandaloneRuleDefinition \<Rightarrow> (ProcessChainError, StandaloneTarget) result" where
  "standalone_target d =
    (if standalone_match d = ''process_name'' then Inr ProcessName
     else if standalone_match d = ''process_path'' then Inr ProcessPath
     else if standalone_match d = ''command_line'' then Inr CommandLine
     else Inl (InvalidMatchTarget (standalone_id d) (standalone_match d)))"

definition compile_standalone_rule ::
  "'r regex_engine \<Rightarrow> ProcessChainPack \<Rightarrow> string set \<times> 'r CompiledStandaloneRule list
    \<Rightarrow> StandaloneRuleDefinition
    \<Rightarrow> (ProcessChainError, string set \<times> 'r CompiledStandaloneRule list) result" where
  "compile_standalone_rule eng pack st d =
    (if \<not> rule_enabled pack (standalone_enabled d) then Inr st
     else result_bind (check_rule pack (fst st) (standalone_id d) (standalone_category d)
            (standalone_severity d) (standalone_confidence d) (standalone_score d)) (\<lambda>(seen, metadata).
       result_bind (standalone_target d) (\<lambda>target.
       result_bind (compile_all eng (standalone_id d) (standalone_patterns d)) (\<lambda>ps.
       result_bind (compile_all eng (standalone_id d) (standalone_exclude d)) (\<lambda>xs.
       Inr (seen, snd st @ [\<lparr>cs_definition = d,
          cs_detection_class = meta_detection_class metadata,
          cs_analytic_intent = meta_analytic_intent metadata,
          cs_investigation_fields = meta_investigation_fields metadata,
          cs_falsepositives = meta_falsepositives metadata,
          cs_patterns = ps, cs_exclude = xs, cs_target = target\<rparr>]))))))"

definition compile_step :: "CorrelationStepDefinition \<Rightarrow> CorrelationStep" where
  "compile_step d = \<lparr>any_category = set (step_any_category d), any_rule_id = set (step_any_rule_id d),
     any_child = set (map normalize_process_name (step_any_child d))\<rparr>"

definition compile_correlation_rule ::
  "ProcessChainPack \<Rightarrow> string set \<times> CompiledCorrelationRule list \<Rightarrow> CorrelationRuleDefinition
    \<Rightarrow> (ProcessChainError, string set \<times> CompiledCorrelationRule list) result" where
  "compile_correlation_rule pack st d =
    (if \<not> rule_enabled pack (correlation_enabled d) then Inr st
     else result_bind (check_rule pack (fst st) (correlation_id d) (correlation_category d)
            (correlation_severity d) (correlation_confidence d) (correlation_score d)) (\<lambda>(seen, metadata).
       if correlation_sequence d = [] then Inl (EmptySequence (correlation_id d))
       else if 2 ^ 63 - 1 < unat (correlation_window_seconds d)
         then Inl (InvalidCorrelationWindow (correlation_id d) (correlation_window_seconds d))
       else Inr (seen, snd st @ [\<lparr>cor_id = correlation_id d, cor_title = correlation_title d,
          cor_category = correlation_category d,
          cor_detection_class = meta_detection_class metadata,
          cor_analytic_intent = meta_analytic_intent metadata,
          cor_severity = correlation_severity d, cor_score = correlation_score d,
          cor_confidence = correlation_confidence d,
          cor_mitre_attack_techniques = correlation_mitre d, cor_reason = correlation_reason d,
          cor_window_seconds = correlation_window_seconds d, cor_entity = correlation_entity d,
          cor_steps = map compile_step (correlation_sequence d),
          cor_falsepositives = meta_falsepositives metadata\<rparr>])))"

definition compile_pack ::
  "'r regex_engine \<Rightarrow> ProcessChainPack \<Rightarrow> (ProcessChainError, 'r CompiledProcessChainRules) result" where
  "compile_pack eng pack =
    result_bind (try_fold (compile_chain_rule eng pack) ({}, []) (pack_rules pack)) (\<lambda>(seen1, chain).
    result_bind (try_fold (compile_standalone_rule eng pack) (seen1, []) (pack_standalone pack)) (\<lambda>(seen2, standalone).
    result_bind (try_fold (compile_correlation_rule pack) (seen2, []) (pack_correlations pack)) (\<lambda>(seen3, cors).
    Inr \<lparr>chain_rules = chain, standalone_rules = standalone, correlations = cors,
         default_risk_entity = defaults_risk_entity (pack_defaults pack),
         default_suppression_window_seconds = defaults_suppression_window_seconds (pack_defaults pack)\<rparr>)))"

definition rule_ids :: "'r CompiledProcessChainRules \<Rightarrow> string list" where
  "rule_ids rules = map (chain_id \<circ> cc_definition) (chain_rules rules)
     @ map (standalone_id \<circ> cs_definition) (standalone_rules rules) @ map cor_id (correlations rules)"


section \<open>Catalogue metadata\<close>

record ProcessChainRuleMetadata =
  md_id :: string
  md_title :: string
  md_reason :: string
  md_category :: string
  md_severity :: string
  md_score :: u64
  md_signal_type :: string
  md_attack_techniques :: "string list"
  md_falsepositives :: "string list"
  md_window_seconds :: "u64 option"
  md_enabled :: bool

definition metadata_falsepositives :: "ProcessChainPack \<Rightarrow> string \<Rightarrow> string list" where
  "metadata_falsepositives pack category =
    (case bt_get category (pack_categories pack) of Some m \<Rightarrow> meta_falsepositives m | None \<Rightarrow> [])"

text \<open>The function parses the embedded pack a second time; the parsed pack is the argument.\<close>

definition bundled_process_chain_metadata ::
  "'r regex_engine \<Rightarrow> ProcessChainPack \<Rightarrow> (ProcessChainError, ProcessChainRuleMetadata list) result" where
  "bundled_process_chain_metadata eng pack =
    result_bind (compile_pack eng pack) (\<lambda>_.
      Inr (map (\<lambda>rule. \<lparr>md_id = chain_id rule, md_title = chain_title rule, md_reason = chain_reason rule,
              md_category = chain_category rule, md_severity = chain_severity rule,
              md_score = chain_score rule, md_signal_type = ''chain'',
              md_attack_techniques = chain_mitre rule,
              md_falsepositives = metadata_falsepositives pack (chain_category rule),
              md_window_seconds = None, md_enabled = rule_enabled pack (chain_enabled rule)\<rparr>)
            (pack_rules pack)
        @ map (\<lambda>rule. \<lparr>md_id = standalone_id rule, md_title = standalone_title rule,
              md_reason = standalone_reason rule, md_category = standalone_category rule,
              md_severity = standalone_severity rule, md_score = standalone_score rule,
              md_signal_type = ''atomic'', md_attack_techniques = standalone_mitre rule,
              md_falsepositives = metadata_falsepositives pack (standalone_category rule),
              md_window_seconds = None, md_enabled = rule_enabled pack (standalone_enabled rule)\<rparr>)
            (pack_standalone pack)
        @ map (\<lambda>rule. \<lparr>md_id = correlation_id rule, md_title = correlation_title rule,
              md_reason = correlation_reason rule, md_category = correlation_category rule,
              md_severity = correlation_severity rule, md_score = correlation_score rule,
              md_signal_type = ''correlation'', md_attack_techniques = correlation_mitre rule,
              md_falsepositives = metadata_falsepositives pack (correlation_category rule),
              md_window_seconds = Some (correlation_window_seconds rule),
              md_enabled = rule_enabled pack (correlation_enabled rule)\<rparr>)
            (pack_correlations pack)))"

section \<open>Conditions of a rule\<close>

fun try_regex_any ::
  "'r regex_engine \<Rightarrow> 'r list \<Rightarrow> string \<Rightarrow> (nat \<Rightarrow> ('s, 'e, unit) comp) \<Rightarrow> ('s, 'e, bool) comp" where
  "try_regex_any eng [] subject charge = ret False"
| "try_regex_any eng (regex # patterns) subject charge =
    cbind (charge (length subject)) (\<lambda>_.
      if regex_is_match eng regex subject then ret True
      else try_regex_any eng patterns subject charge)"

definition try_conditions_hold ::
  "'r regex_engine \<Rightarrow> 'r list \<Rightarrow> 'r list \<Rightarrow> string \<Rightarrow> (nat \<Rightarrow> ('s, 'e, unit) comp) \<Rightarrow> ('s, 'e, bool) comp" where
  "try_conditions_hold eng any none subject charge =
    cbind (charge 1) (\<lambda>_.
    cbind (if any \<noteq> []
           then if subject = [] then ret False else try_regex_any eng any subject charge
           else ret True) (\<lambda>any_holds.
      if \<not> any_holds then ret False
      else cbind (if subject \<noteq> [] then try_regex_any eng none subject charge else ret False)
             (\<lambda>none_hit. ret (\<not> none_hit))))"

definition standalone_subject :: "StandaloneTarget \<Rightarrow> ProcessObservation \<Rightarrow> string option" where
  "standalone_subject target obs =
    (let subject = (case target of
         ProcessName \<Rightarrow> normalized_name (obs_child obs)
       | ProcessPath \<Rightarrow> to_ascii_lowercase (path_text (obs_child obs))
       | CommandLine \<Rightarrow>
           (let child = command_line_text (obs_child obs) in
            if child = [] then command_line_text (obs_parent obs) else child))
     in if subject \<noteq> [] then Some subject else None)"

definition risk_entity_value :: "string \<Rightarrow> ProcessObservation \<Rightarrow> string option" where
  "risk_entity_value entity obs =
    (if entity = ''host'' then obs_host obs
     else if entity = ''user'' then obs_user obs
     else case obs_host obs of Some h \<Rightarrow> Some h | None \<Rightarrow> obs_user obs)"

definition chain_detection ::
  "'r CompiledProcessChainRules \<Rightarrow> 'r CompiledChainRule \<Rightarrow> ProcessObservation \<Rightarrow> ProcessChainDetection" where
  "chain_detection rules rule obs = (let d = cc_definition rule in
    \<lparr>rule_id = chain_id d, rule_name = chain_title d, rule_category = chain_category d,
     detection_class = cc_detection_class rule, signal_type = ''chain'',
     analytic_intent = cc_analytic_intent rule, det_severity = chain_severity d,
     det_score = chain_score d, det_confidence = chain_confidence d,
     mitre_attack_techniques = chain_mitre d, detection_reason = chain_reason d,
     informational = (chain_score d = 0), risk_entity_type = default_risk_entity rules,
     risk_entity = risk_entity_value (default_risk_entity rules) obs,
     investigation_fields = cc_investigation_fields rule, falsepositives = cc_falsepositives rule,
     secondary_rule_ids = [], dedup_key = cc_dedup_key rule,
     suppression_window_seconds = default_suppression_window_seconds rules,
     risk_adjustment = None\<rparr>)"

definition standalone_detection ::
  "'r CompiledProcessChainRules \<Rightarrow> 'r CompiledStandaloneRule \<Rightarrow> ProcessObservation \<Rightarrow> ProcessChainDetection" where
  "standalone_detection rules rule obs = (let d = cs_definition rule in
    \<lparr>rule_id = standalone_id d, rule_name = standalone_title d, rule_category = standalone_category d,
     detection_class = cs_detection_class rule, signal_type = ''atomic'',
     analytic_intent = cs_analytic_intent rule, det_severity = standalone_severity d,
     det_score = standalone_score d, det_confidence = standalone_confidence d,
     mitre_attack_techniques = standalone_mitre d, detection_reason = standalone_reason d,
     informational = (standalone_score d = 0), risk_entity_type = default_risk_entity rules,
     risk_entity = risk_entity_value (default_risk_entity rules) obs,
     investigation_fields = cs_investigation_fields rule, falsepositives = cs_falsepositives rule,
     secondary_rule_ids = [],
     dedup_key = (case cs_target rule of
         CommandLine \<Rightarrow> ''standalone:'' @ standalone_id d
       | _ \<Rightarrow> ''standalone:'' @ standalone_id d @ '':'' @ normalized_name (obs_child obs)),
     suppression_window_seconds = default_suppression_window_seconds rules,
     risk_adjustment = None\<rparr>)"

section \<open>Deduplication\<close>

fun position :: "'a \<Rightarrow> 'a list \<Rightarrow> nat option" where
  "position x [] = None"
| "position x (y # ys) = (if x = y then Some 0 else map_option Suc (position x ys))"

definition severity_rank :: "string \<Rightarrow> nat" where
  "severity_rank sev = (case position sev SEVERITIES of Some i \<Rightarrow> i | None \<Rightarrow> 0)"

definition confidence_rank :: "string \<Rightarrow> nat" where
  "confidence_rank conf = (case position conf CONFIDENCES of Some i \<Rightarrow> i | None \<Rightarrow> 0)"

definition weaken_confidence :: "string \<Rightarrow> string" where
  "weaken_confidence conf = CONFIDENCES ! (confidence_rank conf - 1)"

text \<open>The comparator: score descending, severity rank descending, rule id ascending.\<close>

definition detection_order :: "ProcessChainDetection \<Rightarrow> int \<times> int \<times> string" where
  "detection_order d = (- int (unat (det_score d)), - int (severity_rank (det_severity d)), rule_id d)"

definition collapse_group :: "ProcessChainDetection list \<Rightarrow> ProcessChainDetection option" where
  "collapse_group members =
    (case sort_key detection_order members of
       [] \<Rightarrow> None
     | winner # losers \<Rightarrow> Some (winner\<lparr>
         secondary_rule_ids := sort_dedup (secondary_rule_ids winner @ map rule_id losers),
         mitre_attack_techniques := btree_set (mitre_attack_techniques winner
           @ concat (map mitre_attack_techniques losers))\<rparr>))"

definition deduplicate :: "ProcessChainDetection list \<Rightarrow> ProcessChainDetection list" where
  "deduplicate ds =
    List.map_filter (\<lambda>(key, members). collapse_group members) (bt_group (map (\<lambda>d. (dedup_key d, d)) ds))"

section \<open>False-positive controls\<close>

record ProcessChainContext =
  approved_admin_users :: "string set"
  management_hosts :: "string set"
  approved_rmm_products :: "string set"

definition default_context :: ProcessChainContext where
  "default_context = \<lparr>approved_admin_users = {}, management_hosts = {}, approved_rmm_products = {}\<rparr>"

definition user_is_approved_admin :: "ProcessChainContext \<Rightarrow> string option \<Rightarrow> bool" where
  "user_is_approved_admin ctx user =
    (case user of Some u \<Rightarrow> to_ascii_lowercase u \<in> approved_admin_users ctx | None \<Rightarrow> False)"

definition host_is_management :: "ProcessChainContext \<Rightarrow> string option \<Rightarrow> bool" where
  "host_is_management ctx host =
    (case host of Some h \<Rightarrow> to_ascii_lowercase h \<in> management_hosts ctx | None \<Rightarrow> False)"

definition demoted :: "string \<Rightarrow> string \<times> u64" where
  "demoted sev =
    (if sev = ''critical'' then (''high'', 55)
     else if sev = ''high'' then (''medium'', 40)
     else if sev = ''medium'' then (''low'', 20)
     else (''informational'', 0))"

text \<open>The first control that applies gives the reason.\<close>

definition control_reason ::
  "ProcessChainDetection \<Rightarrow> ProcessObservation \<Rightarrow> ProcessChainContext \<Rightarrow> string option" where
  "control_reason d obs ctx =
    (if user_is_approved_admin ctx (obs_user obs)
        \<and> rule_category d \<in> {''discovery'', ''execution'', ''persistence'', ''lateral_movement''}
        \<and> det_severity d \<noteq> ''critical''
     then Some ''approved administrative user''
     else if host_is_management ctx (obs_host obs)
        \<and> rule_category d \<in> {''lateral_movement'', ''execution'', ''discovery''}
     then Some ''known management server''
     else if rule_category d = ''command_and_control''
        \<and> normalized_name (obs_parent obs) \<in> approved_rmm_products ctx
     then Some ''sanctioned remote management product''
     else if rule_category d = ''command_and_control''
        \<and> normalized_name (obs_child obs) \<in> approved_rmm_products ctx
     then Some ''sanctioned remote management product''
     else None)"

definition apply_context ::
  "ProcessChainDetection \<Rightarrow> ProcessObservation \<Rightarrow> ProcessChainContext \<Rightarrow> bool \<Rightarrow> ProcessChainDetection" where
  "apply_context d obs ctx command_line_gated =
    (if command_line_gated then d
     else case control_reason d obs ctx of
       None \<Rightarrow> d
     | Some reason \<Rightarrow> (let (sev, score) = demoted (det_severity d) in
         d\<lparr>det_severity := sev, det_score := score, informational := (score = 0),
           risk_adjustment := Some reason\<rparr>))"

section \<open>Evaluation of one observation\<close>

type_synonym candidate = "ProcessChainDetection \<times> bool"

definition try_chain_rule ::
  "'r regex_engine \<Rightarrow> 'r CompiledProcessChainRules \<Rightarrow> ProcessObservation \<Rightarrow> (nat \<Rightarrow> ('s, 'e, unit) comp)
    \<Rightarrow> candidate list \<Rightarrow> 'r CompiledChainRule \<Rightarrow> ('s, 'e, candidate list) comp" where
  "try_chain_rule eng rules obs charge acc rule =
    (let parent = normalized_name (obs_parent obs); child = normalized_name (obs_child obs) in
     cbind (charge (usize_saturating_add (length parent) (length child))) (\<lambda>_.
     if chain_parent (cc_definition rule) \<noteq> parent \<or> chain_child (cc_definition rule) \<noteq> child
     then ret acc
     else cbind (try_conditions_hold eng (command_line_any rule) (command_line_none rule)
                  (command_line_text (obs_child obs)) charge) (\<lambda>command_ok.
       if \<not> command_ok then ret acc
       else cbind (try_conditions_hold eng (path_any rule) (path_none rule)
                    (path_text (obs_child obs)) charge) (\<lambda>path_ok.
         if \<not> path_ok then ret acc
         else cbind (charge 1) (\<lambda>_.
           ret (acc @ [(chain_detection rules rule obs, command_line_any rule \<noteq> [])]))))))"

definition try_standalone_rule ::
  "'r regex_engine \<Rightarrow> 'r CompiledProcessChainRules \<Rightarrow> ProcessObservation \<Rightarrow> (nat \<Rightarrow> ('s, 'e, unit) comp)
    \<Rightarrow> candidate list \<Rightarrow> 'r CompiledStandaloneRule \<Rightarrow> ('s, 'e, candidate list) comp" where
  "try_standalone_rule eng rules obs charge acc rule =
    cbind (charge (usize_saturating_add (usize_saturating_add (usize_saturating_add
        (length (proc_name (obs_child obs))) (length (path_text (obs_child obs))))
        (length (command_line_text (obs_child obs)))) (length (command_line_text (obs_parent obs))))) (\<lambda>_.
    case standalone_subject (cs_target rule) obs of
      None \<Rightarrow> ret acc
    | Some subject \<Rightarrow>
        cbind (try_regex_any eng (cs_patterns rule) subject charge) (\<lambda>hit.
        if \<not> hit then ret acc
        else cbind (try_regex_any eng (cs_exclude rule) subject charge) (\<lambda>excluded.
          if excluded then ret acc
          else cbind (charge 1) (\<lambda>_.
            ret (acc @ [(standalone_detection rules rule obs, cs_target rule = CommandLine)])))))"

definition finish_detection ::
  "ProcessObservation \<Rightarrow> ProcessChainContext \<Rightarrow> string set \<Rightarrow> ProcessChainDetection \<Rightarrow> ProcessChainDetection" where
  "finish_detection obs ctx gated d =
    (let d' = apply_context d obs ctx (rule_id d \<in> gated)
     in if parent_inferred obs then d'\<lparr>det_confidence := weaken_confidence (det_confidence d')\<rparr> else d')"

definition try_evaluate_with_context ::
  "'r regex_engine \<Rightarrow> 'r CompiledProcessChainRules \<Rightarrow> ProcessObservation \<Rightarrow> ProcessChainContext
    \<Rightarrow> (nat \<Rightarrow> ('s, 'e, unit) comp) \<Rightarrow> ('s, 'e, ProcessChainDetection list) comp" where
  "try_evaluate_with_context eng rules obs ctx charge =
    cbind (charge (length (proc_name (obs_parent obs)))) (\<lambda>_.
    cbind (charge (length (proc_name (obs_child obs)))) (\<lambda>_.
    cbind (cfold (try_chain_rule eng rules obs charge) [] (chain_rules rules)) (\<lambda>chain_candidates.
    cbind (cfold (try_standalone_rule eng rules obs charge) chain_candidates (standalone_rules rules)) (\<lambda>candidates.
    cbind (charge (length candidates)) (\<lambda>_.
    let gated = set (map (rule_id \<circ> fst) (filter snd candidates)) in
    cbind (cfold (\<lambda>acc d. cbind (charge 1) (\<lambda>_. ret (acc @ [finish_detection obs ctx gated d])))
             [] (deduplicate (map fst candidates))) (\<lambda>ds.
    ret (sort_key rule_id ds)))))))"

text \<open>The charge of \<open>evaluate_with_context\<close> cannot fail; \<open>None\<close> is the panic of its
  \<open>expect\<close>.\<close>

definition evaluate_with_context ::
  "'r regex_engine \<Rightarrow> 'r CompiledProcessChainRules \<Rightarrow> ProcessObservation \<Rightarrow> ProcessChainContext
    \<Rightarrow> ProcessChainDetection list option" where
  "evaluate_with_context eng rules obs ctx =
    (case try_evaluate_with_context eng rules obs ctx (\<lambda>_. (ret () :: (unit, unit, unit) comp)) () of
       (Inr ds, _) \<Rightarrow> Some ds | (Inl _, _) \<Rightarrow> None)"

definition evaluate ::
  "'r regex_engine \<Rightarrow> 'r CompiledProcessChainRules \<Rightarrow> ProcessObservation \<Rightarrow> ProcessChainDetection list option" where
  "evaluate eng rules obs = evaluate_with_context eng rules obs default_context"

section \<open>Reference semantics of the evaluation\<close>

text \<open>What the evaluation computes when the charges are left out.\<close>

definition regex_any :: "'r regex_engine \<Rightarrow> 'r list \<Rightarrow> string \<Rightarrow> bool" where
  "regex_any eng rs subject \<longleftrightarrow> list_ex (\<lambda>r. regex_is_match eng r subject) rs"

definition conditions_hold :: "'r regex_engine \<Rightarrow> 'r list \<Rightarrow> 'r list \<Rightarrow> string \<Rightarrow> bool" where
  "conditions_hold eng any none subject \<longleftrightarrow>
    (any = [] \<or> (subject \<noteq> [] \<and> regex_any eng any subject))
    \<and> \<not> (subject \<noteq> [] \<and> regex_any eng none subject)"

definition chain_rule_fires :: "'r regex_engine \<Rightarrow> ProcessObservation \<Rightarrow> 'r CompiledChainRule \<Rightarrow> bool" where
  "chain_rule_fires eng obs rule \<longleftrightarrow>
    chain_parent (cc_definition rule) = normalized_name (obs_parent obs)
    \<and> chain_child (cc_definition rule) = normalized_name (obs_child obs)
    \<and> conditions_hold eng (command_line_any rule) (command_line_none rule) (command_line_text (obs_child obs))
    \<and> conditions_hold eng (path_any rule) (path_none rule) (path_text (obs_child obs))"

definition standalone_rule_fires ::
  "'r regex_engine \<Rightarrow> ProcessObservation \<Rightarrow> 'r CompiledStandaloneRule \<Rightarrow> bool" where
  "standalone_rule_fires eng obs rule \<longleftrightarrow>
    (case standalone_subject (cs_target rule) obs of
       None \<Rightarrow> False
     | Some subject \<Rightarrow> regex_any eng (cs_patterns rule) subject \<and> \<not> regex_any eng (cs_exclude rule) subject)"

definition fired :: "'r regex_engine \<Rightarrow> 'r CompiledProcessChainRules \<Rightarrow> ProcessObservation \<Rightarrow> candidate list" where
  "fired eng rules obs =
    map (\<lambda>rule. (chain_detection rules rule obs, command_line_any rule \<noteq> []))
      (filter (chain_rule_fires eng obs) (chain_rules rules))
    @ map (\<lambda>rule. (standalone_detection rules rule obs, cs_target rule = CommandLine))
      (filter (standalone_rule_fires eng obs) (standalone_rules rules))"

definition gated_ids :: "candidate list \<Rightarrow> string set" where
  "gated_ids cs = {rule_id d | d. (d, True) \<in> set cs}"

definition evaluation ::
  "'r regex_engine \<Rightarrow> 'r CompiledProcessChainRules \<Rightarrow> ProcessObservation \<Rightarrow> ProcessChainContext
    \<Rightarrow> ProcessChainDetection list" where
  "evaluation eng rules obs ctx = (let cs = fired eng rules obs in
    sort_key rule_id (map (finish_detection obs ctx (gated_ids cs)) (deduplicate (map fst cs))))"

lemma computes_regex_any: "computes (try_regex_any eng rs subject charge) (regex_any eng rs subject)"
  by (induction rs)
    (auto simp: regex_any_def intro!: computes_bind_unit computes_ret)

lemma computes_conditions_hold:
  "computes (try_conditions_hold eng any none subject charge) (conditions_hold eng any none subject)"
proof -
  have any: "computes (if any \<noteq> [] then if subject = [] then ret False else try_regex_any eng any subject charge
      else ret True) (any = [] \<or> (subject \<noteq> [] \<and> regex_any eng any subject))"
    by (auto intro: computes_ret computes_regex_any)
  have none: "computes (if subject \<noteq> [] then try_regex_any eng none subject charge else ret False)
      (subject \<noteq> [] \<and> regex_any eng none subject)"
    by (auto intro: computes_ret computes_regex_any)
  have rest: "computes (cbind (if subject \<noteq> [] then try_regex_any eng none subject charge else ret False)
      (\<lambda>hit. ret (\<not> hit))) (\<not> (subject \<noteq> [] \<and> regex_any eng none subject))"
    by (rule computes_bind [OF none], rule computes_ret)
  show ?thesis
    unfolding try_conditions_hold_def conditions_hold_def
    by (rule computes_bind_unit, rule computes_bind [OF any])
      (use rest in \<open>cases "subject = []"; auto simp: computes_ret\<close>)
qed

lemma computes_chain_rule:
  "computes (try_chain_rule eng rules obs charge acc rule)
    (if chain_rule_fires eng obs rule
     then acc @ [(chain_detection rules rule obs, command_line_any rule \<noteq> [])] else acc)"
  unfolding try_chain_rule_def Let_def chain_rule_fires_def
  by (rule computes_bind_unit)
    (auto intro!: computes_ret computes_bind_unit computes_bind [OF computes_conditions_hold])

lemma computes_standalone_rule:
  "computes (try_standalone_rule eng rules obs charge acc rule)
    (if standalone_rule_fires eng obs rule
     then acc @ [(standalone_detection rules rule obs, cs_target rule = CommandLine)] else acc)"
  unfolding try_standalone_rule_def standalone_rule_fires_def
  by (rule computes_bind_unit)
    (auto split: option.splits intro!: computes_ret computes_bind_unit computes_bind [OF computes_regex_any])

lemma gated_ids_set: "set (map (rule_id \<circ> fst) (filter snd cs)) = gated_ids cs"
  by (force simp: gated_ids_def)

lemma computes_evaluation:
  "computes (try_evaluate_with_context eng rules obs ctx charge) (evaluation eng rules obs ctx)"
proof -
  let ?chain = "foldl (\<lambda>acc rule. if chain_rule_fires eng obs rule
     then acc @ [(chain_detection rules rule obs, command_line_any rule \<noteq> [])] else acc) [] (chain_rules rules)"
  let ?all = "foldl (\<lambda>acc rule. if standalone_rule_fires eng obs rule
     then acc @ [(standalone_detection rules rule obs, cs_target rule = CommandLine)] else acc)
     ?chain (standalone_rules rules)"
  have all: "?all = fired eng rules obs"
    by (simp add: foldl_filter_snoc fired_def)
  let ?step = "\<lambda>acc d. acc @ [finish_detection obs ctx (gated_ids ?all) d]"
  let ?ds = "foldl ?step [] (deduplicate (map fst ?all))"
  have "computes (try_evaluate_with_context eng rules obs ctx charge) (sort_key rule_id ?ds)"
    unfolding try_evaluate_with_context_def gated_ids_set Let_def
    by (intro computes_bind_unit computes_bind [OF computes_cfold [OF computes_chain_rule]]
        computes_bind [OF computes_cfold [OF computes_standalone_rule]]
        computes_bind [OF computes_cfold [of _ _ ?step]] computes_ret)
  then show ?thesis
    by (simp only: all foldl_map_snoc evaluation_def Let_def append_Nil)
qed

lemma completes_regex_any:
  "(\<And>n. completes (charge n)) \<Longrightarrow> completes (try_regex_any eng rs subject charge)"
  by (induction rs) (auto intro!: completes_bind completes_ret)

lemma completes_evaluate:
  assumes "\<And>n. completes (charge n)"
  shows "completes (try_evaluate_with_context eng rules obs ctx charge)"
proof -
  note any = completes_regex_any [of charge, OF assms]
  have cond: "completes (try_conditions_hold eng as ns subject charge)" for as ns subject
    unfolding try_conditions_hold_def by (auto intro!: completes_bind completes_ret assms any)
  have chain: "completes (try_chain_rule eng rules obs charge acc rule)" for acc rule
    unfolding try_chain_rule_def Let_def by (auto intro!: completes_bind completes_ret assms cond)
  have standalone: "completes (try_standalone_rule eng rules obs charge acc rule)" for acc rule
    unfolding try_standalone_rule_def
    by (auto intro!: completes_bind completes_ret assms any split: option.splits)
  show ?thesis
    unfolding try_evaluate_with_context_def Let_def
    by (intro completes_bind completes_cfold completes_ret assms chain standalone)
qed

lemma evaluate_with_context_eq: "evaluate_with_context eng rules obs ctx = Some (evaluation eng rules obs ctx)"
proof -
  obtain t where "try_evaluate_with_context eng rules obs ctx (\<lambda>_. (ret () :: (unit, unit, unit) comp)) ()
      = (Inr (evaluation eng rules obs ctx), t)"
    using completes_computes [OF completes_evaluate [OF completes_ret [of "()"]] computes_evaluation]
    by metis
  then show ?thesis by (simp add: evaluate_with_context_def)
qed

section \<open>Compiled packs\<close>

definition graded :: "string \<Rightarrow> string \<Rightarrow> u64 \<Rightarrow> bool" where
  "graded sev conf score \<longleftrightarrow> sev \<in> set SEVERITIES \<and> conf \<in> set CONFIDENCES
     \<and> fst (score_band sev) \<le> score \<and> score \<le> snd (score_band sev)"

definition chain_rule_ok :: "'r CompiledChainRule \<Rightarrow> bool" where
  "chain_rule_ok r \<longleftrightarrow> (let d = cc_definition r in
     is_canonical_contribution_id (chain_id d) \<and> graded (chain_severity d) (chain_confidence d) (chain_score d))"

definition standalone_rule_ok :: "'r CompiledStandaloneRule \<Rightarrow> bool" where
  "standalone_rule_ok r \<longleftrightarrow> (let d = cs_definition r in
     is_canonical_contribution_id (standalone_id d)
     \<and> graded (standalone_severity d) (standalone_confidence d) (standalone_score d))"

definition correlation_rule_ok :: "CompiledCorrelationRule \<Rightarrow> bool" where
  "correlation_rule_ok c \<longleftrightarrow> is_canonical_contribution_id (cor_id c)
     \<and> graded (cor_severity c) (cor_confidence c) (cor_score c)
     \<and> cor_steps c \<noteq> [] \<and> unat (cor_window_seconds c) < 2 ^ 63"

definition well_formed_rules :: "'r CompiledProcessChainRules \<Rightarrow> bool" where
  "well_formed_rules rules \<longleftrightarrow> distinct (rule_ids rules)
     \<and> list_all chain_rule_ok (chain_rules rules)
     \<and> list_all standalone_rule_ok (standalone_rules rules)
     \<and> list_all correlation_rule_ok (correlations rules)"

text \<open>The invariant of the three compilation loops: the registered ids are those registered
  before the loop and those of the rules it has compiled.\<close>

definition registered :: "('a \<Rightarrow> string) \<Rightarrow> ('a \<Rightarrow> bool) \<Rightarrow> string set \<Rightarrow> string set \<times> 'a list \<Rightarrow> bool" where
  "registered ident ok base st \<longleftrightarrow> fst st = base \<union> ident ` set (snd st)
     \<and> distinct (map ident (snd st)) \<and> base \<inter> ident ` set (snd st) = {} \<and> list_all ok (snd st)"

lemma check_rule_Inr:
  assumes "check_rule pack seen rid category sev conf score = Inr (seen', metadata)"
  shows "seen' = insert rid seen" "rid \<notin> seen" "is_canonical_contribution_id rid"
    "graded sev conf score"
  using assms
  by (auto simp: check_rule_def register_id_def validate_severity_def validate_confidence_def
      validate_score_band_def graded_def result_iffs not_less split: if_splits)

lemma registered_snoc:
  assumes "registered ident ok base st" and "ident x \<notin> fst st" and "ok x"
  shows "registered ident ok base (insert (ident x) (fst st), snd st @ [x])"
  using assms by (auto simp: registered_def)

lemma compile_chain_rule_step:
  assumes "compile_chain_rule eng pack st d = Inr st'"
  shows "if rule_enabled pack (chain_enabled d)
    then \<exists>r. st' = (insert (chain_id d) (fst st), snd st @ [r]) \<and> cc_definition r = d
      \<and> chain_rule_ok r \<and> chain_id d \<notin> fst st
    else st' = st"
  using assms
  by (auto simp: compile_chain_rule_def result_iffs Let_def chain_rule_ok_def dest: check_rule_Inr
      split: if_splits)

lemma compile_standalone_rule_step:
  assumes "compile_standalone_rule eng pack st d = Inr st'"
  shows "if rule_enabled pack (standalone_enabled d)
    then \<exists>r. st' = (insert (standalone_id d) (fst st), snd st @ [r]) \<and> cs_definition r = d
      \<and> standalone_rule_ok r \<and> standalone_id d \<notin> fst st
    else st' = st"
  using assms
  by (auto simp: compile_standalone_rule_def result_iffs Let_def standalone_rule_ok_def
      dest: check_rule_Inr split: if_splits)

lemma compile_correlation_rule_step:
  assumes "compile_correlation_rule pack st d = Inr st'"
  shows "if rule_enabled pack (correlation_enabled d)
    then \<exists>r. st' = (insert (correlation_id d) (fst st), snd st @ [r]) \<and> cor_id r = correlation_id d
      \<and> correlation_rule_ok r \<and> correlation_id d \<notin> fst st
    else st' = st"
  using assms
  by (auto simp: compile_correlation_rule_def result_iffs correlation_rule_ok_def not_less
      dest: check_rule_Inr split: if_splits)

text \<open>One induction for the three loops.\<close>

lemma compile_loop:
  assumes run: "try_fold f (base, []) ds = Inr st"
    and step: "\<And>s d s'. f s d = Inr s' \<Longrightarrow>
      if en d then \<exists>r. s' = (insert (did d) (fst s), snd s @ [r]) \<and> back r = proj d \<and> ident r = did d
        \<and> ok r \<and> did d \<notin> fst s
      else s' = s"
  shows "registered ident ok base st \<and> map back (snd st) = map proj (filter en ds)"
proof -
  have "registered ident ok base st \<and> map back (snd st) = pre @ map proj (filter en ds)"
    if "try_fold f s ds = Inr st" "registered ident ok base s" "map back (snd s) = pre" for s pre
    using that
  proof (induction ds arbitrary: s pre)
    case (Cons d ds)
    from Cons.prems(1) obtain s' where f: "f s d = Inr s'" and rest: "try_fold f s' ds = Inr st"
      by (auto simp: result_iffs)
    show ?case
    proof (cases "en d")
      case True
      with step [OF f] obtain r where r: "s' = (insert (ident r) (fst s), snd s @ [r])" "back r = proj d"
          "ok r" "ident r \<notin> fst s" by auto
      then have "registered ident ok base s'" using Cons.prems(2) by (simp add: registered_snoc)
      then show ?thesis using Cons.IH [OF rest, of "pre @ [proj d]"] r Cons.prems(3) True by simp
    next
      case False
      with step [OF f] Cons.IH [OF rest] Cons.prems(2,3) show ?thesis by simp
    qed
  qed simp
  from this [OF run, of "[]"] show ?thesis by (simp add: registered_def)
qed

lemma compile_pack_wf:
  assumes "compile_pack eng pack = Inr rules"
  shows "well_formed_rules rules"
    and "map cc_definition (chain_rules rules) = filter (rule_enabled pack \<circ> chain_enabled) (pack_rules pack)"
    and "map cs_definition (standalone_rules rules)
      = filter (rule_enabled pack \<circ> standalone_enabled) (pack_standalone pack)"
    and "map cor_id (correlations rules)
      = map correlation_id (filter (rule_enabled pack \<circ> correlation_enabled) (pack_correlations pack))"
proof -
  from assms obtain seen1 chain seen2 standalone seen3 cors where
    c: "try_fold (compile_chain_rule eng pack) ({}, []) (pack_rules pack) = Inr (seen1, chain)" and
    s: "try_fold (compile_standalone_rule eng pack) (seen1, []) (pack_standalone pack) = Inr (seen2, standalone)" and
    k: "try_fold (compile_correlation_rule pack) (seen2, []) (pack_correlations pack) = Inr (seen3, cors)" and
    r: "chain_rules rules = chain" "standalone_rules rules = standalone" "correlations rules = cors"
    by (auto simp: compile_pack_def result_iffs)
  have C: "registered (chain_id \<circ> cc_definition) chain_rule_ok {} (seen1, chain)
      \<and> map cc_definition (snd (seen1, chain)) = map (\<lambda>d. d) (filter (rule_enabled pack \<circ> chain_enabled) (pack_rules pack))"
    by (rule compile_loop [OF c, where did = chain_id]) (use compile_chain_rule_step in \<open>fastforce split: if_splits\<close>)
  have S: "registered (standalone_id \<circ> cs_definition) standalone_rule_ok seen1 (seen2, standalone)
      \<and> map cs_definition (snd (seen2, standalone))
        = map (\<lambda>d. d) (filter (rule_enabled pack \<circ> standalone_enabled) (pack_standalone pack))"
    by (rule compile_loop [OF s, where did = standalone_id])
      (use compile_standalone_rule_step in \<open>fastforce split: if_splits\<close>)
  have K: "registered cor_id correlation_rule_ok seen2 (seen3, cors)
      \<and> map cor_id (snd (seen3, cors))
        = map correlation_id (filter (rule_enabled pack \<circ> correlation_enabled) (pack_correlations pack))"
    by (rule compile_loop [OF k, where did = correlation_id])
      (use compile_correlation_rule_step in \<open>fastforce split: if_splits\<close>)
  have "distinct (rule_ids rules)"
    using C [THEN conjunct1] S [THEN conjunct1] K [THEN conjunct1]
    unfolding rule_ids_def r registered_def by (auto simp: image_comp)
  with C S K show "well_formed_rules rules"
    by (simp add: well_formed_rules_def r registered_def)
  show "map cc_definition (chain_rules rules) = filter (rule_enabled pack \<circ> chain_enabled) (pack_rules pack)"
    "map cs_definition (standalone_rules rules)
      = filter (rule_enabled pack \<circ> standalone_enabled) (pack_standalone pack)"
    "map cor_id (correlations rules)
      = map correlation_id (filter (rule_enabled pack \<circ> correlation_enabled) (pack_correlations pack))"
    using C S K r by simp_all
qed

section \<open>Deduplication\<close>

definition with_key :: "string \<Rightarrow> ProcessChainDetection list \<Rightarrow> ProcessChainDetection list" where
  "with_key k ds = filter (\<lambda>d. dedup_key d = k) ds"

text \<open>\<open>w\<close> stands for the group \<open>ds\<close>: it is a member of greatest score that carries the ids and
  techniques of all members.\<close>

definition stands_for :: "ProcessChainDetection \<Rightarrow> ProcessChainDetection list \<Rightarrow> bool" where
  "stands_for w ds \<longleftrightarrow>
    (\<exists>d \<in> set ds. w = d\<lparr>secondary_rule_ids := secondary_rule_ids w,
        mitre_attack_techniques := mitre_attack_techniques w\<rparr>)
    \<and> (\<forall>d \<in> set ds. det_score d \<le> det_score w)
    \<and> insert (rule_id w) (set (secondary_rule_ids w)) = rule_id ` set ds
    \<and> set (mitre_attack_techniques w) = (\<Union>d \<in> set ds. set (mitre_attack_techniques d))"

lemma detection_order_score:
  "detection_order d \<le> detection_order e \<Longrightarrow> det_score e \<le> det_score d"
  by (auto simp: detection_order_def less_eq_prod_def word_le_def)

lemma collapse_group_stands_for:
  assumes "ds \<noteq> []" and fresh: "\<And>d. d \<in> set ds \<Longrightarrow> secondary_rule_ids d = []"
  obtains w where "collapse_group ds = Some w" "stands_for w ds"
proof -
  from assms(1) obtain winner losers where s: "sort_key detection_order ds = winner # losers"
    by (metis list.exhaust length_0_conv length_sort)
  let ?w = "winner\<lparr>
         secondary_rule_ids := sort_dedup (secondary_rule_ids winner @ map rule_id losers),
         mitre_attack_techniques := btree_set (mitre_attack_techniques winner
           @ concat (map mitre_attack_techniques losers))\<rparr>"
  note members = sort_key_eq_Cons [OF s]
  have w: "collapse_group ds = Some ?w" by (simp add: collapse_group_def s)
  have "secondary_rule_ids winner = []" using fresh members(1) by simp
  then have "stands_for ?w ds"
    using members(1) detection_order_score [OF members(2)] by (simp add: stands_for_def)
  with w show ?thesis by (rule that)
qed

lemma collapse_group_key:
  assumes "collapse_group ds = Some w" and "\<And>d. d \<in> set ds \<Longrightarrow> dedup_key d = k"
  shows "dedup_key w = k"
proof -
  from assms(1) obtain winner losers where s: "sort_key detection_order ds = winner # losers"
      and w: "dedup_key w = dedup_key winner"
    by (auto simp: collapse_group_def split: list.splits)
  then show ?thesis using assms(2) sort_key_eq_Cons(1) [OF s] by simp
qed

lemma collapse_group_None_iff [simp]: "collapse_group ds = None \<longleftrightarrow> ds = []"
proof
  assume "collapse_group ds = None"
  then have "sort_key detection_order ds = []" by (simp add: collapse_group_def split: list.splits)
  then show "ds = []" by (metis length_0_conv length_sort)
qed (simp add: collapse_group_def)

lemma with_key_empty_iff: "with_key k ds = [] \<longleftrightarrow> k \<notin> dedup_key ` set ds"
  by (auto simp: with_key_def filter_empty_conv)

lemma deduplicate_eq:
  "deduplicate ds = map (\<lambda>k. the (collapse_group (with_key k ds))) (sorted_list_of_set (dedup_key ` set ds))"
proof -
  let ?K = "sorted_list_of_set (dedup_key ` set ds)"
  have groups: "bt_group (map (\<lambda>d. (dedup_key d, d)) ds) = map (\<lambda>k. (k, with_key k ds)) ?K"
    by (simp add: bt_group_eq with_key_def filter_map comp_def image_image)
  have "filter (\<lambda>k. with_key k ds \<noteq> []) ?K = ?K"
    by (rule filter_True) (simp add: with_key_empty_iff)
  then show ?thesis
    by (simp add: deduplicate_def groups List.map_filter_def filter_map comp_def del: not_None_eq)
qed

lemma deduplicate_keys: "map dedup_key (deduplicate ds) = sorted_list_of_set (dedup_key ` set ds)"
proof -
  have "dedup_key (the (collapse_group (with_key k ds))) = k" if "k \<in> dedup_key ` set ds" for k
  proof -
    have "collapse_group (with_key k ds) \<noteq> None" using that by (simp add: with_key_empty_iff)
    then obtain w where "collapse_group (with_key k ds) = Some w" by blast
    moreover from this have "dedup_key w = k" by (rule collapse_group_key) (simp add: with_key_def)
    ultimately show ?thesis by simp
  qed
  then show ?thesis by (auto simp: deduplicate_eq intro!: map_idI)
qed

lemma deduplicate_stands_for:
  assumes "w \<in> set (deduplicate ds)" and "\<And>d. d \<in> set ds \<Longrightarrow> secondary_rule_ids d = []"
  shows "stands_for w (with_key (dedup_key w) ds)"
proof -
  from assms(1) obtain k where k: "k \<in> dedup_key ` set ds" and w: "w = the (collapse_group (with_key k ds))"
    by (auto simp: deduplicate_eq)
  have fresh: "secondary_rule_ids d = []" if "d \<in> set (with_key k ds)" for d
    using assms(2) that by (simp add: with_key_def)
  have "with_key k ds \<noteq> []" using k by (simp add: with_key_empty_iff)
  then obtain w' where w': "collapse_group (with_key k ds) = Some w'" and st: "stands_for w' (with_key k ds)"
    using collapse_group_stands_for fresh by blast
  have "dedup_key w' = k" by (rule collapse_group_key [OF w']) (simp add: with_key_def)
  with w w' st show ?thesis by simp
qed

lemma deduplicate_member:
  assumes "w \<in> set (deduplicate ds)" and "\<And>d. d \<in> set ds \<Longrightarrow> secondary_rule_ids d = []"
  obtains d where "d \<in> set ds" "w = d\<lparr>secondary_rule_ids := secondary_rule_ids w,
        mitre_attack_techniques := mitre_attack_techniques w\<rparr>"
  using deduplicate_stands_for [OF assms] by (auto simp: stands_for_def with_key_def)

section \<open>Fired rules and their grading\<close>

definition detection_graded :: "ProcessChainDetection \<Rightarrow> bool" where
  "detection_graded d \<longleftrightarrow> graded (det_severity d) (det_confidence d) (det_score d)
     \<and> informational d = (det_score d = 0)"

lemma fired_fresh: "d \<in> set (map fst (fired eng rules obs)) \<Longrightarrow> secondary_rule_ids d = []"
  by (auto simp: fired_def chain_detection_def standalone_detection_def Let_def)

lemma fired_unadjusted: "d \<in> set (map fst (fired eng rules obs)) \<Longrightarrow> risk_adjustment d = None"
  by (auto simp: fired_def chain_detection_def standalone_detection_def Let_def)

lemma fired_graded:
  assumes "well_formed_rules rules" and "d \<in> set (map fst (fired eng rules obs))"
  shows "detection_graded d"
  using assms
  by (auto simp: fired_def chain_detection_def standalone_detection_def Let_def detection_graded_def
      well_formed_rules_def chain_rule_ok_def standalone_rule_ok_def list_all_iff)

lemma deduplicate_graded:
  assumes "well_formed_rules rules" and "w \<in> set (deduplicate (map fst (fired eng rules obs)))"
  shows "detection_graded w" and "risk_adjustment w = None"
proof -
  obtain d where d: "d \<in> set (map fst (fired eng rules obs))"
      and w: "w = d\<lparr>secondary_rule_ids := secondary_rule_ids w, mitre_attack_techniques := mitre_attack_techniques w\<rparr>"
    using deduplicate_member [OF assms(2) fired_fresh] .
  have "detection_graded (d\<lparr>secondary_rule_ids := ss, mitre_attack_techniques := ts\<rparr>)" for ss ts
    using fired_graded [OF assms(1) d] by (simp add: detection_graded_def)
  then show "detection_graded w" by (subst w)
  have "risk_adjustment (d\<lparr>secondary_rule_ids := ss, mitre_attack_techniques := ts\<rparr>) = None" for ss ts
    using fired_unadjusted [OF d] by simp
  then show "risk_adjustment w = None" by (subst w)
qed

section \<open>Controls lower risk and drop nothing\<close>

lemma demoted_graded:
  assumes "graded sev conf score" and "demoted sev = (sev', score')"
  shows "graded sev' conf score'" "score' \<le> score"
  using assms
  by (auto simp: graded_def demoted_def SEVERITIES_def score_band_def word_le_def split: if_splits)

lemma weaken_confidence_valid: "weaken_confidence conf \<in> set CONFIDENCES"
  by (auto simp: weaken_confidence_def confidence_rank_def CONFIDENCES_def)

text \<open>\<open>softens b w\<close>: \<open>w\<close> is \<open>b\<close>, or \<open>b\<close> moved to a lower score with the reason recorded.\<close>

definition softens :: "ProcessChainDetection \<Rightarrow> ProcessChainDetection \<Rightarrow> bool" where
  "softens b w \<longleftrightarrow> w = b \<or>
    (\<exists>sev score reason. score \<le> det_score b
      \<and> w = b\<lparr>det_severity := sev, det_score := score, informational := (score = 0),
              risk_adjustment := Some reason\<rparr>)"

lemma apply_context_softens:
  assumes "detection_graded d"
  shows "softens d (apply_context d obs ctx gated) \<and> detection_graded (apply_context d obs ctx gated)"
proof (cases "gated \<or> control_reason d obs ctx = None")
  case True
  then have "apply_context d obs ctx gated = d" by (auto simp: apply_context_def)
  then show ?thesis using assms by (simp add: softens_def)
next
  case False
  then obtain reason where r: "control_reason d obs ctx = Some reason" and g: "\<not> gated" by blast
  obtain sev score where dem: "demoted (det_severity d) = (sev, score)" by (cases "demoted (det_severity d)")
  have d: "apply_context d obs ctx gated
      = d\<lparr>det_severity := sev, det_score := score, informational := (score = 0), risk_adjustment := Some reason\<rparr>"
    by (simp add: apply_context_def g r dem)
  have "graded (det_severity d) (det_confidence d) (det_score d)" using assms by (simp add: detection_graded_def)
  from demoted_graded [OF this dem] show ?thesis
    unfolding d softens_def by (auto simp: detection_graded_def)
qed

lemma apply_context_default: "apply_context d obs default_context gated = d"
  by (simp add: apply_context_def control_reason_def default_context_def user_is_approved_admin_def
      host_is_management_def split: option.splits)

lemma finish_detection_id [simp]: "rule_id (finish_detection obs ctx gated d) = rule_id d"
  by (simp add: finish_detection_def apply_context_def Let_def split: option.splits prod.splits)

lemma finish_detection_softens:
  assumes "detection_graded d"
  shows "softens (finish_detection obs default_context gated d) (finish_detection obs ctx gated d)"
    and "detection_graded (finish_detection obs ctx gated d)"
    and "rule_id d \<in> gated \<Longrightarrow> finish_detection obs ctx gated d = finish_detection obs default_context gated d"
proof -
  show "rule_id d \<in> gated \<Longrightarrow> finish_detection obs ctx gated d = finish_detection obs default_context gated d"
    by (simp add: finish_detection_def apply_context_def)
  show "detection_graded (finish_detection obs ctx gated d)"
    using apply_context_softens [OF assms, of obs ctx "rule_id d \<in> gated"] weaken_confidence_valid
    by (auto simp: finish_detection_def Let_def detection_graded_def graded_def)
  have inferred: "softens (b\<lparr>det_confidence := weaken_confidence (det_confidence b)\<rparr>)
      (w\<lparr>det_confidence := weaken_confidence (det_confidence w)\<rparr>)" if "softens b w" for b w
  proof (cases "w = b")
    case False
    with that obtain sev score reason where "score \<le> det_score b" and
      "w = b\<lparr>det_severity := sev, det_score := score, informational := (score = 0),
              risk_adjustment := Some reason\<rparr>" by (auto simp: softens_def)
    then show ?thesis
      unfolding softens_def
      by (intro disjI2 exI [of _ sev] exI [of _ score] exI [of _ reason]) simp
  qed (simp add: softens_def)
  show "softens (finish_detection obs default_context gated d) (finish_detection obs ctx gated d)"
    using apply_context_softens [OF assms, of obs ctx "rule_id d \<in> gated"] inferred
    by (simp add: finish_detection_def Let_def apply_context_default)
qed

section \<open>The rules as a whole\<close>

lemma evaluation_eq:
  "evaluation eng rules obs ctx =
    map (finish_detection obs ctx (gated_ids (fired eng rules obs)))
      (sort_key rule_id (deduplicate (map fst (fired eng rules obs))))"
proof -
  have "rule_id \<circ> finish_detection obs ctx G = rule_id" for G by auto
  then show ?thesis by (simp add: evaluation_def Let_def sort_key_map)
qed

lemma finish_detection_keeps:
  "dedup_key (finish_detection obs ctx G d) = dedup_key d"
  "secondary_rule_ids (finish_detection obs ctx G d) = secondary_rule_ids d"
  "mitre_attack_techniques (finish_detection obs ctx G d) = mitre_attack_techniques d"
  by (simp_all add: finish_detection_def apply_context_def Let_def split: option.splits prod.splits)

lemma dedup_covers:
  assumes "\<And>d. d \<in> set ds \<Longrightarrow> secondary_rule_ids d = []"
  shows "(\<Union>w \<in> set (deduplicate ds). insert (rule_id w) (set (secondary_rule_ids w))) = rule_id ` set ds"
proof -
  let ?D = "set (deduplicate ds)"
  have each: "insert (rule_id w) (set (secondary_rule_ids w)) = rule_id ` set (with_key (dedup_key w) ds)"
    if "w \<in> ?D" for w
    using deduplicate_stands_for [OF that assms] by (simp add: stands_for_def)
  have keys: "dedup_key ` ?D = dedup_key ` set ds"
    using arg_cong [OF deduplicate_keys [of ds], of set] by simp
  have "(\<Union>w \<in> ?D. insert (rule_id w) (set (secondary_rule_ids w)))
      = (\<Union>k \<in> dedup_key ` ?D. rule_id ` set (with_key k ds))"
    using each by simp
  also have "\<dots> = rule_id ` set ds" unfolding keys by (auto simp: with_key_def)
  finally show ?thesis .
qed

lemma fired_rule_ids:
  "rule_id ` set (map fst (fired eng rules obs))
    = (chain_id \<circ> cc_definition) ` {r \<in> set (chain_rules rules). chain_rule_fires eng obs r}
      \<union> (standalone_id \<circ> cs_definition) ` {r \<in> set (standalone_rules rules). standalone_rule_fires eng obs r}"
  by (auto simp: fired_def chain_detection_def standalone_detection_def Let_def image_image image_Un)

text \<open>C28. A pack that compiles gives rules with pairwise distinct, canonical ids, a known
  severity and confidence, a score inside the band of the severity, and correlation rules with a
  non-empty sequence and a window that fits a signed 64-bit number of seconds. The compiled rules
  are the enabled rules of the pack, all of them and in the order of the pack.\<close>

theorem compile_pack_sound:
  assumes "compile_pack eng pack = Inr rules"
  shows "distinct (rule_ids rules)
    \<and> list_all chain_rule_ok (chain_rules rules)
    \<and> list_all standalone_rule_ok (standalone_rules rules)
    \<and> list_all correlation_rule_ok (correlations rules)
    \<and> rule_ids rules = map chain_id (filter (rule_enabled pack \<circ> chain_enabled) (pack_rules pack))
        @ map standalone_id (filter (rule_enabled pack \<circ> standalone_enabled) (pack_standalone pack))
        @ map correlation_id (filter (rule_enabled pack \<circ> correlation_enabled) (pack_correlations pack))"
proof -
  note wf = compile_pack_wf [OF assms]
  have "map (chain_id \<circ> cc_definition) (chain_rules rules) = map chain_id (map cc_definition (chain_rules rules))"
    "map (standalone_id \<circ> cs_definition) (standalone_rules rules)
      = map standalone_id (map cs_definition (standalone_rules rules))" by simp_all
  with wf show ?thesis unfolding well_formed_rules_def rule_ids_def by simp
qed

text \<open>C19. The charge closure cannot change a verdict: whatever it counts and whenever it stops
  the evaluation, an evaluation that finishes returns what the uncharged
  \<open>evaluate_with_context\<close> returns, and that one never panics.\<close>

theorem evaluate_charge_independent:
  assumes "try_evaluate_with_context eng rules obs ctx charge s = (Inr ds, s')"
  shows "evaluate_with_context eng rules obs ctx = Some ds"
  using computesD [OF computes_evaluation assms] by (simp add: evaluate_with_context_eq)

text \<open>C10. Deduplication loses nothing: there is one detection per deduplication key, in key order,
  each of them a candidate of greatest score under its key whose secondary ids and techniques are
  exactly those of all candidates with that key.\<close>

theorem deduplicate_conserves:
  assumes "list_all (\<lambda>d. secondary_rule_ids d = []) ds"
  shows "map dedup_key (deduplicate ds) = sorted_list_of_set (dedup_key ` set ds)
    \<and> list_all (\<lambda>w. stands_for w (filter (\<lambda>d. dedup_key d = dedup_key w) ds)) (deduplicate ds)"
  using assms deduplicate_stands_for [of _ ds]
  by (auto simp: list_all_iff deduplicate_keys with_key_def)

text \<open>C26. The rule ids that an evaluation reports, as winners or as secondary ids, are exactly the
  ids of the rules that fire on the observation, whatever the deployment's controls are.\<close>

theorem evaluate_reports_fired:
  "\<exists>ds. evaluate_with_context eng rules obs ctx = Some ds
    \<and> sorted (map rule_id ds)
    \<and> (\<Union>d \<in> set ds. insert (rule_id d) (set (secondary_rule_ids d)))
      = (chain_id \<circ> cc_definition) ` {r \<in> set (chain_rules rules). chain_rule_fires eng obs r}
        \<union> (standalone_id \<circ> cs_definition) ` {r \<in> set (standalone_rules rules). standalone_rule_fires eng obs r}"
proof -
  have "rule_id \<circ> finish_detection obs ctx G = rule_id" for G by auto
  then have "sorted (map rule_id (evaluation eng rules obs ctx))"
    by (simp add: evaluation_eq)
  moreover have "(\<Union>d \<in> set (evaluation eng rules obs ctx). insert (rule_id d) (set (secondary_rule_ids d)))
      = rule_id ` set (map fst (fired eng rules obs))"
    using dedup_covers [of "map fst (fired eng rules obs)", OF fired_fresh] by (simp add: evaluation_eq finish_detection_keeps)
  ultimately show ?thesis
    unfolding evaluate_with_context_eq fired_rule_ids by blast
qed

text \<open>C7. The deployment's controls only soften. With the rules of a pack that compiles, an
  evaluation with controls reports the same detections in the same order as one without; each is
  unchanged, or has a score that is no higher and the reason recorded, and all other fields as
  before. A winner whose own rule is gated on the command line is never changed.\<close>

theorem controls_only_soften:
  assumes "compile_pack eng pack = Inr rules"
    and "evaluate_with_context eng rules obs ctx = Some softened"
    and "evaluate eng rules obs = Some plain"
  shows "list_all2 softens plain softened
    \<and> list_all2 (\<lambda>b w. rule_id b \<in> gated_ids (fired eng rules obs) \<longrightarrow> w = b) plain softened"
proof -
  let ?ds = "sort_key rule_id (deduplicate (map fst (fired eng rules obs)))"
  let ?G = "gated_ids (fired eng rules obs)"
  have p: "plain = map (finish_detection obs default_context ?G) ?ds"
    and s: "softened = map (finish_detection obs ctx ?G) ?ds"
    using assms(2,3) by (simp_all add: evaluate_def evaluate_with_context_eq evaluation_eq)
  have "detection_graded d" if "d \<in> set ?ds" for d
    using that deduplicate_graded(1) [OF compile_pack_wf(1) [OF assms(1)]] by simp
  then show ?thesis
    unfolding p s list_all2_map1 list_all2_map2
    by (intro conjI list.rel_refl_strong impI finish_detection_softens) simp_all
qed

text \<open>C27. Every detection that an evaluation emits for a compiled pack is graded consistently: a
  known severity and confidence, a score inside the band of the severity that is reported, and the
  informational flag exactly on a zero score, also after a control has moved it to another band. No
  two detections of an observation share a deduplication key.\<close>

theorem evaluate_graded:
  assumes "compile_pack eng pack = Inr rules"
    and "evaluate_with_context eng rules obs ctx = Some ds"
  shows "list_all detection_graded ds \<and> distinct (map dedup_key ds)"
proof -
  let ?D = "deduplicate (map fst (fired eng rules obs))"
  have ds: "ds = map (finish_detection obs ctx (gated_ids (fired eng rules obs))) (sort_key rule_id ?D)"
    using assms(2) by (simp add: evaluate_with_context_eq evaluation_eq)
  have "distinct (map dedup_key ?D)" by (simp add: deduplicate_keys)
  then have "distinct (map dedup_key (sort_key rule_id ?D))" by (simp add: distinct_map)
  then have "distinct (map dedup_key ds)"
    unfolding ds by (simp add: comp_def finish_detection_keeps)
  moreover have "list_all detection_graded ds"
    using deduplicate_graded(1) [OF compile_pack_wf(1) [OF assms(1)]] finish_detection_softens(2)
    by (auto simp: ds list_all_iff)
  ultimately show ?thesis by blast
qed

text \<open>A normalised process name is one path component in lower case: it has no separator, no dot,
  no dash and no ASCII capital.\<close>

theorem normalized_name_chars:
  "list_all (\<lambda>c. c \<notin> {CHR ''/'', CHR 0x5C, CHR ''.'', CHR ''-''} \<and> \<not> is_ascii_uppercase c)
     (normalize_process_name raw)"
proof -
  let ?sep = "\<lambda>c. c = CHR 0x5C \<or> c = CHR ''/''"
  let ?pieces = "split_on ?sep (trim (trim_matches (\<lambda>c. c = CHR 0x22 \<or> c = CHR 0x27) (trim raw)))"
  let ?base = "trim (last ?pieces)"
  have base: "\<not> ?sep c" if "c \<in> set ?base" for c
  proof -
    have "c \<in> set (last ?pieces)" using that set_trim_subset by (rule subsetD [rotated])
    then show ?thesis by (rule split_on_last)
  qed
  have low: "\<not> ?sep c \<and> \<not> is_ascii_uppercase c" if "c \<in> set (to_ascii_lowercase ?base)" for c
  proof -
    from that obtain b where b: "b \<in> set ?base" and c: "c = ascii_lower b"
      by (auto simp: to_ascii_lowercase_def)
    have "c = b" if "?sep c"
      unfolding c by (rule ascii_lower_other) (use that c in \<open>auto simp: is_ascii_lowercase_def byte_def\<close>)
    then show ?thesis using base [OF b] ascii_lower_not_upper [of b] c by auto
  qed
  define stem where "stem = (case strip_suffix ''.exe'' (to_ascii_lowercase ?base) of
      Some s \<Rightarrow> s | None \<Rightarrow> to_ascii_lowercase ?base)"
  have "set stem \<subseteq> set (to_ascii_lowercase ?base)"
    by (auto simp: stem_def strip_suffix_def split: option.splits if_splits dest: in_set_takeD)
  then have "\<forall>c \<in> set stem. \<not> ?sep c \<and> \<not> is_ascii_uppercase c" using low by blast
  moreover have "normalize_process_name raw = map (\<lambda>c. if c = CHR ''.'' \<or> c = CHR ''-'' then CHR ''_'' else c) stem"
    by (simp only: normalize_process_name_def Let_def stem_def)
  moreover have "\<not> is_ascii_uppercase (CHR ''_'')" by (simp add: is_ascii_uppercase_def byte_def)
  ultimately show ?thesis by (auto simp: list_all_iff)
qed

section \<open>A sample deployment\<close>

text \<open>Patterns without metacharacters: a compiled pattern is the literal inside \<open>(?i:...)\<close>.\<close>

definition literal_engine :: "string regex_engine" where
  "literal_engine = \<lparr>regex_new = (\<lambda>p. Inr (take (length p - 5) (drop 4 p))),
     regex_is_match = (\<lambda>r s. split_once r s \<noteq> None)\<rparr>"

definition sample_chain :: "string \<Rightarrow> string \<Rightarrow> u64 \<Rightarrow> string list \<Rightarrow> ChainRuleDefinition" where
  "sample_chain i sev score gate = \<lparr>chain_id = i, chain_title = ''office spawns shell'',
     chain_category = ''execution'', chain_severity = sev, chain_score = score,
     chain_confidence = ''high'', chain_parent = ''winword'', chain_child = ''powershell'',
     chain_mitre = [''T1059''], chain_reason = ''document launched a shell'',
     child_command_line_any = gate, child_command_line_none = [], child_path_any = [],
     child_path_none = [], source_severity = None, chain_enabled = None, chain_dedup_key = None\<rparr>"

definition sample_pack :: ProcessChainPack where
  "sample_pack = \<lparr>pack_version = 1, pack_description = ''sample'',
     pack_defaults = \<lparr>defaults_enabled = True, defaults_risk_entity = ''host'',
       defaults_suppression_window_seconds = 300\<rparr>,
     pack_categories = [(''execution'', \<lparr>meta_detection_class = ''process'', meta_analytic_intent = ''detect'',
       meta_investigation_fields = [], meta_falsepositives = []\<rparr>)],
     pack_rules = [sample_chain ''chain.office'' ''high'' 60 [],
                   sample_chain ''chain.office_encoded'' ''medium'' 45 [''-enc'']],
     pack_standalone = [], pack_correlations = []\<rparr>"

definition sample_compiled :: "ChainRuleDefinition \<Rightarrow> string CompiledChainRule" where
  "sample_compiled d = \<lparr>cc_definition = d, cc_detection_class = ''process'', cc_analytic_intent = ''detect'',
     cc_investigation_fields = [], cc_falsepositives = [], command_line_any = child_command_line_any d,
     command_line_none = [], path_any = [], path_none = [], cc_dedup_key = ''chain:winword>powershell''\<rparr>"

definition sample_rules :: "string CompiledProcessChainRules" where
  "sample_rules = \<lparr>chain_rules = map sample_compiled (pack_rules sample_pack), standalone_rules = [],
     correlations = [], default_risk_entity = ''host'', default_suppression_window_seconds = 300\<rparr>"

definition sample_process :: "string \<Rightarrow> string \<Rightarrow> ProcessRef" where
  "sample_process name cmd = \<lparr>proc_name = name, proc_path = None, proc_pid = None,
     proc_command_line = Some cmd\<rparr>"

definition sample_observation :: ProcessObservation where
  "sample_observation = \<lparr>obs_parent = sample_process ''winword.exe'' ''winword'',
     obs_child = sample_process ''powershell.exe'' ''powershell -enc AAAA'', obs_grandparent = None,
     obs_host = Some ''desk-1'', obs_user = Some ''admin'', obs_timestamp = None,
     obs_source_event_id = None, parent_inferred = False\<rparr>"

definition sample_context :: ProcessChainContext where
  "sample_context = \<lparr>approved_admin_users = {''admin''}, management_hosts = {}, approved_rmm_products = {}\<rparr>"

lemma sample_names:
  "normalize_process_name ''winword'' = ''winword''" "normalize_process_name ''powershell'' = ''powershell''"
  "normalize_process_name ''winword.exe'' = ''winword''" "normalize_process_name ''powershell.exe'' = ''powershell''"
  by (simp_all add: normalize_process_name_def split_on_eval trim_id trim_matches_def strip_suffix_def suffix_def rust_simps
      Let_def del: split_on.simps(2))

lemma sample_ids:
  "is_canonical_contribution_id ''chain.office''" "is_canonical_contribution_id ''chain.office_encoded''"
  by (simp_all add: is_canonical_contribution_id_def split_on_eval id_component_char_def rust_simps
      del: split_on.simps(2))

lemma sample_compiles: "compile_pack literal_engine sample_pack = Inr sample_rules"
  by (simp add: compile_pack_def sample_pack_def compile_chain_rule_def rule_enabled_def sample_chain_def
      check_rule_def register_id_def sample_ids category_metadata_def bt_get_def validate_severity_def
      validate_confidence_def validate_score_band_def SEVERITIES_def CONFIDENCES_def score_band_def
      compile_all_def literal_engine_def sample_names sample_rules_def sample_compiled_def Let_def)

lemma sample_fires:
  "chain_rule_fires literal_engine sample_observation (sample_compiled (sample_chain ''chain.office'' ''high'' 60 []))"
  "chain_rule_fires literal_engine sample_observation
     (sample_compiled (sample_chain ''chain.office_encoded'' ''medium'' 45 [''-enc'']))"
  by (simp_all add: chain_rule_fires_def sample_compiled_def sample_chain_def sample_observation_def
      sample_process_def normalized_name_def sample_names conditions_hold_def regex_any_def
      literal_engine_def command_line_text_def)

definition sample_detection :: "string \<Rightarrow> string \<Rightarrow> u64 \<Rightarrow> ProcessChainDetection" where
  "sample_detection i sev score = chain_detection sample_rules
     (sample_compiled (sample_chain i sev score [])) sample_observation"

lemma sample_fired:
  "fired literal_engine sample_rules sample_observation
    = [(sample_detection ''chain.office'' ''high'' 60, False),
       (sample_detection ''chain.office_encoded'' ''medium'' 45, True)]"
  using sample_fires
  by (simp add: fired_def sample_rules_def sample_pack_def sample_detection_def chain_detection_def
      sample_compiled_def sample_chain_def)

lemma sample_dedup:
  "deduplicate [sample_detection ''chain.office'' ''high'' 60, sample_detection ''chain.office_encoded'' ''medium'' 45]
    = [(sample_detection ''chain.office'' ''high'' 60)\<lparr>secondary_rule_ids := [''chain.office_encoded'']\<rparr>]"
  by (simp add: deduplicate_def bt_group_def bt_push_def bt_get_def collapse_group_def detection_order_def
      sample_detection_def chain_detection_def sample_compiled_def sample_chain_def sort_dedup_def btree_set_def
      List.map_filter_def Let_def less_eq_prod_def)

lemma sample_detection_fields:
  "rule_id (sample_detection i sev score) = i" "rule_category (sample_detection i sev score) = ''execution''"
  "det_severity (sample_detection i sev score) = sev" "det_score (sample_detection i sev score) = score"
  "dedup_key (sample_detection i sev score) = ''chain:winword>powershell''"
  "secondary_rule_ids (sample_detection i sev score) = []"
  by (simp_all add: sample_detection_def chain_detection_def sample_compiled_def sample_chain_def Let_def)

lemma sample_user:
  "obs_user sample_observation = Some ''admin''" "obs_host sample_observation = Some ''desk-1''"
  "parent_inferred sample_observation = False"
  by (simp_all add: sample_observation_def)

lemma sample_evaluation:
  "evaluate_with_context literal_engine sample_rules sample_observation default_context
    = Some [(sample_detection ''chain.office'' ''high'' 60)\<lparr>secondary_rule_ids := [''chain.office_encoded'']\<rparr>]"
  "evaluate_with_context literal_engine sample_rules sample_observation sample_context
    = Some [(sample_detection ''chain.office'' ''high'' 60)\<lparr>secondary_rule_ids := [''chain.office_encoded''],
        det_severity := ''medium'', det_score := 40, informational := False,
        risk_adjustment := Some ''approved administrative user''\<rparr>]"
   by (simp_all add: evaluate_with_context_eq evaluation_eq sample_fired gated_ids_def sample_dedup
      finish_detection_def apply_context_default apply_context_def control_reason_def sample_context_def
      user_is_approved_admin_def default_context_def host_is_management_def demoted_def sample_detection_fields sample_user rust_simps Let_def)


section \<open>Witnesses\<close>

theorem compile_pack_sound_witness:
  "compile_pack literal_engine sample_pack = Inr sample_rules
   \<and> rule_ids sample_rules = [''chain.office'', ''chain.office_encoded'']
   \<and> list_all chain_rule_ok (chain_rules sample_rules)"
  using compile_pack_sound [OF sample_compiles] sample_compiles
  by (simp add: rule_enabled_def sample_pack_def sample_chain_def)

theorem evaluate_charge_independent_witness:
  "\<exists>ds s'. try_evaluate_with_context literal_engine sample_rules sample_observation sample_context
       (\<lambda>n s. (Inr () :: (unit, unit) result, s + n)) (0 :: nat) = (Inr ds, s')
     \<and> evaluate_with_context literal_engine sample_rules sample_observation sample_context = Some ds"
proof -
  have "completes (\<lambda>s. (Inr () :: (unit, unit) result, s + n))" for n :: nat by (simp add: completes_def)
  from completes_evaluate [of "\<lambda>n s. (Inr () :: (unit, unit) result, s + n)", OF this]
  obtain ds s' where
    run: "try_evaluate_with_context literal_engine sample_rules sample_observation sample_context
       (\<lambda>n s. (Inr () :: (unit, unit) result, s + n)) (0 :: nat) = (Inr ds, s')"
    unfolding completes_def by blast
  with evaluate_charge_independent [OF run] show ?thesis by blast
qed

theorem deduplicate_conserves_witness:
  "stands_for ((sample_detection ''chain.office'' ''high'' 60)\<lparr>secondary_rule_ids := [''chain.office_encoded'']\<rparr>)
     [sample_detection ''chain.office'' ''high'' 60, sample_detection ''chain.office_encoded'' ''medium'' 45]"
proof -
  have "list_all (\<lambda>d. secondary_rule_ids d = [])
     [sample_detection ''chain.office'' ''high'' 60, sample_detection ''chain.office_encoded'' ''medium'' 45]"
    by (simp add: sample_detection_fields)
  from deduplicate_conserves [OF this] show ?thesis
    by (simp add: sample_dedup sample_detection_fields)
qed

theorem controls_only_soften_witness:
  "softens ((sample_detection ''chain.office'' ''high'' 60)\<lparr>secondary_rule_ids := [''chain.office_encoded'']\<rparr>)
     ((sample_detection ''chain.office'' ''high'' 60)\<lparr>secondary_rule_ids := [''chain.office_encoded''],
        det_severity := ''medium'', det_score := 40, informational := False,
        risk_adjustment := Some ''approved administrative user''\<rparr>)"
  using controls_only_soften [OF sample_compiles sample_evaluation(2)
      sample_evaluation(1) [folded evaluate_def]] by simp

theorem evaluate_graded_witness:
  "detection_graded ((sample_detection ''chain.office'' ''high'' 60)\<lparr>secondary_rule_ids := [''chain.office_encoded''],
        det_severity := ''medium'', det_score := 40, informational := False,
        risk_adjustment := Some ''approved administrative user''\<rparr>)"
  using evaluate_graded [OF sample_compiles sample_evaluation(2)] by simp

text \<open>
  The controls look at the rule that won the deduplication. A command-line-gated rule that lost to an
  ungated rule of a higher score is softened with it: below, the gated match alone would be reported
  with score 45, and the detection that carries it has score 40.
\<close>

lemma gated_match_softened:
  "(sample_detection ''chain.office_encoded'' ''medium'' 45, True)
     \<in> set (fired literal_engine sample_rules sample_observation)
   \<and> (\<exists>d. evaluate_with_context literal_engine sample_rules sample_observation sample_context = Some [d]
        \<and> secondary_rule_ids d = [''chain.office_encoded''] \<and> det_score d = 40)"
  by (simp add: sample_fired sample_evaluation)

end
