(* ===== verification/Process_Chain_Session.thy ===== *)
theory Process_Chain_Session
  imports Process_Chain_Rules
begin

text \<open>
  Session semantics of process chains,
  \<open>crates/telltale-detect/src/process_chain_session.rs\<close>: suppression of repeats, correlation of
  the retained candidates, and the completion-anchored search of the streaming correlator.

  An \<open>OffsetDateTime\<close> is the instant it denotes and a \<open>Duration\<close> a length of time, both in
  nanoseconds; the code only compares instants and subtracts them. A \<open>usize\<close> index is a natural
  number.
\<close>

type_synonym instant = int
type_synonym duration = int

definition duration_seconds :: "int \<Rightarrow> duration" where
  "duration_seconds s = s * 1000000000"

section \<open>Configuration and data\<close>

definition DEFAULT_SUPPRESSION_WINDOW :: duration where
  "DEFAULT_SUPPRESSION_WINDOW = duration_seconds 3600"

definition DEFAULT_MAX_CORRELATIONS_PER_RULE_ENTITY :: nat where
  "DEFAULT_MAX_CORRELATIONS_PER_RULE_ENTITY = 1"

definition DEFAULT_MAX_CORRELATION_RISK_PER_ENTITY :: u64 where
  "DEFAULT_MAX_CORRELATION_RISK_PER_ENTITY = 150"

record ProcessChainSessionConfig =
  suppression_window :: duration
  max_correlations_per_rule_entity :: nat
  max_correlation_risk_per_entity :: u64

definition default_session_config :: ProcessChainSessionConfig where
  "default_session_config = \<lparr>suppression_window = DEFAULT_SUPPRESSION_WINDOW,
     max_correlations_per_rule_entity = DEFAULT_MAX_CORRELATIONS_PER_RULE_ENTITY,
     max_correlation_risk_per_entity = DEFAULT_MAX_CORRELATION_RISK_PER_ENTITY\<rparr>"

type_synonym ProcessChainOccurrenceId = nat

record ProcessChainSessionCandidate =
  occurrence_id :: ProcessChainOccurrenceId
  cand_rule_id :: string
  cand_category :: string
  cand_child :: string
  cand_dedupe_key :: string
  cand_entity :: "string option"
  cand_occurred_at :: "instant option"

record RepeatSuppression =
  retained :: "nat list"
  repeat_counts :: "(nat, u64) btree_map"
  suppressed_count :: nat

record CorrelationDecision =
  rule_index :: nat
  candidate_indexes :: "nat list"
  effective_score :: u64
  risk_capped :: bool

record ProcessChainSessionSemantics =
  sem_suppression :: RepeatSuppression
  sem_correlations :: "CorrelationDecision list"

datatype SuppressionKey = SuppressionKey (sk_rule_id: string) (sk_entity: string) (sk_dedupe_key: string)

text \<open>The derived order compares field by field.\<close>

definition suppression_key_tuple :: "SuppressionKey \<Rightarrow> string \<times> string \<times> string" where
  "suppression_key_tuple k = (sk_rule_id k, sk_entity k, sk_dedupe_key k)"

lemma suppression_key_tuple_inject [simp]: "suppression_key_tuple k = suppression_key_tuple l \<longleftrightarrow> k = l"
  by (cases k; cases l) (simp add: suppression_key_tuple_def)

instantiation SuppressionKey :: linorder
begin

definition less_eq_SuppressionKey :: "SuppressionKey \<Rightarrow> SuppressionKey \<Rightarrow> bool" where
  "less_eq_SuppressionKey k l \<longleftrightarrow> suppression_key_tuple k \<le> suppression_key_tuple l"

definition less_SuppressionKey :: "SuppressionKey \<Rightarrow> SuppressionKey \<Rightarrow> bool" where
  "less_SuppressionKey k l \<longleftrightarrow> suppression_key_tuple k < suppression_key_tuple l"

instance
  by standard (auto simp: less_eq_SuppressionKey_def less_SuppressionKey_def simp flip: suppression_key_tuple_inject)

end

section \<open>Repeat suppression\<close>

record suppress_state =
  sup_anchors :: "(SuppressionKey, nat \<times> instant \<times> u64) btree_map"
  sup_occurrences :: "(ProcessChainOccurrenceId, bool) btree_map"
  sup_retained :: "nat list"
  sup_counts :: "(nat, u64) btree_map"
  sup_suppressed :: nat

definition suppress_init :: suppress_state where
  "suppress_init = \<lparr>sup_anchors = [], sup_occurrences = [], sup_retained = [], sup_counts = [],
     sup_suppressed = 0\<rparr>"

definition retain_occurrence :: "nat \<Rightarrow> ProcessChainSessionCandidate \<Rightarrow> suppress_state \<Rightarrow> suppress_state" where
  "retain_occurrence index c st = st\<lparr>
     sup_occurrences := bt_put (occurrence_id c) True (sup_occurrences st),
     sup_retained := sup_retained st @ [index]\<rparr>"

text \<open>One iteration of the loop, after its charge.\<close>

definition suppress_step ::
  "duration \<Rightarrow> suppress_state \<Rightarrow> nat \<times> ProcessChainSessionCandidate \<Rightarrow> suppress_state" where
  "suppress_step window st ic = (case ic of (index, c) \<Rightarrow>
    case bt_get (occurrence_id c) (sup_occurrences st) of
      Some is_retained \<Rightarrow> if is_retained then st\<lparr>sup_retained := sup_retained st @ [index]\<rparr> else st
    | None \<Rightarrow>
       (case cand_entity c of
          None \<Rightarrow> retain_occurrence index c st
        | Some entity \<Rightarrow>
          (case cand_occurred_at c of
             None \<Rightarrow> retain_occurrence index c st
           | Some timestamp \<Rightarrow>
             (let key = SuppressionKey (cand_rule_id c) entity (cand_dedupe_key c);
                  fresh = (retain_occurrence index c st)
                    \<lparr>sup_anchors := bt_put key (index, timestamp, 1) (sup_anchors st)\<rparr>
              in case bt_get key (sup_anchors st) of
                   None \<Rightarrow> fresh
                 | Some (anchor_index, anchor_time, count) \<Rightarrow>
                     if timestamp - anchor_time \<le> window
                     then st\<lparr>sup_anchors := bt_put key (anchor_index, anchor_time, count + 1) (sup_anchors st),
                            sup_counts := bt_put anchor_index (count + 1) (sup_counts st),
                            sup_suppressed := sup_suppressed st + 1,
                            sup_occurrences := bt_put (occurrence_id c) False (sup_occurrences st)\<rparr>
                     else fresh))))"

definition suppress_charge :: "ProcessChainSessionCandidate \<Rightarrow> nat" where
  "suppress_charge c = usize_saturating_add (usize_saturating_add (length (cand_rule_id c))
     (case cand_entity c of None \<Rightarrow> 0 | Some e \<Rightarrow> length e)) (length (cand_dedupe_key c))"

definition suppress_repeats ::
  "ProcessChainSessionCandidate list \<Rightarrow> duration \<Rightarrow> (nat \<Rightarrow> ('s, 'e, unit) comp)
    \<Rightarrow> ('s, 'e, RepeatSuppression) comp" where
  "suppress_repeats candidates window charge =
    cbind (cfold (\<lambda>st ic. cbind (charge (suppress_charge (snd ic))) (\<lambda>_. ret (suppress_step window st ic)))
             suppress_init (enumerate 0 candidates)) (\<lambda>st.
    ret \<lparr>retained = sup_retained st, repeat_counts = sup_counts st, suppressed_count = sup_suppressed st\<rparr>)"

section \<open>Correlation\<close>

definition step_hit ::
  "CompiledCorrelationRule \<Rightarrow> ProcessChainSessionCandidate list \<Rightarrow> nat \<Rightarrow> nat \<Rightarrow> bool" where
  "step_hit rule candidates step i = step_matches (cor_steps rule ! step)
     (cand_category (candidates ! i)) (cand_rule_id (candidates ! i)) (cand_child (candidates ! i))"

definition match_charge :: "ProcessChainSessionCandidate \<Rightarrow> nat" where
  "match_charge c = usize_saturating_add (usize_saturating_add (length (cand_category c))
     (length (cand_rule_id c))) (length (cand_child c))"

text \<open>The inner loop of \<open>find_sequences\<close>, from an anchor on.\<close>

fun try_match_steps ::
  "CompiledCorrelationRule \<Rightarrow> ProcessChainSessionCandidate list \<Rightarrow> (nat \<Rightarrow> ('s, 'e, unit) comp)
    \<Rightarrow> duration \<Rightarrow> instant \<Rightarrow> nat \<Rightarrow> nat list \<Rightarrow> nat list \<Rightarrow> ('s, 'e, nat \<times> nat list) comp" where
  "try_match_steps rule candidates charge window anchor step matched [] = ret (step, matched)"
| "try_match_steps rule candidates charge window anchor step matched (i # rest) =
    cbind (charge 1) (\<lambda>_.
    case cand_occurred_at (candidates ! i) of
      None \<Rightarrow> try_match_steps rule candidates charge window anchor step matched rest
    | Some timestamp \<Rightarrow>
        if window < timestamp - anchor then ret (step, matched)
        else if length (cor_steps rule) \<le> step then ret (step, matched)
        else cbind (charge (match_charge (candidates ! i))) (\<lambda>_.
          if step_hit rule candidates step i
          then if step + 1 = length (cor_steps rule) then ret (step + 1, matched @ [i])
               else try_match_steps rule candidates charge window anchor (step + 1) (matched @ [i]) rest
          else try_match_steps rule candidates charge window anchor step matched rest))"

definition rule_window :: "CompiledCorrelationRule \<Rightarrow> duration" where
  "rule_window rule = duration_seconds (sint (cor_window_seconds rule))"

text \<open>The outer loop: \<open>indexes[start..]\<close> is the list itself.\<close>

fun try_sequences ::
  "CompiledCorrelationRule \<Rightarrow> ProcessChainSessionCandidate list \<Rightarrow> nat \<Rightarrow> (nat \<Rightarrow> ('s, 'e, unit) comp)
    \<Rightarrow> nat list list \<Rightarrow> nat list \<Rightarrow> ('s, 'e, nat list list) comp" where
  "try_sequences rule candidates limit charge sequences [] = ret sequences"
| "try_sequences rule candidates limit charge sequences (i # rest) =
    cbind (charge 1) (\<lambda>_.
    if limit \<le> length sequences then ret sequences
    else case cand_occurred_at (candidates ! i) of
      None \<Rightarrow> try_sequences rule candidates limit charge sequences rest
    | Some anchor \<Rightarrow>
        cbind (try_match_steps rule candidates charge (rule_window rule) anchor 0 [] (i # rest)) (\<lambda>m.
        try_sequences rule candidates limit charge
          (if fst m = length (cor_steps rule) then sequences @ [snd m] else sequences) rest))"

definition find_sequences ::
  "CompiledCorrelationRule \<Rightarrow> nat list \<Rightarrow> ProcessChainSessionCandidate list \<Rightarrow> nat
    \<Rightarrow> (nat \<Rightarrow> ('s, 'e, unit) comp) \<Rightarrow> ('s, 'e, nat list list) comp" where
  "find_sequences rule indexes candidates limit charge = try_sequences rule candidates limit charge [] indexes"

text \<open>The entity under which a retained index is correlated, if it is.\<close>

definition correlation_key :: "ProcessChainSessionCandidate list \<Rightarrow> nat \<Rightarrow> string option" where
  "correlation_key candidates i =
    (if i < length candidates
     then if cand_occurred_at (candidates ! i) = None then None else cand_entity (candidates ! i)
     else None)"

definition push_decision ::
  "u64 \<Rightarrow> nat \<Rightarrow> CompiledCorrelationRule \<Rightarrow> u64 \<times> CorrelationDecision list \<Rightarrow> nat list
    \<Rightarrow> u64 \<times> CorrelationDecision list" where
  "push_decision max_risk ri rule st seq = (case st of (entity_risk, decisions) \<Rightarrow>
    let capped = max_risk < saturating_add entity_risk (cor_score rule) in
    (if capped then entity_risk else saturating_add entity_risk (cor_score rule),
     decisions @ [\<lparr>rule_index = ri, candidate_indexes = seq,
       effective_score = (if capped then 0 else cor_score rule), risk_capped = capped\<rparr>]))"

definition try_correlate_rule ::
  "ProcessChainSessionCandidate list \<Rightarrow> nat \<Rightarrow> u64 \<Rightarrow> (nat \<Rightarrow> ('s, 'e, unit) comp) \<Rightarrow> nat list
    \<Rightarrow> u64 \<times> CorrelationDecision list \<Rightarrow> nat \<times> CompiledCorrelationRule
    \<Rightarrow> ('s, 'e, u64 \<times> CorrelationDecision list) comp" where
  "try_correlate_rule candidates limit max_risk charge indexes st ir =
    cbind (find_sequences (snd ir) indexes candidates limit charge) (\<lambda>sequences.
    cfold (\<lambda>st seq. cbind (charge (length seq)) (\<lambda>_. ret (push_decision max_risk (fst ir) (snd ir) st seq)))
      st sequences)"

definition try_correlate_entity ::
  "ProcessChainSessionCandidate list \<Rightarrow> 'r CompiledProcessChainRules \<Rightarrow> nat \<Rightarrow> u64
    \<Rightarrow> (nat \<Rightarrow> ('s, 'e, unit) comp) \<Rightarrow> CorrelationDecision list \<Rightarrow> nat list
    \<Rightarrow> ('s, 'e, CorrelationDecision list) comp" where
  "try_correlate_entity candidates rules limit max_risk charge decisions indexes =
    cbind (cfold (try_correlate_rule candidates limit max_risk charge indexes)
             (0, decisions) (enumerate 0 (correlations rules))) (\<lambda>st. ret (snd st))"

definition correlate_retained ::
  "ProcessChainSessionCandidate list \<Rightarrow> nat list \<Rightarrow> 'r CompiledProcessChainRules \<Rightarrow> nat \<Rightarrow> u64
    \<Rightarrow> (nat \<Rightarrow> ('s, 'e, unit) comp) \<Rightarrow> ('s, 'e, CorrelationDecision list) comp" where
  "correlate_retained candidates kept rules limit max_risk charge =
    cbind (cfold (\<lambda>by_entity i. cbind (charge 1) (\<lambda>_.
             ret (case correlation_key candidates i of
                    None \<Rightarrow> by_entity | Some entity \<Rightarrow> bt_push entity i by_entity))) [] kept) (\<lambda>by_entity.
    cbind (cfold (\<lambda>acc (entity, indexes).
             cbind (charge (usize_saturating_mul (length indexes) (length indexes))) (\<lambda>_.
             ret (acc @ [sort_key (\<lambda>i. cand_occurred_at (candidates ! i)) indexes]))) [] by_entity) (\<lambda>groups.
    cfold (try_correlate_entity candidates rules limit max_risk charge) [] groups))"

definition try_evaluate_process_chain_session ::
  "ProcessChainSessionCandidate list \<Rightarrow> 'r CompiledProcessChainRules \<Rightarrow> ProcessChainSessionConfig
    \<Rightarrow> (nat \<Rightarrow> ('s, 'e, unit) comp) \<Rightarrow> ('s, 'e, ProcessChainSessionSemantics) comp" where
  "try_evaluate_process_chain_session candidates rules config charge =
    cbind (suppress_repeats candidates (suppression_window config) charge) (\<lambda>suppression.
    cbind (correlate_retained candidates (retained suppression) rules
             (max_correlations_per_rule_entity config) (max_correlation_risk_per_entity config) charge) (\<lambda>cors.
    ret \<lparr>sem_suppression = suppression, sem_correlations = cors\<rparr>))"

section \<open>Completion-anchored search\<close>

text \<open>The loop over \<open>(0..=end_index).rev()\<close>: \<open>k\<close> indexes are left, the next is \<open>k - 1\<close>. The second
  component is \<open>remaining_work\<close>; running out of it is the error.\<close>

fun predecessors_loop ::
  "duration \<Rightarrow> (nat \<Rightarrow> instant) \<Rightarrow> (nat \<Rightarrow> nat \<Rightarrow> bool) \<Rightarrow> instant \<Rightarrow> nat \<Rightarrow> instant \<Rightarrow> nat list \<Rightarrow> nat \<Rightarrow> nat
    \<Rightarrow> (unit, nat list option) result \<times> nat" where
  "predecessors_loop window timestamp matches end step previous support 0 work = (Inr None, work)"
| "predecessors_loop window timestamp matches end step previous support (Suc index) work =
    (if work = 0 then (Inl (), work)
     else if previous < timestamp index \<or> window < end - timestamp index
     then predecessors_loop window timestamp matches end step previous support index (work - 1)
     else if matches step index
     then if step = 0 then (Inr (Some (rev (support @ [index]))), work - 1)
          else predecessors_loop window timestamp matches end (step - 1) (timestamp index)
                 (support @ [index]) index (work - 1)
     else predecessors_loop window timestamp matches end step previous support index (work - 1))"

definition ordered_predecessors ::
  "nat \<Rightarrow> duration \<Rightarrow> nat \<Rightarrow> (nat \<Rightarrow> instant) \<Rightarrow> (nat \<Rightarrow> nat \<Rightarrow> bool) \<Rightarrow> nat
    \<Rightarrow> (unit, nat list option) result \<times> nat" where
  "ordered_predecessors end_index window steps timestamp matches work =
    (if steps = 0 \<or> \<not> matches (steps - 1) end_index then (Inr None, work)
     else predecessors_loop window timestamp matches (timestamp end_index) (steps - 1)
            (timestamp end_index) [] (Suc end_index) work)"

section \<open>Reference semantics\<close>

text \<open>The same operations without charges.\<close>

fun match_steps ::
  "CompiledCorrelationRule \<Rightarrow> ProcessChainSessionCandidate list \<Rightarrow> instant \<Rightarrow> nat \<Rightarrow> nat list \<Rightarrow> nat list
    \<Rightarrow> nat \<times> nat list" where
  "match_steps rule cs anchor step matched [] = (step, matched)"
| "match_steps rule cs anchor step matched (i # rest) =
    (case cand_occurred_at (cs ! i) of
       None \<Rightarrow> match_steps rule cs anchor step matched rest
     | Some timestamp \<Rightarrow>
         if rule_window rule < timestamp - anchor then (step, matched)
         else if length (cor_steps rule) \<le> step then (step, matched)
         else if step_hit rule cs step i
         then if step + 1 = length (cor_steps rule) then (step + 1, matched @ [i])
              else match_steps rule cs anchor (step + 1) (matched @ [i]) rest
         else match_steps rule cs anchor step matched rest)"

fun sequences_from ::
  "CompiledCorrelationRule \<Rightarrow> ProcessChainSessionCandidate list \<Rightarrow> nat \<Rightarrow> nat list list \<Rightarrow> nat list
    \<Rightarrow> nat list list" where
  "sequences_from rule cs limit found [] = found"
| "sequences_from rule cs limit found (i # rest) =
    (if limit \<le> length found then found
     else case cand_occurred_at (cs ! i) of
       None \<Rightarrow> sequences_from rule cs limit found rest
     | Some anchor \<Rightarrow>
         (let m = match_steps rule cs anchor 0 [] (i # rest)
          in sequences_from rule cs limit
               (if fst m = length (cor_steps rule) then found @ [snd m] else found) rest))"

definition entity_groups :: "ProcessChainSessionCandidate list \<Rightarrow> nat list \<Rightarrow> (string, nat list) btree_map" where
  "entity_groups cs kept =
    bt_group (List.map_filter (\<lambda>i. map_option (\<lambda>e. (e, i)) (correlation_key cs i)) kept)"

definition correlate_rule ::
  "ProcessChainSessionCandidate list \<Rightarrow> nat \<Rightarrow> u64 \<Rightarrow> nat list \<Rightarrow> u64 \<times> CorrelationDecision list
    \<Rightarrow> nat \<times> CompiledCorrelationRule \<Rightarrow> u64 \<times> CorrelationDecision list" where
  "correlate_rule cs limit max_risk indexes st ir =
    foldl (push_decision max_risk (fst ir) (snd ir)) st (sequences_from (snd ir) cs limit [] indexes)"

definition correlate_entity ::
  "ProcessChainSessionCandidate list \<Rightarrow> CompiledCorrelationRule list \<Rightarrow> nat \<Rightarrow> u64 \<Rightarrow> CorrelationDecision list
    \<Rightarrow> nat list \<Rightarrow> CorrelationDecision list" where
  "correlate_entity cs cors limit max_risk ds indexes =
    snd (foldl (correlate_rule cs limit max_risk indexes) (0, ds) (enumerate 0 cors))"

definition by_time :: "ProcessChainSessionCandidate list \<Rightarrow> nat list \<Rightarrow> nat list" where
  "by_time cs is = sort_key (\<lambda>i. cand_occurred_at (cs ! i)) is"

definition correlate ::
  "ProcessChainSessionCandidate list \<Rightarrow> nat list \<Rightarrow> CompiledCorrelationRule list \<Rightarrow> nat \<Rightarrow> u64
    \<Rightarrow> CorrelationDecision list" where
  "correlate cs kept cors limit max_risk =
    foldl (correlate_entity cs cors limit max_risk) [] (map (by_time cs \<circ> snd) (entity_groups cs kept))"

definition suppression :: "ProcessChainSessionCandidate list \<Rightarrow> duration \<Rightarrow> RepeatSuppression" where
  "suppression cs window = (let st = foldl (suppress_step window) suppress_init (enumerate 0 cs) in
    \<lparr>retained = sup_retained st, repeat_counts = sup_counts st, suppressed_count = sup_suppressed st\<rparr>)"

definition session_semantics ::
  "ProcessChainSessionCandidate list \<Rightarrow> CompiledCorrelationRule list \<Rightarrow> ProcessChainSessionConfig
    \<Rightarrow> ProcessChainSessionSemantics" where
  "session_semantics cs cors config = (let s = suppression cs (suppression_window config) in
    \<lparr>sem_suppression = s, sem_correlations = correlate cs (retained s) cors
       (max_correlations_per_rule_entity config) (max_correlation_risk_per_entity config)\<rparr>)"

lemma computes_match_steps:
  "computes (try_match_steps rule cs charge (rule_window rule) anchor step matched is)
     (match_steps rule cs anchor step matched is)"
  by (induction "is" arbitrary: step matched)
    (auto simp: computes_ret intro!: computes_bind_unit split: option.split)

lemma computes_sequences:
  "computes (try_sequences rule cs limit charge found is) (sequences_from rule cs limit found is)"
proof (induction "is" arbitrary: found)
  case (Cons i rest)
  show ?case
    unfolding try_sequences.simps sequences_from.simps Let_def
    by (auto simp: computes_ret Cons.IH intro!: computes_bind_unit computes_bind [OF computes_match_steps]
        split: option.split simp del: try_match_steps.simps match_steps.simps)
qed (simp add: computes_ret)

lemma computes_correlate_rule:
  "computes (try_correlate_rule cs limit max_risk charge is st ir) (correlate_rule cs limit max_risk is st ir)"
  unfolding try_correlate_rule_def correlate_rule_def find_sequences_def
  by (rule computes_bind [OF computes_sequences], rule computes_cfold) (intro computes_bind_unit computes_ret)

lemma computes_correlate_entity:
  "computes (try_correlate_entity cs rules limit max_risk charge ds is)
     (correlate_entity cs (correlations rules) limit max_risk ds is)"
  unfolding try_correlate_entity_def correlate_entity_def
  by (rule computes_bind [OF computes_cfold [OF computes_correlate_rule]], rule computes_ret)

lemma foldl_push_groups:
  "foldl (\<lambda>m i. case key i of None \<Rightarrow> m | Some e \<Rightarrow> bt_push e i m) m is
    = foldl (\<lambda>m (k, x). bt_push k x m) m (List.map_filter (\<lambda>i. map_option (\<lambda>e. (e, i)) (key i)) is)"
  by (induction "is" arbitrary: m) (auto simp: map_filter_simps split: option.split)

lemma computes_correlate:
  "computes (correlate_retained cs kept rules limit max_risk charge) (correlate cs kept (correlations rules) limit max_risk)"
proof -
  let ?push = "\<lambda>m i. case correlation_key cs i of None \<Rightarrow> m | Some e \<Rightarrow> bt_push e i m"
  let ?sorted = "\<lambda>acc g. acc @ [by_time cs (snd g)]"
  have group: "foldl ?push [] kept = entity_groups cs kept"
    by (simp add: foldl_push_groups entity_groups_def bt_group_def)
  have "computes (correlate_retained cs kept rules limit max_risk charge)
     (foldl (correlate_entity cs (correlations rules) limit max_risk) [] (foldl ?sorted [] (foldl ?push [] kept)))"
    unfolding correlate_retained_def
    by (rule computes_bind [OF computes_cfold [where g = ?push]], intro computes_bind_unit computes_ret,
        rule computes_bind [OF computes_cfold [where g = ?sorted]])
      (auto simp: by_time_def split: prod.split intro!: computes_bind_unit computes_ret
        computes_cfold computes_correlate_entity)
  then show ?thesis by (simp only: group foldl_map_snoc correlate_def append_Nil comp_def)
qed

lemma computes_suppress:
  "computes (suppress_repeats cs window charge) (suppression cs window)"
  unfolding suppress_repeats_def suppression_def Let_def
  by (rule computes_bind [OF computes_cfold [where g = "suppress_step window"]])
    (intro computes_bind_unit computes_ret)+

lemma computes_session:
  "computes (try_evaluate_process_chain_session cs rules config charge)
     (session_semantics cs (correlations rules) config)"
  unfolding try_evaluate_process_chain_session_def session_semantics_def Let_def
  by (rule computes_bind [OF computes_suppress], rule computes_bind [OF computes_correlate], rule computes_ret)

section \<open>Repeat suppression keeps an anchor for everything it suppresses\<close>

text \<open>The suppression key and instant of a candidate that can be suppressed.\<close>

definition timed :: "ProcessChainSessionCandidate \<Rightarrow> (SuppressionKey \<times> instant) option" where
  "timed c = (case cand_entity c of None \<Rightarrow> None | Some e \<Rightarrow>
     (case cand_occurred_at c of None \<Rightarrow> None | Some t \<Rightarrow> Some (SuppressionKey (cand_rule_id c) e (cand_dedupe_key c), t)))"

text \<open>The first candidate of an occurrence decides for all of its variants.\<close>

definition leader :: "ProcessChainSessionCandidate list \<Rightarrow> nat \<Rightarrow> bool" where
  "leader cs i \<longleftrightarrow> i < length cs \<and> occurrence_id (cs ! i) \<notin> occurrence_id ` set (take i cs)"

definition sup_state :: "duration \<Rightarrow> ProcessChainSessionCandidate list \<Rightarrow> suppress_state" where
  "sup_state window cs = foldl (suppress_step window) suppress_init (enumerate 0 cs)"

text \<open>The retained leaders with a key, with their instants.\<close>

definition anchored :: "nat list \<Rightarrow> ProcessChainSessionCandidate list \<Rightarrow> SuppressionKey \<Rightarrow> (nat \<times> instant) set" where
  "anchored R cs k = {(i, t). leader cs i \<and> i \<in> set R \<and> timed (cs ! i) = Some (k, t)}"

lemma sup_state_Nil: "sup_state window [] = suppress_init"
  by (simp add: sup_state_def)

lemma sup_state_snoc: "sup_state window (cs @ [c]) = suppress_step window (sup_state window cs) (length cs, c)"
  by (simp add: sup_state_def enumerate_append_eq)

lemma leader_snoc:
  "leader (cs @ [c]) i \<longleftrightarrow> leader cs i \<or> i = length cs \<and> occurrence_id c \<notin> occurrence_id ` set cs"
  by (auto simp: leader_def nth_append less_Suc_eq)

lemma leader_less: "leader cs i \<Longrightarrow> i < length cs"
  by (simp add: leader_def)

text \<open>The four outcomes of an iteration.\<close>

lemma suppress_step_cases:
  obtains (variant) b where "bt_get (occurrence_id c) (sup_occurrences st) = Some b"
      "suppress_step window st (n, c) = (if b then st\<lparr>sup_retained := sup_retained st @ [n]\<rparr> else st)"
  | (untimed) "bt_get (occurrence_id c) (sup_occurrences st) = None" "timed c = None"
      "suppress_step window st (n, c) = retain_occurrence n c st"
  | (fresh) k t where "bt_get (occurrence_id c) (sup_occurrences st) = None" "timed c = Some (k, t)"
      "\<And>i u m. bt_get k (sup_anchors st) = Some (i, u, m) \<Longrightarrow> window < t - u"
      "suppress_step window st (n, c) = (retain_occurrence n c st)
         \<lparr>sup_anchors := bt_put k (n, t, 1) (sup_anchors st)\<rparr>"
  | (repeat) k t i u m where "bt_get (occurrence_id c) (sup_occurrences st) = None" "timed c = Some (k, t)"
      "bt_get k (sup_anchors st) = Some (i, u, m)" "t - u \<le> window"
      "suppress_step window st (n, c) = st\<lparr>sup_anchors := bt_put k (i, u, m + 1) (sup_anchors st),
          sup_counts := bt_put i (m + 1) (sup_counts st), sup_suppressed := sup_suppressed st + 1,
          sup_occurrences := bt_put (occurrence_id c) False (sup_occurrences st)\<rparr>"
proof (cases "bt_get (occurrence_id c) (sup_occurrences st)")
  case (Some b)
  then show ?thesis by (intro variant) (auto simp: suppress_step_def)
next
  case None
  show ?thesis
  proof (cases "timed c")
    case None': None
    with None show ?thesis
      by (intro untimed) (auto simp: suppress_step_def timed_def split: option.splits)
  next
    case (Some kt)
    then obtain k t where kt: "timed c = Some (k, t)" by (cases kt) simp
    then have step: "suppress_step window st (n, c) =
        (case bt_get k (sup_anchors st) of
           None \<Rightarrow> (retain_occurrence n c st)\<lparr>sup_anchors := bt_put k (n, t, 1) (sup_anchors st)\<rparr>
         | Some (i, u, m) \<Rightarrow> if t - u \<le> window
            then st\<lparr>sup_anchors := bt_put k (i, u, m + 1) (sup_anchors st),
                    sup_counts := bt_put i (m + 1) (sup_counts st), sup_suppressed := sup_suppressed st + 1,
                    sup_occurrences := bt_put (occurrence_id c) False (sup_occurrences st)\<rparr>
            else (retain_occurrence n c st)\<lparr>sup_anchors := bt_put k (n, t, 1) (sup_anchors st)\<rparr>)"
      using None by (auto simp: suppress_step_def timed_def Let_def split: option.splits)
    show ?thesis
    proof (cases "\<exists>i u m. bt_get k (sup_anchors st) = Some (i, u, m) \<and> t - u \<le> window")
      case True
      then obtain i u m where a: "bt_get k (sup_anchors st) = Some (i, u, m)" "t - u \<le> window" by blast
      show ?thesis by (rule repeat [OF None kt a]) (simp add: step a)
    next
      case False
      show ?thesis
        by (rule fresh [OF None kt]) (use False in \<open>auto simp: step split: option.splits\<close>)
    qed
  qed
qed

definition sup_wf :: "ProcessChainSessionCandidate list \<Rightarrow> suppress_state \<Rightarrow> bool" where
  "sup_wf cs st \<longleftrightarrow> bt_inv (sup_anchors st) \<and> bt_inv (sup_occurrences st) \<and> bt_inv (sup_counts st)
     \<and> sorted_wrt (<) (sup_retained st) \<and> set (sup_retained st) \<subseteq> {..<length cs}
     \<and> (\<forall>o'. bt_get o' (sup_occurrences st) = None \<longleftrightarrow> o' \<notin> occurrence_id ` set cs)
     \<and> (\<forall>i < length cs. i \<in> set (sup_retained st)
          \<longleftrightarrow> bt_get (occurrence_id (cs ! i)) (sup_occurrences st) = Some True)"

lemmas put_facts = bt.minv_put bt.get_put

lemma other_occurrence:
  "o' \<notin> occurrence_id ` set cs \<Longrightarrow> i < length cs \<Longrightarrow> occurrence_id (cs ! i) \<noteq> o'"
  by force

lemma sup_wf_state: "sup_wf cs (sup_state window cs)"
proof (induction cs rule: rev_induct)
  case Nil
  then show ?case by (simp add: sup_wf_def sup_state_Nil suppress_init_def)
next
  case (snoc c cs)
  let ?st = "sup_state window cs"
  show ?case
  proof (cases rule: suppress_step_cases [of c ?st window "length cs"])
    case (variant b)
    have "occurrence_id c \<in> occurrence_id ` set cs"
      using snoc variant(1) unfolding sup_wf_def by (metis option.distinct(1))
    with snoc variant show ?thesis
      unfolding sup_wf_def sup_state_snoc variant(2)
      by (auto simp: sorted_wrt_append nth_append less_Suc_eq insert_absorb)
  next
    case untimed
    have "occurrence_id c \<notin> occurrence_id ` set cs" using snoc untimed(1) unfolding sup_wf_def by metis
    with snoc other_occurrence [of _ cs] show ?thesis
      unfolding sup_wf_def sup_state_snoc untimed(3) retain_occurrence_def
      by (auto simp: sorted_wrt_append nth_append less_Suc_eq put_facts)
  next
    case (fresh k t)
    have "occurrence_id c \<notin> occurrence_id ` set cs" using snoc fresh(1) unfolding sup_wf_def by metis
    with snoc other_occurrence [of _ cs] show ?thesis
      unfolding sup_wf_def sup_state_snoc fresh(4) retain_occurrence_def
      by (auto simp: sorted_wrt_append nth_append less_Suc_eq put_facts)
  next
    case (repeat k t i u m)
    have "occurrence_id c \<notin> occurrence_id ` set cs" using snoc repeat(1) unfolding sup_wf_def by metis
    with snoc other_occurrence [of _ cs] show ?thesis
      unfolding sup_wf_def sup_state_snoc repeat(5)
      by (auto simp: nth_append less_Suc_eq put_facts)
  qed
qed


lemma sup_occurrence_unknown:
  "bt_get (occurrence_id c) (sup_occurrences (sup_state window cs)) = None
    \<longleftrightarrow> occurrence_id c \<notin> occurrence_id ` set cs"
  using sup_wf_state [of cs window] by (simp add: sup_wf_def)

lemma retained_less: "i \<in> set (sup_retained (sup_state window cs)) \<Longrightarrow> i < length cs"
  using sup_wf_state [of cs window] by (auto simp: sup_wf_def)

lemma retained_snoc:
  "i < length cs \<Longrightarrow> i \<in> set (sup_retained (sup_state window (cs @ [c]))) \<longleftrightarrow> i \<in> set (sup_retained (sup_state window cs))"
  by (cases rule: suppress_step_cases [of c "sup_state window cs" window "length cs"])
    (auto simp: sup_state_snoc retain_occurrence_def)

text \<open>How an iteration changes the anchored candidates.\<close>

lemma anchored_snoc:
  "anchored (sup_retained (sup_state window (cs @ [c]))) (cs @ [c]) k
    = anchored (sup_retained (sup_state window cs)) cs k
      \<union> {(length cs, t) | t. occurrence_id c \<notin> occurrence_id ` set cs
           \<and> length cs \<in> set (sup_retained (sup_state window (cs @ [c]))) \<and> timed c = Some (k, t)}"
  using retained_snoc [of _ cs window c]
  by (auto simp: anchored_def leader_snoc nth_append dest: leader_less)

definition sup_sound :: "duration \<Rightarrow> ProcessChainSessionCandidate list \<Rightarrow> suppress_state \<Rightarrow> bool" where
  "sup_sound window cs st \<longleftrightarrow>
    (\<forall>k. bt_get k (sup_anchors st) = None \<longrightarrow> anchored (sup_retained st) cs k = {})
    \<and> (\<forall>k i t m. bt_get k (sup_anchors st) = Some (i, t, m) \<longrightarrow> (i, t) \<in> anchored (sup_retained st) cs k
         \<and> (\<forall>j u. (j, u) \<in> anchored (sup_retained st) cs k \<longrightarrow> j \<noteq> i \<longrightarrow> j < i \<and> window < t - u))
    \<and> (\<forall>k i t j u. (i, t) \<in> anchored (sup_retained st) cs k \<longrightarrow> (j, u) \<in> anchored (sup_retained st) cs k
         \<longrightarrow> i < j \<longrightarrow> window < u - t)
    \<and> (\<forall>j. leader cs j \<longrightarrow> j \<notin> set (sup_retained st) \<longrightarrow>
         (\<exists>k i t u. timed (cs ! j) = Some (k, u) \<and> (i, t) \<in> anchored (sup_retained st) cs k
            \<and> i < j \<and> u - t \<le> window))"

lemmas sup_soundD =
  sup_sound_def [THEN iffD1, THEN conjunct1, rule_format]
  sup_sound_def [THEN iffD1, THEN conjunct2, THEN conjunct1, rule_format, THEN conjunct1]
  sup_sound_def [THEN iffD1, THEN conjunct2, THEN conjunct1, rule_format, THEN conjunct2, rule_format]
  sup_sound_def [THEN iffD1, THEN conjunct2, THEN conjunct2, THEN conjunct1, rule_format]
  sup_sound_def [THEN iffD1, THEN conjunct2, THEN conjunct2, THEN conjunct2, rule_format]

lemma sup_soundI:
  assumes "\<And>k. bt_get k (sup_anchors st) = None \<Longrightarrow> anchored (sup_retained st) cs k = {}"
    and "\<And>k i t m. bt_get k (sup_anchors st) = Some (i, t, m) \<Longrightarrow> (i, t) \<in> anchored (sup_retained st) cs k"
    and "\<And>k i t m j u. bt_get k (sup_anchors st) = Some (i, t, m) \<Longrightarrow> (j, u) \<in> anchored (sup_retained st) cs k
      \<Longrightarrow> j \<noteq> i \<Longrightarrow> j < i \<and> window < t - u"
    and "\<And>k i t j u. (i, t) \<in> anchored (sup_retained st) cs k \<Longrightarrow> (j, u) \<in> anchored (sup_retained st) cs k
      \<Longrightarrow> i < j \<Longrightarrow> window < u - t"
    and "\<And>j. leader cs j \<Longrightarrow> j \<notin> set (sup_retained st) \<Longrightarrow>
      \<exists>k i t u. timed (cs ! j) = Some (k, u) \<and> (i, t) \<in> anchored (sup_retained st) cs k \<and> i < j \<and> u - t \<le> window"
  shows "sup_sound window cs st"
  unfolding sup_sound_def
  by (intro conjI allI impI; (rule assms assms(3) [THEN conjunct1] assms(3) [THEN conjunct2]; assumption))

lemma anchored_functional: "(i, t) \<in> anchored R cs k \<Longrightarrow> (i, u) \<in> anchored R cs k \<Longrightarrow> t = u"
  by (auto simp: anchored_def)

lemma anchored_less: "(i, t) \<in> anchored R cs k \<Longrightarrow> i < length cs"
  by (auto simp: anchored_def leader_less)

lemma sup_sound_state:
  assumes "0 \<le> window"
  shows "sup_sound window cs (sup_state window cs)"
proof (induction cs rule: rev_induct)
  case Nil
  then show ?case by (simp add: sup_sound_def sup_state_Nil suppress_init_def anchored_def leader_def)
next
  case (snoc c cs)
  let ?st = "sup_state window cs" and ?st' = "sup_state window (cs @ [c])"
  let ?A = "anchored (sup_retained ?st) cs" and ?A' = "anchored (sup_retained ?st') (cs @ [c])"
  note wf = sup_wf_state [of cs window]
  have inv: "bt_inv (sup_anchors ?st)" using wf by (simp add: sup_wf_def)
  have old: "i < length cs" if "(i, t) \<in> ?A k" for i t k
    using that leader_less by (auto simp: anchored_def)
  show ?case
  proof (cases rule: suppress_step_cases [of c ?st window "length cs"])
    case (variant b)
    then have known: "occurrence_id c \<in> occurrence_id ` set cs" using sup_occurrence_unknown by (metis option.distinct(1))
    then have A: "?A' k = ?A k" for k by (simp add: anchored_snoc)
    have anchors: "sup_anchors ?st' = sup_anchors ?st" by (simp add: sup_state_snoc variant(2))
    show ?thesis
      using snoc known retained_snoc [of _ cs window c] unfolding sup_sound_def A anchors
      by (auto simp: leader_snoc nth_append dest: leader_less)
  next
    case untimed
    then have A: "?A' k = ?A k" for k by (simp add: anchored_snoc)
    have anchors: "sup_anchors ?st' = sup_anchors ?st" and kept: "length cs \<in> set (sup_retained ?st')"
      by (simp_all add: sup_state_snoc untimed(3) retain_occurrence_def)
    show ?thesis
      using snoc kept retained_snoc [of _ cs window c] unfolding sup_sound_def A anchors
      by (auto simp: leader_snoc nth_append dest: leader_less)
  next
    case (fresh k t)
    have kept: "length cs \<in> set (sup_retained ?st')" and anchors: "sup_anchors ?st' = bt_put k (length cs, t, 1) (sup_anchors ?st)"
      by (simp_all add: sup_state_snoc fresh(4) retain_occurrence_def)
    have A: "?A' l = (if l = k then insert (length cs, t) (?A k) else ?A l)" for l
      using kept fresh(1,2) by (auto simp: anchored_snoc sup_occurrence_unknown)
    have gap: "window < t - u" if "(j, u) \<in> ?A k" for j u
    proof (cases "bt_get k (sup_anchors ?st)")
      case None
      with sup_soundD(1) [OF snoc] that show ?thesis by blast
    next
      case (Some a)
      then obtain i w m where a: "bt_get k (sup_anchors ?st) = Some (i, w, m)" by (cases a) auto
      from fresh(3) [OF a] sup_soundD(2,3) [OF snoc a] that assms anchored_functional [of i w _ cs k u]
      show ?thesis by (cases "j = i") fastforce+
    qed
    have new: "\<not> (length cs, u) \<in> ?A l" for u l using anchored_less by blast
    show ?thesis
    proof (rule sup_soundI, unfold A anchors bt.get_put [OF inv])
      fix j
      assume j: "leader (cs @ [c]) j" "j \<notin> set (sup_retained ?st')"
      with kept have "leader cs j" by (auto simp: leader_snoc)
      with j retained_snoc [of j cs window c] sup_soundD(5) [OF snoc this] show
        "\<exists>l i ta u. timed ((cs @ [c]) ! j) = Some (l, u) \<and>
           (i, ta) \<in> (if l = k then insert (length cs, t) (?A k) else ?A l) \<and> i < j \<and> u - ta \<le> window"
        by (auto simp: nth_append leader_less) metis
    qed (use sup_soundD(1-4) [OF snoc] gap new in \<open>auto split: if_splits dest: anchored_less\<close>)
  next
    case (repeat k t i u m)
    have kept: "length cs \<notin> set (sup_retained ?st')" and anchors: "sup_anchors ?st' = bt_put k (i, u, m + 1) (sup_anchors ?st)"
      using retained_less [of "length cs" window cs] by (auto simp: sup_state_snoc repeat(5))
    have A: "?A' l = ?A l" for l using kept by (simp add: anchored_snoc)
    have here: "(i, u) \<in> ?A k" by (rule sup_soundD(2) [OF snoc repeat(3)])
    show ?thesis
    proof (rule sup_soundI, unfold A anchors bt.get_put [OF inv])
      fix j
      assume j: "leader (cs @ [c]) j" "j \<notin> set (sup_retained ?st')"
      show "\<exists>l i ta u. timed ((cs @ [c]) ! j) = Some (l, u) \<and> (i, ta) \<in> ?A l \<and> i < j \<and> u - ta \<le> window"
      proof (cases "j = length cs")
        case True
        with repeat(2,4) here anchored_less [OF here] show ?thesis by auto
      next
        case False
        with j have "leader cs j" by (auto simp: leader_snoc)
        with j retained_snoc [of j cs window c] sup_soundD(5) [OF snoc this] show ?thesis
          by (auto simp: nth_append leader_less)
      qed
    qed (use sup_soundD(1-4) [OF snoc] repeat(3) here in \<open>auto split: if_splits\<close>)
  qed
qed

section \<open>Every suppressed occurrence is counted once\<close>

definition suppressed_leaders :: "ProcessChainSessionCandidate list \<Rightarrow> nat list \<Rightarrow> nat set" where
  "suppressed_leaders cs R = {j. leader cs j \<and> j \<notin> set R}"

definition repeats_counted :: "(nat, u64) btree_map \<Rightarrow> nat" where
  "repeats_counted m = sum_list (map (\<lambda>p. unat (snd p) - 1) m)"

definition counted_anchor :: "(nat, u64) btree_map \<Rightarrow> nat \<Rightarrow> nat \<Rightarrow> u64 \<Rightarrow> bool" where
  "counted_anchor counts n i m \<longleftrightarrow> 1 \<le> unat m \<and> unat m \<le> n + 1
     \<and> bt_get i counts = (if m = 1 then None else Some m)"

definition sup_counted :: "ProcessChainSessionCandidate list \<Rightarrow> suppress_state \<Rightarrow> bool" where
  "sup_counted cs st \<longleftrightarrow>
    (\<forall>k i t m. bt_get k (sup_anchors st) = Some (i, t, m) \<longrightarrow>
       counted_anchor (sup_counts st) (sup_suppressed st) i m)
    \<and> (\<forall>i. bt_get i (sup_counts st) \<noteq> None \<longrightarrow> i < length cs)
    \<and> repeats_counted (sup_counts st) = sup_suppressed st
    \<and> sup_suppressed st = card (suppressed_leaders cs (sup_retained st))"

lemma suppressed_leaders_snoc:
  "suppressed_leaders (cs @ [c]) (sup_retained (sup_state window (cs @ [c])))
    = suppressed_leaders cs (sup_retained (sup_state window cs))
      \<union> (if occurrence_id c \<notin> occurrence_id ` set cs
            \<and> length cs \<notin> set (sup_retained (sup_state window (cs @ [c]))) then {length cs} else {})"
  using retained_snoc [of _ cs window c] leader_less
  by (auto simp: suppressed_leaders_def leader_snoc)

lemma suppressed_leaders_bound: "suppressed_leaders cs R \<subseteq> {..<length cs} - set R"
  by (auto simp: suppressed_leaders_def leader_less)

lemma card_suppressed_leaders:
  assumes "i < length cs" and "i \<in> set R"
  shows "card (suppressed_leaders cs R) < length cs"
proof -
  have "suppressed_leaders cs R \<subseteq> {..<length cs} - {i}"
    using suppressed_leaders_bound [of cs R] assms(2) by blast
  then have "card (suppressed_leaders cs R) \<le> card ({..<length cs} - {i})" by (intro card_mono) auto
  with assms(1) show ?thesis by simp
qed

lemma anchor_key_unique:
  assumes "sup_sound window cs st" "bt_get k (sup_anchors st) = Some (i, t, m)" "bt_get l (sup_anchors st) = Some (i, u, n)"
  shows "k = l"
  using sup_soundD(2) [OF assms(1) assms(2)] sup_soundD(2) [OF assms(1) assms(3)] by (auto simp: anchored_def)

lemma unat_plus1: "unat (m :: u64) + 1 < 2 ^ 64 \<Longrightarrow> unat (m + 1) = unat m + 1"
  by (simp add: unat_word_ariths)

lemma sup_counted_state:
  assumes "0 \<le> window" and "length cs < 2 ^ 64"
  shows "sup_counted cs (sup_state window cs)"
  using assms(2)
proof (induction cs rule: rev_induct)
  case Nil
  then show ?case
    by (simp add: sup_counted_def sup_state_Nil suppress_init_def repeats_counted_def suppressed_leaders_def leader_def)
next
  case (snoc c cs)
  let ?st = "sup_state window cs" and ?st' = "sup_state window (cs @ [c])"
  have IH: "sup_counted cs ?st" using snoc by simp
  note sound = sup_sound_state [OF assms(1), of cs]
  have inv: "bt_inv (sup_anchors ?st)" "bt_inv (sup_counts ?st)"
    using sup_wf_state [of cs window] by (simp_all add: sup_wf_def)
  have here: "i < length cs" if "bt_get k (sup_anchors ?st) = Some (i, t, m)" for k i t m
    using sup_soundD(2) [OF sound that] by (rule anchored_less)
  show ?case
  proof (cases rule: suppress_step_cases [of c ?st window "length cs"])
    case (variant b)
    then have known: "occurrence_id c \<in> occurrence_id ` set cs" using sup_occurrence_unknown by (metis option.distinct(1))
    have "sup_anchors ?st' = sup_anchors ?st" "sup_counts ?st' = sup_counts ?st"
      "sup_suppressed ?st' = sup_suppressed ?st" by (simp_all add: sup_state_snoc variant(2))
    with IH known show ?thesis by (auto simp: sup_counted_def suppressed_leaders_snoc)
  next
    case untimed
    have "sup_anchors ?st' = sup_anchors ?st" "sup_counts ?st' = sup_counts ?st"
      "sup_suppressed ?st' = sup_suppressed ?st" "length cs \<in> set (sup_retained ?st')"
      by (simp_all add: sup_state_snoc untimed(3) retain_occurrence_def)
    with IH show ?thesis by (auto simp: sup_counted_def suppressed_leaders_snoc)
  next
    case (fresh k t)
    have st: "sup_anchors ?st' = bt_put k (length cs, t, 1) (sup_anchors ?st)" "sup_counts ?st' = sup_counts ?st"
      "sup_suppressed ?st' = sup_suppressed ?st" "length cs \<in> set (sup_retained ?st')"
      by (simp_all add: sup_state_snoc fresh(4) retain_occurrence_def)
    have "bt_get (length cs) (sup_counts ?st) = None"
      using IH unfolding sup_counted_def by blast
    then have "counted_anchor (sup_counts ?st) (sup_suppressed ?st) (length cs) 1"
      by (simp add: counted_anchor_def)
    with IH st show ?thesis
      by (auto simp: sup_counted_def suppressed_leaders_snoc bt.get_put [OF inv(1)] split: if_splits)
  next
    case (repeat k t i u m)
    have st: "sup_anchors ?st' = bt_put k (i, u, m + 1) (sup_anchors ?st)"
      "sup_counts ?st' = bt_put i (m + 1) (sup_counts ?st)"
      "sup_suppressed ?st' = sup_suppressed ?st + 1" "sup_retained ?st' = sup_retained ?st"
      by (simp_all add: sup_state_snoc repeat(5))
    have m: "1 \<le> unat m" "unat m \<le> sup_suppressed ?st + 1"
      "bt_get i (sup_counts ?st) = (if m = 1 then None else Some m)"
      using IH repeat(3) unfolding sup_counted_def counted_anchor_def by blast+
    have anchor: "i < length cs" "i \<in> set (sup_retained ?st)"
      using here [OF repeat(3)] sup_soundD(2) [OF sound repeat(3)] by (auto simp: anchored_def)
    have "sup_suppressed ?st < length cs"
      using card_suppressed_leaders [OF anchor] IH by (simp add: sup_counted_def)
    with m snoc.prems have m1: "unat (m + 1) = unat m + 1" by (intro unat_plus1) simp
    then have m1_ne: "m + 1 \<noteq> 1" using m(1) by (metis add_cancel_right_left not_one_le_zero unat_1)
    have new: "length cs \<notin> set (sup_retained ?st)" using retained_less by blast
    have fin: "finite (suppressed_leaders cs (sup_retained ?st))"
      using suppressed_leaders_bound finite_subset by fastforce
    have "length cs \<notin> suppressed_leaders cs (sup_retained ?st)" by (simp add: suppressed_leaders_def leader_def)
    then have card: "card (suppressed_leaders (cs @ [c]) (sup_retained ?st')) = sup_suppressed ?st + 1"
      unfolding suppressed_leaders_snoc
      using IH fin new repeat(1) by (simp add: sup_occurrence_unknown st(4) sup_counted_def)
    have "repeats_counted (sup_counts ?st') = repeats_counted (sup_counts ?st) + 1"
      using sum_list_bt_put [OF inv(2), of "\<lambda>v. unat v - 1" i "m + 1"] m m1
      by (auto simp: repeats_counted_def st(2) comp_def split: if_splits)
    then have sum: "repeats_counted (sup_counts ?st') = sup_suppressed ?st + 1"
      using IH by (simp add: sup_counted_def)
    have old: "counted_anchor (sup_counts ?st') (sup_suppressed ?st') j n"
      if "bt_get l (sup_anchors ?st) = Some (j, v, n)" "l \<noteq> k" for l j v n
    proof -
      have "j \<noteq> i" using anchor_key_unique [OF sound repeat(3), of l] that by blast
      moreover have "counted_anchor (sup_counts ?st) (sup_suppressed ?st) j n"
        using IH that(1) unfolding sup_counted_def by blast
      ultimately show ?thesis by (simp add: counted_anchor_def st bt.get_put [OF inv(2)])
    qed
    have "counted_anchor (sup_counts ?st') (sup_suppressed ?st') i (m + 1)"
      using m m1 m1_ne by (simp add: counted_anchor_def st bt.get_put [OF inv(2)])
    with old have "counted_anchor (sup_counts ?st') (sup_suppressed ?st') j n"
      if "bt_get l (sup_anchors ?st') = Some (j, v, n)" for l j v n
      using that by (auto simp: st(1) bt.get_put [OF inv(1)] split: if_splits)
    moreover have "\<forall>j. bt_get j (sup_counts ?st') \<noteq> None \<longrightarrow> j < length (cs @ [c])"
      using IH anchor(1) unfolding sup_counted_def st(2) bt.get_put [OF inv(2)] by (auto simp: less_Suc_eq)
    ultimately show ?thesis
      using card sum st(3) unfolding sup_counted_def by simp
  qed
qed

section \<open>Correlated sequences\<close>

definition at :: "ProcessChainSessionCandidate list \<Rightarrow> nat \<Rightarrow> instant" where
  "at cs i = the (cand_occurred_at (cs ! i))"

text \<open>\<open>ms\<close> matches the steps of the rule one by one.\<close>

definition follows_steps ::
  "CompiledCorrelationRule \<Rightarrow> ProcessChainSessionCandidate list \<Rightarrow> nat \<Rightarrow> nat list \<Rightarrow> bool" where
  "follows_steps rule cs step ms \<longleftrightarrow> (\<forall>k < length ms. step_hit rule cs (step + k) (ms ! k))"

lemma follows_steps_Cons:
  "follows_steps rule cs step (m # ms) \<longleftrightarrow> step_hit rule cs step m \<and> follows_steps rule cs (Suc step) ms"
  by (auto simp: follows_steps_def less_Suc_eq_0_disj)

lemma follows_steps_snoc:
  "follows_steps rule cs 0 (ms @ [m]) \<longleftrightarrow> follows_steps rule cs 0 ms \<and> step_hit rule cs (length ms) m"
  by (auto simp: follows_steps_def nth_append less_Suc_eq)

lemma match_steps_sound:
  assumes "match_steps rule cs anchor step matched is = (step', ms)"
    and "step = length matched" and "step \<le> length (cor_steps rule)"
    and "follows_steps rule cs 0 matched"
    and "\<forall>i \<in> set matched. at cs i - anchor \<le> rule_window rule"
  shows "step' = length ms \<and> step' \<le> length (cor_steps rule) \<and> follows_steps rule cs 0 ms
    \<and> (\<forall>i \<in> set ms. at cs i - anchor \<le> rule_window rule)
    \<and> (\<exists>new. ms = matched @ new \<and> subseq new is)"
  using assms
proof (induction "is" arbitrary: step matched)
  case (Cons i rest)
  show ?case
  proof (cases "\<exists>t. cand_occurred_at (cs ! i) = Some t \<and> \<not> rule_window rule < t - anchor
      \<and> step < length (cor_steps rule) \<and> step_hit rule cs step i")
    case False
    then have "match_steps rule cs anchor step matched (i # rest) = (step, matched)
        \<or> match_steps rule cs anchor step matched (i # rest) = match_steps rule cs anchor step matched rest"
      by (auto split: option.splits)
    with Cons show ?thesis by (fastforce intro: subseq_Cons')
  next
    case True
    then obtain t where t: "cand_occurred_at (cs ! i) = Some t" "t - anchor \<le> rule_window rule"
        "step < length (cor_steps rule)" "step_hit rule cs step i" by fastforce
    have ok: "follows_steps rule cs 0 (matched @ [i])"
      "\<forall>j \<in> set (matched @ [i]). at cs j - anchor \<le> rule_window rule"
      using Cons.prems t by (auto simp: follows_steps_snoc at_def)
    show ?thesis
    proof (cases "step + 1 = length (cor_steps rule)")
      case True
      with Cons.prems t ok show ?thesis by auto
    next
      case False
      with Cons.prems(1) t have "match_steps rule cs anchor (step + 1) (matched @ [i]) rest = (step', ms)"
        by simp
      from Cons.IH [OF this _ _ ok] Cons.prems(2,3) t(3) obtain new where
        "step' = length ms \<and> step' \<le> length (cor_steps rule) \<and> follows_steps rule cs 0 ms
          \<and> (\<forall>i \<in> set ms. at cs i - anchor \<le> rule_window rule)" "ms = (matched @ [i]) @ new" "subseq new rest"
        by auto
      then show ?thesis by (auto intro!: exI [of _ "i # new"])
    qed
  qed
qed auto

lemma match_steps_complete:
  assumes "\<forall>i \<in> set is. cand_occurred_at (cs ! i) \<noteq> None" and "sorted (map (at cs) is)"
    and "subseq ns is" and "ns \<noteq> []" and "step + length ns = length (cor_steps rule)"
    and "follows_steps rule cs step ns" and "\<forall>n \<in> set ns. at cs n - anchor \<le> rule_window rule"
  shows "fst (match_steps rule cs anchor step matched is) = length (cor_steps rule)"
  using assms
proof (induction "is" arbitrary: ns step matched)
  case (Cons i rest)
  obtain t where t: "cand_occurred_at (cs ! i) = Some t" using Cons.prems(1) by auto
  obtain n ns' where ns: "ns = n # ns'" using Cons.prems(4) by (cases ns) auto
  have "n \<in> set (i # rest)" using Cons.prems(3) ns by (meson list.set_intros(1) subseq_subset subset_iff)
  then have "at cs i \<le> at cs n" using Cons.prems(2) by auto
  then have inside: "\<not> rule_window rule < t - anchor" using Cons.prems(7) ns t by (auto simp: at_def)
  have more: "\<not> length (cor_steps rule) \<le> step" using Cons.prems(5) ns by simp
  have rest: "\<forall>i \<in> set rest. cand_occurred_at (cs ! i) \<noteq> None" "sorted (map (at cs) rest)"
    using Cons.prems(1,2) by auto
  show ?case
  proof (cases "step_hit rule cs step i")
    case hit: True
    show ?thesis
    proof (cases "step + 1 = length (cor_steps rule)")
      case True
      with t inside more hit show ?thesis by simp
    next
      case False
      then have "ns' \<noteq> []" using Cons.prems(5) ns by auto
      moreover have "subseq ns' rest" using Cons.prems(3) ns
        by (metis subseq_Cons' subseq_Cons2_iff)
      ultimately have "fst (match_steps rule cs anchor (step + 1) (matched @ [i]) rest) = length (cor_steps rule)"
        using Cons.IH [OF rest] Cons.prems(5-7) ns by (auto simp: follows_steps_Cons)
      with t inside more hit False show ?thesis by simp
    qed
  next
    case False
    then have "i \<noteq> n" using Cons.prems(6) ns by (auto simp: follows_steps_Cons)
    then have "subseq ns rest" using Cons.prems(3) ns by (metis subseq_Cons2_neq)
    from Cons.IH [OF rest this Cons.prems(4-7)] t inside more False show ?thesis by simp
  qed
qed simp

text \<open>\<open>ms\<close> is a witness of the rule in the time-ordered list \<open>is\<close>.\<close>

definition sequence_of ::
  "CompiledCorrelationRule \<Rightarrow> ProcessChainSessionCandidate list \<Rightarrow> nat list \<Rightarrow> nat list \<Rightarrow> bool" where
  "sequence_of rule cs is ms \<longleftrightarrow> subseq ms is \<and> length ms = length (cor_steps rule) \<and> follows_steps rule cs 0 ms
     \<and> (\<forall>i \<in> set ms. \<forall>j \<in> set ms. at cs j - at cs i \<le> rule_window rule)"

lemma sequences_from_bound: "length found \<le> limit \<Longrightarrow> length (sequences_from rule cs limit found is) \<le> limit"
  by (induction "is" arbitrary: found)
    (simp_all add: Let_def not_le Suc_le_eq del: match_steps.simps split: option.split)

lemma sequences_from_prefix: "prefix found (sequences_from rule cs limit found is)"
proof (induction "is" arbitrary: found)
  case (Cons i rest)
  have "prefix found (sequences_from rule cs limit (if b then found @ [x] else found) rest)" for b x
    using Cons.IH [of "found @ [x]"] Cons.IH [of found] by (cases b) (auto dest: append_prefixD)
  then show ?case using Cons.IH [of found] by (simp add: Let_def del: match_steps.simps split: option.split)
qed simp

lemma sequences_from_sound:
  assumes "\<forall>i \<in> set is. cand_occurred_at (cs ! i) \<noteq> None" and "sorted (map (at cs) is)"
    and "\<And>ms. ms \<in> set found \<Longrightarrow> P ms" and "\<And>ms. sequence_of rule cs is ms \<Longrightarrow> P ms"
    and "ms \<in> set (sequences_from rule cs limit found is)"
  shows "P ms"
  using assms
proof (induction "is" arbitrary: found)
  case (Cons i rest)
  obtain t where t: "cand_occurred_at (cs ! i) = Some t" using Cons.prems(1) by auto
  define m where "m = match_steps rule cs t 0 [] (i # rest)"
  have "sequence_of rule cs (i # rest) (snd m)" if "fst m = length (cor_steps rule)"
  proof -
    have ms: "fst m = length (snd m) \<and> follows_steps rule cs 0 (snd m)
        \<and> (\<forall>j \<in> set (snd m). at cs j - t \<le> rule_window rule) \<and> subseq (snd m) (i # rest)"
      using match_steps_sound [of rule cs t 0 "[]" "i # rest" "fst m" "snd m"]
      by (auto simp: m_def follows_steps_def)
    then have "t \<le> at cs j" if "j \<in> set (snd m)" for j
      using that Cons.prems(2) t subseq_subset [of "snd m" "i # rest"] by (auto simp: at_def)
    with ms that show ?thesis by (fastforce simp: sequence_of_def)
  qed
  then have found: "P x" if "x \<in> set (if fst m = length (cor_steps rule) then found @ [snd m] else found)" for x
    using that Cons.prems(3,4) by (auto split: if_splits)
  have rest: "P x" if "sequence_of rule cs rest x" for x
    using that Cons.prems(4) by (auto simp: sequence_of_def intro: subseq_Cons')
  show ?case
  proof (cases "limit \<le> length found")
    case True
    with Cons.prems(3,5) show ?thesis by simp
  next
    case False
    then have "ms \<in> set (sequences_from rule cs limit
        (if fst m = length (cor_steps rule) then found @ [snd m] else found) rest)"
      unfolding m_def using Cons.prems(5) t by (simp add: Let_def del: match_steps.simps split del: if_split)
    with Cons.IH [OF _ _ found rest] Cons.prems(1,2) show ?thesis by auto
  qed
qed auto

lemma sequences_from_complete:
  assumes "\<forall>i \<in> set is. cand_occurred_at (cs ! i) \<noteq> None" and "sorted (map (at cs) is)"
    and "sequence_of rule cs is ns" and "cor_steps rule \<noteq> []" and "0 < limit"
  shows "sequences_from rule cs limit found is \<noteq> []"
  using assms(1-3)
proof (induction "is" arbitrary: found)
  case Nil
  then show ?case using assms(4) by (auto simp: sequence_of_def)
next
  case (Cons i rest)
  obtain t where t: "cand_occurred_at (cs ! i) = Some t" using Cons.prems(1) by auto
  define m where "m = match_steps rule cs t 0 [] (i # rest)"
  let ?found = "if fst m = length (cor_steps rule) then found @ [snd m] else found"
  have step: "sequences_from rule cs limit found (i # rest)
      = (if limit \<le> length found then found else sequences_from rule cs limit ?found rest)"
    using t by (simp add: m_def Let_def del: match_steps.simps)
  have "sequences_from rule cs limit ?found rest \<noteq> []"
  proof (cases "subseq ns rest")
    case True
    then show ?thesis using Cons.IH Cons.prems by (auto simp: sequence_of_def)
  next
    case False
    then obtain ns' where ns: "ns = i # ns'"
      using Cons.prems(3) assms(4) unfolding sequence_of_def
      by (cases ns) (auto split: if_splits)
    have "fst m = length (cor_steps rule)"
      unfolding m_def
      by (rule match_steps_complete [OF Cons.prems(1,2), of ns])
        (use Cons.prems(3) ns t in \<open>auto simp: sequence_of_def at_def\<close>)
    then have "?found \<noteq> []" by simp
    then show ?thesis
      using sequences_from_prefix [of ?found rule cs limit rest] by auto
  qed
  moreover have "found \<noteq> []" if "limit \<le> length found" using that assms(5) by auto
  ultimately show ?case unfolding step by simp
qed

section \<open>Correlation decisions\<close>

definition risk_of :: "CorrelationDecision list \<Rightarrow> nat" where
  "risk_of ds = sum_list (map (unat \<circ> effective_score) ds)"

definition decision_ok :: "CompiledCorrelationRule \<Rightarrow> CorrelationDecision \<Rightarrow> bool" where
  "decision_ok rule d \<longleftrightarrow> effective_score d = (if risk_capped d then 0 else cor_score rule)"

lemma push_decision_cases:
  assumes "max_risk \<noteq> - 1" and "unat risk \<le> unat max_risk"
  obtains d risk' where "push_decision max_risk ri rule (risk, ds) seq = (risk', ds @ [d])"
    "candidate_indexes d = seq" "rule_index d = ri" "decision_ok rule d"
    "unat risk' = unat risk + unat (effective_score d)" "unat risk' \<le> unat max_risk"
proof -
  have "unat (- 1 :: u64) = 2 ^ 64 - 1" by (simp add: unsigned_minus_1_eq_mask mask_eq_exp_minus_1)
  then have "unat max_risk \<noteq> 2 ^ 64 - 1" using assms(1) by (metis word_unat_eq_iff)
  then have "unat max_risk < 2 ^ 64 - 1" using unat_less_length [of max_risk] by simp
  then have "unat (saturating_add risk (cor_score rule)) = unat risk + unat (cor_score rule)"
    if "\<not> max_risk < saturating_add risk (cor_score rule)"
    using that by (simp add: unat_saturating_add word_less_nat_alt)
  then show ?thesis
    using assms(2) that [of "if max_risk < saturating_add risk (cor_score rule) then risk
        else saturating_add risk (cor_score rule)" "\<lparr>rule_index = ri, candidate_indexes = seq,
       effective_score = (if max_risk < saturating_add risk (cor_score rule) then 0 else cor_score rule),
       risk_capped = (max_risk < saturating_add risk (cor_score rule))\<rparr>"]
    by (cases "max_risk < saturating_add risk (cor_score rule)")
      (simp_all add: push_decision_def decision_ok_def word_less_nat_alt)
qed

lemma push_decisions:
  assumes "max_risk \<noteq> - 1" and "unat risk \<le> unat max_risk"
  shows "\<exists>risk' new. foldl (push_decision max_risk ri rule) (risk, ds) seqs = (risk', ds @ new)
    \<and> map candidate_indexes new = seqs \<and> list_all (\<lambda>d. rule_index d = ri \<and> decision_ok rule d) new
    \<and> unat risk' = unat risk + risk_of new \<and> unat risk' \<le> unat max_risk"
  using assms(2)
proof (induction seqs arbitrary: risk ds)
  case Nil
  then show ?case by (auto simp: risk_of_def)
next
  case (Cons seq seqs)
  obtain d risk1 where d: "push_decision max_risk ri rule (risk, ds) seq = (risk1, ds @ [d])"
    "candidate_indexes d = seq" "rule_index d = ri" "decision_ok rule d"
    "unat risk1 = unat risk + unat (effective_score d)" "unat risk1 \<le> unat max_risk"
    using push_decision_cases [OF assms(1) Cons.prems] by metis
  obtain risk' new where "foldl (push_decision max_risk ri rule) (risk1, ds @ [d]) seqs = (risk', (ds @ [d]) @ new)"
    "map candidate_indexes new = seqs" "list_all (\<lambda>d. rule_index d = ri \<and> decision_ok rule d) new"
    "unat risk' = unat risk1 + risk_of new" "unat risk' \<le> unat max_risk"
    using Cons.IH [OF d(6), of "ds @ [d]"] by blast
  with d show ?case by (intro exI [of _ risk'] exI [of _ "d # new"]) (simp add: risk_of_def)
qed

text \<open>What the decisions of one entity are, for its time-ordered candidates \<open>is\<close>.\<close>

definition entity_decisions ::
  "ProcessChainSessionCandidate list \<Rightarrow> CompiledCorrelationRule list \<Rightarrow> nat \<Rightarrow> nat list \<Rightarrow> nat
    \<Rightarrow> CorrelationDecision list \<Rightarrow> bool" where
  "entity_decisions cs cors limit is n ds \<longleftrightarrow>
    map (\<lambda>d. (rule_index d, candidate_indexes d)) ds
      = concat (map (\<lambda>(ri, rule). map (Pair ri) (sequences_from rule cs limit [] is)) (enumerate n cors))
    \<and> list_all (\<lambda>d. n \<le> rule_index d \<and> rule_index d < n + length cors
         \<and> decision_ok (cors ! (rule_index d - n)) d) ds"

lemma correlate_rules:
  assumes "max_risk \<noteq> - 1" and "unat risk \<le> unat max_risk"
  shows "\<exists>risk' new. foldl (correlate_rule cs limit max_risk is) (risk, ds) (enumerate n cors) = (risk', ds @ new)
    \<and> entity_decisions cs cors limit is n new
    \<and> unat risk' = unat risk + risk_of new \<and> unat risk' \<le> unat max_risk"
  using assms(2)
proof (induction cors arbitrary: risk ds n)
  case Nil
  then show ?case by (auto simp: risk_of_def entity_decisions_def)
next
  case (Cons rule cors)
  let ?seqs = "sequences_from rule cs limit [] is"
  obtain risk1 new1 where one: "correlate_rule cs limit max_risk is (risk, ds) (n, rule) = (risk1, ds @ new1)"
    "map candidate_indexes new1 = ?seqs" "list_all (\<lambda>d. rule_index d = n \<and> decision_ok rule d) new1"
    "unat risk1 = unat risk + risk_of new1" "unat risk1 \<le> unat max_risk"
    using push_decisions [OF assms(1) Cons.prems, of n rule ds ?seqs] by (auto simp: correlate_rule_def)
  obtain risk' new where rest: "foldl (correlate_rule cs limit max_risk is) (risk1, ds @ new1) (enumerate (Suc n) cors)
      = (risk', (ds @ new1) @ new)" "entity_decisions cs cors limit is (Suc n) new"
    "unat risk' = unat risk1 + risk_of new" "unat risk' \<le> unat max_risk"
    using Cons.IH [OF one(5), of "ds @ new1" "Suc n"] by blast
  have pairs: "map (\<lambda>d. (rule_index d, candidate_indexes d)) new1 = map (Pair n) ?seqs"
    using one(2,3) by (auto simp: list_all_iff simp flip: one(2))
  have "entity_decisions cs (rule # cors) limit is n (new1 @ new)"
    using rest(2) one(3) pairs by (auto simp: entity_decisions_def list_all_iff nth_Cons' Suc_le_eq)
  then show ?case
    using one rest by (intro exI [of _ risk'] exI [of _ "new1 @ new"]) (simp add: risk_of_def)
qed

lemma correlate_entities:
  assumes "max_risk \<noteq> - 1"
  shows "\<exists>dss. foldl (correlate_entity cs cors limit max_risk) ds gs = ds @ concat dss
    \<and> list_all2 (\<lambda>is new. entity_decisions cs cors limit is 0 new \<and> risk_of new \<le> unat max_risk) gs dss"
proof (induction gs arbitrary: ds)
  case (Cons g gs)
  obtain risk' new where one: "foldl (correlate_rule cs limit max_risk g) (0, ds) (enumerate 0 cors) = (risk', ds @ new)"
    "entity_decisions cs cors limit g 0 new" "unat risk' = risk_of new" "unat risk' \<le> unat max_risk"
    using correlate_rules [OF assms, of 0 cs limit g ds 0 cors] by auto
  obtain dss where "foldl (correlate_entity cs cors limit max_risk) (ds @ new) gs = (ds @ new) @ concat dss"
    "list_all2 (\<lambda>is new. entity_decisions cs cors limit is 0 new \<and> risk_of new \<le> unat max_risk) gs dss"
    using Cons.IH by blast
  moreover have "correlate_entity cs cors limit max_risk ds g = ds @ new" by (simp add: correlate_entity_def one(1))
  ultimately show ?case using one by (intro exI [of _ "new # dss"]) simp
qed simp


lemma entity_groups_mem:
  "(e, is) \<in> set (entity_groups cs kept) \<longleftrightarrow>
    is = filter (\<lambda>i. correlation_key cs i = Some e) kept \<and> is \<noteq> []"
proof -
  let ?ps = "List.map_filter (\<lambda>i. map_option (\<lambda>e. (e, i)) (correlation_key cs i)) kept"
  have members: "map snd (filter (\<lambda>p. fst p = e) ?ps) = filter (\<lambda>i. correlation_key cs i = Some e) kept"
    by (induction kept) (auto simp: map_filter_simps split: option.split)
  have "e \<in> fst ` set ?ps \<longleftrightarrow> filter (\<lambda>i. correlation_key cs i = Some e) kept \<noteq> []"
    unfolding members [symmetric] by (force simp: filter_empty_conv)
  then show ?thesis unfolding entity_groups_def bt_group_mem_iff members by auto
qed

lemma entity_groups_distinct: "distinct (map fst (entity_groups cs kept))"
  unfolding entity_groups_def by (rule bt.entries_distinct [OF bt_inv_group])

lemma by_time_facts:
  assumes "is = filter (\<lambda>i. correlation_key cs i = Some e) kept"
  shows "\<forall>i \<in> set (by_time cs is). cand_occurred_at (cs ! i) \<noteq> None"
    and "sorted (map (at cs) (by_time cs is))"
    and "\<forall>i \<in> set (by_time cs is). cand_entity (cs ! i) = Some e \<and> i \<in> set kept \<and> i < length cs"
    and "set (by_time cs is) = {i \<in> set kept. correlation_key cs i = Some e}"
proof -
  show some: "\<forall>i \<in> set (by_time cs is). cand_occurred_at (cs ! i) \<noteq> None"
    and "\<forall>i \<in> set (by_time cs is). cand_entity (cs ! i) = Some e \<and> i \<in> set kept \<and> i < length cs"
    by (auto simp: assms by_time_def correlation_key_def split: if_splits)
  show "set (by_time cs is) = {i \<in> set kept. correlation_key cs i = Some e}"
    by (auto simp: assms by_time_def)
  have "sorted (map (\<lambda>i. cand_occurred_at (cs ! i)) (by_time cs is))"
    unfolding by_time_def by (rule sorted_sort_key)
  then show "sorted (map (at cs) (by_time cs is))"
    using some by (auto simp: sorted_wrt_map at_def intro!: the_mono elim!: sorted_wrt_mono_rel [rotated])
qed

text \<open>The entity that a decision is about.\<close>

definition decision_entity :: "ProcessChainSessionCandidate list \<Rightarrow> CorrelationDecision \<Rightarrow> string option" where
  "decision_entity cs d = cand_entity (cs ! hd (candidate_indexes d))"

lemma entity_decision_sequence:
  assumes "entity_decisions cs cors limit is 0 ds" and "d \<in> set ds"
  shows "rule_index d < length cors" "decision_ok (cors ! rule_index d) d"
    "candidate_indexes d \<in> set (sequences_from (cors ! rule_index d) cs limit [] is)"
proof -
  show "rule_index d < length cors" "decision_ok (cors ! rule_index d) d"
    using assms by (auto simp: entity_decisions_def list_all_iff)
  have "(rule_index d, candidate_indexes d) \<in> set (map (\<lambda>d. (rule_index d, candidate_indexes d)) ds)"
    using assms(2) by auto
  moreover have pairs: "map (\<lambda>d. (rule_index d, candidate_indexes d)) ds
      = concat (map (\<lambda>(ri, rule). map (Pair ri) (sequences_from rule cs limit [] is)) (enumerate 0 cors))"
    using assms(1) by (simp add: entity_decisions_def)
  ultimately have "(rule_index d, candidate_indexes d)
      \<in> set (concat (map (\<lambda>(ri, rule). map (Pair ri) (sequences_from rule cs limit [] is)) (enumerate 0 cors)))"
    by (simp only: pairs)
  then show "candidate_indexes d \<in> set (sequences_from (cors ! rule_index d) cs limit [] is)"
    by (auto simp: in_set_enumerate_eq)
qed

lemma entity_decisions_of_rule:
  assumes "entity_decisions cs cors limit is 0 ds" and "ri < length cors"
  shows "map candidate_indexes (filter (\<lambda>d. rule_index d = ri) ds) = sequences_from (cors ! ri) cs limit [] is"
proof -
  have one: "map snd (filter (\<lambda>p. fst p = ri) (concat (map (\<lambda>(rj, rule). map (Pair rj) (f rule)) (enumerate n rs))))
      = (if n \<le> ri \<and> ri < n + length rs then f (rs ! (ri - n)) else [])" for f :: "CompiledCorrelationRule \<Rightarrow> nat list list" and n rs
    by (induction rs arbitrary: n) (auto simp: filter_map comp_def nth_Cons')
  have "map candidate_indexes (filter (\<lambda>d. rule_index d = ri) ds)
      = map snd (filter (\<lambda>p. fst p = ri) (map (\<lambda>d. (rule_index d, candidate_indexes d)) ds))"
    by (simp add: filter_map comp_def)
  then show ?thesis using assms one [of _ 0 cors] by (simp add: entity_decisions_def)
qed

lemma correlate_shape:
  assumes "max_risk \<noteq> - 1"
  obtains dss where "correlate cs kept cors limit max_risk = concat dss"
    "list_all2 (\<lambda>g new. entity_decisions cs cors limit (by_time cs (snd g)) 0 new \<and> risk_of new \<le> unat max_risk)
       (entity_groups cs kept) dss"
  using correlate_entities [OF assms, of cs cors limit "[]" "map (by_time cs \<circ> snd) (entity_groups cs kept)"]
  by (auto simp: correlate_def list_all2_map1)

lemma correlate_mem:
  assumes "max_risk \<noteq> - 1" and "d \<in> set (correlate cs kept cors limit max_risk)"
  obtains e "is" ds where "is = by_time cs (filter (\<lambda>i. correlation_key cs i = Some e) kept)"
    "entity_decisions cs cors limit is 0 ds" "d \<in> set ds"
proof -
  obtain dss where shape: "correlate cs kept cors limit max_risk = concat dss"
    "list_all2 (\<lambda>g new. entity_decisions cs cors limit (by_time cs (snd g)) 0 new \<and> risk_of new \<le> unat max_risk)
       (entity_groups cs kept) dss"
    using correlate_shape [OF assms(1)] .
  then obtain n where n: "n < length dss" "d \<in> set (dss ! n)"
    using assms(2) by (metis in_set_conv_nth set_concat UN_E)
  let ?g = "entity_groups cs kept ! n"
  have len: "n < length (entity_groups cs kept)" using n(1) shape(2) by (simp add: list_all2_lengthD)
  then have "(fst ?g, snd ?g) \<in> set (entity_groups cs kept)" by simp
  then have g: "snd ?g = filter (\<lambda>i. correlation_key cs i = Some (fst ?g)) kept" unfolding entity_groups_mem by blast
  show ?thesis
    by (rule that [of "by_time cs (snd ?g)" "fst ?g" "dss ! n"])
      (use g n shape(2) len in \<open>auto simp: list_all2_conv_all_nth\<close>)
qed

lemma correlate_sequence:
  assumes "max_risk \<noteq> - 1" and "d \<in> set (correlate cs kept cors limit max_risk)"
  obtains e where "rule_index d < length cors" "decision_ok (cors ! rule_index d) d"
    "sequence_of (cors ! rule_index d) cs (by_time cs (filter (\<lambda>i. correlation_key cs i = Some e) kept))
       (candidate_indexes d)"
proof -
  obtain e "is" ds where e: "is = by_time cs (filter (\<lambda>i. correlation_key cs i = Some e) kept)"
      "entity_decisions cs cors limit is 0 ds" "d \<in> set ds"
    using correlate_mem [OF assms] .
  note facts = entity_decision_sequence [OF e(2,3)]
  have "sequence_of (cors ! rule_index d) cs is (candidate_indexes d)"
    using sequences_from_sound [OF by_time_facts(1,2) [OF refl] _ _ facts(3) [unfolded e(1)],
        of "sequence_of (cors ! rule_index d) cs is"] e(1) by auto
  with facts show ?thesis using that e(1) by blast
qed

lemma session_result:
  assumes "try_evaluate_process_chain_session cs rules config charge s = (Inr sem, s')"
  shows "sem_suppression sem = suppression cs (suppression_window config)"
    "sem_correlations sem = correlate cs (retained (sem_suppression sem)) (correlations rules)
       (max_correlations_per_rule_entity config) (max_correlation_risk_per_entity config)"
  using computesD [OF computes_session assms] by (simp_all add: session_semantics_def Let_def)

text \<open>C15. Repeat suppression never loses evidence. The retained candidates keep their order;
  the variants of an occurrence are retained or dropped together; a candidate without an entity or a
  time is retained; two retained occurrences with one key are more than the window apart; and every
  dropped occurrence has an earlier retained occurrence with the same key within the window.\<close>

theorem suppression_keeps_anchor:
  assumes "0 \<le> window" and "suppress_repeats cs window charge s = (Inr r, s')"
  shows "sorted_wrt (<) (retained r) \<and> set (retained r) \<subseteq> {..<length cs}
    \<and> (\<forall>i j. i < length cs \<and> j < length cs \<and> occurrence_id (cs ! i) = occurrence_id (cs ! j)
          \<longrightarrow> (i \<in> set (retained r) \<longleftrightarrow> j \<in> set (retained r)))
    \<and> (\<forall>j. leader cs j \<and> timed (cs ! j) = None \<longrightarrow> j \<in> set (retained r))
    \<and> (\<forall>i j k t u. leader cs i \<and> leader cs j \<and> {i, j} \<subseteq> set (retained r) \<and> i < j
          \<and> timed (cs ! i) = Some (k, t) \<and> timed (cs ! j) = Some (k, u) \<longrightarrow> window < u - t)
    \<and> (\<forall>j. leader cs j \<and> j \<notin> set (retained r) \<longrightarrow>
          (\<exists>i k t u. leader cs i \<and> i \<in> set (retained r) \<and> i < j \<and> timed (cs ! i) = Some (k, t)
             \<and> timed (cs ! j) = Some (k, u) \<and> u - t \<le> window))"
proof -
  let ?st = "sup_state window cs"
  have R: "retained r = sup_retained ?st"
    using computesD [OF computes_suppress assms(2)] by (simp add: suppression_def sup_state_def Let_def)
  note wf = sup_wf_state [of cs window, unfolded sup_wf_def]
  note sound = sup_sound_state [OF assms(1), of cs]
  have pairs: "window < u - t" if "leader cs i" "leader cs j" "{i, j} \<subseteq> set (sup_retained ?st)" "i < j"
      "timed (cs ! i) = Some (k, t)" "timed (cs ! j) = Some (k, u)" for i j k t u
    using sup_soundD(4) [OF sound, of i t k j u] that by (simp add: anchored_def)
  have dropped: "\<exists>i k t u. leader cs i \<and> i \<in> set (sup_retained ?st) \<and> i < j \<and> timed (cs ! i) = Some (k, t)
             \<and> timed (cs ! j) = Some (k, u) \<and> u - t \<le> window" if "leader cs j" "j \<notin> set (sup_retained ?st)" for j
    using sup_soundD(5) [OF sound that] by (auto simp: anchored_def)
  show ?thesis
    unfolding R
  proof (intro conjI allI impI)
    fix j
    assume "leader cs j \<and> timed (cs ! j) = None"
    then show "j \<in> set (sup_retained ?st)" using dropped [of j] by fastforce
  qed (use wf pairs dropped in \<open>auto\<close>)
qed

text \<open>Suppression is accounted for: the suppressed count is the number of dropped occurrences, and
  the repeat counts of the retained anchors add up to it, so each dropped occurrence is counted once.\<close>

theorem suppression_counts:
  assumes "0 \<le> window" and "length cs < 2 ^ 64" and "suppress_repeats cs window charge s = (Inr r, s')"
  shows "suppressed_count r = card {j. leader cs j \<and> j \<notin> set (retained r)}
    \<and> sum_list (map (\<lambda>p. unat (snd p) - 1) (repeat_counts r)) = suppressed_count r"
  using computesD [OF computes_suppress assms(3)] sup_counted_state [OF assms(1,2)]
  by (simp add: suppression_def sup_state_def Let_def sup_counted_def repeats_counted_def suppressed_leaders_def)

text \<open>C24. Every correlation decision is backed by evidence: its candidates are retained, belong to one
  entity, match the steps of its rule one by one in time order, and span at most the window of the rule;
  its score is that of the rule, or zero when the risk of the entity is capped.\<close>

theorem correlations_sound:
  assumes "try_evaluate_process_chain_session cs rules config charge s = (Inr sem, s')"
    and "max_correlation_risk_per_entity config \<noteq> - 1"
    and "d \<in> set (sem_correlations sem)"
  shows "rule_index d < length (correlations rules)
    \<and> (let rule = correlations rules ! rule_index d; ms = candidate_indexes d in
        length ms = length (cor_steps rule) \<and> follows_steps rule cs 0 ms
        \<and> set ms \<subseteq> set (retained (sem_suppression sem))
        \<and> sorted (map (at cs) ms)
        \<and> (\<forall>i \<in> set ms. \<forall>j \<in> set ms. at cs j - at cs i \<le> rule_window rule)
        \<and> (\<exists>e. \<forall>i \<in> set ms. cand_entity (cs ! i) = Some e)
        \<and> effective_score d = (if risk_capped d then 0 else cor_score rule))"
proof -
  let ?kept = "retained (sem_suppression sem)"
  obtain e where d: "rule_index d < length (correlations rules)"
      "decision_ok (correlations rules ! rule_index d) d"
    "sequence_of (correlations rules ! rule_index d) cs
       (by_time cs (filter (\<lambda>i. correlation_key cs i = Some e) ?kept)) (candidate_indexes d)"
    using correlate_sequence [OF assms(2)] assms(3) unfolding session_result(2) [OF assms(1)] by blast
  let ?is = "by_time cs (filter (\<lambda>i. correlation_key cs i = Some e) ?kept)"
  note facts = by_time_facts [OF refl, of cs e ?kept]
  have sub: "subseq (candidate_indexes d) ?is" using d(3) by (simp add: sequence_of_def)
  have "sorted (map (at cs) (candidate_indexes d))"
    using facts(2) subseq_map [OF sub, of "at cs"] by (blast intro: sorted_wrt_subseq)
  moreover have "\<exists>e. \<forall>i \<in> set (candidate_indexes d). cand_entity (cs ! i) = Some e"
    using facts(3) subseq_subset [OF sub] by blast
  moreover have "set (candidate_indexes d) \<subseteq> set ?kept" using facts(3) subseq_subset [OF sub] by blast
  ultimately show ?thesis
    using d by (simp add: Let_def sequence_of_def decision_ok_def)
qed


lemma risk_of_append: "risk_of (xs @ ys) = risk_of xs + risk_of ys"
  by (simp add: risk_of_def)

lemma group_decisions_entity:
  assumes "entity_decisions cs cors limit (by_time cs is) 0 ds" and "is = filter (\<lambda>i. correlation_key cs i = Some e) kept"
    and "list_all correlation_rule_ok cors" and "d \<in> set ds"
  shows "decision_entity cs d = Some e"
proof -
  note facts = entity_decision_sequence [OF assms(1,4)]
  note times = by_time_facts [OF assms(2)]
  have seq: "sequence_of (cors ! rule_index d) cs (by_time cs is) (candidate_indexes d)"
    using sequences_from_sound [OF times(1,2) _ _ facts(3), of "sequence_of (cors ! rule_index d) cs (by_time cs is)"]
    by auto
  then have "candidate_indexes d \<noteq> []"
    using assms(3) facts(1) by (auto simp: sequence_of_def list_all_length correlation_rule_ok_def)
  then have "hd (candidate_indexes d) \<in> set (by_time cs is)"
    using seq subseq_subset by (fastforce simp: sequence_of_def)
  with times(3) show ?thesis by (simp add: decision_entity_def)
qed

text \<open>The decisions about one entity are those of its group.\<close>

lemma correlate_about:
  assumes "max_risk \<noteq> - 1" and "list_all correlation_rule_ok cors"
  shows "\<exists>ds. filter (\<lambda>d. decision_entity cs d = Some e) (correlate cs kept cors limit max_risk) = ds
    \<and> entity_decisions cs cors limit (by_time cs (filter (\<lambda>i. correlation_key cs i = Some e) kept)) 0 ds
    \<and> risk_of ds \<le> unat max_risk"
proof -
  let ?mine = "\<lambda>d. decision_entity cs d = Some e"
  let ?group = "\<lambda>g. by_time cs (snd g)"
  let ?own = "by_time cs (filter (\<lambda>i. correlation_key cs i = Some e) kept)"
  obtain dss where shape: "correlate cs kept cors limit max_risk = concat dss"
    "list_all2 (\<lambda>g new. entity_decisions cs cors limit (?group g) 0 new \<and> risk_of new \<le> unat max_risk)
       (entity_groups cs kept) dss"
    using correlate_shape [OF assms(1)] .
  have "filter ?mine (concat dss) = (case map_of (zip (map fst gs) dss) e of None \<Rightarrow> [] | Some ds \<Rightarrow> ds)
      \<and> (e \<notin> fst ` set gs \<or> (\<exists>ds. map_of (zip (map fst gs) dss) e = Some ds
           \<and> entity_decisions cs cors limit ?own 0 ds \<and> risk_of ds \<le> unat max_risk))"
    if "list_all2 (\<lambda>g new. entity_decisions cs cors limit (?group g) 0 new \<and> risk_of new \<le> unat max_risk) gs dss"
      "set gs \<subseteq> set (entity_groups cs kept)" "distinct (map fst gs)" for gs dss
    using that
  proof (induction gs arbitrary: dss)
    case (Cons g gs)
    then obtain ds dss' where dss: "dss = ds # dss'" and ds: "entity_decisions cs cors limit (?group g) 0 ds"
        "risk_of ds \<le> unat max_risk"
      and rest: "list_all2 (\<lambda>g new. entity_decisions cs cors limit (?group g) 0 new \<and> risk_of new \<le> unat max_risk) gs dss'"
      by (auto simp: list_all2_Cons1)
    obtain e' "is" where g: "g = (e', is)" by (cases g)
    have "is": "is = filter (\<lambda>i. correlation_key cs i = Some e') kept"
      using Cons.prems(2) by (simp add: g entity_groups_mem)
    have all: "decision_entity cs d = Some e'" if "d \<in> set ds" for d
      using group_decisions_entity [OF ds(1) [unfolded g snd_conv] "is" assms(2) that] .
    have IH: "filter ?mine (concat dss') = (case map_of (zip (map fst gs) dss') e of None \<Rightarrow> [] | Some ds \<Rightarrow> ds)
      \<and> (e \<notin> fst ` set gs \<or> (\<exists>ds. map_of (zip (map fst gs) dss') e = Some ds
           \<and> entity_decisions cs cors limit ?own 0 ds \<and> risk_of ds \<le> unat max_risk))"
      using Cons.IH [OF rest] Cons.prems(2,3) by auto
    show ?case
    proof (cases "e' = e")
      case True
      then have "e \<notin> fst ` set gs" using Cons.prems(3) g by auto
      then have "map_of (zip (map fst gs) dss') e = None"
        using rest by (auto simp: map_of_eq_None_iff list_all2_lengthD dest: set_zip_leftD)
      with IH all ds "is" True show ?thesis by (simp add: dss g)
    next
      case False
      with IH all show ?thesis by (auto simp: dss g filter_empty_conv)
    qed
  qed simp
  note all = this [OF shape(2) subset_refl entity_groups_distinct]
  show ?thesis
  proof (cases "e \<in> fst ` set (entity_groups cs kept)")
    case True
    with all show ?thesis unfolding shape(1) by auto
  next
    case False
    have none: "filter (\<lambda>i. correlation_key cs i = Some e) kept = []"
    proof (rule ccontr)
      assume "filter (\<lambda>i. correlation_key cs i = Some e) kept \<noteq> []"
      then have "(e, filter (\<lambda>i. correlation_key cs i = Some e) kept) \<in> set (entity_groups cs kept)"
        by (simp add: entity_groups_mem)
      with False show False by (metis fst_conv image_eqI)
    qed
    have "map_of (zip (map fst (entity_groups cs kept)) dss) e = None"
      using False by (auto simp: map_of_eq_None_iff dest: set_zip_leftD)
    with all show ?thesis
      unfolding shape(1) by (simp add: none by_time_def entity_decisions_def risk_of_def)
  qed
qed


text \<open>However many correlations fire for an entity, the scores that count for it add up to at most
  the configured cap.\<close>

theorem correlation_risk_capped:
  assumes "try_evaluate_process_chain_session cs rules config charge s = (Inr sem, s')"
    and "list_all correlation_rule_ok (correlations rules)"
    and "max_correlation_risk_per_entity config \<noteq> - 1"
  shows "sum_list (map (unat \<circ> effective_score)
      (filter (\<lambda>d. decision_entity cs d = Some e) (sem_correlations sem)))
    \<le> unat (max_correlation_risk_per_entity config)"
  using correlate_about [OF assms(3,2), of cs e "retained (sem_suppression sem)"]
  unfolding session_result(2) [OF assms(1)] risk_of_def by blast

lemma by_time_strict:
  assumes "sorted_wrt (<) kept"
  shows "sorted_wrt (\<lambda>i j. (at cs i, i) < (at cs j, j)) (by_time cs (filter (\<lambda>i. correlation_key cs i = Some e) kept))"
proof -
  let ?is = "filter (\<lambda>i. correlation_key cs i = Some e) kept"
  have "sorted_wrt (\<lambda>i j. (cand_occurred_at (cs ! i), i) < (cand_occurred_at (cs ! j), j)) (by_time cs ?is)"
    unfolding by_time_def by (intro sort_key_stable_strict sorted_wrt_filter assms)
  then show ?thesis
  proof (rule sorted_wrt_mono_rel [rotated])
    fix i j
    assume ij: "i \<in> set (by_time cs ?is)" "j \<in> set (by_time cs ?is)"
      and less: "(cand_occurred_at (cs ! i), i) < (cand_occurred_at (cs ! j), j)"
    obtain t u where "cand_occurred_at (cs ! i) = Some t" "cand_occurred_at (cs ! j) = Some u"
      using by_time_facts(1) [OF refl, of cs e kept] ij by blast
    with less show "(at cs i, i) < (at cs j, j)" by (auto simp: at_def)
  qed
qed

text \<open>C23. No correlation is missed and none is reported more often than configured: each rule gives an
  entity at most the configured number of decisions, and at least one (if that number is positive) when
  retained candidates of the entity, in time order, match all steps of the rule within its window.\<close>

theorem correlations_complete:
  assumes "try_evaluate_process_chain_session cs rules config charge s = (Inr sem, s')"
    and "list_all correlation_rule_ok (correlations rules)"
    and "max_correlation_risk_per_entity config \<noteq> - 1"
    and "ri < length (correlations rules)" and "rule = correlations rules ! ri"
    and "0 < max_correlations_per_rule_entity config"
    and "set ns \<subseteq> {i \<in> set (retained (sem_suppression sem)). correlation_key cs i = Some e}"
    and "sorted_wrt (\<lambda>i j. (at cs i, i) < (at cs j, j)) ns"
    and "length ns = length (cor_steps rule)" and "follows_steps rule cs 0 ns"
    and "\<forall>i \<in> set ns. \<forall>j \<in> set ns. at cs j - at cs i \<le> rule_window rule"
  shows "length (filter (\<lambda>d. decision_entity cs d = Some e \<and> rule_index d = ri) (sem_correlations sem))
      \<in> {1..max_correlations_per_rule_entity config}"
proof -
  let ?kept = "retained (sem_suppression sem)" and ?limit = "max_correlations_per_rule_entity config"
  let ?is = "by_time cs (filter (\<lambda>i. correlation_key cs i = Some e) ?kept)"
  obtain ds where ds: "filter (\<lambda>d. decision_entity cs d = Some e) (sem_correlations sem) = ds"
      "entity_decisions cs (correlations rules) ?limit ?is 0 ds"
    using correlate_about [OF assms(3,2), of cs e ?kept ?limit] unfolding session_result(2) [OF assms(1)] by blast
  note times = by_time_facts [OF refl, of cs e ?kept]
  have "sorted_wrt (<) ?kept"
    using sup_wf_state [of cs "suppression_window config"] session_result(1) [OF assms(1)]
    by (simp add: sup_wf_def suppression_def sup_state_def Let_def)
  then have order: "sorted_wrt (\<lambda>i j. (at cs i, i) < (at cs j, j)) ?is" by (rule by_time_strict)
  have "sequence_of rule cs ?is ns"
    unfolding sequence_of_def
    using subseq_of_sorted [OF assms(8) order] assms(7,9,10,11) times(4) by blast
  moreover have "cor_steps rule \<noteq> []" using assms(2,4,5) by (auto simp: list_all_length correlation_rule_ok_def)
  ultimately have "sequences_from rule cs ?limit [] ?is \<noteq> []"
    by (intro sequences_from_complete [OF times(1,2)] assms(6))
  moreover have "length (sequences_from rule cs ?limit [] ?is) \<le> ?limit"
    by (rule sequences_from_bound) simp
  moreover have "filter (\<lambda>d. decision_entity cs d = Some e \<and> rule_index d = ri) (sem_correlations sem)
      = filter (\<lambda>d. rule_index d = ri) ds"
    by (simp flip: ds(1) add: conj_commute)
  moreover have "length (filter (\<lambda>d. rule_index d = ri) ds) = length (sequences_from rule cs ?limit [] ?is)"
    using arg_cong [OF entity_decisions_of_rule [OF ds(2) assms(4)], of length] assms(5) by simp
  ultimately show ?thesis by (simp add: Suc_le_eq)
qed

section \<open>Enough budget gives a result\<close>

lemma completes_match_steps:
  "(\<And>n. completes (charge n)) \<Longrightarrow> completes (try_match_steps rule cs charge window anchor step matched is)"
  by (induction "is" arbitrary: step matched)
    (auto intro!: completes_bind completes_ret split: option.split)

lemma completes_sequences:
  "(\<And>n. completes (charge n)) \<Longrightarrow> completes (try_sequences rule cs limit charge found is)"
proof (induction "is" arbitrary: found)
  case (Cons i rest)
  then show ?case
    unfolding try_sequences.simps
    by (auto intro!: completes_bind completes_ret completes_match_steps split: option.split
        simp del: try_match_steps.simps)
qed (auto intro: completes_ret)

lemma completes_session:
  assumes "\<And>n. completes (charge n)"
  shows "completes (try_evaluate_process_chain_session cs rules config charge)"
  unfolding try_evaluate_process_chain_session_def suppress_repeats_def correlate_retained_def
    try_correlate_entity_def try_correlate_rule_def find_sequences_def
  by (auto intro!: completes_bind completes_ret completes_cfold completes_sequences assms split: prod.split)

section \<open>The completion-anchored search\<close>

text \<open>The state of the loop: \<open>support\<close> holds, latest first, matches of the steps after \<open>step\<close>.\<close>

definition partial_support ::
  "(nat \<Rightarrow> instant) \<Rightarrow> (nat \<Rightarrow> nat \<Rightarrow> bool) \<Rightarrow> duration \<Rightarrow> instant \<Rightarrow> nat \<Rightarrow> nat \<Rightarrow> instant \<Rightarrow> nat list \<Rightarrow> nat \<Rightarrow> bool" where
  "partial_support timestamp matches window e steps step previous support k \<longleftrightarrow>
    step + length support + 1 = steps
    \<and> (\<forall>i < length support. matches (step + 1 + i) (rev support ! i))
    \<and> sorted_wrt (<) (rev support) \<and> sorted (map timestamp (rev support))
    \<and> (\<forall>i \<in> set support. k \<le> i \<and> previous \<le> timestamp i \<and> e - timestamp i \<le> window)"

definition supports ::
  "(nat \<Rightarrow> instant) \<Rightarrow> (nat \<Rightarrow> nat \<Rightarrow> bool) \<Rightarrow> duration \<Rightarrow> instant \<Rightarrow> nat \<Rightarrow> nat list \<Rightarrow> bool" where
  "supports timestamp matches window e steps ms \<longleftrightarrow>
    length ms = steps \<and> (\<forall>i < length ms. matches i (ms ! i)) \<and> sorted_wrt (<) ms
    \<and> sorted (map timestamp ms) \<and> (\<forall>i \<in> set ms. e - timestamp i \<le> window)"

lemma predecessors_loop_work:
  "predecessors_loop window timestamp matches e step previous support k work = (r, work') \<Longrightarrow>
    work' \<le> work \<and> work - work' \<le> k \<and> (r = Inl () \<longrightarrow> work' = 0 \<and> work < k)"
proof (induction k arbitrary: step previous support work)
  case (Suc k)
  show ?case
  proof (cases "work = 0")
    case False
    then consider (rec) step' previous' support' where
        "predecessors_loop window timestamp matches e step' previous' support' k (work - 1) = (r, work')"
      | (stop) "work' = work - 1" "r \<noteq> Inl ()"
      using Suc.prems by (auto split: if_splits)
    then show ?thesis
    proof cases
      case rec
      from Suc.IH [OF rec] False show ?thesis by auto
    qed auto
  qed (use Suc.prems in auto)
qed auto

lemma partial_support_push:
  assumes "partial_support timestamp matches window e steps step previous support (Suc k)"
    and "timestamp k \<le> previous" and "e - timestamp k \<le> window" and "matches step k" and "0 < step"
  shows "partial_support timestamp matches window e steps (step - 1) (timestamp k) (support @ [k]) k"
  using assms by (fastforce simp: partial_support_def nth_append nth_Cons' less_Suc_eq_0_disj)

lemma predecessors_loop_sound:
  assumes "predecessors_loop window timestamp matches e step previous support k work = (Inr (Some ms), work')"
    and "partial_support timestamp matches window e steps step previous support k"
  shows "supports timestamp matches window e steps ms"
  using assms
proof (induction window timestamp matches e step previous support k work rule: predecessors_loop.induct)
  case (2 window timestamp matches e step previous support k work)
  have weaker: "partial_support timestamp matches window e steps step previous support k"
    using "2.prems"(2) by (auto simp: partial_support_def)
  show ?case
  proof (cases "work = 0 \<or> previous < timestamp k \<or> window < e - timestamp k \<or> \<not> matches step k")
    case True
    with 2 weaker show ?thesis by (auto split: if_splits)
  next
    case False
    then have hit: "timestamp k \<le> previous" "e - timestamp k \<le> window" "matches step k" "work \<noteq> 0" by auto
    show ?thesis
    proof (cases "step = 0")
      case True
      have "ms = k # rev support" using "2.prems"(1) hit True by simp
      with "2.prems"(2) hit True show ?thesis
        by (fastforce simp: partial_support_def supports_def nth_Cons' less_Suc_eq_0_disj)
    next
      case False
      with 2 hit partial_support_push [OF "2.prems"(2) hit(1-3)] show ?thesis by (auto split: if_splits)
    qed
  qed
qed simp


lemma predecessors_loop_last:
  "predecessors_loop window timestamp matches e step previous (x # support) k work = (Inr (Some ms), work') \<Longrightarrow>
    last ms = x"
  by (induction k arbitrary: step previous support work) (fastforce split: if_splits)+

lemma predecessors_loop_complete:
  assumes "\<And>i j. i \<le> j \<Longrightarrow> j \<le> n \<Longrightarrow> timestamp i \<le> timestamp j"
    and "k \<le> Suc n" and "k \<le> work" and "\<And>i. i < k \<Longrightarrow> timestamp i \<le> previous"
    and "supports timestamp matches window e (Suc step) ns" and "\<forall>i \<in> set ns. i < k"
  shows "\<exists>ms work'. predecessors_loop window timestamp matches e step previous support k work = (Inr (Some ms), work')"
  using assms(2-)
proof (induction k arbitrary: step previous support work ns)
  case 0
  then show ?case by (cases ns) (auto simp: supports_def)
next
  case (Suc k)
  obtain ns' m where ns: "ns = ns' @ [m]" using Suc.prems(4) by (cases ns rule: rev_cases) (auto simp: supports_def)
  have m: "m \<le> k" "e - timestamp m \<le> window" using Suc.prems(4,5) by (auto simp: ns supports_def)
  have work: "work \<noteq> 0" "k \<le> work - 1" using Suc.prems(2) by auto
  have k: "\<not> previous < timestamp k" "\<not> window < e - timestamp k"
    using Suc.prems(3) [of k] m assms(1) [of m k] Suc.prems(1) by auto
  have le: "timestamp i \<le> timestamp k" if "i < k" for i using that assms(1) Suc.prems(1) by simp
  show ?case
  proof (cases "matches step k")
    case hit: True
    show ?thesis
    proof (cases step)
      case 0
      with hit work k show ?thesis by simp
    next
      case (Suc step')
      have "supports timestamp matches window e (Suc step') ns'"
        using Suc.prems(4) by (auto simp: ns supports_def Suc sorted_wrt_append nth_append split: if_splits)
      moreover have "\<forall>i \<in> set ns'. i < k"
        using Suc.prems(4) m(1) by (auto simp: ns supports_def sorted_wrt_append)
      ultimately have "\<exists>ms work'. predecessors_loop window timestamp matches e step' (timestamp k) (support @ [k]) k (work - 1)
          = (Inr (Some ms), work')"
        using Suc.IH [of "work - 1" "timestamp k" step' ns'] Suc.prems(1) work le by simp
      with hit work k Suc show ?thesis by simp
    qed
  next
    case False
    have "matches step m" using Suc.prems(4) by (auto simp: ns supports_def nth_append)
    with False have "m \<noteq> k" by auto
    then have "\<forall>i \<in> set ns. i < k"
      using Suc.prems(4) m(1) by (fastforce simp: ns supports_def sorted_wrt_append)
    then have "\<exists>ms work'. predecessors_loop window timestamp matches e step previous support k (work - 1)
        = (Inr (Some ms), work')"
      using Suc.IH [of "work - 1" previous step ns] Suc.prems work by simp
    with False work k show ?thesis by simp
  qed
qed

text \<open>C29. The completion-anchored search debits at most one unit per index and runs out only when there
  is less work than indexes; what it finds ends at the completing index and matches the steps in order,
  with times that never decrease and lie within the window. With times that never decrease over the
  indexes and enough work, it finds a support exactly when there is one.\<close>

theorem ordered_predecessors_correct:
  assumes "0 \<le> window" and "ordered_predecessors n window steps timestamp matches work = (r, work')"
  shows "work' \<le> work \<and> work - work' \<le> Suc n \<and> (r = Inl () \<longrightarrow> work \<le> n)
    \<and> (\<forall>ms. r = Inr (Some ms) \<longrightarrow> supports timestamp matches window (timestamp n) steps ms \<and> last ms = n)
    \<and> (n < work \<and> (\<forall>i j. i \<le> j \<and> j \<le> n \<longrightarrow> timestamp i \<le> timestamp j) \<longrightarrow>
         (\<exists>ms. r = Inr (Some ms)) \<longleftrightarrow>
         (\<exists>ns. ns \<noteq> [] \<and> supports timestamp matches window (timestamp n) steps ns \<and> last ns = n))"
proof (cases "steps = 0 \<or> \<not> matches (steps - 1) n")
  case True
  then have "r = Inr None" "work' = work" using assms(2) by (auto simp: ordered_predecessors_def)
  moreover have False if "ns \<noteq> []" "supports timestamp matches window (timestamp n) steps ns" "last ns = n" for ns
    using that True by (auto simp: supports_def last_conv_nth)
  ultimately show ?thesis by auto
next
  case False
  let ?e = "timestamp n"
  have loop: "predecessors_loop window timestamp matches ?e (steps - 1) ?e [] (Suc n) work = (r, work')"
    using False assms(2) by (simp add: ordered_predecessors_def)
  note work = predecessors_loop_work [OF loop]
  have start: "partial_support timestamp matches window ?e steps (steps - 1) ?e [] (Suc n)"
    using False by (simp add: partial_support_def)
  have found: "supports timestamp matches window ?e steps ms \<and> last ms = n" if "r = Inr (Some ms)" for ms
  proof
    show "supports timestamp matches window ?e steps ms"
      by (rule predecessors_loop_sound [OF loop [unfolded that] start])
    show "last ms = n"
      using loop [unfolded that] False assms(1) predecessors_loop_last [of window timestamp matches ?e _ _ n "[]"]
      by (auto split: if_splits)
  qed
  have "\<exists>ms. r = Inr (Some ms)" if "n < work" "\<And>i j. i \<le> j \<Longrightarrow> j \<le> n \<Longrightarrow> timestamp i \<le> timestamp j"
      "ns \<noteq> []" "supports timestamp matches window ?e steps ns" "last ns = n" for ns
  proof -
    have "\<forall>i \<in> set ns. i < Suc n"
      using that(3,4,5) by (cases ns rule: rev_cases) (auto simp: supports_def sorted_wrt_append)
    then have "\<exists>ms work'. predecessors_loop window timestamp matches ?e (steps - 1) ?e [] (Suc n) work
        = (Inr (Some ms), work')"
      by (intro predecessors_loop_complete [where n = n and ns = ns])
        (use that(1,2,4) False in \<open>auto simp: Suc_le_eq\<close>)
    with loop show ?thesis by auto
  qed
  moreover have "ms \<noteq> []" if "r = Inr (Some ms)" for ms
    using found [OF that] False by (auto simp: supports_def)
  ultimately show ?thesis using work found by (metis less_Suc_eq_le)
qed

section \<open>A sample session\<close>

definition sample_candidate :: "nat \<Rightarrow> string \<Rightarrow> string \<Rightarrow> instant \<Rightarrow> ProcessChainSessionCandidate" where
  "sample_candidate occ rule category t = \<lparr>occurrence_id = occ, cand_rule_id = rule, cand_category = category,
     cand_child = ''bash'', cand_dedupe_key = ''key'', cand_entity = Some ''host-1'', cand_occurred_at = Some t\<rparr>"

definition sample_candidates :: "ProcessChainSessionCandidate list" where
  "sample_candidates = [sample_candidate 0 ''chain.a'' ''execution'' 0, sample_candidate 1 ''chain.a'' ''execution'' 10,
     sample_candidate 2 ''chain.b'' ''discovery'' 100]"

definition sample_step :: "string \<Rightarrow> CorrelationStep" where
  "sample_step category = \<lparr>any_category = {category}, any_rule_id = {}, any_child = {}\<rparr>"

definition sample_correlation :: CompiledCorrelationRule where
  "sample_correlation = \<lparr>cor_id = ''cor.a'', cor_title = ''run then look'', cor_category = ''execution'',
     cor_detection_class = ''process'', cor_analytic_intent = ''detect'', cor_severity = ''high'', cor_score = 60,
     cor_confidence = ''high'', cor_mitre_attack_techniques = [], cor_reason = ''two steps'',
     cor_window_seconds = 1, cor_entity = ''host'', cor_steps = [sample_step ''execution'', sample_step ''discovery''],
     cor_falsepositives = []\<rparr>"

definition sample_session_rules :: "string CompiledProcessChainRules" where
  "sample_session_rules = sample_rules\<lparr>correlations := [sample_correlation]\<rparr>"

definition sample_config :: ProcessChainSessionConfig where
  "sample_config = default_session_config\<lparr>suppression_window := 60\<rparr>"

lemma sample_suppression:
  "suppression sample_candidates 60 = \<lparr>retained = [0, 2], repeat_counts = [(0, 2)], suppressed_count = 1\<rparr>"
  by (simp add: suppression_def sample_candidates_def sample_candidate_def suppress_step_def suppress_init_def
      retain_occurrence_def bt_get_def less_SuppressionKey_def suppression_key_tuple_def)

lemma sample_correlation_ok: "list_all correlation_rule_ok (correlations sample_session_rules)"
  by (simp add: sample_session_rules_def correlation_rule_ok_def sample_correlation_def graded_def
      SEVERITIES_def CONFIDENCES_def score_band_def is_canonical_contribution_id_def split_on_eval
      id_component_char_def rust_simps del: split_on.simps(2))

lemma sample_window: "rule_window sample_correlation = 1000000000"
  by (simp add: rule_window_def sample_correlation_def duration_seconds_def)

lemma sample_steps:
  "length (cor_steps sample_correlation) = 2" "cor_steps sample_correlation \<noteq> []"
  "step_hit sample_correlation sample_candidates 0 0" "\<not> step_hit sample_correlation sample_candidates 0 2"
  "step_hit sample_correlation sample_candidates (Suc 0) 2"
  by (simp_all add: step_hit_def step_matches_def sample_correlation_def sample_step_def sample_candidates_def
      sample_candidate_def)

lemma sample_times:
  "cand_occurred_at (sample_candidates ! 0) = Some 0" "cand_occurred_at (sample_candidates ! 2) = Some 100"
  by (simp_all add: sample_candidates_def sample_candidate_def)

lemma sample_sequences: "sequences_from sample_correlation sample_candidates (Suc 0) [] [0, 2] = [[0, 2]]"
  by (simp add: sample_window sample_steps sample_times)

definition sample_sup :: RepeatSuppression where
  "sample_sup = \<lparr>retained = [0, 2], repeat_counts = [(0, 2)], suppressed_count = 1\<rparr>"

definition sample_decision :: CorrelationDecision where
  "sample_decision = \<lparr>rule_index = 0, candidate_indexes = [0, 2], effective_score = 60, risk_capped = False\<rparr>"

lemma sample_semantics:
  "session_semantics sample_candidates (correlations sample_session_rules) sample_config =
    \<lparr>sem_suppression = sample_sup, sem_correlations = [sample_decision]\<rparr>"
proof -
  have groups: "map (by_time sample_candidates \<circ> snd) (entity_groups sample_candidates [0, 2]) = [[0, 2]]"
    by (simp add: entity_groups_def map_filter_simps correlation_key_def bt_group_def bt_push_def bt_get_def
        by_time_def sample_candidates_def sample_candidate_def)
  show ?thesis
    by (simp add: session_semantics_def sample_config_def default_session_config_def sample_suppression
        correlate_def groups correlate_entity_def correlate_rule_def sample_session_rules_def
        DEFAULT_MAX_CORRELATIONS_PER_RULE_ENTITY_def sample_sequences push_decision_def
        DEFAULT_MAX_CORRELATION_RISK_PER_ENTITY_def saturating_add_def sample_sup_def sample_decision_def
        del: sequences_from.simps)
      (simp add: sample_correlation_def)
qed

definition no_charge :: "nat \<Rightarrow> (unit, unit, unit) comp" where
  "no_charge n = ret ()"

lemma completes_no_charge: "completes (no_charge n)"
  by (simp add: no_charge_def completes_ret)

lemma sample_suppress_run:
  "suppress_repeats sample_candidates 60 no_charge () = (Inr sample_sup, ())"
proof -
  have "completes (suppress_repeats sample_candidates 60 no_charge)"
    unfolding suppress_repeats_def by (auto intro!: completes_bind completes_ret completes_cfold completes_no_charge)
  from completes_computes [OF this computes_suppress] show ?thesis
    by (simp add: sample_suppression sample_sup_def)
qed

lemma sample_session_run:
  "try_evaluate_process_chain_session sample_candidates sample_session_rules sample_config no_charge ()
     = (Inr \<lparr>sem_suppression = sample_sup, sem_correlations = [sample_decision]\<rparr>, ())"
  using completes_computes [OF completes_session [of no_charge, OF completes_no_charge] computes_session,
      of sample_candidates sample_session_rules sample_config "()"]
  by (simp add: sample_semantics)

lemma sample_limits:
  "max_correlation_risk_per_entity sample_config \<noteq> - 1" "0 < max_correlations_per_rule_entity sample_config"
  by (simp_all add: sample_config_def default_session_config_def DEFAULT_MAX_CORRELATION_RISK_PER_ENTITY_def
      DEFAULT_MAX_CORRELATIONS_PER_RULE_ENTITY_def)

section \<open>Witnesses\<close>

theorem suppression_keeps_anchor_witness:
  "sorted_wrt (<) (retained sample_sup) \<and> 1 \<notin> set (retained sample_sup)
   \<and> set (retained sample_sup) \<subseteq> {..<length sample_candidates}"
  using suppression_keeps_anchor [OF _ sample_suppress_run] by (simp add: sample_sup_def)

theorem suppression_counts_witness:
  "card {j. leader sample_candidates j \<and> j \<notin> set (retained sample_sup)} = 1"
  using suppression_counts [OF _ _ sample_suppress_run] by (simp add: sample_candidates_def sample_sup_def)

theorem correlations_sound_witness:
  "follows_steps sample_correlation sample_candidates 0 [0, 2] \<and> sorted (map (at sample_candidates) [0, 2])"
  using correlations_sound [OF sample_session_run sample_limits(1), of sample_decision]
  by (simp add: sample_session_rules_def sample_decision_def)

theorem correlation_risk_capped_witness:
  "unat (effective_score sample_decision) \<le> unat (max_correlation_risk_per_entity sample_config)"
proof -
  have "decision_entity sample_candidates sample_decision = Some ''host-1''"
    by (simp add: decision_entity_def sample_candidates_def sample_candidate_def sample_decision_def)
  then show ?thesis
    using correlation_risk_capped [OF sample_session_run sample_correlation_ok sample_limits(1), of "''host-1''"]
    by simp
qed

theorem correlations_complete_witness:
  "length (filter (\<lambda>d. decision_entity sample_candidates d = Some ''host-1'' \<and> rule_index d = 0) [sample_decision])
   \<in> {1..max_correlations_per_rule_entity sample_config}"
proof -
  have rule: "0 < length (correlations sample_session_rules)" "sample_correlation = correlations sample_session_rules ! 0"
    by (simp_all add: sample_session_rules_def)
  have mine: "set [0, 2] \<subseteq> {i \<in> set (retained sample_sup). correlation_key sample_candidates i = Some ''host-1''}"
    by (simp add: sample_sup_def correlation_key_def sample_candidates_def sample_candidate_def)
  have ordered: "sorted_wrt (\<lambda>i j. (at sample_candidates i, i) < (at sample_candidates j, j)) [0, 2]"
    and near: "\<forall>i \<in> set [0, 2]. \<forall>j \<in> set [0, 2]. at sample_candidates j - at sample_candidates i \<le> rule_window sample_correlation"
    by (simp_all add: at_def sample_times sample_window)
  have hits: "length [0 :: nat, 2] = length (cor_steps sample_correlation)"
    "follows_steps sample_correlation sample_candidates 0 [0, 2]"
    by (simp_all add: sample_steps follows_steps_def less_Suc_eq)
  show ?thesis
    using correlations_complete [OF sample_session_run sample_correlation_ok sample_limits(1) rule sample_limits(2)
        _ ordered hits near] mine by simp
qed

theorem ordered_predecessors_correct_witness:
  "ordered_predecessors 2 10 2 (\<lambda>i. int i) (\<lambda>step i. i = 2 * step) 5 = (Inr (Some [0, 2]), 2)
     \<and> supports (\<lambda>i. int i) (\<lambda>step i. i = 2 * step) 10 2 2 [0, 2]"
proof -
  have run: "ordered_predecessors 2 10 2 (\<lambda>i. int i) (\<lambda>step i. i = 2 * step) 5 = (Inr (Some [0, 2]), 2)"
    by (simp add: ordered_predecessors_def numeral_eq_Suc)
  with ordered_predecessors_correct [OF _ run] show ?thesis by simp
qed

end
