(* ===== verification/Events.thy ===== *)
theory Events
  imports Scoring
begin

text \<open>
  Construction of Event 3.0 records: \<open>crates/telltale-schema/src/event/mod.rs\<close> with its modules
  \<open>time.rs\<close> and \<open>inventory.rs\<close>, \<open>clients.rs\<close> and \<open>source.rs\<close>.

  What the constructors take from the process and from third-party crates is the record
  \<open>runtime\<close>: the clock, a fresh UUID, SHA-256, parsing and formatting of the \<open>time\<close> crate, the
  regular-expression privacy filters, and the configured thresholds. An \<open>OffsetDateTime\<close> is an
  instant in nanoseconds with an offset in seconds; the code compares instants only. The crate
  supports a range of dates, and its conversions and additions panic when the wall-clock reading of
  the result leaves it: \<open>rt_in_range\<close> says which readings are inside. Constructors also assert that
  their family is registered. The model reports every panic as \<open>Panicked\<close>.
\<close>

section \<open>Runtime\<close>

datatype offset_date_time = OffsetDateTime (unix_nanos: int) (utc_offset: int)

record runtime =
  rt_filters :: privacy_filters
  rt_now :: offset_date_time
  rt_uuid :: string
  rt_sha256_hex :: "string \<Rightarrow> string"
  rt_parse_rfc3339 :: "string \<Rightarrow> offset_date_time option"
  rt_format_rfc3339 :: "offset_date_time \<Rightarrow> string"
  rt_format_seconds :: "int \<Rightarrow> string"
  rt_in_range :: "int \<Rightarrow> bool"
  rt_sanitize_diagnostic :: "string \<Rightarrow> string"
  rt_thresholds :: threshold_cell
  rt_version :: string

datatype event_failure = Rejected RiskAccountingError | Panicked

definition rejected :: "(RiskAccountingError, 'a) result \<Rightarrow> (event_failure, 'a) result" where
  "rejected r = (case r of Inl e \<Rightarrow> Inl (Rejected e) | Inr x \<Rightarrow> Inr x)"

text \<open>A sequence of checks that stops at the first error.\<close>

definition all_ok :: "('e, unit) result list \<Rightarrow> ('e, unit) result" where
  "all_ok rs = try_fold (\<lambda>_ r. r) () rs"

section \<open>Clients and sources\<close>

datatype ClientId = Codex | Claude | OpenClaw | Qwen | OpenCode | Copilot

fun client_as_str :: "ClientId \<Rightarrow> string" where
  "client_as_str Codex = ''codex''"
| "client_as_str Claude = ''claude''"
| "client_as_str OpenClaw = ''openclaw''"
| "client_as_str Qwen = ''qwen''"
| "client_as_str OpenCode = ''opencode''"
| "client_as_str Copilot = ''copilot''"

datatype SourceKind = Json | Jsonl | ArchivedJsonl | HeadlessJsonl | Sqlite | CopilotProcessLog

fun kind_as_str :: "SourceKind \<Rightarrow> string" where
  "kind_as_str Json = ''json''"
| "kind_as_str Jsonl = ''jsonl''"
| "kind_as_str ArchivedJsonl = ''archived_jsonl''"
| "kind_as_str HeadlessJsonl = ''headless_jsonl''"
| "kind_as_str Sqlite = ''sqlite''"
| "kind_as_str CopilotProcessLog = ''copilot_process_log''"

record Source =
  src_client :: ClientId
  src_kind :: SourceKind
  src_source_id :: string
  src_path :: string

record SourceInventoryChangeSummary =
  change_baseline :: bool
  change_added :: u32
  change_removed :: u32
  change_unchanged :: u32
  change_hash :: string

section \<open>Event data\<close>

record TimelineAnchor =
  ta_entry_index :: nat
  ta_rule_ids :: "string list"
  ta_categories :: "string list"
  ta_evidence_fields :: "string list"

record ProcessContext =
  pc_host :: "string option"
  pc_user :: "string option"
  pc_source_process_name :: string
  pc_source_process_path :: "string option"
  pc_source_process_id :: "u64 option"
  pc_source_process_command_line :: "string option"
  pc_target_process_name :: string
  pc_target_process_path :: "string option"
  pc_target_process_id :: "u64 option"
  pc_target_process_command_line :: "string option"
  pc_parent_process_name :: "string option"
  pc_parent_process_path :: "string option"
  pc_source_event_id :: "string option"
  pc_source_process_inferred :: bool
  pc_rule_name :: string
  pc_secondary_rule_ids :: "string list"
  pc_investigation_fields :: "string list"
  pc_falsepositives :: "string list"
  pc_dedup_key :: string
  pc_suppression_window_seconds :: u64
  pc_rule_severity :: string
  pc_risk_adjustment :: "string option"

record Evidence =
  evi_field :: string
  evi_redacted_value :: string
  evi_hash :: "string option"
  evi_rule_id :: "string option"

record ResponseMetadata =
  rm_recommended_action :: string
  rm_response_playbook :: string
  rm_investigation_summary :: string
  rm_escalation :: string

record Event =
  ev_timestamp :: string
  ev_event_time :: "string option"
  ev_observed_at :: string
  ev_ingested_at :: string
  ev_time_source :: string
  ev_time_confidence :: string
  ev_time_override_reason :: "string option"
  ev_schema_version :: string
  ev_event_id :: string
  ev_telltale_version :: string
  ev_event_type :: string
  ev_severity :: string
  ev_risk_score :: u64
  ev_risk_contributions :: "RiskContribution list"
  ev_client :: string
  ev_agent :: "string option"
  ev_model :: "string option"
  ev_provider :: "string option"
  ev_session_id :: string
  ev_source_path_hash :: "string option"
  ev_tool_name :: "string option"
  ev_rule_ids :: "string list"
  ev_categories :: "string list"
  ev_detection_classes :: "string list"
  ev_signal_types :: "string list"
  ev_analytic_intents :: "string list"
  ev_atlas_tags :: "string list"
  ev_tags :: "string list"
  ev_evidence :: "Evidence list"
  ev_timeline_anchors :: "TimelineAnchor list"
  ev_response :: "ResponseMetadata option"
  ev_source_counts :: "(string, u32) btree_map option"
  ev_component :: "string option"
  ev_check_name :: "string option"
  ev_status :: "string option"
  ev_scan_duration_ms :: "u64 option"
  ev_rule_count :: "nat option"
  ev_threshold_config :: "RiskThresholds option"
  ev_active_policy_name :: "string option"
  ev_emitted_count :: "u64 option"
  ev_suppressed_count :: "u64 option"
  ev_scanner_error_count :: "u64 option"
  ev_informational :: "bool option"
  ev_confidence :: "string option"
  ev_detection_reason :: "string option"
  ev_mitre_attack_techniques :: "string list"
  ev_risk_entity_type :: "string option"
  ev_risk_entity_value :: "string option"
  ev_process :: "ProcessContext option"

text \<open>\<open>sort_by_key\<close> is stable and \<open>dedup_by_key\<close> keeps the first of each run.\<close>

fun dedup_by_key :: "('a \<Rightarrow> 'k) \<Rightarrow> 'a list \<Rightarrow> 'a list" where
  "dedup_by_key f [] = []"
| "dedup_by_key f [x] = [x]"
| "dedup_by_key f (x # y # xs) =
    (if f y = f x then dedup_by_key f (x # xs) else x # dedup_by_key f (y # xs))"

definition canonicalize_timeline_anchors :: "TimelineAnchor list \<Rightarrow> TimelineAnchor list" where
  "canonicalize_timeline_anchors anchors = dedup_by_key ta_entry_index (sort_key ta_entry_index anchors)"

section \<open>Event time and response guidance\<close>

record ResolvedEventTime =
  rs_timestamp :: string
  rs_event_time :: "string option"
  rs_time_source :: string
  rs_time_confidence :: string
  rs_time_override_reason :: "string option"

definition parse_event_timestamp :: "runtime \<Rightarrow> string \<Rightarrow> offset_date_time option" where
  "parse_event_timestamp rt s = rt_parse_rfc3339 rt s"

text \<open>In UTC and with the subsecond part dropped. \<open>to_offset\<close> panics when the UTC reading of the
  instant is no supported date, which an instant given with an offset can be; the replacements of
  the subsecond part by zero and the formatting itself succeed for every date.\<close>

definition format_timestamp :: "runtime \<Rightarrow> offset_date_time \<Rightarrow> (event_failure, string) result" where
  "format_timestamp rt t =
    (if rt_in_range rt (unix_nanos t) then Inr (rt_format_seconds rt (unix_nanos t div 1000000000))
     else Inl Panicked)"

text \<open>The addition of a duration keeps the offset and panics when the sum, read in that offset, is no
  supported date.\<close>

definition add_duration :: "runtime \<Rightarrow> offset_date_time \<Rightarrow> int \<Rightarrow> (event_failure, offset_date_time) result" where
  "add_duration rt t d =
    (if rt_in_range rt (unix_nanos t + utc_offset t * 1000000000 + d)
     then Inr (OffsetDateTime (unix_nanos t + d) (utc_offset t)) else Inl Panicked)"

definition future_skew_limit :: int where
  "future_skew_limit = 5 * 60 * 1000000000"

definition resolve_event_time ::
  "runtime \<Rightarrow> string option \<Rightarrow> offset_date_time \<Rightarrow> (event_failure, ResolvedEventTime) result" where
  "resolve_event_time rt source_event_time observed_at =
    result_bind (format_timestamp rt observed_at) (\<lambda>observed_timestamp.
    case source_event_time of
      None \<Rightarrow> Inr \<lparr>rs_timestamp = observed_timestamp, rs_event_time = None,
        rs_time_source = ''observed'', rs_time_confidence = ''low'',
        rs_time_override_reason = Some ''missing_source_timestamp''\<rparr>
    | Some raw \<Rightarrow>
        (case parse_event_timestamp rt raw of
           None \<Rightarrow> Inr \<lparr>rs_timestamp = observed_timestamp, rs_event_time = Some raw,
             rs_time_source = ''override'', rs_time_confidence = ''low'',
             rs_time_override_reason = Some ''unparseable_source_timestamp''\<rparr>
         | Some parsed \<Rightarrow>
             result_bind (format_timestamp rt parsed) (\<lambda>normalized_event_time.
             result_bind (add_duration rt observed_at future_skew_limit) (\<lambda>limit.
             if unix_nanos limit < unix_nanos parsed
             then Inr \<lparr>rs_timestamp = observed_timestamp,
               rs_event_time = Some normalized_event_time, rs_time_source = ''override'',
               rs_time_confidence = ''low'',
               rs_time_override_reason = Some ''source_timestamp_future_skew''\<rparr>
             else Inr \<lparr>rs_timestamp = normalized_event_time,
               rs_event_time = Some normalized_event_time, rs_time_source = ''source'',
               rs_time_confidence = ''high'', rs_time_override_reason = None\<rparr>))))"

definition recommended_action :: "string \<Rightarrow> string" where
  "recommended_action sev =
    (if sev = ''critical'' then ''investigate_immediately''
     else if sev = ''high'' then ''investigate''
     else if sev = ''medium'' then ''review''
     else ''monitor'')"

definition any_contains :: "string \<Rightarrow> string list \<Rightarrow> bool" where
  "any_contains needle xs = list_ex (\<lambda>x. sublist needle x) xs"

definition response_playbook :: "string list \<Rightarrow> string list \<Rightarrow> string" where
  "response_playbook rule_ids categories =
    (if any_contains ''mcp'' rule_ids \<or> any_contains ''mcp'' categories
     then ''telltale-playbook-mcp-prompt-injection''
     else if any_contains ''credential'' rule_ids \<or> any_contains ''secret'' rule_ids
       \<or> any_contains ''credential'' categories
     then ''telltale-playbook-credential-access''
     else if any_contains ''exfil'' rule_ids \<or> any_contains ''network'' categories
       \<or> any_contains ''exfil'' categories
     then ''telltale-playbook-network-egress''
     else if any_contains ''persistence'' rule_ids \<or> any_contains ''persistence'' categories
     then ''telltale-playbook-persistence''
     else ''telltale-playbook-general-investigation'')"

definition investigation_summary :: "string \<Rightarrow> string list \<Rightarrow> string list \<Rightarrow> string" where
  "investigation_summary sev rule_ids categories =
    sev @ '' Telltale detection matched ''
      @ (if rule_ids = [] then ''no rule id'' else join '','' rule_ids) @ '' in ''
      @ (if categories = [] then ''uncategorized'' else join '','' categories)
      @ ''; review redacted evidence, timeline anchors when present, and the local source session before containment.''"

definition response_metadata ::
  "string \<Rightarrow> string list \<Rightarrow> string list \<Rightarrow> bool \<Rightarrow> ResponseMetadata" where
  "response_metadata sev rule_ids categories high_req =
    \<lparr>rm_recommended_action = recommended_action sev,
     rm_response_playbook = response_playbook rule_ids categories,
     rm_investigation_summary = investigation_summary sev rule_ids categories,
     rm_escalation = (if high_req then ''security_review_required'' else ''routine_review'')\<rparr>"

section \<open>Source inventory\<close>

text \<open>Decimal text of a number, as \<open>to_string\<close> gives it.\<close>

fun decimal :: "nat \<Rightarrow> string" where
  "decimal n = (if n < 10 then [char_of (48 + n)] else decimal (n div 10) @ [char_of (48 + n mod 10)])"

declare decimal.simps [simp del]

definition bool_text :: "bool \<Rightarrow> string" where
  "bool_text b = (if b then ''true'' else ''false'')"

definition source_counts :: "Source list \<Rightarrow> (string, u32) btree_map" where
  "source_counts sources = foldl (\<lambda>counts s.
     let key = client_as_str (src_client s) @ ''.'' @ kind_as_str (src_kind s)
     in bt_put key ((case bt_get key counts of None \<Rightarrow> 0 | Some n \<Rightarrow> n) + 1) counts) [] sources"

definition path_hash :: "runtime \<Rightarrow> string \<Rightarrow> string" where
  "path_hash rt p = rt_sha256_hex rt p"

definition evidence_hash :: "runtime \<Rightarrow> string \<Rightarrow> string" where
  "evidence_hash rt s = rt_sha256_hex rt s"

definition source_inventory_evidence :: "runtime \<Rightarrow> Source list \<Rightarrow> Evidence" where
  "source_inventory_evidence rt sources =
    (let inventory = sort (map (\<lambda>s. client_as_str (src_client s) @ '':'' @ kind_as_str (src_kind s) @ '':''
           @ path_hash rt (src_path s)) sources)
     in \<lparr>evi_field = ''source_inventory'',
         evi_redacted_value = ''sources='' @ decimal (length sources) @ ''; client_source_kinds=''
           @ decimal (length (source_counts sources)),
         evi_hash = Some (rt_sha256_hex rt (concat (map (\<lambda>item. item @ [CHR 0x0A]) inventory))),
         evi_rule_id = None\<rparr>)"

definition source_inventory_change_evidence :: "SourceInventoryChangeSummary \<Rightarrow> Evidence" where
  "source_inventory_change_evidence change =
    \<lparr>evi_field = ''source_inventory_change'',
     evi_redacted_value = ''baseline='' @ bool_text (change_baseline change)
       @ ''; added='' @ decimal (unat (change_added change))
       @ ''; removed='' @ decimal (unat (change_removed change))
       @ ''; unchanged='' @ decimal (unat (change_unchanged change)),
     evi_hash = Some (change_hash change), evi_rule_id = None\<rparr>"

text \<open>\<open>Path::file_name\<close> on a Unix path: the last component, unless it is the parent directory.\<close>

definition file_name :: "string \<Rightarrow> string option" where
  "file_name p =
    (case rev (filter (\<lambda>c. c \<noteq> [] \<and> c \<noteq> ''.'') (split_on (\<lambda>c. c = CHR ''/'') p)) of
       [] \<Rightarrow> None | c # cs \<Rightarrow> if c = ''..'' then None else Some c)"

definition display_name :: "Source \<Rightarrow> string" where
  "display_name s = (case file_name (src_path s) of Some n \<Rightarrow> n | None \<Rightarrow> ''unknown'')"


section \<open>Constructor families\<close>

record NativeEventConstructorFamily =
  family_name :: string
  family_event_type :: string

definition TEXT_BEARING_EVENT_TYPES :: "string list" where
  "TEXT_BEARING_EVENT_TYPES = [''detection'', ''activity'', ''health'', ''scanner_error'',
     ''operational_alert'', ''session_risk_summary'', ''correlation'', ''process_chain'']"

definition CONSTRUCTOR_FAMILY_DETECTION :: NativeEventConstructorFamily where
  "CONSTRUCTOR_FAMILY_DETECTION = \<lparr>family_name = ''detection'', family_event_type = ''detection''\<rparr>"

definition CONSTRUCTOR_FAMILY_STANDARD_ACTIVITY :: NativeEventConstructorFamily where
  "CONSTRUCTOR_FAMILY_STANDARD_ACTIVITY = \<lparr>family_name = ''activity_standard'', family_event_type = ''activity''\<rparr>"

definition CONSTRUCTOR_FAMILY_INSTALL_INVENTORY :: NativeEventConstructorFamily where
  "CONSTRUCTOR_FAMILY_INSTALL_INVENTORY =
     \<lparr>family_name = ''install_inventory_activity'', family_event_type = ''activity''\<rparr>"

definition CONSTRUCTOR_FAMILY_SESSION_RISK_SUMMARY :: NativeEventConstructorFamily where
  "CONSTRUCTOR_FAMILY_SESSION_RISK_SUMMARY =
     \<lparr>family_name = ''session_risk_summary'', family_event_type = ''session_risk_summary''\<rparr>"

definition CONSTRUCTOR_FAMILY_HEALTH :: NativeEventConstructorFamily where
  "CONSTRUCTOR_FAMILY_HEALTH = \<lparr>family_name = ''health'', family_event_type = ''health''\<rparr>"

definition CONSTRUCTOR_FAMILY_SCANNER_ERROR :: NativeEventConstructorFamily where
  "CONSTRUCTOR_FAMILY_SCANNER_ERROR = \<lparr>family_name = ''scanner_error'', family_event_type = ''scanner_error''\<rparr>"

definition CONSTRUCTOR_FAMILY_OPERATIONAL_ALERT :: NativeEventConstructorFamily where
  "CONSTRUCTOR_FAMILY_OPERATIONAL_ALERT =
     \<lparr>family_name = ''operational_alert'', family_event_type = ''operational_alert''\<rparr>"

definition CONSTRUCTOR_FAMILY_PROCESS_CHAIN :: NativeEventConstructorFamily where
  "CONSTRUCTOR_FAMILY_PROCESS_CHAIN = \<lparr>family_name = ''process_chain'', family_event_type = ''process_chain''\<rparr>"

definition CONSTRUCTOR_FAMILY_CORRELATION :: NativeEventConstructorFamily where
  "CONSTRUCTOR_FAMILY_CORRELATION = \<lparr>family_name = ''correlation'', family_event_type = ''correlation''\<rparr>"

definition NATIVE_EVENT_CONSTRUCTOR_FAMILIES :: "NativeEventConstructorFamily list" where
  "NATIVE_EVENT_CONSTRUCTOR_FAMILIES = [CONSTRUCTOR_FAMILY_DETECTION, CONSTRUCTOR_FAMILY_STANDARD_ACTIVITY,
     CONSTRUCTOR_FAMILY_INSTALL_INVENTORY, CONSTRUCTOR_FAMILY_SESSION_RISK_SUMMARY, CONSTRUCTOR_FAMILY_HEALTH,
     CONSTRUCTOR_FAMILY_SCANNER_ERROR, CONSTRUCTOR_FAMILY_OPERATIONAL_ALERT, CONSTRUCTOR_FAMILY_PROCESS_CHAIN,
     CONSTRUCTOR_FAMILY_CORRELATION]"

definition require_constructor_coverage :: "NativeEventConstructorFamily \<Rightarrow> string \<Rightarrow> bool" where
  "require_constructor_coverage family event_type \<longleftrightarrow>
    family \<in> set NATIVE_EVENT_CONSTRUCTOR_FAMILIES \<and> family_event_type family = event_type
    \<and> event_type \<in> set TEXT_BEARING_EVENT_TYPES"

section \<open>The builder\<close>

record EventBuilder =
  eb_constructor_family :: NativeEventConstructorFamily
  eb_event_time :: "string option"
  eb_event_type :: string
  eb_severity :: string
  eb_risk_score :: u64
  eb_risk_contributions :: "RiskContribution list"
  eb_client :: string
  eb_agent :: "string option"
  eb_model :: "string option"
  eb_provider :: "string option"
  eb_session_id :: string
  eb_source_path_hash :: "string option"
  eb_tool_name :: "string option"
  eb_rule_ids :: "string list"
  eb_categories :: "string list"
  eb_detection_classes :: "string list"
  eb_signal_types :: "string list"
  eb_analytic_intents :: "string list"
  eb_atlas_tags :: "string list"
  eb_tags :: "string list"
  eb_evidence :: "Evidence list"
  eb_timeline_anchors :: "TimelineAnchor list"
  eb_response :: "ResponseMetadata option"
  eb_source_counts :: "(string, u32) btree_map option"
  eb_component :: "string option"
  eb_check_name :: "string option"
  eb_status :: "string option"
  eb_scan_duration_ms :: "u64 option"
  eb_rule_count :: "nat option"
  eb_threshold_config :: "RiskThresholds option"
  eb_active_policy_name :: "string option"
  eb_emitted_count :: "u64 option"
  eb_suppressed_count :: "u64 option"
  eb_scanner_error_count :: "u64 option"

definition NATIVE_SCHEMA_VERSION :: string where
  "NATIVE_SCHEMA_VERSION = ''3.0''"

text \<open>The record that \<open>build\<close> returns, given the two times it has formatted.\<close>

definition build_event :: "runtime \<Rightarrow> string \<Rightarrow> ResolvedEventTime \<Rightarrow> EventBuilder \<Rightarrow> Event" where
  "build_event rt observed_at resolved b =
        \<lparr>ev_timestamp = rs_timestamp resolved, ev_event_time = rs_event_time resolved,
         ev_observed_at = observed_at, ev_ingested_at = observed_at,
         ev_time_source = rs_time_source resolved, ev_time_confidence = rs_time_confidence resolved,
         ev_time_override_reason = rs_time_override_reason resolved,
         ev_schema_version = NATIVE_SCHEMA_VERSION, ev_event_id = ''telltale-'' @ rt_uuid rt,
         ev_telltale_version = rt_version rt, ev_event_type = eb_event_type b,
         ev_severity = eb_severity b, ev_risk_score = eb_risk_score b,
         ev_risk_contributions = eb_risk_contributions b, ev_client = eb_client b,
         ev_agent = eb_agent b, ev_model = eb_model b, ev_provider = eb_provider b,
         ev_session_id = eb_session_id b, ev_source_path_hash = eb_source_path_hash b,
         ev_tool_name = (case eb_tool_name b of Some v \<Rightarrow> if v \<noteq> ''null'' then Some v else None | None \<Rightarrow> None),
         ev_rule_ids = eb_rule_ids b, ev_categories = eb_categories b,
         ev_detection_classes = eb_detection_classes b, ev_signal_types = eb_signal_types b,
         ev_analytic_intents = eb_analytic_intents b, ev_atlas_tags = eb_atlas_tags b,
         ev_tags = eb_tags b, ev_evidence = eb_evidence b,
         ev_timeline_anchors = canonicalize_timeline_anchors (eb_timeline_anchors b),
         ev_response = eb_response b, ev_source_counts = eb_source_counts b,
         ev_component = eb_component b, ev_check_name = eb_check_name b, ev_status = eb_status b,
         ev_scan_duration_ms = eb_scan_duration_ms b, ev_rule_count = eb_rule_count b,
         ev_threshold_config = eb_threshold_config b, ev_active_policy_name = eb_active_policy_name b,
         ev_emitted_count = eb_emitted_count b, ev_suppressed_count = eb_suppressed_count b,
         ev_scanner_error_count = eb_scanner_error_count b,
         ev_informational = None, ev_confidence = None, ev_detection_reason = None,
         ev_mitre_attack_techniques = [], ev_risk_entity_type = None, ev_risk_entity_value = None,
         ev_process = None\<rparr>"

definition build :: "runtime \<Rightarrow> EventBuilder \<Rightarrow> (event_failure, Event) result" where
  "build rt b =
    (if require_constructor_coverage (eb_constructor_family b) (eb_event_type b)
     then result_bind (format_timestamp rt (rt_now rt)) (\<lambda>observed_at.
       result_bind (resolve_event_time rt (eb_event_time b) (rt_now rt)) (\<lambda>resolved_time.
       Inr (build_event rt observed_at resolved_time b)))
     else Inl Panicked)"

section \<open>Validation of inputs\<close>

definition require_non_empty :: "string \<Rightarrow> string \<Rightarrow> string \<Rightarrow> (RiskAccountingError, unit) result" where
  "require_non_empty event_type field s =
    (if trim s = [] then Inl (EmptyEventField event_type field) else Inr ())"

definition require_optional_non_empty ::
  "string \<Rightarrow> string \<Rightarrow> string option \<Rightarrow> (RiskAccountingError, unit) result" where
  "require_optional_non_empty event_type field s =
    (case s of Some v \<Rightarrow> require_non_empty event_type field v | None \<Rightarrow> Inr ())"

definition require_non_empty_array ::
  "string \<Rightarrow> string \<Rightarrow> string list \<Rightarrow> (RiskAccountingError, unit) result" where
  "require_non_empty_array event_type field vs =
    (if vs = [] \<or> list_ex (\<lambda>v. trim v = []) vs then Inl (EmptyEventField event_type field) else Inr ())"

definition validate_optional_metadata ::
  "string \<Rightarrow> string option \<Rightarrow> string option \<Rightarrow> string option \<Rightarrow> (RiskAccountingError, unit) result" where
  "validate_optional_metadata event_type agent model provider =
    all_ok [require_optional_non_empty event_type ''agent'' agent,
            require_optional_non_empty event_type ''model'' model,
            require_optional_non_empty event_type ''provider'' provider]"

definition validate_rule_ids :: "runtime \<Rightarrow> string list \<Rightarrow> (RiskAccountingError, unit) result" where
  "validate_rule_ids rt rule_ids =
    all_ok (map (\<lambda>i. if \<not> is_canonical_contribution_id i \<or> credential_material (rt_filters rt) i
                     then Inl (RiskAccountingError.InvalidRuleId i) else Inr ()) rule_ids)"

definition validate_evidence :: "runtime \<Rightarrow> string \<Rightarrow> Evidence list \<Rightarrow> (RiskAccountingError, unit) result" where
  "validate_evidence rt event_type evidence =
    all_ok (map (\<lambda>item. all_ok
      [require_non_empty event_type ''evidence.field'' (evi_field item),
       require_optional_non_empty event_type ''evidence.hash'' (evi_hash item),
       (case evi_rule_id item of Some i \<Rightarrow> validate_rule_ids rt [i] | None \<Rightarrow> Inr ())]) evidence)"

definition validate_allowed_values ::
  "string \<Rightarrow> string \<Rightarrow> string list \<Rightarrow> string list \<Rightarrow> (RiskAccountingError, unit) result" where
  "validate_allowed_values event_type field vs allowed =
    (if list_ex (\<lambda>v. v \<notin> set allowed) vs then Inl (InvalidEventValue event_type field) else Inr ())"

definition validate_optional_array_values ::
  "string \<Rightarrow> string \<Rightarrow> string list \<Rightarrow> (RiskAccountingError, unit) result" where
  "validate_optional_array_values event_type field vs =
    (if list_ex (\<lambda>v. trim v = []) vs then Inl (EmptyEventField event_type field) else Inr ())"

definition DETECTION_CLASSES :: "string list" where
  "DETECTION_CLASSES = [''security_detection'', ''policy_violation'', ''threat_hunting'',
     ''compliance_observation'', ''operational_health'', ''baseline_deviation'']"

definition SIGNAL_TYPES :: "string list" where
  "SIGNAL_TYPES = [''atomic'', ''chain'', ''correlation'', ''baseline_deviation'']"

definition ANALYTIC_INTENTS :: "string list" where
  "ANALYTIC_INTENTS = [''alert'', ''hunt'', ''enrich'', ''baseline'', ''audit'']"

definition validate_detection_dimensions ::
  "string \<Rightarrow> string list \<Rightarrow> string list \<Rightarrow> string list \<Rightarrow> string list \<Rightarrow> string list
    \<Rightarrow> (RiskAccountingError, unit) result" where
  "validate_detection_dimensions event_type rule_ids categories classes signals intents =
    all_ok [require_non_empty_array event_type ''rule_ids'' rule_ids,
            require_non_empty_array event_type ''categories'' categories,
            require_non_empty_array event_type ''detection_classes'' classes,
            require_non_empty_array event_type ''signal_types'' signals,
            require_non_empty_array event_type ''analytic_intents'' intents,
            validate_allowed_values event_type ''detection_classes'' classes DETECTION_CLASSES,
            validate_allowed_values event_type ''signal_types'' signals SIGNAL_TYPES,
            validate_allowed_values event_type ''analytic_intents'' intents ANALYTIC_INTENTS]"

definition is_safe_atlas_tag :: "runtime \<Rightarrow> string \<Rightarrow> bool" where
  "is_safe_atlas_tag rt v \<longleftrightarrow> length v \<le> 128 \<and> prefix ''atlas:'' v \<and> \<not> credential_material (rt_filters rt) v
     \<and> list_all (\<lambda>c. is_ascii_lowercase c \<or> is_ascii_uppercase c \<or> is_ascii_digit c
          \<or> c \<in> {CHR ''_'', CHR ''-'', CHR ''.'', CHR '':''}) v"

definition validate_atlas_tags :: "runtime \<Rightarrow> string \<Rightarrow> string list \<Rightarrow> (RiskAccountingError, unit) result" where
  "validate_atlas_tags rt event_type tags =
    (if list_ex (\<lambda>tag. \<not> is_safe_atlas_tag rt tag) tags
     then Inl (InvalidEventValue event_type ''atlas_tags'') else Inr ())"

definition RULE_SEVERITIES :: "string list" where
  "RULE_SEVERITIES = [''informational'', ''low'', ''medium'', ''high'', ''critical'']"

definition validate_process_context :: "runtime \<Rightarrow> ProcessContext \<Rightarrow> (RiskAccountingError, unit) result" where
  "validate_process_context rt p =
    all_ok
      [require_non_empty ''process_chain'' ''source_process_name'' (pc_source_process_name p),
       require_non_empty ''process_chain'' ''target_process_name'' (pc_target_process_name p),
       require_non_empty ''process_chain'' ''rule_name'' (pc_rule_name p),
       require_non_empty ''process_chain'' ''dedup_key'' (pc_dedup_key p),
       require_non_empty ''process_chain'' ''rule_severity'' (pc_rule_severity p),
       validate_optional_array_values ''process_chain'' ''secondary_rule_ids'' (pc_secondary_rule_ids p),
       validate_optional_array_values ''process_chain'' ''investigation_fields'' (pc_investigation_fields p),
       validate_optional_array_values ''process_chain'' ''falsepositives'' (pc_falsepositives p),
       require_optional_non_empty ''process_chain'' ''host'' (pc_host p),
       require_optional_non_empty ''process_chain'' ''user'' (pc_user p),
       require_optional_non_empty ''process_chain'' ''source_process_path'' (pc_source_process_path p),
       require_optional_non_empty ''process_chain'' ''source_process_command_line'' (pc_source_process_command_line p),
       require_optional_non_empty ''process_chain'' ''target_process_path'' (pc_target_process_path p),
       require_optional_non_empty ''process_chain'' ''target_process_command_line'' (pc_target_process_command_line p),
       require_optional_non_empty ''process_chain'' ''parent_process_name'' (pc_parent_process_name p),
       require_optional_non_empty ''process_chain'' ''parent_process_path'' (pc_parent_process_path p),
       require_optional_non_empty ''process_chain'' ''source_event_id'' (pc_source_event_id p),
       require_optional_non_empty ''process_chain'' ''risk_adjustment'' (pc_risk_adjustment p),
       validate_rule_ids rt (pc_secondary_rule_ids p),
       validate_allowed_values ''process_chain'' ''rule_severity'' [pc_rule_severity p] RULE_SEVERITIES]"

section \<open>Scope of risk contributions\<close>

definition type_allowed :: "string \<Rightarrow> RiskContributionType \<Rightarrow> bool" where
  "type_allowed event_type t =
    (if event_type = ''activity'' then t = BaselineDeviation
     else if event_type = ''detection'' then t \<in> {DeterministicRule, ChainModifier}
     else True)"

definition scope_of_contribution ::
  "string \<Rightarrow> string list \<Rightarrow> RiskContribution \<Rightarrow> (RiskAccountingError, unit) result" where
  "scope_of_contribution event_type rule_ids c =
    (if \<not> type_allowed event_type (contribution_type c)
     then Inl (ContributionTypeNotAllowed event_type (rc_id c) (contribution_type c))
     else let rule_backed = contribution_type c \<in> {DeterministicRule, ChainModifier} in
       if (event_type = ''detection'' \<or> (event_type = ''session_risk_summary'' \<and> rule_backed))
          \<and> rc_id c \<notin> set rule_ids
       then Inl (ContributionRuleIdMissing (rc_id c)) else Inr ())"

definition validate_risk_accounting_scope ::
  "string \<Rightarrow> string list \<Rightarrow> RiskContribution list \<Rightarrow> (RiskAccountingError, unit) result" where
  "validate_risk_accounting_scope event_type rule_ids cs = all_ok (map (scope_of_contribution event_type rule_ids) cs)"

definition score_for_contributions :: "runtime \<Rightarrow> RiskContribution list \<Rightarrow> (RiskAccountingError, u64) result" where
  "score_for_contributions rt cs = checked_risk_sum (rt_filters rt) cs"


text \<open>The steps that every scoring constructor takes on its contributions, in the order of the code:
  canonicalisation, scope, sum, assessment.\<close>

definition account ::
  "runtime \<Rightarrow> string \<Rightarrow> string list \<Rightarrow> RiskContribution list
    \<Rightarrow> (RiskAccountingError, RiskContribution list \<times> u64 \<times> RiskAssessment) result" where
  "account rt scope rule_ids contributions =
    result_bind (canonicalize_contributions (rt_filters rt) contributions) (\<lambda>cs.
    result_bind (validate_risk_accounting_scope scope rule_ids cs) (\<lambda>_.
    result_bind (score_for_contributions rt cs) (\<lambda>score.
    Inr (cs, score, assess_risk_with_thresholds score (load_thresholds (rt_thresholds rt))))))"

section \<open>Detections\<close>

record DetectionEventInput =
  di_client :: ClientId
  di_agent :: "string option"
  di_model :: "string option"
  di_provider :: "string option"
  di_session_id :: string
  di_source_path_hash :: string
  di_tool_name :: "string option"
  di_rule_ids :: "string list"
  di_categories :: "string list"
  di_detection_classes :: "string list"
  di_signal_types :: "string list"
  di_analytic_intents :: "string list"
  di_atlas_tags :: "string list"
  di_tags :: "string list"
  di_evidence :: "Evidence list"
  di_risk_contributions :: "RiskContribution list"
  di_event_time :: "string option"

definition check_detection_input :: "runtime \<Rightarrow> DetectionEventInput \<Rightarrow> (RiskAccountingError, unit) result" where
  "check_detection_input rt i = all_ok
    [require_non_empty ''detection'' ''session_id'' (di_session_id i),
     require_non_empty ''detection'' ''source_path_hash'' (di_source_path_hash i),
     validate_optional_metadata ''detection'' (di_agent i) (di_model i) (di_provider i),
     require_optional_non_empty ''detection'' ''tool_name'' (di_tool_name i),
     validate_rule_ids rt (di_rule_ids i),
     validate_detection_dimensions ''detection'' (di_rule_ids i) (di_categories i) (di_detection_classes i)
       (di_signal_types i) (di_analytic_intents i),
     validate_optional_array_values ''detection'' ''atlas_tags'' (di_atlas_tags i),
     validate_atlas_tags rt ''detection'' (di_atlas_tags i),
     validate_evidence rt ''detection'' (di_evidence i)]"

definition detection_builder ::
  "DetectionEventInput \<Rightarrow> RiskContribution list \<Rightarrow> u64 \<Rightarrow> RiskAssessment \<Rightarrow> EventBuilder" where
  "detection_builder i cs score assessment =
    \<lparr>eb_constructor_family = CONSTRUCTOR_FAMILY_DETECTION, eb_event_time = di_event_time i,
         eb_event_type = ''detection'', eb_severity = severity_as_str (severity assessment),
         eb_risk_score = score, eb_risk_contributions = cs, eb_client = client_as_str (di_client i),
         eb_agent = di_agent i, eb_model = di_model i, eb_provider = di_provider i,
         eb_session_id = di_session_id i, eb_source_path_hash = Some (di_source_path_hash i),
         eb_tool_name = di_tool_name i, eb_rule_ids = di_rule_ids i, eb_categories = di_categories i,
         eb_detection_classes = di_detection_classes i, eb_signal_types = di_signal_types i,
         eb_analytic_intents = di_analytic_intents i, eb_atlas_tags = di_atlas_tags i, eb_tags = di_tags i,
         eb_evidence = di_evidence i, eb_timeline_anchors = [],
         eb_response = Some (response_metadata (severity_as_str (severity assessment)) (di_rule_ids i)
           (di_categories i) (high_required assessment)),
         eb_source_counts = None, eb_component = None, eb_check_name = None, eb_status = None,
         eb_scan_duration_ms = None, eb_rule_count = None, eb_threshold_config = None,
         eb_active_policy_name = None, eb_emitted_count = None, eb_suppressed_count = None,
         eb_scanner_error_count = None\<rparr>"

definition detection_event :: "runtime \<Rightarrow> DetectionEventInput \<Rightarrow> (event_failure, Event) result" where
  "detection_event rt i =
    result_bind (rejected (check_detection_input rt i)) (\<lambda>_.
    result_bind (rejected (account rt ''detection'' (di_rule_ids i) (di_risk_contributions i))) (\<lambda>(cs, score, assessment).
    build rt (detection_builder i cs score assessment)))"

section \<open>Process chains\<close>

record ProcessChainEventInput =
  pi_client :: ClientId
  pi_agent :: "string option"
  pi_model :: "string option"
  pi_provider :: "string option"
  pi_session_id :: string
  pi_source_path_hash :: string
  pi_tool_name :: "string option"
  pi_rule_ids :: "string list"
  pi_categories :: "string list"
  pi_detection_classes :: "string list"
  pi_signal_types :: "string list"
  pi_analytic_intents :: "string list"
  pi_tags :: "string list"
  pi_evidence :: "Evidence list"
  pi_risk_contributions :: "RiskContribution list"
  pi_event_time :: "string option"
  pi_confidence :: string
  pi_detection_reason :: string
  pi_mitre_attack_techniques :: "string list"
  pi_risk_entity_type :: string
  pi_risk_entity_value :: "string option"
  pi_process :: ProcessContext

definition check_process_chain_input ::
  "runtime \<Rightarrow> ProcessChainEventInput \<Rightarrow> (RiskAccountingError, unit) result" where
  "check_process_chain_input rt i = all_ok
    [require_non_empty ''process_chain'' ''session_id'' (pi_session_id i),
     require_non_empty ''process_chain'' ''source_path_hash'' (pi_source_path_hash i),
     validate_optional_metadata ''process_chain'' (pi_agent i) (pi_model i) (pi_provider i),
     require_optional_non_empty ''process_chain'' ''tool_name'' (pi_tool_name i),
     validate_detection_dimensions ''process_chain'' (pi_rule_ids i) (pi_categories i) (pi_detection_classes i)
       (pi_signal_types i) (pi_analytic_intents i),
     require_non_empty ''process_chain'' ''confidence'' (pi_confidence i),
     validate_allowed_values ''process_chain'' ''confidence'' [pi_confidence i] [''low'', ''medium'', ''high''],
     require_non_empty ''process_chain'' ''detection_reason'' (pi_detection_reason i),
     require_non_empty ''process_chain'' ''risk_entity_type'' (pi_risk_entity_type i),
     validate_allowed_values ''process_chain'' ''risk_entity_type'' [pi_risk_entity_type i]
       [''host'', ''user'', ''session''],
     (case pi_risk_entity_value i of
        None \<Rightarrow> Inl (EmptyEventField ''process_chain'' ''risk_entity_value'')
      | Some v \<Rightarrow> require_non_empty ''process_chain'' ''risk_entity_value'' v),
     validate_process_context rt (pi_process i),
     validate_evidence rt ''process_chain'' (pi_evidence i),
     validate_optional_array_values ''process_chain'' ''mitre_attack_techniques'' (pi_mitre_attack_techniques i),
     validate_rule_ids rt (pi_rule_ids i)]"

definition process_chain_builder ::
  "ProcessChainEventInput \<Rightarrow> RiskContribution list \<Rightarrow> u64 \<Rightarrow> RiskAssessment \<Rightarrow> EventBuilder" where
  "process_chain_builder i cs score assessment =
    \<lparr>eb_constructor_family = CONSTRUCTOR_FAMILY_PROCESS_CHAIN, eb_event_time = pi_event_time i,
         eb_event_type = ''process_chain'', eb_severity = severity_as_str (severity assessment),
         eb_risk_score = score, eb_risk_contributions = cs, eb_client = client_as_str (pi_client i),
         eb_agent = pi_agent i, eb_model = pi_model i, eb_provider = pi_provider i,
         eb_session_id = pi_session_id i, eb_source_path_hash = Some (pi_source_path_hash i),
         eb_tool_name = pi_tool_name i, eb_rule_ids = pi_rule_ids i, eb_categories = pi_categories i,
         eb_detection_classes = pi_detection_classes i, eb_signal_types = pi_signal_types i,
         eb_analytic_intents = pi_analytic_intents i, eb_atlas_tags = [], eb_tags = pi_tags i,
         eb_evidence = pi_evidence i, eb_timeline_anchors = [],
         eb_response = Some (response_metadata (severity_as_str (severity assessment)) (pi_rule_ids i)
           (pi_categories i) (high_required assessment)),
         eb_source_counts = None, eb_component = None, eb_check_name = None, eb_status = None,
         eb_scan_duration_ms = None, eb_rule_count = None, eb_threshold_config = None,
         eb_active_policy_name = None, eb_emitted_count = None, eb_suppressed_count = None,
         eb_scanner_error_count = None\<rparr>"

definition with_process_context :: "ProcessChainEventInput \<Rightarrow> u64 \<Rightarrow> Event \<Rightarrow> Event" where
  "with_process_context i score e =
    e\<lparr>ev_informational := Some (score = 0), ev_confidence := Some (pi_confidence i),
           ev_detection_reason := Some (pi_detection_reason i),
           ev_mitre_attack_techniques := pi_mitre_attack_techniques i,
           ev_risk_entity_type := Some (pi_risk_entity_type i),
           ev_risk_entity_value := pi_risk_entity_value i, ev_process := Some (pi_process i)\<rparr>"

definition process_chain_event :: "runtime \<Rightarrow> ProcessChainEventInput \<Rightarrow> (event_failure, Event) result" where
  "process_chain_event rt i =
    result_bind (rejected (check_process_chain_input rt i)) (\<lambda>_.
    result_bind (rejected (account rt ''detection'' (pi_rule_ids i) (pi_risk_contributions i))) (\<lambda>(cs, score, assessment).
    result_bind (build rt (process_chain_builder i cs score assessment)) (\<lambda>e.
    Inr (with_process_context i score e))))"

section \<open>Activities\<close>

record ActivityEventInput =
  ai_client :: ClientId
  ai_agent :: "string option"
  ai_model :: "string option"
  ai_provider :: "string option"
  ai_session_id :: string
  ai_source_path_hash :: string
  ai_tool_name :: "string option"
  ai_tags :: "string list"
  ai_evidence :: "Evidence list"
  ai_risk_contributions :: "RiskContribution list"
  ai_event_time :: "string option"

definition check_activity_input :: "runtime \<Rightarrow> ActivityEventInput \<Rightarrow> (RiskAccountingError, unit) result" where
  "check_activity_input rt i = all_ok
    [require_non_empty ''activity'' ''session_id'' (ai_session_id i),
     require_non_empty ''activity'' ''source_path_hash'' (ai_source_path_hash i),
     validate_optional_metadata ''activity'' (ai_agent i) (ai_model i) (ai_provider i),
     require_optional_non_empty ''activity'' ''tool_name'' (ai_tool_name i),
     validate_evidence rt ''activity'' (ai_evidence i)]"

definition activity_builder ::
  "ActivityEventInput \<Rightarrow> RiskContribution list \<Rightarrow> u64 \<Rightarrow> RiskAssessment \<Rightarrow> EventBuilder" where
  "activity_builder i cs score assessment =
    \<lparr>eb_constructor_family = CONSTRUCTOR_FAMILY_STANDARD_ACTIVITY, eb_event_time = ai_event_time i,
         eb_event_type = ''activity'', eb_severity = severity_as_str (severity assessment),
         eb_risk_score = score, eb_risk_contributions = cs, eb_client = client_as_str (ai_client i),
         eb_agent = ai_agent i, eb_model = ai_model i, eb_provider = ai_provider i,
         eb_session_id = ai_session_id i, eb_source_path_hash = Some (ai_source_path_hash i),
         eb_tool_name = ai_tool_name i, eb_rule_ids = [], eb_categories = [],
         eb_detection_classes = [], eb_signal_types = [], eb_analytic_intents = [], eb_atlas_tags = [],
         eb_tags = ai_tags i, eb_evidence = ai_evidence i, eb_timeline_anchors = [], eb_response = None,
         eb_source_counts = None, eb_component = None, eb_check_name = None, eb_status = None,
         eb_scan_duration_ms = None, eb_rule_count = None, eb_threshold_config = None,
         eb_active_policy_name = None, eb_emitted_count = None, eb_suppressed_count = None,
         eb_scanner_error_count = None\<rparr>"

definition activity_event :: "runtime \<Rightarrow> ActivityEventInput \<Rightarrow> (event_failure, Event) result" where
  "activity_event rt i =
    result_bind (rejected (check_activity_input rt i)) (\<lambda>_.
    result_bind (rejected (account rt ''activity'' [] (ai_risk_contributions i))) (\<lambda>(cs, score, assessment).
    build rt (activity_builder i cs score assessment)))"

definition install_inventory_event :: "runtime \<Rightarrow> Evidence list \<Rightarrow> (event_failure, Event) result" where
  "install_inventory_event rt evidence =
    (if evidence = [] then Inl (Rejected (EmptyEventField ''activity'' ''evidence''))
     else result_bind (rejected (validate_evidence rt ''activity'' evidence)) (\<lambda>_.
       build rt \<lparr>eb_constructor_family = CONSTRUCTOR_FAMILY_INSTALL_INVENTORY, eb_event_time = None,
         eb_event_type = ''activity'', eb_severity = ''informational'', eb_risk_score = 0,
         eb_risk_contributions = [], eb_client = ''install_inventory'', eb_agent = None, eb_model = None,
         eb_provider = None, eb_session_id = ''scanner'', eb_source_path_hash = None, eb_tool_name = None,
         eb_rule_ids = [], eb_categories = [], eb_detection_classes = [], eb_signal_types = [],
         eb_analytic_intents = [], eb_atlas_tags = [],
         eb_tags = [''scanner'', ''install_inventory'', ''metadata_only''], eb_evidence = evidence,
         eb_timeline_anchors = [], eb_response = None, eb_source_counts = None,
         eb_component = Some ''scanner'', eb_check_name = Some ''install_inventory'', eb_status = Some ''ok'',
         eb_scan_duration_ms = None, eb_rule_count = None, eb_threshold_config = None,
         eb_active_policy_name = None, eb_emitted_count = None, eb_suppressed_count = None,
         eb_scanner_error_count = None\<rparr>))"


section \<open>Session summaries\<close>

record SessionRiskSummaryEventInput =
  si_client :: string
  si_agent :: "string option"
  si_model :: "string option"
  si_provider :: "string option"
  si_session_id :: string
  si_source_path_hash :: "string option"
  si_rule_ids :: "string list"
  si_categories :: "string list"
  si_detection_classes :: "string list"
  si_signal_types :: "string list"
  si_analytic_intents :: "string list"
  si_atlas_tags :: "string list"
  si_tags :: "string list"
  si_evidence :: "Evidence list"
  si_risk_contributions :: "RiskContribution list"
  si_event_time :: "string option"

definition check_summary_input ::
  "runtime \<Rightarrow> SessionRiskSummaryEventInput \<Rightarrow> (RiskAccountingError, unit) result" where
  "check_summary_input rt i = (let et = ''session_risk_summary'' in all_ok
    [require_non_empty et ''client'' (si_client i),
     require_non_empty et ''session_id'' (si_session_id i),
     validate_optional_metadata et (si_agent i) (si_model i) (si_provider i),
     require_optional_non_empty et ''source_path_hash'' (si_source_path_hash i),
     validate_rule_ids rt (si_rule_ids i),
     validate_optional_array_values et ''categories'' (si_categories i),
     validate_optional_array_values et ''detection_classes'' (si_detection_classes i),
     validate_optional_array_values et ''signal_types'' (si_signal_types i),
     validate_optional_array_values et ''analytic_intents'' (si_analytic_intents i),
     validate_allowed_values et ''detection_classes'' (si_detection_classes i) DETECTION_CLASSES,
     validate_allowed_values et ''signal_types'' (si_signal_types i) SIGNAL_TYPES,
     validate_allowed_values et ''analytic_intents'' (si_analytic_intents i) ANALYTIC_INTENTS,
     validate_optional_array_values et ''atlas_tags'' (si_atlas_tags i),
     validate_atlas_tags rt et (si_atlas_tags i),
     validate_evidence rt et (si_evidence i)])"

definition session_risk_summary_builder ::
  "SessionRiskSummaryEventInput \<Rightarrow> RiskContribution list \<Rightarrow> u64 \<Rightarrow> RiskAssessment \<Rightarrow> EventBuilder" where
  "session_risk_summary_builder i cs score assessment =
    \<lparr>eb_constructor_family = CONSTRUCTOR_FAMILY_SESSION_RISK_SUMMARY, eb_event_time = si_event_time i,
         eb_event_type = ''session_risk_summary'', eb_severity = severity_as_str (severity assessment),
         eb_risk_score = score, eb_risk_contributions = cs, eb_client = si_client i,
         eb_agent = si_agent i, eb_model = si_model i, eb_provider = si_provider i,
         eb_session_id = si_session_id i, eb_source_path_hash = si_source_path_hash i,
         eb_tool_name = None, eb_rule_ids = si_rule_ids i, eb_categories = si_categories i,
         eb_detection_classes = si_detection_classes i, eb_signal_types = si_signal_types i,
         eb_analytic_intents = si_analytic_intents i, eb_atlas_tags = si_atlas_tags i, eb_tags = si_tags i,
         eb_evidence = si_evidence i, eb_timeline_anchors = [], eb_response = None,
         eb_source_counts = None, eb_component = None, eb_check_name = None, eb_status = None,
         eb_scan_duration_ms = None, eb_rule_count = None, eb_threshold_config = None,
         eb_active_policy_name = None, eb_emitted_count = None, eb_suppressed_count = None,
         eb_scanner_error_count = None\<rparr>"

definition session_risk_summary_event ::
  "runtime \<Rightarrow> SessionRiskSummaryEventInput \<Rightarrow> (event_failure, Event) result" where
  "session_risk_summary_event rt i =
    result_bind (rejected (check_summary_input rt i)) (\<lambda>_.
    result_bind (rejected (account rt ''session_risk_summary'' (si_rule_ids i) (si_risk_contributions i)))
      (\<lambda>(cs, score, assessment).
    build rt (session_risk_summary_builder i cs score assessment)))"

section \<open>Correlations\<close>

record CorrelationSessionInput =
  csi_session_id :: string
  csi_event_id :: string
  csi_timestamp :: string
  csi_severity :: string
  csi_risk_score :: u64

record CorrelationEventInput =
  ci_client :: string
  ci_agent :: "string option"
  ci_model :: "string option"
  ci_provider :: "string option"
  ci_shared_rule_ids :: "string list"
  ci_sessions :: "CorrelationSessionInput list"
  ci_window_start :: string
  ci_window_end :: string
  ci_max_risk_score :: u64

definition parse_field :: "runtime \<Rightarrow> string \<Rightarrow> string \<Rightarrow> (RiskAccountingError, offset_date_time) result" where
  "parse_field rt field s = ok_or (parse_event_timestamp rt s) (InvalidEventValue ''correlation'' field)"

text \<open>One iteration over the sessions; the state is the sets of session and event ids seen.\<close>

definition check_correlation_session ::
  "runtime \<Rightarrow> offset_date_time \<Rightarrow> offset_date_time \<Rightarrow> string set \<times> string set \<Rightarrow> CorrelationSessionInput
    \<Rightarrow> (RiskAccountingError, string set \<times> string set) result" where
  "check_correlation_session rt window_start window_end st session =
    (case st of (session_ids, event_ids) \<Rightarrow>
      result_bind (all_ok [require_non_empty ''correlation'' ''session_id'' (csi_session_id session),
         require_non_empty ''correlation'' ''event_id'' (csi_event_id session),
         require_non_empty ''correlation'' ''timestamp'' (csi_timestamp session)]) (\<lambda>_.
      result_bind (parse_field rt ''timestamp'' (csi_timestamp session)) (\<lambda>timestamp.
      if unix_nanos timestamp < unix_nanos window_start \<or> unix_nanos window_end < unix_nanos timestamp
      then Inl (InvalidEventValue ''correlation'' ''timestamp'')
      else result_bind (all_ok [require_non_empty ''correlation'' ''severity'' (csi_severity session),
         validate_allowed_values ''correlation'' ''severity'' [csi_severity session] RULE_SEVERITIES]) (\<lambda>_.
      if csi_session_id session \<in> session_ids then Inl (DuplicateCorrelationValue ''session_id'')
      else if csi_event_id session \<in> event_ids then Inl (DuplicateCorrelationValue ''event_id'')
      else Inr (insert (csi_session_id session) session_ids, insert (csi_event_id session) event_ids)))))"

definition max_score :: "u64 list \<Rightarrow> u64" where
  "max_score scores = (case scores of [] \<Rightarrow> 0 | s # ss \<Rightarrow> foldl max s ss)"

definition validate_correlation_input ::
  "runtime \<Rightarrow> CorrelationEventInput \<Rightarrow> (RiskAccountingError, unit) result" where
  "validate_correlation_input rt i =
    result_bind (all_ok [require_non_empty ''correlation'' ''client'' (ci_client i),
       require_non_empty_array ''correlation'' ''shared_rule_ids'' (ci_shared_rule_ids i),
       (if card (set (ci_shared_rule_ids i)) \<noteq> length (ci_shared_rule_ids i)
        then Inl (DuplicateCorrelationValue ''shared_rule_ids'') else Inr ()),
       require_non_empty ''correlation'' ''window_start'' (ci_window_start i),
       require_non_empty ''correlation'' ''window_end'' (ci_window_end i)]) (\<lambda>_.
    result_bind (parse_field rt ''window_start'' (ci_window_start i)) (\<lambda>window_start.
    result_bind (parse_field rt ''window_end'' (ci_window_end i)) (\<lambda>window_end.
    if unix_nanos window_end < unix_nanos window_start
    then Inl (InvalidEventValue ''correlation'' ''window'')
    else if length (ci_sessions i) < 2
    then Inl (InvalidCorrelationCardinality (length (ci_sessions i)))
    else result_bind (try_fold (check_correlation_session rt window_start window_end) ({}, {}) (ci_sessions i))
      (\<lambda>(session_ids, event_ids).
      if card session_ids < 2 then Inl (InvalidCorrelationCardinality (card session_ids))
      else if max_score (map csi_risk_score (ci_sessions i)) \<noteq> ci_max_risk_score i
      then Inl (InvalidEventValue ''correlation'' ''max_risk_score'')
      else Inr ()))))"

definition correlation_evidence :: "runtime \<Rightarrow> CorrelationEventInput \<Rightarrow> Evidence list" where
  "correlation_evidence rt i =
    [\<lparr>evi_field = ''shared_rule_ids'', evi_redacted_value = join '','' (ci_shared_rule_ids i),
      evi_hash = None, evi_rule_id = None\<rparr>,
     \<lparr>evi_field = ''correlation_window'',
      evi_redacted_value = ci_window_start i @ ''..'' @ ci_window_end i,
      evi_hash = None, evi_rule_id = None\<rparr>]
    @ map (\<lambda>session. \<lparr>evi_field = ''related_detection'',
        evi_redacted_value = ''session_id='' @ csi_session_id session @ ''; event_id='' @ csi_event_id session
          @ ''; timestamp='' @ csi_timestamp session @ ''; severity='' @ csi_severity session
          @ ''; risk_score='' @ decimal (unat (csi_risk_score session)),
        evi_hash = Some (evidence_hash rt (csi_event_id session)), evi_rule_id = None\<rparr>) (ci_sessions i)"

definition check_correlation_event :: "runtime \<Rightarrow> CorrelationEventInput \<Rightarrow> (RiskAccountingError, unit) result" where
  "check_correlation_event rt i = all_ok
    [validate_optional_metadata ''correlation'' (ci_agent i) (ci_model i) (ci_provider i),
     validate_rule_ids rt (ci_shared_rule_ids i), validate_correlation_input rt i]"

definition correlation_event :: "runtime \<Rightarrow> CorrelationEventInput \<Rightarrow> (event_failure, Event) result" where
  "correlation_event rt i =
    result_bind (rejected (check_correlation_event rt i)) (\<lambda>_.
    let assessment = assess_risk_with_thresholds (ci_max_risk_score i) (load_thresholds (rt_thresholds rt)) in
    build rt \<lparr>eb_constructor_family = CONSTRUCTOR_FAMILY_CORRELATION, eb_event_time = Some (ci_window_end i),
         eb_event_type = ''correlation'', eb_severity = severity_as_str (severity assessment),
         eb_risk_score = ci_max_risk_score i, eb_risk_contributions = [], eb_client = ci_client i,
         eb_agent = ci_agent i, eb_model = ci_model i, eb_provider = ci_provider i,
         eb_session_id = ''correlation'', eb_source_path_hash = None, eb_tool_name = None,
         eb_rule_ids = ci_shared_rule_ids i, eb_categories = [''cross_session_correlation''],
         eb_detection_classes = [''security_detection''], eb_signal_types = [''correlation''],
         eb_analytic_intents = [''alert''], eb_atlas_tags = [], eb_tags = [''correlation'', ''cross_session''],
         eb_evidence = correlation_evidence rt i, eb_timeline_anchors = [], eb_response = None,
         eb_source_counts = None, eb_component = None, eb_check_name = None, eb_status = None,
         eb_scan_duration_ms = None, eb_rule_count = None, eb_threshold_config = None,
         eb_active_policy_name = None, eb_emitted_count = None, eb_suppressed_count = None,
         eb_scanner_error_count = None\<rparr>)"

section \<open>Operational events\<close>

record HealthEventInput =
  hi_sources :: "Source list"
  hi_source_inventory_change :: "SourceInventoryChangeSummary option"
  hi_scan_duration_ms :: u64
  hi_rule_count :: nat
  hi_threshold_config :: RiskThresholds
  hi_active_policy_name :: "string option"
  hi_emitted_count :: u64
  hi_suppressed_count :: u64
  hi_scanner_error_count :: u64

definition health_event_with_metadata :: "runtime \<Rightarrow> HealthEventInput \<Rightarrow> (event_failure, Event) result" where
  "health_event_with_metadata rt i =
    (let clients = btree_set (map (client_as_str \<circ> src_client) (hi_sources i));
         evidence = [source_inventory_evidence rt (hi_sources i)]
           @ (case hi_source_inventory_change i of None \<Rightarrow> [] | Some c \<Rightarrow> [source_inventory_change_evidence c])
     in build rt \<lparr>eb_constructor_family = CONSTRUCTOR_FAMILY_HEALTH, eb_event_time = None,
         eb_event_type = ''health'', eb_severity = ''informational'', eb_risk_score = 0,
         eb_risk_contributions = [], eb_client = (if clients = [] then ''none'' else join '','' clients),
         eb_agent = None, eb_model = None, eb_provider = None, eb_session_id = ''scanner'',
         eb_source_path_hash = None, eb_tool_name = None, eb_rule_ids = [], eb_categories = [],
         eb_detection_classes = [], eb_signal_types = [], eb_analytic_intents = [], eb_atlas_tags = [],
         eb_tags = [''scanner'', ''discovery''], eb_evidence = evidence, eb_timeline_anchors = [],
         eb_response = None, eb_source_counts = Some (source_counts (hi_sources i)),
         eb_component = Some ''scanner'', eb_check_name = Some ''source_discovery'', eb_status = Some ''ok'',
         eb_scan_duration_ms = Some (hi_scan_duration_ms i), eb_rule_count = Some (hi_rule_count i),
         eb_threshold_config = Some (hi_threshold_config i),
         eb_active_policy_name = (case hi_active_policy_name i of
             Some n \<Rightarrow> if trim n \<noteq> [] then Some n else None | None \<Rightarrow> None),
         eb_emitted_count = Some (hi_emitted_count i), eb_suppressed_count = Some (hi_suppressed_count i),
         eb_scanner_error_count = Some (hi_scanner_error_count i)\<rparr>)"

text \<open>The error is passed as the text that its \<open>Display\<close> gives.\<close>

definition scanner_error_event :: "runtime \<Rightarrow> Source \<Rightarrow> string \<Rightarrow> (event_failure, Event) result" where
  "scanner_error_event rt source error =
    (let source_label = client_as_str (src_client source) @ '':'' @ kind_as_str (src_kind source) @ '':''
           @ display_name source
     in build rt \<lparr>eb_constructor_family = CONSTRUCTOR_FAMILY_SCANNER_ERROR, eb_event_time = None,
         eb_event_type = ''scanner_error'', eb_severity = ''informational'', eb_risk_score = 0,
         eb_risk_contributions = [], eb_client = client_as_str (src_client source), eb_agent = None,
         eb_model = None, eb_provider = None, eb_session_id = ''scanner'',
         eb_source_path_hash = Some (path_hash rt (src_path source)), eb_tool_name = None,
         eb_rule_ids = [], eb_categories = [], eb_detection_classes = [], eb_signal_types = [],
         eb_analytic_intents = [], eb_atlas_tags = [], eb_tags = [''scanner'', ''parse_failure''],
         eb_evidence =
           [\<lparr>evi_field = ''error'', evi_redacted_value = rt_sanitize_diagnostic rt error,
             evi_hash = None, evi_rule_id = None\<rparr>,
            \<lparr>evi_field = ''source_path'', evi_redacted_value = source_label,
             evi_hash = Some (path_hash rt (src_path source)), evi_rule_id = None\<rparr>],
         eb_timeline_anchors = [], eb_response = None, eb_source_counts = None,
         eb_component = Some ''scanner'', eb_check_name = Some ''source_parse'', eb_status = Some ''degraded'',
         eb_scan_duration_ms = None, eb_rule_count = None, eb_threshold_config = None,
         eb_active_policy_name = None, eb_emitted_count = None, eb_suppressed_count = None,
         eb_scanner_error_count = None\<rparr>)"

record OperationalAlertInput =
  oa_alert_type :: string
  oa_threshold :: string
  oa_actual_value :: string
  oa_scan_duration_ms :: "u64 option"
  oa_scanner_error_count :: "u32 option"

record OperationalAlertConfig =
  max_scanner_errors :: u32
  max_scan_duration_ms :: u64

definition default_alert_config :: OperationalAlertConfig where
  "default_alert_config = \<lparr>max_scanner_errors = 3, max_scan_duration_ms = 300000\<rparr>"

definition operational_alert_check_name :: "string \<Rightarrow> string" where
  "operational_alert_check_name alert_type =
    (if alert_type = ''scanner_error_threshold_exceeded'' then ''scanner_error_threshold''
     else if alert_type = ''scan_duration_threshold_exceeded'' then ''scan_duration_threshold''
     else if alert_type = ''sink_delivery_failure'' then ''sink_delivery''
     else ''operational_alert'')"

definition plain_evidence :: "string \<Rightarrow> string \<Rightarrow> Evidence" where
  "plain_evidence field s = \<lparr>evi_field = field, evi_redacted_value = s, evi_hash = None, evi_rule_id = None\<rparr>"

definition operational_alert_event :: "runtime \<Rightarrow> OperationalAlertInput \<Rightarrow> (event_failure, Event) result" where
  "operational_alert_event rt i =
    (let evidence = [plain_evidence ''alert_type'' (oa_alert_type i), plain_evidence ''threshold'' (oa_threshold i),
             plain_evidence ''actual_value'' (oa_actual_value i)]
           @ (case oa_scan_duration_ms i of None \<Rightarrow> []
              | Some d \<Rightarrow> [plain_evidence ''scan_duration_ms'' (decimal (unat d))])
           @ (case oa_scanner_error_count i of None \<Rightarrow> []
              | Some n \<Rightarrow> [plain_evidence ''scanner_error_count'' (decimal (unat n))])
     in build rt \<lparr>eb_constructor_family = CONSTRUCTOR_FAMILY_OPERATIONAL_ALERT, eb_event_time = None,
         eb_event_type = ''operational_alert'', eb_severity = ''warning'', eb_risk_score = 0,
         eb_risk_contributions = [], eb_client = ''scanner'', eb_agent = None, eb_model = None,
         eb_provider = None, eb_session_id = ''scanner'', eb_source_path_hash = None, eb_tool_name = None,
         eb_rule_ids = [], eb_categories = [''operational''], eb_detection_classes = [''operational_health''],
         eb_signal_types = [''atomic''], eb_analytic_intents = [''alert''], eb_atlas_tags = [],
         eb_tags = [''operational'', ''scanner_health''], eb_evidence = evidence, eb_timeline_anchors = [],
         eb_response = None, eb_source_counts = None, eb_component = Some ''scanner'',
         eb_check_name = Some (operational_alert_check_name (oa_alert_type i)), eb_status = Some ''degraded'',
         eb_scan_duration_ms = oa_scan_duration_ms i, eb_rule_count = None, eb_threshold_config = None,
         eb_active_policy_name = None, eb_emitted_count = None, eb_suppressed_count = None,
         eb_scanner_error_count = None\<rparr>)"

section \<open>Outcome of checks\<close>

lemma rejected_simps [simp]: "rejected (Inr x) = Inr x" "rejected (Inl e) = Inl (Rejected e)"
  by (simp_all add: rejected_def)

lemma rejected_eq_Inr_iff [simp]: "rejected r = Inr x \<longleftrightarrow> r = Inr x"
  by (cases r) simp_all

lemma rejected_eq_Inl_iff: "rejected r = Inl f \<longleftrightarrow> (\<exists>e. r = Inl e \<and> f = Rejected e)"
  by (cases r) auto

lemma all_ok_simps [simp]:
  "all_ok [] = Inr ()" "all_ok (r # rs) = result_bind r (\<lambda>_. all_ok rs)"
  by (simp_all add: all_ok_def)

lemma all_ok_iff: "all_ok rs = Inr u \<longleftrightarrow> (\<forall>r \<in> set rs. r = Inr ())"
  by (induction rs) (auto simp: result_iffs)

lemma check_cases: "(\<exists>e. r = Inl e) \<or> r = Inr ()" for r :: "('e, unit) result"
  by (cases r) auto

section \<open>Outcome of the builder\<close>

lemma families_covered:
  "require_constructor_coverage CONSTRUCTOR_FAMILY_DETECTION ''detection''"
  "require_constructor_coverage CONSTRUCTOR_FAMILY_STANDARD_ACTIVITY ''activity''"
  "require_constructor_coverage CONSTRUCTOR_FAMILY_INSTALL_INVENTORY ''activity''"
  "require_constructor_coverage CONSTRUCTOR_FAMILY_SESSION_RISK_SUMMARY ''session_risk_summary''"
  "require_constructor_coverage CONSTRUCTOR_FAMILY_HEALTH ''health''"
  "require_constructor_coverage CONSTRUCTOR_FAMILY_SCANNER_ERROR ''scanner_error''"
  "require_constructor_coverage CONSTRUCTOR_FAMILY_OPERATIONAL_ALERT ''operational_alert''"
  "require_constructor_coverage CONSTRUCTOR_FAMILY_PROCESS_CHAIN ''process_chain''"
  "require_constructor_coverage CONSTRUCTOR_FAMILY_CORRELATION ''correlation''"
  by (simp_all add: require_constructor_coverage_def NATIVE_EVENT_CONSTRUCTOR_FAMILIES_def
      TEXT_BEARING_EVENT_TYPES_def CONSTRUCTOR_FAMILY_DETECTION_def CONSTRUCTOR_FAMILY_STANDARD_ACTIVITY_def
      CONSTRUCTOR_FAMILY_INSTALL_INVENTORY_def CONSTRUCTOR_FAMILY_SESSION_RISK_SUMMARY_def
      CONSTRUCTOR_FAMILY_HEALTH_def CONSTRUCTOR_FAMILY_SCANNER_ERROR_def
      CONSTRUCTOR_FAMILY_OPERATIONAL_ALERT_def CONSTRUCTOR_FAMILY_PROCESS_CHAIN_def
      CONSTRUCTOR_FAMILY_CORRELATION_def)

text \<open>An event can be dated when the clock has a supported UTC reading and, for a source time that
  parses, so have that time and the clock advanced by the accepted skew.\<close>

definition datable :: "runtime \<Rightarrow> string option \<Rightarrow> bool" where
  "datable rt source_time \<longleftrightarrow> rt_in_range rt (unix_nanos (rt_now rt))
     \<and> (case Option.bind source_time (rt_parse_rfc3339 rt) of None \<Rightarrow> True
        | Some t \<Rightarrow> rt_in_range rt (unix_nanos t)
            \<and> rt_in_range rt (unix_nanos (rt_now rt) + utc_offset (rt_now rt) * 1000000000 + future_skew_limit))"

lemma resolve_event_time_cases:
  "datable rt src \<Longrightarrow> \<exists>r. resolve_event_time rt src (rt_now rt) = Inr r"
  "rt_in_range rt (unix_nanos (rt_now rt)) \<Longrightarrow> \<not> datable rt src
     \<Longrightarrow> resolve_event_time rt src (rt_now rt) = Inl Panicked"
  by (auto simp: datable_def resolve_event_time_def format_timestamp_def add_duration_def
      parse_event_timestamp_def split: option.splits Option.bind_splits)

lemma build_cases:
  assumes "require_constructor_coverage (eb_constructor_family b) (eb_event_type b)"
  shows "datable rt (eb_event_time b) \<Longrightarrow> \<exists>e. build rt b = Inr e"
    and "\<not> datable rt (eb_event_time b) \<Longrightarrow> build rt b = Inl Panicked"
proof -
  show "\<exists>e. build rt b = Inr e" if "datable rt (eb_event_time b)"
    using resolve_event_time_cases(1) [OF that] that assms
    by (auto simp: build_def format_timestamp_def datable_def)
  show "build rt b = Inl Panicked" if "\<not> datable rt (eb_event_time b)"
    using resolve_event_time_cases(2) [OF _ that] assms
    by (cases "rt_in_range rt (unix_nanos (rt_now rt))") (simp_all add: build_def format_timestamp_def)
qed

lemma build_panics_iff:
  "require_constructor_coverage (eb_constructor_family b) (eb_event_type b) \<Longrightarrow>
     build rt b = Inl Panicked \<longleftrightarrow> \<not> datable rt (eb_event_time b)"
  using build_cases [of b rt] by (cases "datable rt (eb_event_time b)") auto

lemma build_Inr: "build rt b = Inr e \<Longrightarrow> \<exists>now r. e = build_event rt now r b"
  by (auto simp: build_def result_iffs split: if_splits)

lemma build_not_rejected: "build rt b \<noteq> Inl (Rejected e)"
  by (auto simp: build_def resolve_event_time_def format_timestamp_def add_duration_def result_iffs
      split: if_splits option.splits)

lemma build_event_accounting [simp]:
  "ev_risk_score (build_event rt now r b) = eb_risk_score b"
  "ev_risk_contributions (build_event rt now r b) = eb_risk_contributions b"
  "ev_severity (build_event rt now r b) = eb_severity b"
  "ev_event_type (build_event rt now r b) = eb_event_type b"
  "ev_rule_ids (build_event rt now r b) = eb_rule_ids b"
  "ev_session_id (build_event rt now r b) = eb_session_id b"
  "ev_evidence (build_event rt now r b) = eb_evidence b"
  "ev_client (build_event rt now r b) = eb_client b"
  "ev_source_counts (build_event rt now r b) = eb_source_counts b"
  by (simp_all add: build_event_def)

section \<open>Risk accounting of an event\<close>

text \<open>What the score of an event promises: its contributions are the given ones, each once and in
  canonical order, all of them allowed in the scope; the score is the exact sum of their points;
  and the severity is the band of the score under the configured thresholds.\<close>

definition in_scope :: "string \<Rightarrow> string list \<Rightarrow> RiskContribution \<Rightarrow> bool" where
  "in_scope scope rule_ids c \<longleftrightarrow> type_allowed scope (contribution_type c)
     \<and> (scope = ''detection'' \<or> scope = ''session_risk_summary'' \<and> contribution_type c \<noteq> BaselineDeviation
        \<longrightarrow> rc_id c \<in> set rule_ids)"

definition accounted ::
  "runtime \<Rightarrow> string \<Rightarrow> string list \<Rightarrow> RiskContribution list \<Rightarrow> RiskContribution list \<Rightarrow> u64 \<Rightarrow> string \<Rightarrow> bool" where
  "accounted rt scope rule_ids given cs score sev \<longleftrightarrow>
     set cs = set given \<and> sorted_wrt (<) (map contribution_key cs) \<and> (\<forall>c \<in> set cs. in_scope scope rule_ids c)
     \<and> unat score = (\<Sum>c \<in> set given. unat (points c))
     \<and> sev = severity_as_str (severity (assess_risk_with_thresholds score (load_thresholds (rt_thresholds rt))))"

definition accountable :: "runtime \<Rightarrow> string \<Rightarrow> string list \<Rightarrow> RiskContribution list \<Rightarrow> bool" where
  "accountable rt scope rule_ids given \<longleftrightarrow>
     (\<forall>c \<in> set given. valid_contribution (rt_filters rt) c) \<and> conflict_free given
     \<and> (\<Sum>c \<in> set given. unat (points c)) < 2 ^ 64 \<and> (\<forall>c \<in> set given. in_scope scope rule_ids c)"

lemma scope_of_contribution_iff: "scope_of_contribution scope rule_ids c = Inr u \<longleftrightarrow> in_scope scope rule_ids c"
  by (cases "contribution_type c") (auto simp: scope_of_contribution_def in_scope_def Let_def)

lemma scope_iff:
  "validate_risk_accounting_scope scope rule_ids cs = Inr u \<longleftrightarrow> (\<forall>c \<in> set cs. in_scope scope rule_ids c)"
  by (simp add: validate_risk_accounting_scope_def all_ok_iff scope_of_contribution_iff)

lemma account_sound:
  assumes "account rt scope rule_ids given = Inr (cs, score, a)"
  shows "accounted rt scope rule_ids given cs score (severity_as_str (severity a))"
    and "accountable rt scope rule_ids given"
proof -
  from assms have c: "canonicalize_contributions (rt_filters rt) given = Inr cs"
    and s: "\<forall>c \<in> set cs. in_scope scope rule_ids c" and r: "checked_risk_sum (rt_filters rt) cs = Inr score"
    and a: "a = assess_risk_with_thresholds score (load_thresholds (rt_thresholds rt))"
    by (auto simp: account_def result_iffs scope_iff score_for_contributions_def)
  note c' = canonicalized [OF c]
  have "unat score = points_total cs" using r checked_risk_sum_Inr_iff by blast
  with c' s a show "accounted rt scope rule_ids given cs score (severity_as_str (severity a))"
    by (simp add: accounted_def)
  show "accountable rt scope rule_ids given" using c' s by (simp add: accountable_def)
qed

lemma account_complete:
  assumes "accountable rt scope rule_ids given"
  shows "\<exists>cs score a. account rt scope rule_ids given = Inr (cs, score, a)"
proof -
  obtain cs where c: "canonicalize_contributions (rt_filters rt) given = Inr cs"
    using canonicalizes [of given "rt_filters rt"] assms by (auto simp: accountable_def)
  note c' = canonicalized [OF c]
  have "validate_risk_accounting_scope scope rule_ids cs = Inr ()"
    using assms c'(1) by (simp add: accountable_def scope_iff)
  moreover obtain score where "checked_risk_sum (rt_filters rt) cs = Inr score"
    using checked_risk_sum_ex_iff [of "rt_filters rt" cs] c' by auto
  ultimately show ?thesis
    using c by (simp add: account_def score_for_contributions_def)
qed

section \<open>Scoring constructors\<close>

text \<open>The contract of a constructor that scores contributions: it checks its input, accounts for the
  contributions in its scope, and finishes an event that carries the account, which panics exactly
  when the event cannot be dated.\<close>

definition finishes ::
  "runtime \<Rightarrow> string option \<Rightarrow> RiskContribution list \<Rightarrow> u64 \<Rightarrow> RiskAssessment \<Rightarrow> (event_failure, Event) result \<Rightarrow> bool" where
  "finishes rt source_time cs score a r \<longleftrightarrow>
    (if datable rt source_time
     then \<exists>e. r = Inr e \<and> ev_risk_contributions e = cs \<and> ev_risk_score e = score \<and> ev_severity e = severity_as_str (severity a)
     else r = Inl Panicked)"

lemma build_finishes:
  assumes "require_constructor_coverage (eb_constructor_family b) (eb_event_type b)"
    and "eb_risk_contributions b = cs" "eb_risk_score b = score" "eb_severity b = severity_as_str (severity a)"
  shows "finishes rt (eb_event_time b) cs score a (build rt b)"
proof (cases "datable rt (eb_event_time b)")
  case True
  then obtain e where e: "build rt b = Inr e" using build_cases(1) [OF assms(1)] by blast
  with build_Inr [OF e] True assms(2-4) show ?thesis by (auto simp: finishes_def)
next
  case False
  then show ?thesis using build_cases(2) [OF assms(1)] by (simp add: finishes_def)
qed

lemma finishes_with_process_context:
  "finishes rt t cs score a r \<Longrightarrow> finishes rt t cs score a (result_bind r (\<lambda>e. Inr (with_process_context i n e)))"
  by (auto simp: finishes_def with_process_context_def split: if_splits)

locale scored_constructor =
  fixes construct :: "runtime \<Rightarrow> 'i \<Rightarrow> (event_failure, Event) result"
    and check :: "runtime \<Rightarrow> 'i \<Rightarrow> (RiskAccountingError, unit) result"
    and scope :: string
    and rules :: "'i \<Rightarrow> string list"
    and given :: "'i \<Rightarrow> RiskContribution list"
    and source_time :: "'i \<Rightarrow> string option"
    and finish :: "runtime \<Rightarrow> 'i \<Rightarrow> RiskContribution list \<Rightarrow> u64 \<Rightarrow> RiskAssessment \<Rightarrow> (event_failure, Event) result"
  assumes outcome: "construct rt i = result_bind (rejected (check rt i)) (\<lambda>_.
      result_bind (rejected (account rt scope (rules i) (given i))) (\<lambda>(cs, score, a). finish rt i cs score a))"
    and finish: "finishes rt (source_time i) cs score a (finish rt i cs score a)"
begin

lemma constructed:
  assumes "construct rt i = Inr e"
  shows "check rt i = Inr ()" "accountable rt scope (rules i) (given i)"
    "accounted rt scope (rules i) (given i) (ev_risk_contributions e) (ev_risk_score e) (ev_severity e)"
proof -
  from assms obtain cs score a where "check rt i = Inr ()" and acc: "account rt scope (rules i) (given i) = Inr (cs, score, a)"
    and e: "finish rt i cs score a = Inr e"
    by (auto simp: outcome result_iffs)
  show "check rt i = Inr ()" by fact
  show "accountable rt scope (rules i) (given i)" by (rule account_sound(2) [OF acc])
  show "accounted rt scope (rules i) (given i) (ev_risk_contributions e) (ev_risk_score e) (ev_severity e)"
    using account_sound(1) [OF acc] finish [of rt i cs score a] e by (auto simp: finishes_def split: if_splits)
qed

lemma admitted:
  assumes "check rt i = Inr ()" and "accountable rt scope (rules i) (given i)"
  shows "\<exists>cs score a. construct rt i = finish rt i cs score a"
proof -
  obtain cs score a where "account rt scope (rules i) (given i) = Inr (cs, score, a)"
    using account_complete [OF assms(2)] by blast
  then have "construct rt i = finish rt i cs score a" using assms(1) by (simp add: outcome)
  then show ?thesis by blast
qed

lemma refused:
  assumes "check rt i \<noteq> Inr () \<or> \<not> accountable rt scope (rules i) (given i)"
  shows "\<exists>err. construct rt i = Inl (Rejected err)"
proof (cases "check rt i")
  case (Inr u)
  then have "account rt scope (rules i) (given i) \<noteq> Inr (cs, score, a)" for cs score a
    using assms account_sound(2) by auto
  then show ?thesis using Inr by (cases "account rt scope (rules i) (given i)") (auto simp: outcome)
qed (simp add: outcome)

lemma trichotomy:
  defines "ok \<equiv> \<lambda>rt i. check rt i = Inr () \<and> accountable rt scope (rules i) (given i)"
  shows "((\<exists>e. construct rt i = Inr e) \<longleftrightarrow> ok rt i \<and> datable rt (source_time i))
    \<and> (construct rt i = Inl Panicked \<longleftrightarrow> ok rt i \<and> \<not> datable rt (source_time i))
    \<and> ((\<exists>err. construct rt i = Inl (Rejected err)) \<longleftrightarrow> \<not> ok rt i)"
proof (cases "ok rt i")
  case True
  then obtain cs score a where "construct rt i = finish rt i cs score a"
    using admitted [of rt i] unfolding ok_def by blast
  then show ?thesis
    using True finish [of rt i cs score a] by (auto simp: finishes_def split: if_splits)
next
  case False
  then show ?thesis using refused [of rt i] by (auto simp: ok_def)
qed

lemma panics_iff:
  "construct rt i = Inl Panicked \<longleftrightarrow> check rt i = Inr () \<and> accountable rt scope (rules i) (given i)
     \<and> \<not> datable rt (source_time i)"
  using trichotomy [of rt i] by blast

end

interpretation detection: scored_constructor detection_event check_detection_input "''detection''"
    di_rule_ids di_risk_contributions di_event_time "\<lambda>rt i cs score a. build rt (detection_builder i cs score a)"
  by unfold_locales
    (simp_all add: detection_event_def detection_builder_def families_covered build_finishes
      [of "detection_builder i cs score a" for i cs score a, simplified detection_builder_def EventBuilder.simps])

interpretation process_chain: scored_constructor process_chain_event check_process_chain_input "''detection''"
    pi_rule_ids pi_risk_contributions pi_event_time
    "\<lambda>rt i cs score a. result_bind (build rt (process_chain_builder i cs score a)) (\<lambda>e. Inr (with_process_context i score e))"
  by unfold_locales
    (simp_all add: process_chain_event_def process_chain_builder_def families_covered finishes_with_process_context build_finishes
      [of "process_chain_builder i cs score a" for i cs score a, simplified process_chain_builder_def EventBuilder.simps])

interpretation activity: scored_constructor activity_event check_activity_input "''activity''"
    "\<lambda>_. []" ai_risk_contributions ai_event_time "\<lambda>rt i cs score a. build rt (activity_builder i cs score a)"
  by unfold_locales
    (simp_all add: activity_event_def activity_builder_def families_covered build_finishes
      [of "activity_builder i cs score a" for i cs score a, simplified activity_builder_def EventBuilder.simps])

interpretation summary: scored_constructor session_risk_summary_event check_summary_input "''session_risk_summary''"
    si_rule_ids si_risk_contributions si_event_time
    "\<lambda>rt i cs score a. build rt (session_risk_summary_builder i cs score a)"
  by unfold_locales
    (simp_all add: session_risk_summary_event_def session_risk_summary_builder_def families_covered build_finishes
      [of "session_risk_summary_builder i cs score a" for i cs score a, simplified session_risk_summary_builder_def EventBuilder.simps])

section \<open>Properties of the constructors\<close>

text \<open>C30. The outcome of a detection event, on every input. It is constructed exactly when its input
  passes the checks, its contributions are valid, free of conflicts, of rule or chain type and
  backed by the rule ids of the event, their total fits 64 bits, and the event can be dated; on an
  input that passes everything but cannot be dated (the clock, the parsed source time or the clock
  plus the accepted skew is outside the dates the time crate supports) the code panics; and every
  other input is rejected with an error.\<close>

theorem detection_event_outcome:
  "((\<exists>e. detection_event rt i = Inr e) \<longleftrightarrow> check_detection_input rt i = Inr ()
      \<and> accountable rt ''detection'' (di_rule_ids i) (di_risk_contributions i) \<and> datable rt (di_event_time i))
   \<and> (detection_event rt i = Inl Panicked \<longleftrightarrow> check_detection_input rt i = Inr ()
      \<and> accountable rt ''detection'' (di_rule_ids i) (di_risk_contributions i) \<and> \<not> datable rt (di_event_time i))
   \<and> ((\<exists>err. detection_event rt i = Inl (Rejected err)) \<longleftrightarrow> \<not> (check_detection_input rt i = Inr ()
      \<and> accountable rt ''detection'' (di_rule_ids i) (di_risk_contributions i)))"
  using detection.trichotomy [of rt i] by blast

text \<open>C14. Every scored event carries exactly the contributions it was given, each once and in canonical
  order, all allowed for its kind and backed by its rule ids; its score is their exact sum and its
  severity the band of that score.\<close>

theorem scored_events_accounted:
  "(\<forall>i e. detection_event rt i = Inr e \<longrightarrow> accounted rt ''detection'' (di_rule_ids i) (di_risk_contributions i)
      (ev_risk_contributions e) (ev_risk_score e) (ev_severity e))
   \<and> (\<forall>i e. process_chain_event rt i = Inr e \<longrightarrow> accounted rt ''detection'' (pi_rule_ids i) (pi_risk_contributions i)
      (ev_risk_contributions e) (ev_risk_score e) (ev_severity e))
   \<and> (\<forall>i e. activity_event rt i = Inr e \<longrightarrow> accounted rt ''activity'' [] (ai_risk_contributions i)
      (ev_risk_contributions e) (ev_risk_score e) (ev_severity e))
   \<and> (\<forall>i e. session_risk_summary_event rt i = Inr e \<longrightarrow>
      accounted rt ''session_risk_summary'' (si_rule_ids i) (si_risk_contributions i)
        (ev_risk_contributions e) (ev_risk_score e) (ev_severity e))"
  by (intro conjI allI impI; rule detection.constructed(3) process_chain.constructed(3)
      activity.constructed(3) summary.constructed(3); assumption)

lemma correlation_event_panics_iff:
  "correlation_event rt ci = Inl Panicked
     \<longleftrightarrow> check_correlation_event rt ci = Inr () \<and> \<not> datable rt (Some (ci_window_end ci))"
  unfolding correlation_event_def
  by (cases "check_correlation_event rt ci") (simp_all add: Let_def build_panics_iff families_covered)

lemma install_inventory_panics_iff:
  "install_inventory_event rt evs = Inl Panicked
     \<longleftrightarrow> evs \<noteq> [] \<and> validate_evidence rt ''activity'' evs = Inr () \<and> \<not> datable rt None"
  unfolding install_inventory_event_def
  by (cases "validate_evidence rt ''activity'' evs") (simp_all add: build_panics_iff families_covered)

lemma operational_constructors_panic_iff:
  "health_event_with_metadata rt h = Inl Panicked \<longleftrightarrow> \<not> datable rt None"
  "scanner_error_event rt source err = Inl Panicked \<longleftrightarrow> \<not> datable rt None"
  "operational_alert_event rt oa = Inl Panicked \<longleftrightarrow> \<not> datable rt None"
  by (simp_all add: health_event_with_metadata_def scanner_error_event_def operational_alert_event_def
      Let_def build_panics_iff families_covered)

lemma operational_constructors_not_rejected:
  "health_event_with_metadata rt h \<noteq> Inl (Rejected e)" "scanner_error_event rt source err \<noteq> Inl (Rejected e)"
  "operational_alert_event rt oa \<noteq> Inl (Rejected e)"
  by (simp_all add: health_event_with_metadata_def scanner_error_event_def operational_alert_event_def
      Let_def build_not_rejected)

lemma datable_without_source_time: "datable rt None \<longleftrightarrow> rt_in_range rt (unix_nanos (rt_now rt))"
  by (simp add: datable_def)

lemma not_panicked_nor_rejected:
  "r = Inl Panicked \<longleftrightarrow> \<not> ok \<Longrightarrow> (\<And>e. r \<noteq> Inl (Rejected e)) \<Longrightarrow> ok \<Longrightarrow> \<exists>e. r = Inr e"
  by (cases r) (auto, metis event_failure.exhaust)

text \<open>C31. When the constructors panic. A constructor that takes a source time panics exactly on the
  inputs that pass its own checks and cannot be dated; a correlation is dated by the end of its
  window. The constructors without a source time depend on the clock alone: while the clock has a
  supported UTC reading an inventory does not panic and the health, scanner error and alert events
  are constructed for every input.\<close>

theorem constructors_panic_iff:
  "(process_chain_event rt pi' = Inl Panicked \<longleftrightarrow> check_process_chain_input rt pi' = Inr ()
      \<and> accountable rt ''detection'' (pi_rule_ids pi') (pi_risk_contributions pi') \<and> \<not> datable rt (pi_event_time pi'))
   \<and> (activity_event rt ai = Inl Panicked \<longleftrightarrow> check_activity_input rt ai = Inr ()
      \<and> accountable rt ''activity'' [] (ai_risk_contributions ai) \<and> \<not> datable rt (ai_event_time ai))
   \<and> (session_risk_summary_event rt si = Inl Panicked \<longleftrightarrow> check_summary_input rt si = Inr ()
      \<and> accountable rt ''session_risk_summary'' (si_rule_ids si) (si_risk_contributions si)
      \<and> \<not> datable rt (si_event_time si))
   \<and> (correlation_event rt ci = Inl Panicked
      \<longleftrightarrow> check_correlation_event rt ci = Inr () \<and> \<not> datable rt (Some (ci_window_end ci)))
   \<and> (install_inventory_event rt evs = Inl Panicked \<longleftrightarrow> evs \<noteq> []
      \<and> validate_evidence rt ''activity'' evs = Inr () \<and> \<not> rt_in_range rt (unix_nanos (rt_now rt)))
   \<and> ((\<exists>e. health_event_with_metadata rt h = Inr e) \<longleftrightarrow> rt_in_range rt (unix_nanos (rt_now rt)))
   \<and> ((\<exists>e. scanner_error_event rt source err = Inr e) \<longleftrightarrow> rt_in_range rt (unix_nanos (rt_now rt)))
   \<and> ((\<exists>e. operational_alert_event rt oa = Inr e) \<longleftrightarrow> rt_in_range rt (unix_nanos (rt_now rt)))"
proof -
  have fin: "(\<exists>e. r = Inr e) \<longleftrightarrow> rt_in_range rt (unix_nanos (rt_now rt))"
    if "r = Inl Panicked \<longleftrightarrow> \<not> datable rt None" "\<And>e. r \<noteq> Inl (Rejected e)" for r :: "(event_failure, Event) result"
    using not_panicked_nor_rejected [OF that(1,2)] that(1) by (auto simp: datable_without_source_time)
  show ?thesis
    by (intro conjI process_chain.panics_iff activity.panics_iff summary.panics_iff correlation_event_panics_iff
        install_inventory_panics_iff [unfolded datable_without_source_time]
        fin operational_constructors_panic_iff operational_constructors_not_rejected)
qed

section \<open>Correlation inputs\<close>

lemma require_non_empty_iff [simp]: "require_non_empty et f s = Inr u \<longleftrightarrow> trim s \<noteq> []"
  by (simp add: require_non_empty_def)

lemma require_non_empty_array_iff [simp]:
  "require_non_empty_array et f vs = Inr u \<longleftrightarrow> vs \<noteq> [] \<and> (\<forall>v \<in> set vs. trim v \<noteq> [])"
  by (auto simp: require_non_empty_array_def list_ex_iff)

lemma validate_allowed_values_iff [simp]:
  "validate_allowed_values et f vs allowed = Inr u \<longleftrightarrow> set vs \<subseteq> set allowed"
  by (auto simp: validate_allowed_values_def list_ex_iff)

lemma parse_field_iff [simp]: "parse_field rt f s = Inr t \<longleftrightarrow> rt_parse_rfc3339 rt s = Some t"
  by (simp add: parse_field_def parse_event_timestamp_def)

lemma rule_severities_text: "s \<in> set RULE_SEVERITIES \<Longrightarrow> trim s \<noteq> []"
  by (auto simp: RULE_SEVERITIES_def trim_id rust_simps)

text \<open>A session of a correlation: non-blank ids, a timestamp in the window, a known severity.\<close>

definition session_ok :: "runtime \<Rightarrow> int \<Rightarrow> int \<Rightarrow> CorrelationSessionInput \<Rightarrow> bool" where
  "session_ok rt lo hi s \<longleftrightarrow> trim (csi_session_id s) \<noteq> [] \<and> trim (csi_event_id s) \<noteq> [] \<and> trim (csi_timestamp s) \<noteq> []
     \<and> (case rt_parse_rfc3339 rt (csi_timestamp s) of None \<Rightarrow> False | Some t \<Rightarrow> lo \<le> unix_nanos t \<and> unix_nanos t \<le> hi)
     \<and> csi_severity s \<in> set RULE_SEVERITIES"

lemma check_session_iff:
  "check_correlation_session rt ws we (A, B) s = Inr st \<longleftrightarrow>
     session_ok rt (unix_nanos ws) (unix_nanos we) s \<and> csi_session_id s \<notin> A \<and> csi_event_id s \<notin> B
     \<and> st = (insert (csi_session_id s) A, insert (csi_event_id s) B)"
  by (auto simp: check_correlation_session_def session_ok_def result_iffs all_ok_iff not_less
      rule_severities_text split: option.splits)

lemma check_sessions_iff:
  "try_fold (check_correlation_session rt ws we) (A, B) ss = Inr st \<longleftrightarrow>
     (\<forall>s \<in> set ss. session_ok rt (unix_nanos ws) (unix_nanos we) s)
     \<and> distinct (map csi_session_id ss) \<and> distinct (map csi_event_id ss)
     \<and> A \<inter> csi_session_id ` set ss = {} \<and> B \<inter> csi_event_id ` set ss = {}
     \<and> st = (A \<union> csi_session_id ` set ss, B \<union> csi_event_id ` set ss)"
proof (induction ss arbitrary: A B)
  case (Cons s ss)
  show ?case by (auto simp: result_iffs check_session_iff Cons.IH)
qed auto

lemma max_score_Max: "ss \<noteq> [] \<Longrightarrow> max_score ss = Max (set ss)"
proof (cases ss)
  case (Cons x xs)
  have "foldl max x xs = Max (set (x # xs))"
    by (simp only: Max.set_eq_fold foldl_conv_fold [symmetric] max.commute) (simp add: foldl_conv_fold max.commute)
  with Cons show ?thesis by (simp add: max_score_def)
qed simp

lemma validate_correlation_input_iff:
  "validate_correlation_input rt i = Inr () \<longleftrightarrow>
     trim (ci_client i) \<noteq> [] \<and> ci_shared_rule_ids i \<noteq> [] \<and> (\<forall>r \<in> set (ci_shared_rule_ids i). trim r \<noteq> [])
     \<and> distinct (ci_shared_rule_ids i) \<and> trim (ci_window_start i) \<noteq> [] \<and> trim (ci_window_end i) \<noteq> []
     \<and> (\<exists>ws we. rt_parse_rfc3339 rt (ci_window_start i) = Some ws \<and> rt_parse_rfc3339 rt (ci_window_end i) = Some we
          \<and> unix_nanos ws \<le> unix_nanos we
          \<and> (\<forall>s \<in> set (ci_sessions i). session_ok rt (unix_nanos ws) (unix_nanos we) s))
     \<and> 2 \<le> length (ci_sessions i)
     \<and> distinct (map csi_session_id (ci_sessions i)) \<and> distinct (map csi_event_id (ci_sessions i))
     \<and> ci_max_risk_score i = Max (csi_risk_score ` set (ci_sessions i))"
proof -
  have dist: "card (set xs) = length xs \<longleftrightarrow> distinct xs" for xs :: "string list"
    using distinct_card card_distinct by blast
  have card: "card (csi_session_id ` set ss) = length ss" if "distinct (map csi_session_id ss)" for ss
    using distinct_card [OF that] by simp
  have mx: "max_score (map csi_risk_score ss) = Max (csi_risk_score ` set ss)" if "2 \<le> length ss" for ss
    using max_score_Max [of "map csi_risk_score ss"] that by (cases ss) auto
  show ?thesis
    unfolding validate_correlation_input_def
    by (auto simp: result_iffs all_ok_iff dist check_sessions_iff card mx not_less split: if_splits)
qed

text \<open>A correlation is accepted exactly when it names a client and distinct shared rules, its window
  parses and is ordered, it has at least two sessions with distinct session ids and distinct event
  ids, every session parses inside the window with a known severity, and the reported maximum is
  the greatest of the session scores.\<close>

theorem correlation_input_accepted_iff:
  "validate_correlation_input rt i = Inr () \<longleftrightarrow>
     trim (ci_client i) \<noteq> [] \<and> ci_shared_rule_ids i \<noteq> [] \<and> (\<forall>r \<in> set (ci_shared_rule_ids i). trim r \<noteq> [])
     \<and> distinct (ci_shared_rule_ids i) \<and> trim (ci_window_start i) \<noteq> [] \<and> trim (ci_window_end i) \<noteq> []
     \<and> (\<exists>ws we. rt_parse_rfc3339 rt (ci_window_start i) = Some ws \<and> rt_parse_rfc3339 rt (ci_window_end i) = Some we
          \<and> unix_nanos ws \<le> unix_nanos we
          \<and> (\<forall>s \<in> set (ci_sessions i). session_ok rt (unix_nanos ws) (unix_nanos we) s))
     \<and> 2 \<le> length (ci_sessions i)
     \<and> distinct (map csi_session_id (ci_sessions i)) \<and> distinct (map csi_event_id (ci_sessions i))
     \<and> ci_max_risk_score i = Max (csi_risk_score ` set (ci_sessions i))"
  by (rule validate_correlation_input_iff)

section \<open>Timeline anchors\<close>

lemma dedup_by_key_props:
  fixes f :: "'a \<Rightarrow> 'k::linorder"
  assumes "sorted (map f xs)"
  shows "sorted_wrt (<) (map f (dedup_by_key f xs)) \<and> f ` set (dedup_by_key f xs) = f ` set xs
     \<and> (\<forall>x \<in> set (dedup_by_key f xs). find (\<lambda>y. f y = f x) xs = Some x)"
  using assms
proof (induction f xs rule: dedup_by_key.induct)
  case (3 f x y xs)
  show ?case
  proof (cases "f y = f x")
    case True
    with 3 have IH: "sorted_wrt (<) (map f (dedup_by_key f (x # xs)))" "f ` set (dedup_by_key f (x # xs)) = f ` set (x # xs)"
      "\<forall>z \<in> set (dedup_by_key f (x # xs)). find (\<lambda>y. f y = f z) (x # xs) = Some z" by auto
    from True IH(3) have "\<forall>z \<in> set (dedup_by_key f (x # xs)). find (\<lambda>y. f y = f z) (x # y # xs) = Some z"
      by auto
    with True IH(1,2) show ?thesis by simp
  next
    case False
    with 3 have IH: "sorted_wrt (<) (map f (dedup_by_key f (y # xs)))" "f ` set (dedup_by_key f (y # xs)) = f ` set (y # xs)"
      "\<forall>z \<in> set (dedup_by_key f (y # xs)). find (\<lambda>y. f y = f z) (y # xs) = Some z" by auto
    have gt: "\<forall>k \<in> f ` set (y # xs). f x < k" using "3.prems" False by fastforce
    then have "\<forall>k \<in> f ` set (dedup_by_key f (y # xs)). f x < k" by (simp only: IH(2))
    then have "\<forall>z \<in> set (dedup_by_key f (y # xs)). f x < f z \<and> f x \<noteq> f z" by force
    with False IH gt show ?thesis by auto
  qed
qed auto

text \<open>The anchors of an event are in strictly increasing entry order, one for each entry that was
  anchored, and each is the first anchor that was given for its entry.\<close>

theorem timeline_anchors_canonical:
  "sorted_wrt (<) (map ta_entry_index (canonicalize_timeline_anchors anchors))
   \<and> ta_entry_index ` set (canonicalize_timeline_anchors anchors) = ta_entry_index ` set anchors
   \<and> list_all (\<lambda>a. find (\<lambda>b. ta_entry_index b = ta_entry_index a) anchors = Some a)
       (canonicalize_timeline_anchors anchors)"
  using dedup_by_key_props [of ta_entry_index "sort_key ta_entry_index anchors"]
  by (simp add: canonicalize_timeline_anchors_def find_sort_key list_all_iff)

section \<open>Event time\<close>

text \<open>A datable event is resolved, and its timestamp is the formatted source time exactly when that
  time parses and is at most five minutes ahead of the observation, in which case it is trusted and
  no override is reported; otherwise it is the observation time with a reason. So no event is dated
  more than five minutes after it was observed.\<close>

theorem resolve_event_time_outcome:
  assumes "datable rt src"
  shows "\<exists>r t. resolve_event_time rt src (rt_now rt) = Inr r
    \<and> format_timestamp rt t = Inr (rs_timestamp r) \<and> unix_nanos t \<le> unix_nanos (rt_now rt) + future_skew_limit
    \<and> (if rs_time_confidence r = ''high'' then Option.bind src (rt_parse_rfc3339 rt) = Some t else t = rt_now rt)
    \<and> (rs_time_confidence r = ''high'' \<longleftrightarrow> (\<exists>s. Option.bind src (rt_parse_rfc3339 rt) = Some s
         \<and> unix_nanos s \<le> unix_nanos (rt_now rt) + future_skew_limit))
    \<and> (rs_time_override_reason r = None \<longleftrightarrow> rs_time_confidence r = ''high'')"
proof -
  note defs = resolve_event_time_def format_timestamp_def add_duration_def parse_event_timestamp_def
    future_skew_limit_def datable_def
  show ?thesis
  proof (cases "Option.bind src (rt_parse_rfc3339 rt)")
    case None
    then show ?thesis using assms by (cases src) (auto simp: defs)
  next
    case (Some t)
    then obtain raw where "src = Some raw" "rt_parse_rfc3339 rt raw = Some t" by (cases src) auto
    then show ?thesis using assms
      by (cases "unix_nanos t \<le> unix_nanos (rt_now rt) + future_skew_limit") (auto simp: defs)
  qed
qed

section \<open>Source counts\<close>

definition source_key :: "Source \<Rightarrow> string" where
  "source_key s = client_as_str (src_client s) @ ''.'' @ kind_as_str (src_kind s)"

lemma source_counts_fold:
  fixes m :: "(string, u32) btree_map"
  assumes "bt_inv m" and "\<And>k. bt_get k m = (if c k = 0 then None else Some (of_nat (c k)))"
  defines "step \<equiv> \<lambda>counts s. bt_put (source_key s) ((case bt_get (source_key s) counts of None \<Rightarrow> 0 | Some n \<Rightarrow> n) + 1) counts"
  shows "bt_inv (foldl step m ss)
    \<and> (\<forall>k. bt_get k (foldl step m ss) = (let n = c k + length (filter (\<lambda>s. source_key s = k) ss)
         in if n = 0 then None else Some (of_nat n)))"
  using assms(1,2)
proof (induction ss arbitrary: m c)
  case (Cons s ss)
  have "bt_get k (step m s) = (if (c(source_key s := Suc (c (source_key s)))) k = 0 then None
      else Some (of_nat ((c(source_key s := Suc (c (source_key s)))) k)))" for k
    using Cons.prems by (auto simp: step_def bt_get_put)
  moreover have "bt_inv (step m s)" using Cons.prems by (simp add: step_def bt_inv_put)
  ultimately show ?case using Cons.IH [of "step m s" "c(source_key s := Suc (c (source_key s)))"]
    by (auto simp: Let_def)
qed auto

text \<open>The health event counts, for each client and source kind, the sources of that kind (modulo the
  32-bit counter), and lists no kind without sources.\<close>

theorem source_counts_exact:
  "bt_inv (source_counts sources)
   \<and> bt_get k (source_counts sources) =
       (let n = length (filter (\<lambda>s. source_key s = k) sources) in if n = 0 then None else Some (of_nat n))"
  using source_counts_fold [of "[]" "\<lambda>_. 0" sources]
  by (simp add: source_counts_def Let_def source_key_def bt_get_def)

section \<open>Witnesses\<close>

definition sample_runtime :: runtime where
  "sample_runtime = \<lparr>rt_filters = open_filters, rt_now = OffsetDateTime 9000000000 0, rt_uuid = ''u'',
     rt_sha256_hex = (\<lambda>s. s), rt_parse_rfc3339 =
       map_of [(''t1'', OffsetDateTime 1000000000 0), (''t2'', OffsetDateTime 2000000000 0), (''t3'', OffsetDateTime 3000000000 0)],
     rt_format_rfc3339 = (\<lambda>t. decimal (nat (unix_nanos t))), rt_format_seconds = (\<lambda>n. decimal (nat n)),
     rt_in_range = (\<lambda>n. - 377705116800000000000 \<le> n \<and> n < 253402300800000000000),
     rt_sanitize_diagnostic = (\<lambda>s. s), rt_thresholds = None, rt_version = ''3''\<rparr>"

definition sample_detection :: DetectionEventInput where
  "sample_detection = \<lparr>di_client = Codex, di_agent = None, di_model = None, di_provider = None,
     di_session_id = ''s'', di_source_path_hash = ''h'', di_tool_name = None,
     di_rule_ids = [''shell.download''], di_categories = [''network''],
     di_detection_classes = [''security_detection''], di_signal_types = [''atomic''],
     di_analytic_intents = [''alert''], di_atlas_tags = [], di_tags = [], di_evidence = [],
     di_risk_contributions = [sample_rule, sample_rule], di_event_time = Some ''t1''\<rparr>"

lemma sample_detection_checks_at:
  assumes "rt_filters rt = open_filters"
  shows "check_detection_input rt (sample_detection\<lparr>di_event_time := t\<rparr>) = Inr ()"
  using assms by (simp add: check_detection_input_def sample_detection_def open_filters_def
      require_non_empty_def require_optional_non_empty_def validate_optional_metadata_def validate_rule_ids_def
      validate_detection_dimensions_def require_non_empty_array_def validate_allowed_values_def
      validate_optional_array_values_def validate_atlas_tags_def validate_evidence_def
      DETECTION_CLASSES_def SIGNAL_TYPES_def ANALYTIC_INTENTS_def trim_id
      is_canonical_contribution_id_def id_component_char_def rust_simps)

lemma sample_detection_checks: "check_detection_input sample_runtime sample_detection = Inr ()"
  using sample_detection_checks_at [of sample_runtime "di_event_time sample_detection"] by (simp add: sample_runtime_def)

lemma sample_detection_accountable:
  "accountable sample_runtime ''detection'' (di_rule_ids sample_detection) (di_risk_contributions sample_detection)"
  using sample_contributions_valid(1)
  by (simp add: accountable_def sample_detection_def sample_runtime_def conflict_free_def in_scope_def type_allowed_def)
    (simp add: sample_rule_def)

lemma sample_detection_datable: "datable sample_runtime (di_event_time sample_detection)"
  by (simp add: datable_def sample_detection_def sample_runtime_def future_skew_limit_def)

theorem scored_events_accounted_witness:
  "\<exists>e. detection_event sample_runtime sample_detection = Inr e \<and> ev_risk_score e = 40 \<and> ev_severity e = ''low''"
proof -
  obtain e where e: "detection_event sample_runtime sample_detection = Inr e"
    using detection.trichotomy [of sample_runtime sample_detection] sample_detection_checks
      sample_detection_accountable sample_detection_datable by blast
  have acc: "accounted sample_runtime ''detection'' (di_rule_ids sample_detection)
      (di_risk_contributions sample_detection) (ev_risk_contributions e) (ev_risk_score e) (ev_severity e)"
    using scored_events_accounted [of sample_runtime] e by blast
  then have "unat (ev_risk_score e) = 40"
    by (simp add: accounted_def sample_detection_def) (simp add: sample_rule_def)
  then have score: "ev_risk_score e = 40" by (simp add: word_unat_eq_iff)
  moreover have "ev_severity e = ''low''"
    using acc by (simp add: accounted_def score sample_runtime_def load_thresholds_def default_thresholds_def
        assess_risk_with_thresholds_def u64_from_def)
  ultimately show ?thesis using e by blast
qed

theorem resolve_event_time_outcome_witness:
  "\<exists>r t. resolve_event_time sample_runtime (Some ''t1'') (rt_now sample_runtime) = Inr r
    \<and> format_timestamp sample_runtime t = Inr (rs_timestamp r)"
proof -
  have "datable sample_runtime (Some ''t1'')" using sample_detection_datable by (simp add: sample_detection_def)
  from resolve_event_time_outcome [OF this] show ?thesis by blast
qed

text \<open>Parsing accepts the last hour of the year 9999 in an offset west of Greenwich, whose UTC reading
  is in the year 10000. A detection with such a source time passes every check and makes the
  constructor panic.\<close>

definition late_runtime :: runtime where
  "late_runtime = sample_runtime\<lparr>rt_parse_rfc3339 :=
     (\<lambda>s. if s = ''9999-12-31T23:59:59-01:00'' then Some (OffsetDateTime 253402304399000000000 (-3600)) else None)\<rparr>"

theorem late_source_time_panics:
  "detection_event late_runtime (sample_detection\<lparr>di_event_time := Some ''9999-12-31T23:59:59-01:00''\<rparr>) = Inl Panicked"
proof -
  let ?i = "sample_detection\<lparr>di_event_time := Some ''9999-12-31T23:59:59-01:00''\<rparr>"
  have "check_detection_input late_runtime ?i = Inr ()"
    by (rule sample_detection_checks_at) (simp add: late_runtime_def sample_runtime_def)
  moreover have "accountable late_runtime ''detection'' (di_rule_ids ?i) (di_risk_contributions ?i)"
    using sample_detection_accountable by (simp add: late_runtime_def accountable_def)
  moreover have "\<not> datable late_runtime (di_event_time ?i)"
    by (simp add: datable_def late_runtime_def sample_runtime_def)
  ultimately show ?thesis using detection.trichotomy [of late_runtime ?i] by blast
qed

definition sample_session :: "string \<Rightarrow> string \<Rightarrow> string \<Rightarrow> u64 \<Rightarrow> CorrelationSessionInput" where
  "sample_session s e t n = \<lparr>csi_session_id = s, csi_event_id = e, csi_timestamp = t, csi_severity = ''medium'',
     csi_risk_score = n\<rparr>"

definition sample_correlation :: CorrelationEventInput where
  "sample_correlation = \<lparr>ci_client = ''codex'', ci_agent = None, ci_model = None, ci_provider = None,
     ci_shared_rule_ids = [''shell.download''],
     ci_sessions = [sample_session ''s1'' ''e1'' ''t1'' 40, sample_session ''s2'' ''e2'' ''t2'' 55],
     ci_window_start = ''t1'', ci_window_end = ''t3'', ci_max_risk_score = 55\<rparr>"

theorem correlation_input_accepted_witness:
  "validate_correlation_input sample_runtime sample_correlation = Inr ()"
  unfolding correlation_input_accepted_iff
  by (simp add: sample_correlation_def sample_session_def sample_runtime_def session_ok_def trim_id rust_simps
      RULE_SEVERITIES_def)

end
