(* ===== verification/Correlation.thy ===== *)
theory Correlation
  imports Events
begin

text \<open>
  Cross-session correlation of detection events, \<open>crates/telltale-detect/src/correlation.rs\<close>:
  candidates are grouped by actor and rule, a sliding window finds the longest run of candidates
  that spans enough sessions, correlations over the same sessions are merged, and each becomes a
  correlation event.

  Durations are nanoseconds. A failed index or slice of the window loop is \<open>Panicked\<close>.
\<close>

section \<open>Data\<close>

record CorrelationConfig =
  cfg_window :: int
  cfg_min_sessions :: nat
  cfg_min_risk_score :: u64

definition default_correlation_config :: CorrelationConfig where
  "default_correlation_config =
    \<lparr>cfg_window = 3600 * 1000000000, cfg_min_sessions = 2, cfg_min_risk_score = 70\<rparr>"

datatype ActorKey = ActorKey (ak_client: string) (ak_agent: "string option") (ak_model: "string option")
  (ak_provider: "string option")

definition actor_tuple :: "ActorKey \<Rightarrow> string \<times> string option \<times> string option \<times> string option" where
  "actor_tuple a = (ak_client a, ak_agent a, ak_model a, ak_provider a)"

lemma actor_tuple_inject [simp]: "actor_tuple a = actor_tuple b \<longleftrightarrow> a = b"
  by (cases a; cases b) (simp add: actor_tuple_def)

instantiation ActorKey :: linorder
begin

definition less_eq_ActorKey :: "ActorKey \<Rightarrow> ActorKey \<Rightarrow> bool" where
  "less_eq_ActorKey a b \<longleftrightarrow> actor_tuple a \<le> actor_tuple b"

definition less_ActorKey :: "ActorKey \<Rightarrow> ActorKey \<Rightarrow> bool" where
  "less_ActorKey a b \<longleftrightarrow> actor_tuple a < actor_tuple b"

instance
  by standard (auto simp: less_eq_ActorKey_def less_ActorKey_def simp flip: actor_tuple_inject)

end

datatype CorrelatedSession = CorrelatedSession (cs_session_id: string) (cs_event_id: string)
  (cs_timestamp: string) (cs_severity: string) (cs_risk_score: u64)

definition session_tuple :: "CorrelatedSession \<Rightarrow> string \<times> string \<times> string \<times> string \<times> u64" where
  "session_tuple s = (cs_session_id s, cs_event_id s, cs_timestamp s, cs_severity s, cs_risk_score s)"

lemma session_tuple_inject [simp]: "session_tuple a = session_tuple b \<longleftrightarrow> a = b"
  by (cases a; cases b) (simp add: session_tuple_def)

instantiation CorrelatedSession :: linorder
begin

definition less_eq_CorrelatedSession :: "CorrelatedSession \<Rightarrow> CorrelatedSession \<Rightarrow> bool" where
  "less_eq_CorrelatedSession a b \<longleftrightarrow> session_tuple a \<le> session_tuple b"

definition less_CorrelatedSession :: "CorrelatedSession \<Rightarrow> CorrelatedSession \<Rightarrow> bool" where
  "less_CorrelatedSession a b \<longleftrightarrow> session_tuple a < session_tuple b"

instance
  by standard (auto simp: less_eq_CorrelatedSession_def less_CorrelatedSession_def simp flip: session_tuple_inject)

end

record CrossSessionCorrelation =
  cc_actor :: ActorKey
  cc_shared_rule_ids :: "string list"
  cc_sessions :: "CorrelatedSession list"
  cc_window_start :: string
  cc_window_end :: string
  cc_max_risk_score :: u64

record Candidate =
  cand_event :: Event
  cand_timestamp :: offset_date_time

definition cand_nanos :: "Candidate \<Rightarrow> int" where
  "cand_nanos c = unix_nanos (cand_timestamp c)"

section \<open>The sliding window\<close>

definition unique_session_count :: "Candidate list \<Rightarrow> nat" where
  "unique_session_count cs = card (set (map (ev_session_id \<circ> cand_event) cs))"

text \<open>The inner loop moves the start of the window; reading past the end is a panic.\<close>

function advance :: "int \<Rightarrow> Candidate list \<Rightarrow> nat \<Rightarrow> nat \<Rightarrow> (event_failure, nat) result" where
  "advance window candidates stop start =
    (if start < length candidates
     then if window < cand_nanos (candidates ! stop) - cand_nanos (candidates ! start)
          then advance window candidates stop (Suc start) else Inr start
     else Inl Panicked)"
  by pat_completeness auto
termination by (relation "measure (\<lambda>(w, cs, e, s). length cs - s)") auto

declare advance.simps [simp del]

text \<open>\<open>&candidates[start..=end]\<close>.\<close>

definition slice_inclusive :: "'a list \<Rightarrow> nat \<Rightarrow> nat \<Rightarrow> (event_failure, 'a list) result" where
  "slice_inclusive xs start stop =
    (if start \<le> Suc stop \<and> stop < length xs then Inr (take (Suc stop - start) (drop start xs)) else Inl Panicked)"

definition window_step ::
  "CorrelationConfig \<Rightarrow> Candidate list \<Rightarrow> nat \<times> Candidate list option \<Rightarrow> nat
    \<Rightarrow> (event_failure, nat \<times> Candidate list option) result" where
  "window_step config candidates st stop =
    (case st of (start, best) \<Rightarrow>
      result_bind (advance (cfg_window config) candidates stop start) (\<lambda>start'.
      result_bind (slice_inclusive candidates start' stop) (\<lambda>window.
      Inr (start', if cfg_min_sessions config \<le> unique_session_count window
             \<and> (case best of None \<Rightarrow> True | Some current \<Rightarrow> length current < length window)
           then Some window else best))))"

definition best_window :: "CorrelationConfig \<Rightarrow> Candidate list \<Rightarrow> (event_failure, Candidate list option) result" where
  "best_window config candidates =
    result_bind (try_fold (window_step config candidates) (0, None) [0..<length candidates]) (\<lambda>(start, best). Inr best)"

text \<open>\<open>format_timestamp\<close> of this module keeps the offset and the subseconds.\<close>

definition correlated_session :: "runtime \<Rightarrow> Candidate \<Rightarrow> CorrelatedSession" where
  "correlated_session rt c = CorrelatedSession (ev_session_id (cand_event c)) (ev_event_id (cand_event c))
     (rt_format_rfc3339 rt (cand_timestamp c)) (ev_severity (cand_event c)) (ev_risk_score (cand_event c))"

fun correlated_sessions_from :: "runtime \<Rightarrow> string set \<Rightarrow> Candidate list \<Rightarrow> CorrelatedSession list" where
  "correlated_sessions_from rt seen [] = []"
| "correlated_sessions_from rt seen (c # cs) =
    (if ev_session_id (cand_event c) \<in> seen then correlated_sessions_from rt seen cs
     else correlated_session rt c
       # correlated_sessions_from rt (insert (ev_session_id (cand_event c)) seen) cs)"

definition correlated_sessions :: "runtime \<Rightarrow> Candidate list \<Rightarrow> CorrelatedSession list" where
  "correlated_sessions rt cs = correlated_sessions_from rt {} cs"

definition window_correlation ::
  "runtime \<Rightarrow> ActorKey \<Rightarrow> string \<Rightarrow> Candidate list \<Rightarrow> CrossSessionCorrelation" where
  "window_correlation rt actor rule_id best =
    \<lparr>cc_actor = actor, cc_shared_rule_ids = [rule_id], cc_sessions = correlated_sessions rt best,
     cc_window_start = rt_format_rfc3339 rt (cand_timestamp (hd best)),
     cc_window_end = rt_format_rfc3339 rt (cand_timestamp (last best)),
     cc_max_risk_score = max_score (map (ev_risk_score \<circ> cand_event) best)\<rparr>"

definition correlate_rule_window ::
  "runtime \<Rightarrow> ActorKey \<Rightarrow> string \<Rightarrow> Candidate list \<Rightarrow> CorrelationConfig
    \<Rightarrow> (event_failure, CrossSessionCorrelation option) result" where
  "correlate_rule_window rt actor rule_id candidates config =
    result_bind (best_window config candidates) (\<lambda>best.
      Inr (case best of None \<Rightarrow> None
           | Some best \<Rightarrow> if best = [] then None else Some (window_correlation rt actor rule_id best)))"

section \<open>Grouping and aggregation\<close>

definition actor_key :: "Event \<Rightarrow> ActorKey" where
  "actor_key e = ActorKey (ev_client e) (ev_agent e) (ev_model e) (ev_provider e)"

definition event_candidates ::
  "runtime \<Rightarrow> CorrelationConfig \<Rightarrow> Event \<Rightarrow> ((ActorKey \<times> string) \<times> Candidate) list" where
  "event_candidates rt config e =
    (if ev_event_type e \<noteq> ''detection'' \<or> ev_risk_score e < cfg_min_risk_score config then []
     else case parse_event_timestamp rt (ev_timestamp e) of
       None \<Rightarrow> []
     | Some t \<Rightarrow> map (\<lambda>rule_id. ((actor_key e, rule_id), \<lparr>cand_event = e, cand_timestamp = t\<rparr>)) (ev_rule_ids e))"

definition candidate_groups ::
  "runtime \<Rightarrow> CorrelationConfig \<Rightarrow> Event list \<Rightarrow> (ActorKey \<times> string, Candidate list) btree_map" where
  "candidate_groups rt config events = bt_group (concat (map (event_candidates rt config) events))"

type_synonym aggregate_key = "ActorKey \<times> CorrelatedSession list \<times> string \<times> string \<times> u64"

definition aggregate_key_of :: "CrossSessionCorrelation \<Rightarrow> aggregate_key" where
  "aggregate_key_of c =
    (cc_actor c, cc_sessions c, cc_window_start c, cc_window_end c, cc_max_risk_score c)"

definition aggregate_step ::
  "(aggregate_key, CrossSessionCorrelation) btree_map \<Rightarrow> CrossSessionCorrelation
    \<Rightarrow> (aggregate_key, CrossSessionCorrelation) btree_map" where
  "aggregate_step aggregated c0 =
    (let c = c0\<lparr>cc_shared_rule_ids := sort_dedup (cc_shared_rule_ids c0)\<rparr>; key = aggregate_key_of c
     in case bt_get key aggregated of
          Some existing \<Rightarrow> bt_put key
            (existing\<lparr>cc_shared_rule_ids := sort_dedup (cc_shared_rule_ids existing @ cc_shared_rule_ids c)\<rparr>) aggregated
        | None \<Rightarrow> bt_put key c aggregated)"

definition aggregate_correlations :: "CrossSessionCorrelation list \<Rightarrow> CrossSessionCorrelation list" where
  "aggregate_correlations cs = map snd (foldl aggregate_step [] cs)"

definition correlation_order :: "CrossSessionCorrelation \<Rightarrow> string \<times> ActorKey \<times> string list" where
  "correlation_order c = (cc_window_start c, cc_actor c, cc_shared_rule_ids c)"

definition group_correlation ::
  "runtime \<Rightarrow> CorrelationConfig \<Rightarrow> (ActorKey \<times> string) \<times> Candidate list
    \<Rightarrow> (event_failure, CrossSessionCorrelation option) result" where
  "group_correlation rt config g =
    (case g of ((actor, rule_id), candidates) \<Rightarrow>
       correlate_rule_window rt actor rule_id (sort_key cand_nanos candidates) config)"

definition correlate_detection_events ::
  "runtime \<Rightarrow> Event list \<Rightarrow> CorrelationConfig \<Rightarrow> (event_failure, CrossSessionCorrelation list) result" where
  "correlate_detection_events rt events config =
    (if cfg_min_sessions config < 2 then Inr []
     else result_bind (try_map (group_correlation rt config) (candidate_groups rt config events)) (\<lambda>found.
       Inr (sort_key correlation_order (aggregate_correlations (List.map_filter (\<lambda>c. c) found)))))"

section \<open>Correlation events\<close>

definition correlation_input :: "CrossSessionCorrelation \<Rightarrow> CorrelationEventInput" where
  "correlation_input c =
    \<lparr>ci_client = ak_client (cc_actor c), ci_agent = ak_agent (cc_actor c), ci_model = ak_model (cc_actor c),
     ci_provider = ak_provider (cc_actor c), ci_shared_rule_ids = cc_shared_rule_ids c,
     ci_sessions = map (\<lambda>s. \<lparr>csi_session_id = cs_session_id s, csi_event_id = cs_event_id s,
        csi_timestamp = cs_timestamp s, csi_severity = cs_severity s, csi_risk_score = cs_risk_score s\<rparr>) (cc_sessions c),
     ci_window_start = cc_window_start c, ci_window_end = cc_window_end c,
     ci_max_risk_score = cc_max_risk_score c\<rparr>"

definition correlation_to_event :: "runtime \<Rightarrow> CrossSessionCorrelation \<Rightarrow> (event_failure, Event) result" where
  "correlation_to_event rt c = correlation_event rt (correlation_input c)"

definition correlation_events_from_detections ::
  "runtime \<Rightarrow> Event list \<Rightarrow> CorrelationConfig \<Rightarrow> (event_failure, Event list) result" where
  "correlation_events_from_detections rt events config =
    result_bind (correlate_detection_events rt events config) (\<lambda>cs. try_map (correlation_to_event rt) cs)"

section \<open>The window loop\<close>

text \<open>A run of candidates is admissible when it spans no more than the window; it qualifies when it
  also covers enough sessions.\<close>

definition within_window :: "CorrelationConfig \<Rightarrow> Candidate list \<Rightarrow> bool" where
  "within_window config w \<longleftrightarrow> w \<noteq> [] \<and> cand_nanos (last w) - cand_nanos (hd w) \<le> cfg_window config"

definition qualifies :: "CorrelationConfig \<Rightarrow> Candidate list \<Rightarrow> bool" where
  "qualifies config w \<longleftrightarrow> within_window config w \<and> cfg_min_sessions config \<le> unique_session_count w"

definition run :: "'a list \<Rightarrow> nat \<Rightarrow> nat \<Rightarrow> 'a list" where
  "run xs i j = take (Suc j - i) (drop i xs)"

lemma run_props:
  assumes "i \<le> j" "j < length xs"
  shows "run xs i j \<noteq> []" "hd (run xs i j) = xs ! i" "last (run xs i j) = xs ! j" "length (run xs i j) = Suc j - i"
    "sublist (run xs i j) xs"
proof -
  show ne: "run xs i j \<noteq> []" and len: "length (run xs i j) = Suc j - i"
    using assms by (auto simp: run_def)
  show "hd (run xs i j) = xs ! i" using assms by (simp add: run_def hd_drop_conv_nth)
  show "last (run xs i j) = xs ! j" using assms by (simp add: last_conv_nth [OF ne] len) (simp add: run_def)
  show "sublist (run xs i j) xs"
    unfolding run_def by (meson sublist_drop sublist_order.order.trans sublist_take)
qed

lemma sublist_run:
  assumes "sublist w xs" "w \<noteq> []"
  obtains i j where "i \<le> j" "j < length xs" "w = run xs i j"
proof -
  obtain ps ss where xs: "xs = ps @ w @ ss" using assms(1) by (auto simp: sublist_def)
  have "w = run xs (length ps) (length ps + length w - 1)" using assms(2) by (simp add: xs run_def)
  moreover have "length ps + length w - 1 < length xs" using assms(2) by (cases w) (auto simp: xs)
  moreover have "length ps \<le> length ps + length w - 1" using assms(2) by (cases w) auto
  ultimately show ?thesis using that by blast
qed

lemma advance_spec:
  assumes "0 \<le> w" "s \<le> e" "e < length cs"
  shows "\<exists>s'. advance w cs e s = Inr s' \<and> s \<le> s' \<and> s' \<le> e \<and> cand_nanos (cs ! e) - cand_nanos (cs ! s') \<le> w
     \<and> (\<forall>i. s \<le> i \<and> i < s' \<longrightarrow> w < cand_nanos (cs ! e) - cand_nanos (cs ! i))"
  using assms(2)
proof (induction "e - s" arbitrary: s)
  case 0
  then have "s = e" by simp
  then show ?case using assms(1,3) by (subst advance.simps) auto
next
  case (Suc n)
  show ?case
  proof (cases "w < cand_nanos (cs ! e) - cand_nanos (cs ! s)")
    case True
    then have "advance w cs e s = advance w cs e (Suc s)"
      using Suc.prems assms(3) by (subst advance.simps) auto
    moreover have "n = e - Suc s" "Suc s \<le> e" using Suc.hyps(2) by auto
    ultimately show ?thesis
      using Suc.hyps(1) [of "Suc s"] True by (metis Suc_leD le_eq_less_or_eq Suc_le_eq)
  next
    case False
    then have "advance w cs e s = Inr s" using Suc.prems assms(3) by (subst advance.simps) auto
    with False Suc.prems show ?thesis by auto
  qed
qed

text \<open>After the candidates up to \<open>n\<close> the start is the least index that the last one admits, and the
  best window is a longest qualifying run that ends before \<open>n\<close>.\<close>

definition best_up_to :: "CorrelationConfig \<Rightarrow> Candidate list \<Rightarrow> nat \<Rightarrow> Candidate list option \<Rightarrow> bool" where
  "best_up_to config cs n best \<longleftrightarrow>
     (case best of None \<Rightarrow> \<forall>i e. i \<le> e \<and> e < n \<longrightarrow> \<not> qualifies config (run cs i e)
      | Some b \<Rightarrow> qualifies config b \<and> sublist b cs
          \<and> (\<forall>i e. i \<le> e \<and> e < n \<and> qualifies config (run cs i e) \<longrightarrow> Suc e - i \<le> length b))"

definition window_inv :: "CorrelationConfig \<Rightarrow> Candidate list \<Rightarrow> nat \<Rightarrow> nat \<times> Candidate list option \<Rightarrow> bool" where
  "window_inv config cs n st \<longleftrightarrow>
     (case st of (start, best) \<Rightarrow> start \<le> n
       \<and> (\<forall>i < start. \<forall>e. n \<le> Suc e \<and> e < length cs \<longrightarrow> cfg_window config < cand_nanos (cs ! e) - cand_nanos (cs ! i))
       \<and> best_up_to config cs n best)"

lemma best_up_to_step:
  assumes best: "best_up_to config cs n best" and w: "within_window config w" "sublist w cs" "length w = Suc n - s"
    and only: "\<And>i. i \<le> n \<Longrightarrow> qualifies config (run cs i n) \<Longrightarrow> s \<le> i \<and> cfg_min_sessions config \<le> unique_session_count w"
  shows "best_up_to config cs (Suc n) (if cfg_min_sessions config \<le> unique_session_count w
             \<and> (case best of None \<Rightarrow> True | Some current \<Rightarrow> length current < length w)
           then Some w else best)"
    (is "best_up_to _ _ _ (if ?taken then _ else _)")
proof (cases ?taken)
  case True
  have "Suc e - i \<le> length w" if "i \<le> e" "e < Suc n" "qualifies config (run cs i e)" for i e
  proof (cases "e = n")
    case True
    with only [of i] that w(3) show ?thesis by auto
  next
    case False
    with that best True show ?thesis by (cases best) (force simp: best_up_to_def)+
  qed
  with True w show ?thesis by (simp add: best_up_to_def qualifies_def)
next
  case False
  have last: "(case best of None \<Rightarrow> False | Some b \<Rightarrow> Suc n - i \<le> length b)" if "i \<le> n" "qualifies config (run cs i n)" for i
    using only [OF that] False w(3) by (auto split: option.splits)
  show ?thesis
  proof (cases best)
    case None
    with last best False show ?thesis by (auto simp: best_up_to_def less_Suc_eq)
  next
    case (Some b)
    with last best False show ?thesis by (auto simp: best_up_to_def less_Suc_eq)
  qed
qed

lemma slice_run: "i \<le> e \<Longrightarrow> e < length cs \<Longrightarrow> slice_inclusive cs i e = Inr (run cs i e)"
  by (simp add: slice_inclusive_def run_def)

lemma sessions_mono: "set v \<subseteq> set w \<Longrightarrow> unique_session_count v \<le> unique_session_count w"
  unfolding unique_session_count_def by (rule card_mono) auto

lemma set_run_mono: "i \<le> k \<Longrightarrow> set (run xs k j) \<subseteq> set (run xs i j)"
proof
  fix x assume ik: "i \<le> k" and "x \<in> set (run xs k j)"
  then have "x \<in> set (drop (k - i) (run xs i j))"
    by (simp add: run_def drop_take add.commute)
  then show "x \<in> set (run xs i j)" by (rule in_set_dropD)
qed

lemma window_step_inv:
  assumes inv: "window_inv config cs n st" and n: "n < length cs" and w: "0 \<le> cfg_window config"
    and srt: "sorted (map cand_nanos cs)"
  shows "\<exists>st'. window_step config cs st n = Inr st' \<and> window_inv config cs (Suc n) st'"
proof -
  obtain s best where st: "st = (s, best)" by (cases st)
  from inv have s: "s \<le> n"
    and low: "\<And>i e. i < s \<Longrightarrow> n \<le> Suc e \<Longrightarrow> e < length cs \<Longrightarrow> cfg_window config < cand_nanos (cs ! e) - cand_nanos (cs ! i)"
    and best: "best_up_to config cs n best"
    by (auto simp: window_inv_def st)
  obtain s' where adv: "advance (cfg_window config) cs n s = Inr s'" and s': "s \<le> s'" "s' \<le> n"
    and ok: "cand_nanos (cs ! n) - cand_nanos (cs ! s') \<le> cfg_window config"
    and gap: "\<And>i. s \<le> i \<Longrightarrow> i < s' \<Longrightarrow> cfg_window config < cand_nanos (cs ! n) - cand_nanos (cs ! i)"
    using advance_spec [OF w s n] by blast
  let ?w = "run cs s' n"
  note r = run_props [OF s'(2) n]
  have gap': "cfg_window config < cand_nanos (cs ! n) - cand_nanos (cs ! i)" if "i < s'" for i
    using low [of i n] gap [of i] that n by (cases "i < s") auto
  have mono: "cand_nanos (cs ! n) \<le> cand_nanos (cs ! e)" if "n \<le> e" "e < length cs" for e
    using sorted_nth_mono [OF srt that(1)] that by simp
  have within: "within_window config ?w" using r ok by (simp add: within_window_def)
  have only: "s' \<le> i \<and> cfg_min_sessions config \<le> unique_session_count ?w" if "i \<le> n" "qualifies config (run cs i n)" for i
  proof -
    have "\<not> i < s'" using that run_props [OF that(1) n] gap' [of i]
      by (auto simp: qualifies_def within_window_def)
    then have "s' \<le> i" by simp
    then show ?thesis
      using that(2) sessions_mono [OF set_run_mono [of s' i cs n]] by (auto simp: qualifies_def)
  qed
  let ?best = "if cfg_min_sessions config \<le> unique_session_count ?w
             \<and> (case best of None \<Rightarrow> True | Some current \<Rightarrow> length current < length ?w)
           then Some ?w else best"
  have "window_step config cs st n = Inr (s', ?best)"
    by (simp add: window_step_def st adv slice_run [OF s'(2) n] del: if_split)
  moreover have "window_inv config cs (Suc n) (s', ?best)"
    unfolding window_inv_def prod.case
  proof (intro conjI allI impI)
    show "s' \<le> Suc n" using s' by auto
    show "cfg_window config < cand_nanos (cs ! e) - cand_nanos (cs ! i)"
      if "i < s'" "Suc n \<le> Suc e \<and> e < length cs" for i e
      using gap' [OF that(1)] mono [of e] that by simp
    show "best_up_to config cs (Suc n) ?best"
      using best within r(5,4) only by (rule best_up_to_step)
  qed
  ultimately show ?thesis by blast
qed


lemma best_window_longest:
  assumes w: "0 \<le> cfg_window config" and srt: "sorted (map cand_nanos cs)"
  shows "\<exists>best. best_window config cs = Inr best \<and> best_up_to config cs (length cs) best"
proof -
  have "\<exists>st. try_fold (window_step config cs) (0, None) [0..<n] = Inr st \<and> window_inv config cs n st"
    if "n \<le> length cs" for n
    using that
  proof (induction n)
    case (Suc n)
    then obtain st where "try_fold (window_step config cs) (0, None) [0..<n] = Inr st" "window_inv config cs n st"
      by auto
    with window_step_inv [OF _ _ w srt, of n st] Suc.prems show ?case by (auto simp: try_fold_append)
  qed (simp add: window_inv_def best_up_to_def)
  from this [of "length cs"] show ?thesis
    by (auto simp: best_window_def window_inv_def split: prod.splits)
qed

lemma best_up_to_sublists:
  "best_up_to config cs (length cs) best \<longleftrightarrow>
     (case best of None \<Rightarrow> \<forall>v. sublist v cs \<longrightarrow> \<not> qualifies config v
      | Some w \<Rightarrow> sublist w cs \<and> qualifies config w \<and> (\<forall>v. sublist v cs \<and> qualifies config v \<longrightarrow> length v \<le> length w))"
proof -
  have runs: "(\<forall>i e. i \<le> e \<and> e < length cs \<longrightarrow> P (run cs i e) (Suc e - i)) \<longleftrightarrow>
      (\<forall>v. sublist v cs \<and> v \<noteq> [] \<longrightarrow> P v (length v))" for P
    using run_props [of _ _ cs] sublist_run [of _ cs] by metis
  have ne: "qualifies config v \<Longrightarrow> v \<noteq> []" for v by (auto simp: qualifies_def within_window_def)
  show ?thesis
    using runs [of "\<lambda>v _. \<not> qualifies config v"] runs [of "\<lambda>v n. qualifies config v \<longrightarrow> n \<le> length (the best)"] ne
    by (cases best) (auto simp: best_up_to_def)
qed

lemma correlate_rule_window_cases:
  assumes "0 \<le> cfg_window config" and "sorted (map cand_nanos cs)"
  shows "(correlate_rule_window rt actor rule cs config = Inr None \<and> (\<forall>v. sublist v cs \<longrightarrow> \<not> qualifies config v))
     \<or> (\<exists>w. correlate_rule_window rt actor rule cs config = Inr (Some (window_correlation rt actor rule w))
          \<and> sublist w cs \<and> qualifies config w \<and> (\<forall>v. sublist v cs \<and> qualifies config v \<longrightarrow> length v \<le> length w))"
proof -
  obtain best where b: "best_window config cs = Inr best" and up: "best_up_to config cs (length cs) best"
    using best_window_longest [OF assms] by blast
  have ne: "qualifies config v \<Longrightarrow> v \<noteq> []" for v by (auto simp: qualifies_def within_window_def)
  show ?thesis
    using up ne unfolding best_up_to_sublists by (cases best) (auto simp: correlate_rule_window_def b)
qed

section \<open>Sessions of a window\<close>

lemma correlated_sessions_from_props:
  "cs_session_id ` set (correlated_sessions_from rt seen cs) = (ev_session_id \<circ> cand_event) ` set cs - seen
   \<and> distinct (map cs_session_id (correlated_sessions_from rt seen cs))
   \<and> set (correlated_sessions_from rt seen cs) \<subseteq> correlated_session rt ` set cs"
proof (induction cs arbitrary: seen)
  case (Cons c cs)
  have id: "cs_session_id (correlated_session rt c) = ev_session_id (cand_event c)"
    by (simp add: correlated_session_def)
  show ?case
  proof (cases "ev_session_id (cand_event c) \<in> seen")
    case True
    with Cons.IH [of seen] show ?thesis by auto
  next
    case False
    note IH = Cons.IH [of "insert (ev_session_id (cand_event c)) seen"]
    from False have "correlated_sessions_from rt seen (c # cs) = correlated_session rt c
       # correlated_sessions_from rt (insert (ev_session_id (cand_event c)) seen) cs" by simp
    moreover from IH have "ev_session_id (cand_event c) \<notin>
        cs_session_id ` set (correlated_sessions_from rt (insert (ev_session_id (cand_event c)) seen) cs)" by blast
    ultimately show ?thesis using IH False by (simp add: id image_Un [symmetric]) blast
  qed
qed simp

lemma correlated_sessions_props:
  "distinct (map cs_session_id (correlated_sessions rt cs))"
  "set (correlated_sessions rt cs) \<subseteq> correlated_session rt ` set cs"
  "length (correlated_sessions rt cs) = unique_session_count cs"
proof -
  note p = correlated_sessions_from_props [of rt "{}" cs, folded correlated_sessions_def]
  show "distinct (map cs_session_id (correlated_sessions rt cs))"
    "set (correlated_sessions rt cs) \<subseteq> correlated_session rt ` set cs" using p by auto
  then have "length (correlated_sessions rt cs) = card (set (map cs_session_id (correlated_sessions rt cs)))"
    using distinct_card by fastforce
  then show "length (correlated_sessions rt cs) = unique_session_count cs"
    using p by (simp add: unique_session_count_def comp_def)
qed

section \<open>Aggregation\<close>

definition merged :: "CrossSessionCorrelation list \<Rightarrow> CrossSessionCorrelation \<Rightarrow> CrossSessionCorrelation" where
  "merged cs c = c\<lparr>cc_shared_rule_ids :=
     sorted_list_of_set (\<Union>d \<in> {d \<in> set cs. aggregate_key_of d = aggregate_key_of c}. set (cc_shared_rule_ids d))\<rparr>"

lemma aggregate_key_of_update [simp]: "aggregate_key_of (c\<lparr>cc_shared_rule_ids := rs\<rparr>) = aggregate_key_of c"
  by (simp add: aggregate_key_of_def)

lemma same_key_update:
  "aggregate_key_of c = aggregate_key_of d \<Longrightarrow> c\<lparr>cc_shared_rule_ids := rs\<rparr> = d\<lparr>cc_shared_rule_ids := rs\<rparr>"
  by (cases c; cases d) (simp add: aggregate_key_of_def)

lemma merged_same_key: "aggregate_key_of c = aggregate_key_of d \<Longrightarrow> merged cs c = merged cs d"
  unfolding merged_def by (simp only:) (rule same_key_update)

lemma merged_snoc:
  "merged (cs @ [d]) c = (if aggregate_key_of d = aggregate_key_of c
     then c\<lparr>cc_shared_rule_ids := sort_dedup (cc_shared_rule_ids (merged cs c) @ sort_dedup (cc_shared_rule_ids d))\<rparr>
     else merged cs c)"
proof -
  have fin: "finite (\<Union>d \<in> {d \<in> set cs. P d}. set (cc_shared_rule_ids d))" for P by auto
  have "{x \<in> set (cs @ [d]). aggregate_key_of x = aggregate_key_of c}
      = {x \<in> set cs. aggregate_key_of x = aggregate_key_of c}
        \<union> (if aggregate_key_of d = aggregate_key_of c then {d} else {})" by auto
  then show ?thesis using fin by (auto simp: merged_def sort_dedup_eq Un_commute)
qed

lemma aggregate_fold:
  "bt_inv (foldl aggregate_step [] cs)
   \<and> (\<forall>k c. bt_get k (foldl aggregate_step [] cs) = Some c
        \<longleftrightarrow> (\<exists>d \<in> set cs. aggregate_key_of d = k \<and> c = merged cs d))"
proof (induction cs rule: rev_induct)
  case (snoc d cs)
  let ?m = "foldl aggregate_step [] cs" and ?k = "aggregate_key_of d"
  have inv: "bt_inv ?m" and get: "\<And>k c. bt_get k ?m = Some c \<longleftrightarrow> (\<exists>d \<in> set cs. aggregate_key_of d = k \<and> c = merged cs d)"
    using snoc by blast+
  have step: "aggregate_step ?m d = bt_put ?k (merged (cs @ [d]) d) ?m"
  proof (cases "bt_get ?k ?m")
    case None
    have "aggregate_key_of x \<noteq> ?k" if "x \<in> set cs" for x
      using get [of ?k "merged cs x"] that None by auto
    then have none: "{x \<in> set cs. aggregate_key_of x = ?k} = {}" by blast
    have "merged cs d = d\<lparr>cc_shared_rule_ids := []\<rparr>" unfolding merged_def none by simp
    with None show ?thesis by (simp add: aggregate_step_def Let_def merged_snoc sort_dedup_eq)
  next
    case (Some e)
    then obtain d' where d': "d' \<in> set cs" "aggregate_key_of d' = ?k" "e = merged cs d'" using get by blast
    then have e: "e = merged cs d" using merged_same_key by blast
    then have "aggregate_key_of e = ?k" by (simp add: merged_def)
    then have "e\<lparr>cc_shared_rule_ids := rs\<rparr> = d\<lparr>cc_shared_rule_ids := rs\<rparr>" for rs by (rule same_key_update)
    note upd = this
    have "aggregate_step ?m d = bt_put ?k
        (e\<lparr>cc_shared_rule_ids := sort_dedup (cc_shared_rule_ids e @ sort_dedup (cc_shared_rule_ids d))\<rparr>) ?m"
      by (simp add: aggregate_step_def Let_def Some)
    moreover have "merged (cs @ [d]) d =
        d\<lparr>cc_shared_rule_ids := sort_dedup (cc_shared_rule_ids (merged cs d) @ sort_dedup (cc_shared_rule_ids d))\<rparr>"
      by (subst merged_snoc) (rule if_P, rule refl)
    ultimately show ?thesis unfolding upd e [symmetric] by simp
  qed
  have other: "merged (cs @ [d]) x = merged cs x" if "aggregate_key_of x \<noteq> ?k" for x
    using that by (auto simp: merged_snoc)
  have "bt_get k (bt_put ?k (merged (cs @ [d]) d) ?m) = Some c
      \<longleftrightarrow> (\<exists>x \<in> set (cs @ [d]). aggregate_key_of x = k \<and> c = merged (cs @ [d]) x)" for k c
  proof (cases "k = ?k")
    case True
    have "d \<in> set (cs @ [d])" by simp
    moreover have "bt_get k (bt_put ?k (merged (cs @ [d]) d) ?m) = Some c \<longleftrightarrow> c = merged (cs @ [d]) d"
      by (subst bt_get_put [OF inv]) (simp add: True eq_commute)
    ultimately show ?thesis using merged_same_key [of _ d "cs @ [d]"] True by blast
  next
    case False
    then have "bt_get k (bt_put ?k (merged (cs @ [d]) d) ?m) = bt_get k ?m" by (simp add: bt_get_put [OF inv])
    moreover have "x \<in> set (cs @ [d]) \<and> aggregate_key_of x = k \<longleftrightarrow> x \<in> set cs \<and> aggregate_key_of x = k" for x
      using False by auto
    ultimately show ?thesis using get [of k c] other False by metis
  qed
  with step inv show ?case by (simp add: bt_inv_put)
qed simp

lemma aggregate_correlations_mem:
  "c \<in> set (aggregate_correlations cs) \<longleftrightarrow> (\<exists>d \<in> set cs. c = merged cs d)"
proof -
  let ?m = "foldl aggregate_step [] cs"
  have "c \<in> snd ` set ?m \<longleftrightarrow> (\<exists>k. bt_get k ?m = Some c)"
    by (simp only: snd_image_iff bt.entries_mem_iff [OF conjunct1 [OF aggregate_fold]])
  with conjunct2 [OF aggregate_fold [of cs]] show ?thesis
    unfolding aggregate_correlations_def set_map by blast
qed

lemma merged_rules:
  assumes "d \<in> set cs"
  shows "set (cc_shared_rule_ids (merged cs d)) =
      (\<Union>e \<in> {e \<in> set cs. aggregate_key_of e = aggregate_key_of d}. set (cc_shared_rule_ids e))"
    "distinct (cc_shared_rule_ids (merged cs d))"
  by (simp_all add: merged_def)

section \<open>Groups\<close>

text \<open>A candidate of a group stands for a detection event with the actor and the rule of the group,
  a sufficient score and a parsed timestamp.\<close>

definition candidate_of :: "runtime \<Rightarrow> CorrelationConfig \<Rightarrow> Event list \<Rightarrow> ActorKey \<Rightarrow> string \<Rightarrow> Candidate \<Rightarrow> bool" where
  "candidate_of rt config events actor rule c \<longleftrightarrow>
     cand_event c \<in> set events \<and> ev_event_type (cand_event c) = ''detection''
     \<and> cfg_min_risk_score config \<le> ev_risk_score (cand_event c)
     \<and> rt_parse_rfc3339 rt (ev_timestamp (cand_event c)) = Some (cand_timestamp c)
     \<and> actor_key (cand_event c) = actor \<and> rule \<in> set (ev_rule_ids (cand_event c))"

lemma event_candidates_mem:
  "((actor, rule), c) \<in> set (event_candidates rt config e) \<longleftrightarrow> cand_event c = e \<and> candidate_of rt config [e] actor rule c"
  by (cases c) (auto simp: event_candidates_def candidate_of_def parse_event_timestamp_def not_less split: option.splits)

lemma candidate_groups_mem:
  assumes "((actor, rule), cs) \<in> set (candidate_groups rt config events)"
  shows "set cs = {c. candidate_of rt config events actor rule c}" "cs \<noteq> []"
proof -
  let ?ps = "concat (map (event_candidates rt config) events)"
  from assms have k: "(actor, rule) \<in> fst ` set ?ps" and cs: "cs = map snd (filter (\<lambda>p. fst p = (actor, rule)) ?ps)"
    by (simp_all only: candidate_groups_def bt_group_mem_iff)
  have "c \<in> set cs \<longleftrightarrow> (\<exists>e \<in> set events. ((actor, rule), c) \<in> set (event_candidates rt config e))" for c
    unfolding cs by force
  then show "set cs = {c. candidate_of rt config events actor rule c}"
    by (auto simp: event_candidates_mem candidate_of_def)
  show "cs \<noteq> []" using k by (force simp: cs filter_empty_conv)
qed

lemma group_correlations:
  assumes w: "0 \<le> cfg_window config" and "try_map (group_correlation rt config) (candidate_groups rt config events) = Inr found"
    and c: "c \<in> set (List.map_filter (\<lambda>c. c) found)"
  obtains actor rule v where "c = window_correlation rt actor rule v" "qualifies config v"
    "\<And>x. x \<in> set v \<Longrightarrow> candidate_of rt config events actor rule x" "sorted (map cand_nanos v)"
proof -
  have "Some c \<in> set found" using c by (auto simp: List.map_filter_def)
  then obtain g where g: "g \<in> set (candidate_groups rt config events)" "group_correlation rt config g = Inr (Some c)"
    using try_map_mem [OF assms(2)] by blast
  obtain actor rule cs where gg: "g = ((actor, rule), cs)" by (metis surj_pair)
  let ?cs = "sort_key cand_nanos cs"
  obtain v where v: "c = window_correlation rt actor rule v" "sublist v ?cs" "qualifies config v"
    using correlate_rule_window_cases [OF w, of ?cs rt actor rule] g(2)
    by (auto simp: group_correlation_def gg sorted_sort_key)
  have "set v \<subseteq> set cs" using v(2) by (metis set_mono_sublist set_sort)
  moreover obtain ps ss where "?cs = ps @ v @ ss" using v(2) by (auto simp: sublist_def)
  then have "sorted (map cand_nanos (ps @ v @ ss))" by (metis sorted_sort_key)
  then have "sorted (map cand_nanos v)" by (simp add: sorted_append)
  ultimately show ?thesis using that v candidate_groups_mem(1) [of actor rule cs] g(1) gg by blast
qed

lemma correlate_detection_events_total:
  assumes "0 \<le> cfg_window config"
  shows "\<exists>out. correlate_detection_events rt events config = Inr out"
proof -
  have "\<exists>r. group_correlation rt config g = Inr r" for g
  proof -
    obtain actor rule cs where "g = ((actor, rule), cs)" by (metis surj_pair)
    then show ?thesis
      using correlate_rule_window_cases [OF assms, of "sort_key cand_nanos cs" rt actor rule]
      by (auto simp: group_correlation_def sorted_sort_key)
  qed
  then have "\<exists>found. try_map (group_correlation rt config) (candidate_groups rt config events) = Inr found"
    by (rule try_map_total)
  then show ?thesis by (auto simp: correlate_detection_events_def)
qed

text \<open>What a reported correlation stands for: for each shared rule a run of detections of the actor
  under that rule, inside the window and over enough sessions, that has the reported sessions.\<close>

lemma correlate_detection_events_cases:
  assumes w: "0 \<le> cfg_window config" and "correlate_detection_events rt events config = Inr out" "c \<in> set out"
  shows "2 \<le> cfg_min_sessions config" "cc_shared_rule_ids c \<noteq> []" "distinct (cc_shared_rule_ids c)"
    "\<And>rule. rule \<in> set (cc_shared_rule_ids c) \<Longrightarrow>
       \<exists>v. aggregate_key_of c = aggregate_key_of (window_correlation rt (cc_actor c) rule v) \<and> qualifies config v
         \<and> (\<forall>x \<in> set v. candidate_of rt config events (cc_actor c) rule x) \<and> sorted (map cand_nanos v)"
proof -
  from assms obtain found where min: "2 \<le> cfg_min_sessions config"
    and f: "try_map (group_correlation rt config) (candidate_groups rt config events) = Inr found"
    and c: "c \<in> set (aggregate_correlations (List.map_filter (\<lambda>c. c) found))"
    by (auto simp: correlate_detection_events_def result_iffs not_less split: if_splits)
  let ?cs = "List.map_filter (\<lambda>c. c) found"
  obtain d where d: "d \<in> set ?cs" "c = merged ?cs d" using c aggregate_correlations_mem by blast
  have actor: "cc_actor e = cc_actor f" if "aggregate_key_of e = aggregate_key_of f" for e f
    using that by (simp add: aggregate_key_of_def)
  have key: "aggregate_key_of c = aggregate_key_of d" by (simp add: d(2) merged_def)
  note rules = merged_rules [OF d(1), folded d(2)]
  show "2 \<le> cfg_min_sessions config" by fact
  show "distinct (cc_shared_rule_ids c)" by (rule rules(2))
  have single: "\<exists>rule v. e = window_correlation rt (cc_actor e) rule v \<and> qualifies config v
      \<and> (\<forall>x \<in> set v. candidate_of rt config events (cc_actor e) rule x) \<and> sorted (map cand_nanos v)"
    if "e \<in> set ?cs" for e
    by (rule group_correlations [OF w f that]) (auto simp: window_correlation_def)
  obtain r v where "d = window_correlation rt (cc_actor d) r v" using single [OF d(1)] by blast
  then have "cc_shared_rule_ids d \<noteq> []" by (metis window_correlation_def CrossSessionCorrelation.select_convs(2) list.distinct(1))
  then have "set (cc_shared_rule_ids c) \<noteq> {}" unfolding rules(1) using d(1) by auto
  then show "cc_shared_rule_ids c \<noteq> []" by auto
  fix rule assume "rule \<in> set (cc_shared_rule_ids c)"
  then obtain e where e: "e \<in> set ?cs" "aggregate_key_of e = aggregate_key_of d" "rule \<in> set (cc_shared_rule_ids e)"
    unfolding rules(1) by blast
  obtain r v where v: "e = window_correlation rt (cc_actor e) r v" "qualifies config v"
      "\<forall>x \<in> set v. candidate_of rt config events (cc_actor e) r x" "sorted (map cand_nanos v)"
    using single [OF e(1)] by blast
  have r: "rule = r" using e(3) arg_cong [OF v(1), of cc_shared_rule_ids] by (simp add: window_correlation_def)
  have a: "cc_actor e = cc_actor c" by (rule actor [OF trans [OF e(2) key [symmetric]]])
  from arg_cong [OF v(1), of aggregate_key_of]
  have "aggregate_key_of e = aggregate_key_of (window_correlation rt (cc_actor c) rule v)" unfolding r a .
  then have k: "aggregate_key_of c = aggregate_key_of (window_correlation rt (cc_actor c) rule v)"
    by (rule trans [OF trans [OF key e(2) [symmetric]]])
  show "\<exists>v. aggregate_key_of c = aggregate_key_of (window_correlation rt (cc_actor c) rule v) \<and> qualifies config v
         \<and> (\<forall>x \<in> set v. candidate_of rt config events (cc_actor c) rule x) \<and> sorted (map cand_nanos v)"
    using k v(2) v(3) [unfolded a, folded r] v(4) by blast
qed

section \<open>Reported correlations\<close>

lemma aggregated_keys: "distinct (map aggregate_key_of (aggregate_correlations cs))"
proof -
  let ?m = "foldl aggregate_step [] cs"
  have "aggregate_key_of c = k" if "(k, c) \<in> set ?m" for k c
  proof -
    have "bt_get k ?m = Some c" using that bt.entries_mem_iff [of ?m k c] aggregate_fold [of cs] by blast
    then obtain d where "aggregate_key_of d = k" "c = merged cs d" using aggregate_fold [of cs] by blast
    then show ?thesis by (simp add: merged_def)
  qed
  then have "map aggregate_key_of (map snd ?m) = map fst ?m"
    unfolding map_map comp_def by (intro map_cong refl) (metis prod.collapse)
  moreover have "distinct (map fst ?m)" using bt.entries_distinct [of ?m] aggregate_fold [of cs] by blast
  ultimately show ?thesis by (simp only: aggregate_correlations_def)
qed

text \<open>The run of a window gives the key fields of its correlation.\<close>

lemma window_fields:
  assumes "aggregate_key_of c = aggregate_key_of (window_correlation rt actor rule v)"
  shows "cc_actor c = actor" "cc_sessions c = correlated_sessions rt v"
    "cc_window_start c = rt_format_rfc3339 rt (cand_timestamp (hd v))"
    "cc_window_end c = rt_format_rfc3339 rt (cand_timestamp (last v))"
  using assms by (simp_all add: aggregate_key_of_def window_correlation_def)

text \<open>C16. For candidates in time order the window search reports nothing exactly when no run of
  consecutive candidates fits the window and covers enough sessions, and otherwise reports a run
  of that kind that is at least as long as every other.\<close>

theorem correlation_window_longest:
  assumes "0 \<le> cfg_window config" and "sorted (map cand_nanos cs)"
  shows "(correlate_rule_window rt actor rule cs config = Inr None \<and> (\<forall>v. sublist v cs \<longrightarrow> \<not> qualifies config v))
     \<or> (\<exists>w. correlate_rule_window rt actor rule cs config = Inr (Some (window_correlation rt actor rule w))
          \<and> sublist w cs \<and> qualifies config w \<and> (\<forall>v. sublist v cs \<and> qualifies config v \<longrightarrow> length v \<le> length w))"
  using assms by (rule correlate_rule_window_cases)

text \<open>C17. With a non-negative window the correlator always returns. Its correlations are ordered, no
  two share actor, sessions, window and score, and each names at least the configured number of
  distinct sessions; for every shared rule these sessions come from a run of detections of the
  actor under that rule, scored high enough, that fits the window.\<close>

theorem correlations_reported_sound:
  assumes "0 \<le> cfg_window config"
  shows "\<exists>out. correlate_detection_events rt events config = Inr out
    \<and> sorted (map correlation_order out) \<and> distinct (map aggregate_key_of out)
    \<and> (\<forall>c \<in> set out. cfg_min_sessions config \<le> length (cc_sessions c) \<and> 2 \<le> cfg_min_sessions config
        \<and> distinct (map cs_session_id (cc_sessions c)) \<and> cc_shared_rule_ids c \<noteq> []
        \<and> (\<forall>rule \<in> set (cc_shared_rule_ids c). \<exists>v. cc_sessions c = correlated_sessions rt v \<and> qualifies config v
             \<and> (\<forall>x \<in> set v. candidate_of rt config events (cc_actor c) rule x)))"
proof -
  obtain out where out: "correlate_detection_events rt events config = Inr out"
    using correlate_detection_events_total [OF assms] by blast
  have sorted: "sorted (map correlation_order out)" "distinct (map aggregate_key_of out)"
  proof -
    obtain cs where cs: "out = [] \<or> out = sort_key correlation_order (aggregate_correlations cs)"
      using out by (auto simp: correlate_detection_events_def result_iffs split: if_splits)
    then show "sorted (map correlation_order out)" by (auto simp: sorted_sort_key)
    show "distinct (map aggregate_key_of out)" using cs aggregated_keys [of cs] by (auto simp: distinct_map)
  qed
  have "cfg_min_sessions config \<le> length (cc_sessions c) \<and> 2 \<le> cfg_min_sessions config
        \<and> distinct (map cs_session_id (cc_sessions c)) \<and> cc_shared_rule_ids c \<noteq> []
        \<and> (\<forall>rule \<in> set (cc_shared_rule_ids c). \<exists>v. cc_sessions c = correlated_sessions rt v \<and> qualifies config v
             \<and> (\<forall>x \<in> set v. candidate_of rt config events (cc_actor c) rule x))" if c: "c \<in> set out" for c
  proof -
    note cd = correlate_detection_events_cases [OF assms out c]
    obtain rule where "rule \<in> set (cc_shared_rule_ids c)" using cd(2) by (cases "cc_shared_rule_ids c") auto
    then obtain v where "cc_sessions c = correlated_sessions rt v" "qualifies config v"
      using cd(4) window_fields(2) by blast
    then have "cfg_min_sessions config \<le> length (cc_sessions c)" "distinct (map cs_session_id (cc_sessions c))"
      using correlated_sessions_props by (auto simp: qualifies_def)
    moreover have "\<exists>v. cc_sessions c = correlated_sessions rt v \<and> qualifies config v
             \<and> (\<forall>x \<in> set v. candidate_of rt config events (cc_actor c) rule x)" if "rule \<in> set (cc_shared_rule_ids c)" for rule
      using cd(4) [OF that] window_fields(2) by blast
    ultimately show ?thesis using cd(1,2) by blast
  qed
  with out sorted show ?thesis by blast
qed

section \<open>Correlation events\<close>

text \<open>What the correlator may assume of recorded detections.\<close>

definition recorded_detections :: "Event list \<Rightarrow> bool" where
  "recorded_detections events \<longleftrightarrow> distinct (map ev_event_id events)
     \<and> list_all (\<lambda>e. trim (ev_client e) \<noteq> [] \<and> trim (ev_session_id e) \<noteq> [] \<and> trim (ev_event_id e) \<noteq> []
         \<and> list_all (\<lambda>r. trim r \<noteq> []) (ev_rule_ids e) \<and> ev_severity e \<in> set RULE_SEVERITIES) events"

text \<open>RFC 3339 text parses back to the instant it was formatted from, and is never blank.\<close>

definition rfc3339_round_trip :: "runtime \<Rightarrow> bool" where
  "rfc3339_round_trip rt \<longleftrightarrow> (\<forall>s t. rt_parse_rfc3339 rt s = Some t \<longrightarrow>
     trim s \<noteq> [] \<and> rt_parse_rfc3339 rt (rt_format_rfc3339 rt t) = Some t)"

lemma correlation_accepted_iff:
  assumes w: "0 \<le> cfg_window config" and out: "correlate_detection_events rt events config = Inr out" and c: "c \<in> set out"
    and ev: "recorded_detections events" and rt: "rfc3339_round_trip rt"
  shows "validate_correlation_input rt (correlation_input c) = Inr ()
    \<longleftrightarrow> cc_max_risk_score c = Max (cs_risk_score ` set (cc_sessions c))"
proof -
  note cd = correlate_detection_events_cases [OF w out c]
  obtain rule where rule: "rule \<in> set (cc_shared_rule_ids c)" using cd(2) by (cases "cc_shared_rule_ids c") auto
  obtain v where k: "aggregate_key_of c = aggregate_key_of (window_correlation rt (cc_actor c) rule v)"
    and q: "qualifies config v" and cand: "\<And>x. x \<in> set v \<Longrightarrow> candidate_of rt config events (cc_actor c) rule x"
    and srt: "sorted (map cand_nanos v)"
    using cd(4) [OF rule] by blast
  note fields = window_fields [OF k]
  have ne: "v \<noteq> []" using q by (simp add: qualifies_def within_window_def)
  have parse: "rt_parse_rfc3339 rt (rt_format_rfc3339 rt (cand_timestamp x)) = Some (cand_timestamp x)"
    and blank: "trim (rt_format_rfc3339 rt (cand_timestamp x)) \<noteq> []"
    and wf: "trim (ev_client (cand_event x)) \<noteq> []" "trim (ev_session_id (cand_event x)) \<noteq> []"
      "trim (ev_event_id (cand_event x)) \<noteq> []" "ev_severity (cand_event x) \<in> set RULE_SEVERITIES"
    if "x \<in> set v" for x
    using cand [OF that] ev rt by (auto simp: candidate_of_def recorded_detections_def rfc3339_round_trip_def list_all_iff)
  have client: "trim (ak_client (cc_actor c)) \<noteq> []"
  proof -
    have "cc_actor c = actor_key (cand_event (hd v))" using cand [of "hd v"] ne by (simp add: candidate_of_def)
    then show ?thesis using wf(1) [of "hd v"] ne by (simp add: actor_key_def)
  qed
  have rules: "\<forall>r \<in> set (cc_shared_rule_ids c). trim r \<noteq> []"
  proof
    fix r assume "r \<in> set (cc_shared_rule_ids c)"
    then obtain u where "qualifies config u" "\<forall>x \<in> set u. candidate_of rt config events (cc_actor c) r x"
      using cd(4) by blast
    then have "candidate_of rt config events (cc_actor c) r (hd u)" by (simp add: qualifies_def within_window_def)
    then show "trim r \<noteq> []" using ev by (auto simp: candidate_of_def recorded_detections_def list_all_iff)
  qed
  have bounds: "cand_nanos (hd v) \<le> cand_nanos x" "cand_nanos x \<le> cand_nanos (last v)" if "x \<in> set v" for x
  proof -
    show "cand_nanos (hd v) \<le> cand_nanos x" using that srt by (cases v) auto
    show "cand_nanos x \<le> cand_nanos (last v)" using that srt by (cases v rule: rev_cases) (auto simp: sorted_append)
  qed
  let ?in = "\<lambda>s. \<lparr>csi_session_id = cs_session_id s, csi_event_id = cs_event_id s,
        csi_timestamp = cs_timestamp s, csi_severity = cs_severity s, csi_risk_score = cs_risk_score s\<rparr>"
  have sess: "\<exists>x \<in> set v. s = correlated_session rt x" if "s \<in> set (cc_sessions c)" for s
    using that correlated_sessions_props(2) [of rt v] fields(2) by auto
  have ok: "session_ok rt (cand_nanos (hd v)) (cand_nanos (last v)) (?in s)" if "s \<in> set (cc_sessions c)" for s
    using sess [OF that] parse blank wf bounds
    by (fastforce simp: session_ok_def correlated_session_def cand_nanos_def)
  have sid: "distinct (map cs_session_id (cc_sessions c))" by (simp add: fields(2) correlated_sessions_props(1))
  have eid: "distinct (map cs_event_id (cc_sessions c))"
  proof -
    have "cs_session_id s = cs_session_id s'"
      if "s \<in> set (cc_sessions c)" "s' \<in> set (cc_sessions c)" "cs_event_id s = cs_event_id s'" for s s'
    proof -
      from sess [OF that(1)] sess [OF that(2)]
      obtain x x' where x: "x \<in> set v" "s = correlated_session rt x" "x' \<in> set v" "s' = correlated_session rt x'"
        by blast
      then have "cand_event x \<in> set events" "cand_event x' \<in> set events" "ev_event_id (cand_event x) = ev_event_id (cand_event x')"
        using cand that(3) by (auto simp: candidate_of_def correlated_session_def)
      moreover have "inj_on ev_event_id (set events)" using ev by (simp add: recorded_detections_def distinct_map)
      ultimately have "cand_event x = cand_event x'" by (simp add: inj_on_def)
      with x show ?thesis by (simp add: correlated_session_def)
    qed
    moreover have "distinct (cc_sessions c)" "inj_on cs_session_id (set (cc_sessions c))"
      using sid by (simp_all only: distinct_map)
    ultimately have "distinct (cc_sessions c) \<and> inj_on cs_event_id (set (cc_sessions c))"
      unfolding inj_on_def by blast
    then show ?thesis by (simp only: distinct_map)
  qed
  have len: "2 \<le> length (cc_sessions c)"
    using cd(1) q by (simp add: fields(2) correlated_sessions_props(3) qualifies_def)
  have parse_w: "rt_parse_rfc3339 rt (cc_window_start c) = Some (cand_timestamp (hd v))"
      "rt_parse_rfc3339 rt (cc_window_end c) = Some (cand_timestamp (last v))"
      "trim (cc_window_start c) \<noteq> []" "trim (cc_window_end c) \<noteq> []"
    using parse blank ne by (simp_all add: fields(3,4))
  have "unix_nanos (cand_timestamp (hd v)) \<le> unix_nanos (cand_timestamp (last v))"
    using bounds(2) [of "hd v"] ne by (simp add: cand_nanos_def)
  with client cd(2,3) rules parse_w ok len sid eid show ?thesis
    unfolding validate_correlation_input_iff
    by (simp add: correlation_input_def comp_def image_image cand_nanos_def)
qed

text \<open>C32. What the correlator reports for recorded detections meets every condition of the correlation
  event except one: the constructor accepts it exactly when the reported maximum is the greatest
  score of the listed sessions. The listed session scores are those of the first detection of each
  session, the reported maximum is taken over all detections of the window; where these differ, the
  export of correlation events fails as a whole.\<close>

theorem correlation_events_accepted_iff:
  assumes "0 \<le> cfg_window config" and "correlate_detection_events rt events config = Inr out"
    and "recorded_detections events" and "rfc3339_round_trip rt"
  shows "(\<forall>c \<in> set out. validate_correlation_input rt (correlation_input c) = Inr ()
      \<longleftrightarrow> cc_max_risk_score c = Max (cs_risk_score ` set (cc_sessions c)))
    \<and> ((\<exists>c \<in> set out. cc_max_risk_score c \<noteq> Max (cs_risk_score ` set (cc_sessions c)))
        \<longrightarrow> (\<exists>e. correlation_events_from_detections rt events config = Inl e))"
proof (intro conjI ballI impI)
  show iff: "validate_correlation_input rt (correlation_input c) = Inr ()
      \<longleftrightarrow> cc_max_risk_score c = Max (cs_risk_score ` set (cc_sessions c))" if "c \<in> set out" for c
    using correlation_accepted_iff [OF assms(1,2) that assms(3,4)] .
  assume "\<exists>c \<in> set out. cc_max_risk_score c \<noteq> Max (cs_risk_score ` set (cc_sessions c))"
  then obtain c where c: "c \<in> set out" "validate_correlation_input rt (correlation_input c) \<noteq> Inr ()" using iff by blast
  have "correlation_to_event rt c \<noteq> Inr e" for e
    using c(2) by (auto simp: correlation_to_event_def correlation_event_def check_correlation_event_def result_iffs)
  then have "try_map (correlation_to_event rt) out \<noteq> Inr es" for es
    using c(1) by (induction out arbitrary: es) (auto simp: result_iffs)
  then show "\<exists>e. correlation_events_from_detections rt events config = Inl e"
    unfolding correlation_events_from_detections_def assms(2)
    by (cases "try_map (correlation_to_event rt) out") auto
qed

section \<open>Witnesses\<close>

definition stamp_runtime :: runtime where
  "stamp_runtime = sample_runtime\<lparr>rt_format_rfc3339 :=
     (\<lambda>t. if t = OffsetDateTime 1000000000 0 then ''t1'' else if t = OffsetDateTime 2000000000 0 then ''t2'' else ''t3'')\<rparr>"

definition sample_event :: "string \<Rightarrow> string \<Rightarrow> string \<Rightarrow> u64 \<Rightarrow> Event" where
  "sample_event session event t n =
    (build_event stamp_runtime t \<lparr>rs_timestamp = t, rs_event_time = Some t, rs_time_source = ''source'',
         rs_time_confidence = ''high'', rs_time_override_reason = None\<rparr> (detection_builder sample_detection [sample_rule] n
       (assess_risk_with_thresholds n default_thresholds)))
      \<lparr>ev_session_id := session, ev_event_id := event, ev_timestamp := t\<rparr>"

definition sample_actor :: ActorKey where
  "sample_actor = ActorKey ''codex'' None None None"

lemma sample_event_fields [simp]:
  "ev_session_id (sample_event s e t n) = s" "ev_event_id (sample_event s e t n) = e"
  "ev_timestamp (sample_event s e t n) = t" "ev_risk_score (sample_event s e t n) = n"
  "ev_event_type (sample_event s e t n) = ''detection''" "ev_rule_ids (sample_event s e t n) = [''shell.download'']"
  "ev_severity (sample_event s e t n) = severity_as_str (severity (assess_risk_with_thresholds n default_thresholds))"
  "actor_key (sample_event s e t n) = sample_actor" "ev_client (sample_event s e t n) = ''codex''"
  by (simp_all add: sample_event_def detection_builder_def sample_detection_def actor_key_def sample_actor_def
      build_event_def Let_def)

definition sample_candidate :: "string \<Rightarrow> string \<Rightarrow> string \<Rightarrow> int \<Rightarrow> u64 \<Rightarrow> Candidate" where
  "sample_candidate s e t k n = \<lparr>cand_event = sample_event s e t n, cand_timestamp = OffsetDateTime k 0\<rparr>"

lemma sample_candidate_fields [simp]:
  "cand_event (sample_candidate s e t k n) = sample_event s e t n"
  "cand_timestamp (sample_candidate s e t k n) = OffsetDateTime k 0" "cand_nanos (sample_candidate s e t k n) = k"
  by (simp_all add: sample_candidate_def cand_nanos_def)

text \<open>Two detections of one session, the later one scored higher, and one of another session.\<close>

definition sample_events :: "Event list" where
  "sample_events = [sample_event ''s1'' ''e1'' ''t1'' 75, sample_event ''s1'' ''e2'' ''t2'' 95,
     sample_event ''s2'' ''e3'' ''t3'' 80]"

definition sample_candidates :: "Candidate list" where
  "sample_candidates = [sample_candidate ''s1'' ''e1'' ''t1'' 1000000000 75,
     sample_candidate ''s1'' ''e2'' ''t2'' 2000000000 95, sample_candidate ''s2'' ''e3'' ''t3'' 3000000000 80]"

lemma sample_groups:
  "candidate_groups stamp_runtime default_correlation_config sample_events
     = [((sample_actor, ''shell.download''), sample_candidates)]"
  by (simp add: candidate_groups_def event_candidates_def sample_events_def sample_candidates_def
      default_correlation_config_def stamp_runtime_def sample_runtime_def parse_event_timestamp_def
      bt_group_def bt_push_def sample_candidate_def bt_get_def)

lemma sample_best: "best_window default_correlation_config sample_candidates = Inr (Some sample_candidates)"
  by (simp add: best_window_def window_step_def default_correlation_config_def sample_candidates_def
      advance.simps slice_inclusive_def unique_session_count_def upt_rec numeral_eq_Suc)

lemma sample_sorted: "sort_key cand_nanos sample_candidates = sample_candidates"
  by (simp add: sample_candidates_def)

lemma sample_correlated:
  "correlate_detection_events stamp_runtime sample_events default_correlation_config
     = Inr [(window_correlation stamp_runtime sample_actor ''shell.download'' sample_candidates)]"
proof -
  have "2 \<le> cfg_min_sessions default_correlation_config" by (simp add: default_correlation_config_def)
  moreover have "sample_candidates \<noteq> []" by (simp add: sample_candidates_def)
  ultimately show ?thesis
    by (simp add: correlate_detection_events_def sample_groups group_correlation_def sample_sorted
        correlate_rule_window_def sample_best List.map_filter_def aggregate_correlations_def aggregate_step_def
        Let_def window_correlation_def sort_dedup_def bt_get_def)
qed

lemma sample_round_trip: "rfc3339_round_trip stamp_runtime"
  by (auto simp: rfc3339_round_trip_def stamp_runtime_def sample_runtime_def trim_id rust_simps split: if_splits)

lemma sample_recorded: "recorded_detections sample_events"
  by (simp add: recorded_detections_def sample_events_def trim_id rust_simps RULE_SEVERITIES_def
      assess_risk_with_thresholds_def default_thresholds_def u64_from_def)

lemma sample_config: "0 \<le> cfg_window default_correlation_config" "cfg_min_sessions default_correlation_config = 2"
  by (simp_all add: default_correlation_config_def)

lemma sample_qualifies: "qualifies default_correlation_config sample_candidates"
  by (simp add: qualifies_def within_window_def default_correlation_config_def sample_candidates_def
      unique_session_count_def)

theorem correlation_window_longest_witness:
  "\<exists>w. correlate_rule_window stamp_runtime sample_actor ''shell.download'' sample_candidates default_correlation_config
       = Inr (Some (window_correlation stamp_runtime sample_actor ''shell.download'' w)) \<and> 3 \<le> length w"
proof -
  have "sorted (map cand_nanos sample_candidates)" "length sample_candidates = 3"
    by (simp_all add: sample_candidates_def)
  then show ?thesis
    using correlation_window_longest [OF sample_config(1), of sample_candidates stamp_runtime sample_actor "''shell.download''"]
      sample_qualifies by (metis sublist_order.order.refl)
qed

theorem correlations_reported_sound_witness:
  "\<exists>out. correlate_detection_events stamp_runtime sample_events default_correlation_config = Inr out
     \<and> length out = 1 \<and> (\<forall>c \<in> set out. 2 \<le> length (cc_sessions c))"
  using correlations_reported_sound [OF sample_config(1), of stamp_runtime sample_events]
  by (auto simp: sample_correlated sample_config)

theorem correlation_events_accepted_witness:
  "\<exists>e. correlation_events_from_detections stamp_runtime sample_events default_correlation_config = Inl e"
proof -
  let ?c = "window_correlation stamp_runtime sample_actor ''shell.download'' sample_candidates"
  have "cc_max_risk_score ?c = 95 \<and> Max (cs_risk_score ` set (cc_sessions ?c)) = 80"
    by (simp add: window_correlation_def sample_candidates_def max_score_def correlated_sessions_def correlated_session_def)
  then show ?thesis
    using correlation_events_accepted_iff [OF _ sample_correlated sample_recorded sample_round_trip]
    by (simp add: default_correlation_config_def)
qed

end
