(* ===== verification/Outbox.thy ===== *)
theory Outbox
  imports Telltale_Prelude
begin

text \<open>
  The durable delivery outbox: the tables of \<open>src/sink/outbox.rs\<close> and the operations on them.

  The database is the record \<open>outbox_db\<close>, one component per SQLite table with its primary key as the
  key of a sorted map; columns keep the type they are stored with, so the decoding of text and
  integer columns and its failures are part of the model. A transaction that returns an error
  leaves the tables as they were, the atomicity that SQLite documents; failures of SQLite itself
  (a full disk, a locked file) are such errors and are not otherwise modelled. Where the message of an
  error ends in the rendering of an error of a library, the model keeps the text before it.

  The record \<open>codec\<close> stands for third-party code and for the privacy marker check of
  \<open>event/redaction.rs\<close>: SHA-256, the JSON parser, and that check. The clock is an argument.
\<close>

section \<open>Errors\<close>

type_synonym u16 = "16 word"

datatype DeliveryErrorClass = TransportNoResponse | Timeout | HttpStatus u16 | SinkApplicationRejected
  | SinkApplicationRetryable | SinkResponseBlocked | AuthenticationBlocked u16 | PayloadCollision
  | DurableStorage | UnknownInternal

fun class_as_str :: "DeliveryErrorClass \<Rightarrow> string" where
  "class_as_str TransportNoResponse = ''transport_no_response''"
| "class_as_str Timeout = ''timeout''"
| "class_as_str (HttpStatus _) = ''http_status''"
| "class_as_str SinkApplicationRejected = ''sink_application_rejected''"
| "class_as_str SinkApplicationRetryable = ''sink_application_retryable''"
| "class_as_str SinkResponseBlocked = ''sink_response_blocked''"
| "class_as_str (AuthenticationBlocked _) = ''authentication_blocked''"
| "class_as_str PayloadCollision = ''payload_collision''"
| "class_as_str DurableStorage = ''durable_storage''"
| "class_as_str UnknownInternal = ''unknown_internal''"

fun is_retryable :: "DeliveryErrorClass \<Rightarrow> bool" where
  "is_retryable (HttpStatus status) \<longleftrightarrow> status = 408 \<or> status = 429 \<or> (500 \<le> status \<and> status < 600)"
| "is_retryable c \<longleftrightarrow> c \<in> {TransportNoResponse, Timeout, SinkApplicationRetryable}"

datatype DeliveryError = DeliveryError (de_class: DeliveryErrorClass) (de_attempts: u32) (de_message: string)

definition storage_message :: "string \<Rightarrow> DeliveryError" where
  "storage_message m = DeliveryError DurableStorage 0 m"

definition canonical_error :: "string \<Rightarrow> DeliveryError" where
  "canonical_error m = DeliveryError UnknownInternal 0 m"

definition payload_collision_error :: DeliveryError where
  "payload_collision_error = DeliveryError PayloadCollision 0
     ''outbox event identity maps to different canonical payload bytes''"

definition ensure :: "bool \<Rightarrow> 'e \<Rightarrow> ('e, unit) result" where
  "ensure b e = (if b then Inr () else Inl e)"

section \<open>Rows and tables\<close>

datatype DeliveryState = Pending | Acked | Blocked | Dead

fun state_as_str :: "DeliveryState \<Rightarrow> string" where
  "state_as_str Pending = ''pending''"
| "state_as_str Acked = ''acked''"
| "state_as_str Blocked = ''blocked''"
| "state_as_str Dead = ''dead''"

definition state_from_str :: "string \<Rightarrow> DeliveryState option" where
  "state_from_str v =
    (if v = ''pending'' then Some Pending else if v = ''acked'' then Some Acked
     else if v = ''blocked'' then Some Blocked else if v = ''dead'' then Some Dead else None)"

datatype GenerationLifecycle = Present | PrunePending | Pruned

definition lifecycle_from_str :: "string \<Rightarrow> GenerationLifecycle option" where
  "lifecycle_from_str v =
    (if v = ''present'' then Some Present else if v = ''prune_pending'' then Some PrunePending
     else if v = ''pruned'' then Some Pruned else None)"

record Event3DurablePayload =
  pl_event_id :: string
  pl_bytes :: string
  pl_hash :: string
  pl_generation_id :: "string option"
  pl_generation_offset :: "nat option"

record DeliveryRow =
  dr_event_id :: string
  dr_sink_id :: string
  dr_state :: DeliveryState
  dr_attempts :: u32
  dr_next_attempt_at :: "int option"
  dr_last_error_class :: "DeliveryErrorClass option"
  dr_updated_at :: int

record DeliveryUpdate =
  du_state :: DeliveryState
  du_attempts :: u32
  du_next_attempt_at :: "int option"
  du_last_error_class :: "DeliveryErrorClass option"
  du_updated_at :: int

record ReadyDelivery =
  rd_row :: DeliveryRow
  rd_payload :: string

record OutboxEvent =
  oe_event_id :: string
  oe_payload :: string
  oe_payload_hash :: string
  oe_created_at :: int

record IngestCursor =
  ic_journal_namespace :: string
  ic_journal_path_hash :: string
  ic_generation_id :: string
  ic_byte_offset :: nat
  ic_observed_length :: nat
  ic_window_start :: nat
  ic_prefix_hash :: string
  ic_window_hash :: string

text \<open>Columns as the tables hold them.\<close>

record event_columns =
  col_payload :: string
  col_payload_hash :: string
  col_created_at :: int

record delivery_columns =
  col_state :: string
  col_attempt_count :: int
  col_next_attempt_at :: "int option"
  col_last_error_class :: "string option"
  col_last_error_status :: "int option"
  col_updated_at :: int

record health_columns =
  col_last_success_at :: "int option"
  col_last_error_at :: "int option"
  col_health_error_class :: "string option"
  col_health_error_status :: "int option"

record generation_columns =
  col_journal_path_hash :: string
  col_observed_at :: int
  col_lifecycle :: string
  col_pruned_at :: "int option"

record outbox_db =
  db_meta :: "(string, string) btree_map"
  db_events :: "(string, event_columns) btree_map"
  db_deliveries :: "(string \<times> string, delivery_columns) btree_map"
  db_origins :: "(string \<times> string \<times> nat) list"
  db_health :: "(string, health_columns) btree_map"
  db_cursor :: "IngestCursor option"
  db_generations :: "(string, generation_columns) btree_map"

text \<open>A transaction commits the tables it computed, or none of its changes.\<close>

definition in_transaction ::
  "(outbox_db \<Rightarrow> (DeliveryError, 'a \<times> outbox_db) result) \<Rightarrow> outbox_db \<Rightarrow> (DeliveryError, 'a) result \<times> outbox_db" where
  "in_transaction f db = (case f db of Inl e \<Rightarrow> (Inl e, db) | Inr (x, db') \<Rightarrow> (Inr x, db'))"

section \<open>Decoding of columns\<close>

definition u16_try_from :: "int \<Rightarrow> u16 option" where
  "u16_try_from n = (if 0 \<le> n \<and> n < 2 ^ 16 then Some (word_of_int n) else None)"

definition u32_try_from :: "int \<Rightarrow> u32 option" where
  "u32_try_from n = (if 0 \<le> n \<and> n < 2 ^ 32 then Some (word_of_int n) else None)"

definition invalid_class :: DeliveryError where
  "invalid_class = storage_message ''stored delivery error class is invalid''"

definition decode_error_class ::
  "string option \<Rightarrow> int option \<Rightarrow> (DeliveryError, DeliveryErrorClass option) result" where
  "decode_error_class class stat =
    (case class of
       None \<Rightarrow> if stat \<noteq> None then Inl (storage_message ''stored error status has no error class'') else Inr None
     | Some c \<Rightarrow>
         result_bind (case stat of None \<Rightarrow> Inr None
           | Some n \<Rightarrow> (case u16_try_from n of None \<Rightarrow> Inl (storage_message ''stored error status is invalid'')
                         | Some w \<Rightarrow> Inr (Some w))) (\<lambda>status.
         if c = ''transport_no_response'' \<and> status = None then Inr (Some TransportNoResponse)
         else if c = ''timeout'' \<and> status = None then Inr (Some Timeout)
         else if c = ''http_status'' then
           (case status of None \<Rightarrow> Inl (storage_message ''HTTP error status is missing'')
            | Some w \<Rightarrow> Inr (Some (HttpStatus w)))
         else if c = ''sink_application_rejected'' \<and> status = None then Inr (Some SinkApplicationRejected)
         else if c = ''sink_application_retryable'' \<and> status = None then Inr (Some SinkApplicationRetryable)
         else if c = ''sink_response_blocked'' \<and> status = None then Inr (Some SinkResponseBlocked)
         else if c = ''authentication_blocked'' then
           (case status of None \<Rightarrow> Inl (storage_message ''authentication status is missing'')
            | Some w \<Rightarrow> Inr (Some (AuthenticationBlocked w)))
         else if c = ''payload_collision'' \<and> status = None then Inr (Some PayloadCollision)
         else if c = ''durable_storage'' \<and> status = None then Inr (Some DurableStorage)
         else if c = ''unknown_internal'' \<and> status = None then Inr (Some UnknownInternal)
         else Inl invalid_class))"

fun encode_error_class :: "DeliveryErrorClass option \<Rightarrow> string option \<times> u16 option" where
  "encode_error_class None = (None, None)"
| "encode_error_class (Some (HttpStatus status)) = (Some ''http_status'', Some status)"
| "encode_error_class (Some (AuthenticationBlocked status)) = (Some ''authentication_blocked'', Some status)"
| "encode_error_class (Some c) = (Some (class_as_str c), None)"

definition MAX_CURSOR_TEXT :: nat where
  "MAX_CURSOR_TEXT = 128"

definition bounded_cursor_text :: "string \<Rightarrow> string \<Rightarrow> (DeliveryError, string) result" where
  "bounded_cursor_text s what =
    (if s = [] \<or> MAX_CURSOR_TEXT < length s \<or> any_control s
     then Inl (storage_message (''durable ingest '' @ what @ '' is invalid'')) else Inr s)"

text \<open>Trimmed, bounded, free of control characters; the result is the sorted set.\<close>

definition validate_sink_id :: "string \<Rightarrow> (DeliveryError, string) result" where
  "validate_sink_id raw =
    (let s = trim raw in
     if s = [] then Inl (canonical_error ''outbox sink identity is empty'')
     else if MAX_CURSOR_TEXT < length s then Inl (canonical_error ''outbox sink identity is too long'')
     else if any_control s then Inl (canonical_error ''outbox sink identity contains control characters'')
     else Inr s)"

definition validate_sink_ids :: "string list \<Rightarrow> bool \<Rightarrow> (DeliveryError, string list) result" where
  "validate_sink_ids sink_ids require_one =
    result_bind (try_map validate_sink_id sink_ids) (\<lambda>ids.
      if require_one \<and> ids = [] then Inl (canonical_error ''durable ingest requires a configured sink identity'')
      else Inr (btree_set ids))"

section \<open>Canonical payloads\<close>

datatype json = JNull | JBool bool | JNumber string | JString string | JArray "json list"
  | JObject "(string \<times> json) list"

record codec =
  cd_sha256 :: "string \<Rightarrow> string"
  cd_from_slice :: "string \<Rightarrow> json option"
  cd_markers_ok :: "string \<Rightarrow> bool"

text \<open>\<open>Value::get\<close> with a string, \<open>Value::as_str\<close> and \<open>Value::is_array\<close>.\<close>

fun json_get :: "string \<Rightarrow> json \<Rightarrow> json option" where
  "json_get k (JObject obj) = map_of obj k"
| "json_get k _ = None"

fun json_str :: "json option \<Rightarrow> string option" where
  "json_str (Some (JString s)) = Some s"
| "json_str _ = None"

fun is_array :: "json option \<Rightarrow> bool" where
  "is_array (Some (JArray _)) \<longleftrightarrow> True"
| "is_array _ \<longleftrightarrow> False"

fun is_object :: "json \<Rightarrow> bool" where
  "is_object (JObject _) \<longleftrightarrow> True"
| "is_object _ \<longleftrightarrow> False"

definition lower_hex :: "char \<Rightarrow> bool" where
  "lower_hex c \<longleftrightarrow> (CHR ''0'' \<le> c \<and> c \<le> CHR ''9'') \<or> (CHR ''a'' \<le> c \<and> c \<le> CHR ''f'')"

definition is_native_event_id :: "string \<Rightarrow> bool" where
  "is_native_event_id v =
    (case strip_prefix ''telltale-'' v of
       None \<Rightarrow> False
     | Some uuid \<Rightarrow>
         length uuid = 36 \<and> uuid ! 8 = CHR ''-'' \<and> uuid ! 13 = CHR ''-'' \<and> uuid ! 18 = CHR ''-'' \<and> uuid ! 23 = CHR ''-''
         \<and> uuid ! 14 = CHR ''4'' \<and> uuid ! 19 \<in> {CHR ''8'', CHR ''9'', CHR ''a'', CHR ''b''}
         \<and> list_all (\<lambda>i. i \<in> {8, 13, 18, 23} \<or> lower_hex (uuid ! i)) [0..<36])"

definition REQUIRED_TEXT_FIELDS :: "string list" where
  "REQUIRED_TEXT_FIELDS = [''schema_version'', ''event_id'', ''telltale_version'', ''timestamp'', ''observed_at'',
     ''ingested_at'', ''time_source'', ''time_confidence'', ''event_type'', ''severity'', ''client'', ''session_id'']"

definition REQUIRED_ARRAY_FIELDS :: "string list" where
  "REQUIRED_ARRAY_FIELDS = [''risk_contributions'', ''tags'', ''evidence'']"

definition check_text_field :: "json \<Rightarrow> string \<Rightarrow> (DeliveryError, unit) result" where
  "check_text_field v field =
    ensure (case json_str (json_get field v) of None \<Rightarrow> False | Some s \<Rightarrow> trim s \<noteq> [])
      (canonical_error (''serialized Event 3.0 is missing required field '' @ field))"

definition validate_canonical_event_bytes ::
  "codec \<Rightarrow> string \<Rightarrow> string option \<Rightarrow> (DeliveryError, unit) result" where
  "validate_canonical_event_bytes cd bytes expected_event_id =
    result_bind (ensure (cd_markers_ok cd bytes) (canonical_error ''serialized Event 3.0 check failed'')) (\<lambda>_.
    result_bind (ok_or (cd_from_slice cd bytes) (canonical_error ''serialized Event 3.0 is invalid'')) (\<lambda>v.
    result_bind (ensure (is_object v) (canonical_error ''serialized Event 3.0 is not an object'')) (\<lambda>_.
    result_bind (try_fold (\<lambda>_ f. check_text_field v f) () REQUIRED_TEXT_FIELDS) (\<lambda>_.
    result_bind (ensure (json_str (json_get ''schema_version'' v) = Some ''3.0'')
      (canonical_error ''serialized event has an unsupported schema version'')) (\<lambda>_.
    result_bind (ensure (case json_str (json_get ''event_id'' v) of None \<Rightarrow> False | Some i \<Rightarrow> is_native_event_id i)
      (canonical_error ''serialized event has an invalid event ID'')) (\<lambda>_.
    result_bind (ensure (expected_event_id = None \<or> json_str (json_get ''event_id'' v) = expected_event_id)
      (canonical_error ''serialized event ID does not match its record identity'')) (\<lambda>_.
    try_fold (\<lambda>_ f. ensure (is_array (json_get f v))
      (canonical_error (''serialized Event 3.0 field '' @ f @ '' is not an array''))) () REQUIRED_ARRAY_FIELDS)))))))"

definition canonical_payload_from_bytes ::
  "codec \<Rightarrow> string \<Rightarrow> (DeliveryError, Event3DurablePayload) result" where
  "canonical_payload_from_bytes cd bytes =
    result_bind (ok_or (cd_from_slice cd bytes) (canonical_error ''canonical JSONL record is invalid'')) (\<lambda>v.
    result_bind (ok_or (json_str (json_get ''event_id'' v)) (canonical_error ''canonical JSONL record has no event ID'')) (\<lambda>event_id.
    result_bind (validate_canonical_event_bytes cd bytes (Some event_id)) (\<lambda>_.
    Inr \<lparr>pl_event_id = event_id, pl_bytes = bytes, pl_hash = cd_sha256 cd bytes, pl_generation_id = None,
         pl_generation_offset = None\<rparr>)))"

definition is_delivery_failure_alert_payload :: "codec \<Rightarrow> string \<Rightarrow> bool" where
  "is_delivery_failure_alert_payload cd bytes =
    (case cd_from_slice cd bytes of
       None \<Rightarrow> False
     | Some v \<Rightarrow> json_str (json_get ''event_type'' v) = Some ''operational_alert''
         \<and> json_str (json_get ''check_name'' v) = Some ''sink_delivery'')"

section \<open>Ingestion of payloads\<close>

definition I64_MAX :: int where
  "I64_MAX = 2 ^ 63 - 1"

definition fresh_delivery :: "int \<Rightarrow> delivery_columns" where
  "fresh_delivery now = \<lparr>col_state = ''pending'', col_attempt_count = 0, col_next_attempt_at = None,
     col_last_error_class = None, col_last_error_status = None, col_updated_at = now\<rparr>"

definition fresh_health :: health_columns where
  "fresh_health = \<lparr>col_last_success_at = None, col_last_error_at = None, col_health_error_class = None,
     col_health_error_status = None\<rparr>"

text \<open>\<open>INSERT OR IGNORE\<close> on a primary key.\<close>

definition insert_or_ignore :: "'k::linorder \<Rightarrow> 'v \<Rightarrow> ('k, 'v) btree_map \<Rightarrow> ('k, 'v) btree_map" where
  "insert_or_ignore k v m = (case bt_get k m of None \<Rightarrow> bt_put k v m | Some _ \<Rightarrow> m)"

definition insert_origin :: "string \<times> string \<times> nat \<Rightarrow> (string \<times> string \<times> nat) list \<Rightarrow> (string \<times> string \<times> nat) list" where
  "insert_origin x xs = (if x \<in> set xs then xs else xs @ [x])"

definition check_provenance :: "Event3DurablePayload \<Rightarrow> (DeliveryError, unit) result" where
  "check_provenance p =
    (case (pl_generation_id p, pl_generation_offset p) of
       (Some g, Some _) \<Rightarrow> result_bind (bounded_cursor_text g ''generation identity'') (\<lambda>_. Inr ())
     | (None, None) \<Rightarrow> Inr ()
     | _ \<Rightarrow> Inl (storage_message ''durable event provenance is incomplete''))"

text \<open>The event row: an existing row must hold the same bytes; a new row must meet the table's checks.\<close>

definition store_event ::
  "int \<Rightarrow> Event3DurablePayload \<Rightarrow> outbox_db \<Rightarrow> (DeliveryError, outbox_db) result" where
  "store_event now p db =
    (case bt_get (pl_event_id p) (db_events db) of
       Some stored \<Rightarrow>
         if col_payload stored \<noteq> pl_bytes p then Inl payload_collision_error
         else if length (col_payload_hash stored) \<noteq> 32
         then Inl (storage_message ''stored payload hash has an invalid length'')
         else if col_payload_hash stored \<noteq> pl_hash p
         then Inl (storage_message ''stored payload hash does not match its bytes'')
         else Inr db
     | None \<Rightarrow>
         if pl_event_id p = [] \<or> pl_bytes p = [] \<or> length (pl_hash p) \<noteq> 32
         then Inl (storage_message ''outbox insert event'')
         else Inr (db\<lparr>db_events := bt_put (pl_event_id p)
           \<lparr>col_payload = pl_bytes p, col_payload_hash = pl_hash p, col_created_at = now\<rparr> (db_events db)\<rparr>))"

definition store_origin :: "Event3DurablePayload \<Rightarrow> outbox_db \<Rightarrow> (DeliveryError, outbox_db) result" where
  "store_origin p db =
    (case (pl_generation_id p, pl_generation_offset p) of
       (Some g, Some offset) \<Rightarrow>
         if I64_MAX < int offset then Inl (storage_message ''durable event offset is too large'')
         else Inr (db\<lparr>db_origins := insert_origin (pl_event_id p, g, offset) (db_origins db)\<rparr>)
     | _ \<Rightarrow> Inr db)"

definition queue_delivery :: "int \<Rightarrow> string \<Rightarrow> outbox_db \<Rightarrow> string \<Rightarrow> outbox_db" where
  "queue_delivery now event_id db sink_id =
    db\<lparr>db_deliveries := insert_or_ignore (event_id, sink_id) (fresh_delivery now) (db_deliveries db),
       db_health := insert_or_ignore sink_id fresh_health (db_health db)\<rparr>"

definition insert_payload_transaction ::
  "codec \<Rightarrow> int \<Rightarrow> string list \<Rightarrow> outbox_db \<Rightarrow> Event3DurablePayload \<Rightarrow> (DeliveryError, outbox_db) result" where
  "insert_payload_transaction cd now sink_ids db p =
    result_bind (check_provenance p) (\<lambda>_.
    result_bind (store_event now p db) (\<lambda>db1.
    result_bind (store_origin p db1) (\<lambda>db2.
    if is_delivery_failure_alert_payload cd (pl_bytes p) then Inr db2
    else Inr (foldl (queue_delivery now (pl_event_id p)) db2 sink_ids))))"

definition event_is_already_stored ::
  "outbox_db \<Rightarrow> Event3DurablePayload \<Rightarrow> (DeliveryError, bool) result" where
  "event_is_already_stored db p =
    (case bt_get (pl_event_id p) (db_events db) of
       None \<Rightarrow> Inr False
     | Some stored \<Rightarrow>
         if length (col_payload_hash stored) \<noteq> 32
         then Inl (storage_message ''stored payload hash has an invalid length'')
         else if length (col_payload stored) \<noteq> length (pl_bytes p) \<or> col_payload_hash stored \<noteq> pl_hash p
         then Inl payload_collision_error
         else if col_payload stored = pl_bytes p then Inr True else Inl payload_collision_error)"

section \<open>Reading and recording deliveries\<close>

definition get_event :: "codec \<Rightarrow> outbox_db \<Rightarrow> string \<Rightarrow> (DeliveryError, OutboxEvent option) result" where
  "get_event cd db event_id =
    (case bt_get event_id (db_events db) of
       None \<Rightarrow> Inr None
     | Some stored \<Rightarrow>
         if length (col_payload_hash stored) \<noteq> 32
         then Inl (storage_message ''stored payload hash has an invalid length'')
         else if col_payload_hash stored \<noteq> cd_sha256 cd (col_payload stored)
         then Inl (storage_message ''stored payload hash does not match its bytes'')
         else (case validate_canonical_event_bytes cd (col_payload stored) (Some event_id) of
             Inl _ \<Rightarrow> Inl (storage_message ''outbox validate stored event'')
           | Inr _ \<Rightarrow> Inr (Some \<lparr>oe_event_id = event_id, oe_payload = col_payload stored,
               oe_payload_hash = col_payload_hash stored, oe_created_at = col_created_at stored\<rparr>)))"

definition decode_row :: "string \<Rightarrow> string \<Rightarrow> delivery_columns \<Rightarrow> (DeliveryError, DeliveryRow) result" where
  "decode_row event_id sink_id c =
    result_bind (ok_or (state_from_str (col_state c)) (storage_message ''stored delivery state is unknown'')) (\<lambda>st.
    result_bind (ok_or (u32_try_from (col_attempt_count c))
      (storage_message ''stored delivery attempt count is invalid'')) (\<lambda>attempts.
    result_bind (decode_error_class (col_last_error_class c) (col_last_error_status c)) (\<lambda>class.
    Inr \<lparr>dr_event_id = event_id, dr_sink_id = sink_id, dr_state = st, dr_attempts = attempts,
         dr_next_attempt_at = col_next_attempt_at c, dr_last_error_class = class, dr_updated_at = col_updated_at c\<rparr>)))"

text \<open>The \<open>WHERE\<close> and \<open>ORDER BY\<close> clauses of the query for the next delivery.\<close>

definition ready_row :: "string \<Rightarrow> int \<Rightarrow> (string \<times> string) \<times> delivery_columns \<Rightarrow> bool" where
  "ready_row sink_id now r \<longleftrightarrow> snd (fst r) = sink_id \<and> col_state (snd r) = ''pending''
     \<and> (case col_next_attempt_at (snd r) of None \<Rightarrow> True | Some t \<Rightarrow> t \<le> now)"

definition ready_order :: "(string \<times> string) \<times> delivery_columns \<Rightarrow> int \<times> int \<times> string" where
  "ready_order r = ((case col_next_attempt_at (snd r) of None \<Rightarrow> 0 | Some t \<Rightarrow> t), col_updated_at (snd r), fst (fst r))"

definition select_ready :: "outbox_db \<Rightarrow> string \<Rightarrow> int \<Rightarrow> ((string \<times> string) \<times> delivery_columns) option" where
  "select_ready db sink_id now =
    (case sort_key ready_order (filter (ready_row sink_id now) (db_deliveries db)) of [] \<Rightarrow> None | r # _ \<Rightarrow> Some r)"

definition next_ready_delivery ::
  "codec \<Rightarrow> outbox_db \<Rightarrow> string \<Rightarrow> int \<Rightarrow> (DeliveryError, ReadyDelivery option) result" where
  "next_ready_delivery cd db sink_id now =
    result_bind (validate_sink_ids [sink_id] False) (\<lambda>_.
    case select_ready db sink_id now of
      None \<Rightarrow> Inr None
    | Some ((event_id, stored_sink_id), c) \<Rightarrow>
        result_bind (decode_row event_id stored_sink_id c) (\<lambda>row.
        result_bind (get_event cd db event_id) (\<lambda>e.
        result_bind (ok_or e (storage_message ''delivery state references a missing event'')) (\<lambda>event.
        Inr (Some \<lparr>rd_row = row, rd_payload = oe_payload event\<rparr>)))))"

definition update_columns :: "DeliveryUpdate \<Rightarrow> delivery_columns" where
  "update_columns u = \<lparr>col_state = state_as_str (du_state u), col_attempt_count = uint (du_attempts u),
     col_next_attempt_at = du_next_attempt_at u, col_last_error_class = fst (encode_error_class (du_last_error_class u)),
     col_last_error_status = map_option uint (snd (encode_error_class (du_last_error_class u))),
     col_updated_at = du_updated_at u\<rparr>"

definition update_health :: "DeliveryUpdate \<Rightarrow> health_columns \<Rightarrow> health_columns" where
  "update_health u h =
    (let h1 = (if du_state u = Acked then h\<lparr>col_last_success_at := Some (du_updated_at u)\<rparr> else h)
     in if du_last_error_class u \<noteq> None
        then h1\<lparr>col_last_error_at := Some (du_updated_at u),
                col_health_error_class := fst (encode_error_class (du_last_error_class u)),
                col_health_error_status := map_option uint (snd (encode_error_class (du_last_error_class u)))\<rparr>
        else h1)"

text \<open>The health table refuses negative times.\<close>

definition health_ok :: "health_columns \<Rightarrow> bool" where
  "health_ok h \<longleftrightarrow> (case col_last_success_at h of None \<Rightarrow> True | Some t \<Rightarrow> 0 \<le> t)
     \<and> (case col_last_error_at h of None \<Rightarrow> True | Some t \<Rightarrow> 0 \<le> t)"

definition record_transaction ::
  "string \<Rightarrow> string \<Rightarrow> DeliveryUpdate \<Rightarrow> outbox_db \<Rightarrow> (DeliveryError, unit \<times> outbox_db) result" where
  "record_transaction event_id sink_id u db =
    (case bt_get (event_id, sink_id) (db_deliveries db) of
       None \<Rightarrow> Inl (storage_message ''delivery state row does not exist'')
     | Some _ \<Rightarrow>
         let health = insert_or_ignore sink_id fresh_health (db_health db);
             h = update_health u (case bt_get sink_id health of None \<Rightarrow> fresh_health | Some h \<Rightarrow> h)
         in if \<not> health_ok h then Inl (storage_message ''outbox record sink health'')
            else Inr ((), db\<lparr>db_deliveries := bt_put (event_id, sink_id) (update_columns u) (db_deliveries db),
                             db_health := bt_put sink_id h health\<rparr>))"

definition record_delivery_at ::
  "string \<Rightarrow> string \<Rightarrow> DeliveryUpdate \<Rightarrow> outbox_db \<Rightarrow> (DeliveryError, unit) result \<times> outbox_db" where
  "record_delivery_at event_id sink_id u db =
    (if trim event_id = [] \<or> trim sink_id = [] then (Inl (canonical_error ''outbox delivery identity is empty''), db)
     else if du_state u \<noteq> Pending \<and> du_next_attempt_at u \<noteq> None
     then (Inl (canonical_error ''terminal delivery state cannot have a next attempt time''), db)
     else if (case du_next_attempt_at u of None \<Rightarrow> False | Some t \<Rightarrow> t < 0)
     then (Inl (canonical_error ''outbox next attempt time is invalid''), db)
     else in_transaction (record_transaction event_id sink_id u) db)"

definition release_row :: "string \<Rightarrow> int \<Rightarrow> (string \<times> string) \<times> delivery_columns \<Rightarrow> (string \<times> string) \<times> delivery_columns" where
  "release_row sink_id now r =
    (if snd (fst r) = sink_id \<and> col_state (snd r) = ''blocked''
     then (fst r, (snd r)\<lparr>col_state := ''pending'', col_next_attempt_at := Some now, col_updated_at := now\<rparr>) else r)"

definition release_blocked_for_sink ::
  "string \<Rightarrow> int \<Rightarrow> outbox_db \<Rightarrow> (DeliveryError, nat) result \<times> outbox_db" where
  "release_blocked_for_sink raw now db =
    (case validate_sink_ids [raw] False of
       Inl e \<Rightarrow> (Inl e, db)
     | Inr [] \<Rightarrow> (Inl (DeliveryError UnknownInternal 0 ''validated sink identity is missing''), db)
     | Inr (sink_id # _) \<Rightarrow>
         (Inr (length (filter (\<lambda>r. snd (fst r) = sink_id \<and> col_state (snd r) = ''blocked'') (db_deliveries db))),
          db\<lparr>db_deliveries := map (release_row sink_id now) (db_deliveries db)\<rparr>))"

section \<open>Retry schedule\<close>

definition MAX_RETRY_DELAY_MILLIS :: u64 where
  "MAX_RETRY_DELAY_MILLIS = 24 * 60 * 60 * 1000"

definition saturating_mul :: "u64 \<Rightarrow> u64 \<Rightarrow> u64" where
  "saturating_mul a b = (if unat a * unat b < 2 ^ 64 then a * b else - 1)"

definition i64_saturating_add :: "int \<Rightarrow> int \<Rightarrow> int" where
  "i64_saturating_add a b = max (- (2 ^ 63)) (min I64_MAX (a + b))"

definition next_retry_at :: "int \<Rightarrow> u64 \<Rightarrow> u32 \<Rightarrow> int" where
  "next_retry_at now base_delay attempt =
    (let exponent = min (unat attempt - 1) 31;
         multiplier = push_bit exponent 1;
         delay = min (saturating_mul (max base_delay 1) multiplier) MAX_RETRY_DELAY_MILLIS
     in i64_saturating_add now (if uint delay \<le> I64_MAX then uint delay else I64_MAX))"

section \<open>Health of the sinks\<close>

record DurableSinkHealth =
  dh_sink_id :: string
  dh_pending_depth :: u64
  dh_pending_bytes :: u64
  dh_oldest_pending_age_seconds :: "u64 option"
  dh_dead_count :: u64
  dh_last_success_at :: "int option"
  dh_last_error_at :: "int option"
  dh_last_error_class :: "DeliveryErrorClass option"
  dh_last_error_status :: "u16 option"

text \<open>The rows of a sink joined with their events, as the query reads them.\<close>

definition sink_rows :: "outbox_db \<Rightarrow> string \<Rightarrow> (delivery_columns \<times> event_columns) list" where
  "sink_rows db sink_id =
    List.map_filter (\<lambda>r. if snd (fst r) = sink_id
      then map_option (Pair (snd r)) (bt_get (fst (fst r)) (db_events db)) else None) (db_deliveries db)"

definition undelivered_rows :: "outbox_db \<Rightarrow> string \<Rightarrow> (delivery_columns \<times> event_columns) list" where
  "undelivered_rows db sink_id = filter (\<lambda>r. col_state (fst r) \<in> {''pending'', ''blocked''}) (sink_rows db sink_id)"

definition u64_try_from :: "int \<Rightarrow> u64 option" where
  "u64_try_from n = (if 0 \<le> n \<and> n < 2 ^ 64 then Some (word_of_int n) else None)"

definition minimum :: "int list \<Rightarrow> int option" where
  "minimum xs = (case xs of [] \<Rightarrow> None | x # ys \<Rightarrow> Some (foldl min x ys))"

text \<open>The age is never negative, so the conversion to \<open>u64\<close> does not fail.\<close>

definition pending_age :: "int \<Rightarrow> int \<Rightarrow> u64" where
  "pending_age now created_at =
    (case u64_try_from (max (max (- (2 ^ 63)) (min I64_MAX (now - created_at))) 0) of Some w \<Rightarrow> w | None \<Rightarrow> - 1)"

definition sink_health :: "outbox_db \<Rightarrow> int \<Rightarrow> string \<Rightarrow> (DeliveryError, DurableSinkHealth) result" where
  "sink_health db now sink_id =
    (let pending = undelivered_rows db sink_id;
         total = sum_list (map (\<lambda>r. int (length (col_payload (snd r)))) pending);
         h = (case bt_get sink_id (db_health db) of Some h \<Rightarrow> h | None \<Rightarrow> fresh_health)
     in if I64_MAX < total then Inl (storage_message ''query durable health'')
     else result_bind (ok_or (u64_try_from (int (length pending))) (storage_message ''durable pending depth is invalid'')) (\<lambda>depth.
       result_bind (ok_or (u64_try_from total) (storage_message ''durable pending bytes are invalid'')) (\<lambda>bytes.
       result_bind (ok_or (u64_try_from (int (length (filter (\<lambda>r. col_state (fst r) = ''dead'') (sink_rows db sink_id)))))
         (storage_message ''durable dead count is invalid'')) (\<lambda>dead.
       result_bind (decode_error_class (col_health_error_class h) (col_health_error_status h)) (\<lambda>class.
       result_bind (case col_health_error_status h of None \<Rightarrow> Inr None
           | Some n \<Rightarrow> (case u16_try_from n of None \<Rightarrow> Inl (storage_message ''stored sink health error status is invalid'')
                         | Some w \<Rightarrow> Inr (Some w))) (\<lambda>status.
       Inr \<lparr>dh_sink_id = sink_id, dh_pending_depth = depth, dh_pending_bytes = bytes,
         dh_oldest_pending_age_seconds = map_option (pending_age now) (minimum (map (col_created_at \<circ> snd) pending)),
         dh_dead_count = dead, dh_last_success_at = col_last_success_at h, dh_last_error_at = col_last_error_at h,
         dh_last_error_class = class, dh_last_error_status = status\<rparr>))))))"

definition health :: "outbox_db \<Rightarrow> string list \<Rightarrow> int \<Rightarrow> (DeliveryError, DurableSinkHealth list) result" where
  "health db sink_ids now =
    result_bind (if sink_ids = [] then Inr (map fst (db_health db)) else validate_sink_ids sink_ids False)
      (try_map (sink_health db now))"

section \<open>Round trips of columns\<close>

lemma state_round_trip [simp]: "state_from_str (state_as_str st) = Some st"
  by (cases st) (simp_all add: state_from_str_def)

lemma u16_round_trip [simp]: "u16_try_from (uint w) = Some w"
  using uint_bounded [of w] by (simp add: u16_try_from_def)

lemma u32_round_trip [simp]: "u32_try_from (uint w) = Some w"
  using uint_bounded [of w] by (simp add: u32_try_from_def)

lemma error_class_round_trip:
  "decode_error_class (fst (encode_error_class c)) (map_option uint (snd (encode_error_class c))) = Inr c"
proof (cases c)
  case (Some d)
  then show ?thesis by (cases d) (simp_all add: decode_error_class_def)
qed (simp add: decode_error_class_def)

lemma update_columns_decode:
  "decode_row e s (update_columns u) = Inr \<lparr>dr_event_id = e, dr_sink_id = s, dr_state = du_state u,
     dr_attempts = du_attempts u, dr_next_attempt_at = du_next_attempt_at u,
     dr_last_error_class = du_last_error_class u, dr_updated_at = du_updated_at u\<rparr>"
  by (simp add: decode_row_def update_columns_def error_class_round_trip)

lemma fresh_delivery_decode:
  "decode_row e s (fresh_delivery now) = Inr \<lparr>dr_event_id = e, dr_sink_id = s, dr_state = Pending,
     dr_attempts = 0, dr_next_attempt_at = None, dr_last_error_class = None, dr_updated_at = now\<rparr>"
  by (simp add: decode_row_def fresh_delivery_def decode_error_class_def state_from_str_def u32_try_from_def)

section \<open>Retry schedule\<close>

lemma unat_saturating_mul: "unat (saturating_mul a b) = min (unat a * unat b) (2 ^ 64 - 1)"
  by (auto simp: saturating_mul_def unat_word_ariths unsigned_minus_1_eq_mask mask_eq_exp_minus_1)

text \<open>The delay that the code computes, as a number.\<close>

definition retry_delay :: "u64 \<Rightarrow> u32 \<Rightarrow> nat" where
  "retry_delay base attempt = min (max (unat base) 1 * 2 ^ min (unat attempt - 1) 31) 86400000"

lemma next_retry_at_eq: "next_retry_at now base attempt = i64_saturating_add now (int (retry_delay base attempt))"
proof -
  let ?e = "min (unat attempt - 1) 31"
  have "unat (push_bit ?e (1 :: u64)) = 2 ^ ?e"
  proof -
    have "(2 :: nat) ^ ?e < 2 ^ 64" by (intro power_strict_increasing) auto
    then show ?thesis unfolding unsigned_push_bit_eq by (simp add: take_bit_nat_eq_self)
  qed
  moreover have "unat (max base 1) = max (unat base) 1" by (simp add: max_def word_le_nat_alt)
  moreover have "unat (min x y) = min (unat x) (unat y)" for x y :: u64 by (simp add: min_def word_le_nat_alt)
  moreover have "unat MAX_RETRY_DELAY_MILLIS = 86400000" by (simp add: MAX_RETRY_DELAY_MILLIS_def)
  ultimately have d: "unat (min (saturating_mul (max base 1) (push_bit ?e 1)) MAX_RETRY_DELAY_MILLIS) = retry_delay base attempt"
    by (simp add: unat_saturating_mul retry_delay_def min.assoc)
  then have "uint (min (saturating_mul (max base 1) (push_bit ?e 1)) MAX_RETRY_DELAY_MILLIS) = int (retry_delay base attempt)"
    by (metis uint_nat)
  moreover have "int (retry_delay base attempt) \<le> I64_MAX" by (simp add: retry_delay_def I64_MAX_def)
  ultimately show ?thesis by (simp add: next_retry_at_def Let_def)
qed

lemma next_retry_at_exact:
  assumes "0 \<le> now" and "now + 86400000 \<le> I64_MAX"
  shows "next_retry_at now base a = now + int (retry_delay base a)"
proof -
  have "0 \<le> now + int (retry_delay base a)" "now + int (retry_delay base a) \<le> I64_MAX"
    using assms by (auto simp: retry_delay_def)
  then show ?thesis by (simp add: next_retry_at_eq i64_saturating_add_def I64_MAX_def)
qed

lemma retry_delay_positive: "0 < retry_delay base a"
  by (simp add: retry_delay_def)

text \<open>The retry time lies strictly after the attempt and at most a day later, grows with the number
  of attempts, and doubles with every attempt until the cap; it never overflows.\<close>

theorem next_retry_bounds:
  assumes "0 \<le> now" and "now + 86400000 \<le> I64_MAX"
  shows "now < next_retry_at now base attempt \<and> next_retry_at now base attempt \<le> now + 86400000
    \<and> (attempt \<le> later \<longrightarrow> next_retry_at now base attempt \<le> next_retry_at now base later)
    \<and> next_retry_at now base attempt = now + int (min (max (unat base) 1 * 2 ^ min (unat attempt - 1) 31) 86400000)"
proof -
  note eq = next_retry_at_exact [OF assms]
  note pos = retry_delay_positive [of base attempt]
  have "retry_delay base attempt \<le> retry_delay base later" if "attempt \<le> later"
  proof -
    have "min (unat attempt - 1) 31 \<le> min (unat later - 1) 31" using that by (intro min.mono diff_le_mono) (simp_all add: word_le_nat_alt)
    then have "(2 :: nat) ^ min (unat attempt - 1) 31 \<le> 2 ^ min (unat later - 1) 31" by (intro power_increasing) auto
    then show ?thesis unfolding retry_delay_def by (intro min.mono mult_le_mono) auto
  qed
  with pos show ?thesis unfolding eq by (auto simp: retry_delay_def)
qed

section \<open>Well-typed tables\<close>

text \<open>Every event row holds canonical bytes under their own identity with their own hash; every delivery
  row decodes, belongs to a stored event and has a retry time only while pending; origins name
  stored events.\<close>

definition event_ok :: "codec \<Rightarrow> string \<Rightarrow> event_columns \<Rightarrow> bool" where
  "event_ok cd e c \<longleftrightarrow> length (col_payload_hash c) = 32 \<and> cd_sha256 cd (col_payload c) = col_payload_hash c
     \<and> validate_canonical_event_bytes cd (col_payload c) (Some e) = Inr ()"

definition delivery_ok :: "string \<Rightarrow> string \<Rightarrow> delivery_columns \<Rightarrow> bool" where
  "delivery_ok e s c \<longleftrightarrow> (\<exists>row. decode_row e s c = Inr row) \<and> (col_state c \<noteq> ''pending'' \<longrightarrow> col_next_attempt_at c = None)"

definition db_ok :: "codec \<Rightarrow> outbox_db \<Rightarrow> bool" where
  "db_ok cd db \<longleftrightarrow> bt_inv (db_events db) \<and> bt_inv (db_deliveries db) \<and> bt_inv (db_health db)
     \<and> (\<forall>e c. bt_get e (db_events db) = Some c \<longrightarrow> event_ok cd e c)
     \<and> (\<forall>e s c. bt_get (e, s) (db_deliveries db) = Some c \<longrightarrow> delivery_ok e s c \<and> bt_get e (db_events db) \<noteq> None)
     \<and> (\<forall>e \<in> fst ` set (db_origins db). bt_get e (db_events db) \<noteq> None)"

lemma db_ok_inv: "db_ok cd db \<Longrightarrow> bt_inv (db_events db) \<and> bt_inv (db_deliveries db) \<and> bt_inv (db_health db)"
  by (simp add: db_ok_def)

lemma db_ok_event: "db_ok cd db \<Longrightarrow> bt_get e (db_events db) = Some c \<Longrightarrow> event_ok cd e c"
  by (simp add: db_ok_def)

lemma db_ok_delivery:
  "db_ok cd db \<Longrightarrow> bt_get (e, s) (db_deliveries db) = Some c \<Longrightarrow> delivery_ok e s c \<and> bt_get e (db_events db) \<noteq> None"
  by (simp add: db_ok_def)

definition payload_ok :: "codec \<Rightarrow> Event3DurablePayload \<Rightarrow> bool" where
  "payload_ok cd p \<longleftrightarrow> pl_hash p = cd_sha256 cd (pl_bytes p)
     \<and> validate_canonical_event_bytes cd (pl_bytes p) (Some (pl_event_id p)) = Inr ()"

text \<open>The bytes stored for an event.\<close>

definition stored :: "outbox_db \<Rightarrow> string \<Rightarrow> string option" where
  "stored db e = map_option col_payload (bt_get e (db_events db))"

text \<open>The life of a delivery row: an attempt on a pending row, and the release of a blocked one.\<close>

inductive delivery_step :: "delivery_columns \<Rightarrow> delivery_columns \<Rightarrow> bool" where
  attempt: "\<lbrakk>col_state c = ''pending''; col_attempt_count c' = col_attempt_count c + 1\<rbrakk> \<Longrightarrow> delivery_step c c'"
| release: "\<lbrakk>col_state c = ''blocked''; col_state c' = ''pending''; col_attempt_count c' = col_attempt_count c\<rbrakk>
    \<Longrightarrow> delivery_step c c'"

inductive_cases delivery_stepE: "delivery_step c c'"

text \<open>What every operation keeps of the tables: stored bytes do not change, and delivery rows stay and
  move along their life.\<close>

definition keeps :: "outbox_db \<Rightarrow> outbox_db \<Rightarrow> bool" where
  "keeps db db' \<longleftrightarrow> (\<forall>e c. bt_get e (db_events db) = Some c \<longrightarrow> bt_get e (db_events db') = Some c)
     \<and> (\<forall>k c. bt_get k (db_deliveries db) = Some c \<longrightarrow>
          (\<exists>c'. bt_get k (db_deliveries db') = Some c' \<and> delivery_step\<^sup>*\<^sup>* c c'))
     \<and> set (db_origins db) \<subseteq> set (db_origins db')"

lemma keeps_refl [simp]: "keeps db db"
  by (auto simp: keeps_def)

lemma keeps_trans:
  assumes "keeps a b" and "keeps b c"
  shows "keeps a c"
  using assms unfolding keeps_def by (meson rtranclp_trans subset_trans)

lemma keeps_stored: "keeps db db' \<Longrightarrow> stored db e = Some b \<Longrightarrow> stored db' e = Some b"
  by (auto simp: keeps_def stored_def)

lemma terminal_step: "delivery_step\<^sup>*\<^sup>* c c' \<Longrightarrow> col_state c \<in> {''acked'', ''dead''} \<Longrightarrow> c' = c"
  by (erule converse_rtranclpE) (auto elim: delivery_stepE)

lemma attempts_step: "delivery_step\<^sup>*\<^sup>* c c' \<Longrightarrow> col_attempt_count c \<le> col_attempt_count c'"
  by (induction rule: rtranclp_induct) (auto elim: delivery_stepE)

text \<open>The contract of an operation on the outbox, and what follows for any sequence of calls.\<close>

locale durable_operation =
  fixes cd :: codec and op :: "outbox_db \<Rightarrow> outbox_db" and pre :: "outbox_db \<Rightarrow> bool"
  assumes op_ok: "db_ok cd db \<Longrightarrow> pre db \<Longrightarrow> db_ok cd (op db)"
    and op_keeps: "db_ok cd db \<Longrightarrow> pre db \<Longrightarrow> keeps db (op db)"
begin

lemma op_stored: "db_ok cd db \<Longrightarrow> pre db \<Longrightarrow> stored db e = Some b \<Longrightarrow> stored (op db) e = Some b"
  using op_keeps keeps_stored by blast

lemma op_terminal:
  assumes "db_ok cd db" and "pre db" and "bt_get k (db_deliveries db) = Some c" and "col_state c \<in> {''acked'', ''dead''}"
  shows "bt_get k (db_deliveries (op db)) = Some c"
proof -
  obtain c' where c': "bt_get k (db_deliveries (op db)) = Some c'" "delivery_step\<^sup>*\<^sup>* c c'"
    using op_keeps [OF assms(1,2)] assms(3) unfolding keeps_def by blast
  with terminal_step assms(4) show ?thesis by blast
qed

end

lemma bt_get_insert_or_ignore:
  assumes "bt_inv m"
  shows "bt_get k' (insert_or_ignore k v m)
    = (case bt_get k' m of None \<Rightarrow> if k' = k then Some v else None | Some w \<Rightarrow> Some w)"
  using assms by (auto simp: insert_or_ignore_def bt_get_put split: option.splits)

lemma bt_inv_insert_or_ignore: "bt_inv m \<Longrightarrow> bt_inv (insert_or_ignore k v m)"
  by (simp add: insert_or_ignore_def bt_inv_put split: option.splits)

lemma set_insert_origin: "set (insert_origin x xs) = insert x (set xs)"
  by (auto simp: insert_origin_def)

lemma canonical_payload_ok:
  assumes "canonical_payload_from_bytes cd bytes = Inr p"
  shows "payload_ok cd p" and "pl_bytes p = bytes"
  using assms by (auto simp: canonical_payload_from_bytes_def payload_ok_def result_bind_eq_Inr_iff)

lemma ensure_Inr [simp]: "ensure b e = Inr x \<longleftrightarrow> b"
  by (cases x) (simp add: ensure_def)

text \<open>Canonical bytes determine the event identity.\<close>

lemma canonical_event_id:
  "validate_canonical_event_bytes cd bytes (Some e) = Inr u \<Longrightarrow>
    \<exists>v. cd_from_slice cd bytes = Some v \<and> json_str (json_get ''event_id'' v) = Some e"
  by (auto simp: validate_canonical_event_bytes_def result_bind_eq_Inr_iff)

lemma canonical_event_unique:
  "validate_canonical_event_bytes cd bytes (Some e) = Inr u \<Longrightarrow>
   validate_canonical_event_bytes cd bytes (Some e') = Inr u' \<Longrightarrow> e = e'"
  by (auto dest!: canonical_event_id)

section \<open>Ingestion\<close>

text \<open>The event row of a payload after its insertion.\<close>

lemma store_event_get:
  assumes "store_event now p db = Inr db'" and "bt_inv (db_events db)"
  shows "db_deliveries db' = db_deliveries db" and "db_origins db' = db_origins db" and "db_health db' = db_health db"
    and "bt_inv (db_events db')"
    and "\<exists>c. bt_get (pl_event_id p) (db_events db') = Some c \<and> col_payload c = pl_bytes p
      \<and> col_payload_hash c = pl_hash p \<and> length (pl_hash p) = 32"
    and "e \<noteq> pl_event_id p \<Longrightarrow> bt_get e (db_events db') = bt_get e (db_events db)"
    and "bt_get e (db_events db) = Some c0 \<Longrightarrow> bt_get e (db_events db') = Some c0"
  using assms by (auto simp: store_event_def bt_get_put bt_inv_put split: option.splits if_splits)

lemma store_event_ok:
  assumes "store_event now p db = Inr db'" and "db_ok cd db" and "payload_ok cd p"
  shows "db_ok cd db'" and "keeps db db'" and "stored db' (pl_event_id p) = Some (pl_bytes p)"
proof -
  have inv: "bt_inv (db_events db)" using assms(2) by (simp add: db_ok_def)
  note g = store_event_get [OF assms(1) inv]
  show "keeps db db'" using g(1,2,7) by (auto simp: keeps_def)
  show "stored db' (pl_event_id p) = Some (pl_bytes p)" using g(5) by (auto simp: stored_def)
  have "event_ok cd e c" if "bt_get e (db_events db') = Some c" for e c
  proof (cases "e = pl_event_id p")
    case True
    with that g(5) assms(3) show ?thesis by (auto simp: event_ok_def payload_ok_def)
  next
    case False
    with that g(6) assms(2) show ?thesis by (auto simp: db_ok_def)
  qed
  moreover have "bt_get e (db_events db) \<noteq> None \<Longrightarrow> bt_get e (db_events db') \<noteq> None" for e
    using g(7) by fastforce
  ultimately show "db_ok cd db'" using assms(2) g(1-4) unfolding db_ok_def by (metis (no_types, lifting))
qed

lemma store_origin_ok:
  assumes "store_origin p db = Inr db'" and "db_ok cd db" and "bt_get (pl_event_id p) (db_events db) \<noteq> None"
  shows "db_ok cd db'" and "keeps db db'" and "db_events db' = db_events db"
    and "pl_generation_id p = Some g \<Longrightarrow> pl_generation_offset p = Some n \<Longrightarrow> (pl_event_id p, g, n) \<in> set (db_origins db')"
  using assms by (auto simp: store_origin_def db_ok_def keeps_def set_insert_origin split: option.splits if_splits) force

lemma queue_delivery_ok:
  assumes "db_ok cd db" and "bt_get e (db_events db) \<noteq> None"
  shows "db_ok cd (queue_delivery now e db s)" and "keeps db (queue_delivery now e db s)"
    and "db_events (queue_delivery now e db s) = db_events db"
    and "db_origins (queue_delivery now e db s) = db_origins db"
    and "bt_get (e, s) (db_deliveries (queue_delivery now e db s)) \<noteq> None"
proof -
  have inv: "bt_inv (db_deliveries db)" "bt_inv (db_health db)" using assms(1) by (simp_all add: db_ok_def)
  note [simp] = bt_get_insert_or_ignore [OF inv(1)] bt_inv_insert_or_ignore [OF inv(1)] bt_inv_insert_or_ignore [OF inv(2)]
  have "delivery_ok e s (fresh_delivery now)"
    unfolding delivery_ok_def using fresh_delivery_decode by (auto simp: fresh_delivery_def)
  then show "db_ok cd (queue_delivery now e db s)"
    using assms unfolding db_ok_def by (auto simp: queue_delivery_def split: option.splits if_splits)
  show "keeps db (queue_delivery now e db s)" by (auto simp: keeps_def queue_delivery_def)
  show "bt_get (e, s) (db_deliveries (queue_delivery now e db s)) \<noteq> None"
    by (simp add: queue_delivery_def split: option.splits)
qed (simp_all add: queue_delivery_def)

lemma queue_all_ok:
  assumes "db_ok cd db" and "bt_get e (db_events db) \<noteq> None"
  shows "db_ok cd (foldl (queue_delivery now e) db ss) \<and> keeps db (foldl (queue_delivery now e) db ss)
    \<and> db_events (foldl (queue_delivery now e) db ss) = db_events db
    \<and> db_origins (foldl (queue_delivery now e) db ss) = db_origins db
    \<and> (\<forall>s \<in> set ss. bt_get (e, s) (db_deliveries (foldl (queue_delivery now e) db ss)) \<noteq> None)"
  using assms
proof (induction ss arbitrary: db)
  case (Cons s ss)
  let ?db = "queue_delivery now e db s"
  note q = queue_delivery_ok [OF Cons.prems, where now = now and s = s]
  have ev: "bt_get e (db_events ?db) \<noteq> None" using q(3) Cons.prems by simp
  note IH = Cons.IH [OF q(1) ev]
  then have k: "keeps ?db (foldl (queue_delivery now e) ?db ss)" by blast
  obtain c where "bt_get (e, s) (db_deliveries ?db) = Some c" using q(5) by blast
  with k have "bt_get (e, s) (db_deliveries (foldl (queue_delivery now e) ?db ss)) \<noteq> None"
    unfolding keeps_def by blast
  with IH q k show ?case using keeps_trans by auto
qed simp

text \<open>A successful insertion stores the bytes, the origin, and a delivery for every sink unless the event
  is itself a delivery failure alert.\<close>

definition ingested :: "codec \<Rightarrow> string list \<Rightarrow> outbox_db \<Rightarrow> Event3DurablePayload \<Rightarrow> bool" where
  "ingested cd sink_ids db p \<longleftrightarrow> stored db (pl_event_id p) = Some (pl_bytes p)
     \<and> (\<forall>g n. pl_generation_id p = Some g \<and> pl_generation_offset p = Some n \<longrightarrow> (pl_event_id p, g, n) \<in> set (db_origins db))
     \<and> (is_delivery_failure_alert_payload cd (pl_bytes p)
        \<or> (\<forall>s \<in> set sink_ids. bt_get (pl_event_id p, s) (db_deliveries db) \<noteq> None))"

lemma ingested_keeps: "keeps db db' \<Longrightarrow> ingested cd ss db p \<Longrightarrow> ingested cd ss db' p"
  unfolding ingested_def using keeps_stored [of db db']
  by (auto simp: keeps_def) (metis not_None_eq)+

lemma insert_payload_cases:
  assumes "insert_payload_transaction cd now ss db p = Inr db'"
  obtains db1 db2 where "store_event now p db = Inr db1" and "store_origin p db1 = Inr db2"
    and "db' = (if is_delivery_failure_alert_payload cd (pl_bytes p) then db2 else foldl (queue_delivery now (pl_event_id p)) db2 ss)"
  using assms by (auto simp: insert_payload_transaction_def result_bind_eq_Inr_iff split: if_splits)

lemma insert_payload_ok:
  assumes "insert_payload_transaction cd now ss db p = Inr db'" and ok: "db_ok cd db" and p: "payload_ok cd p"
  shows "db_ok cd db'" and "keeps db db'" and "ingested cd ss db' p"
proof -
  obtain db1 db2 where s1: "store_event now p db = Inr db1" and s2: "store_origin p db1 = Inr db2"
    and s3: "db' = (if is_delivery_failure_alert_payload cd (pl_bytes p) then db2 else foldl (queue_delivery now (pl_event_id p)) db2 ss)"
    by (rule insert_payload_cases [OF assms(1)])
  note e = store_event_ok [OF s1 ok p]
  have ev1: "bt_get (pl_event_id p) (db_events db1) \<noteq> None" using e(3) by (auto simp: stored_def)
  note o = store_origin_ok [OF s2 e(1) ev1]
  have ev2: "bt_get (pl_event_id p) (db_events db2) \<noteq> None" using ev1 o(3) by simp
  have "db_ok cd db' \<and> keeps db2 db' \<and> db_events db' = db_events db2 \<and> db_origins db' = db_origins db2
      \<and> (is_delivery_failure_alert_payload cd (pl_bytes p)
         \<or> (\<forall>s \<in> set ss. bt_get (pl_event_id p, s) (db_deliveries db') \<noteq> None))"
    using queue_all_ok [OF o(1) ev2, of now ss] o(1) by (auto simp: s3)
  then show "db_ok cd db'" and "keeps db db'" and "ingested cd ss db' p"
    using e o(2-4) keeps_trans by (auto simp: ingested_def stored_def)
qed

lemma insert_payloads_ok:
  assumes "try_fold (insert_payload_transaction cd now ss) db ps = Inr db'" and "db_ok cd db"
    and "\<forall>p \<in> set ps. payload_ok cd p"
  shows "db_ok cd db' \<and> keeps db db' \<and> (\<forall>p \<in> set ps. ingested cd ss db' p)"
  using assms
proof (induction ps arbitrary: db)
  case (Cons p ps)
  then obtain db1 where s: "insert_payload_transaction cd now ss db p = Inr db1"
    and r: "try_fold (insert_payload_transaction cd now ss) db1 ps = Inr db'"
    by (auto simp: result_bind_eq_Inr_iff)
  note i = insert_payload_ok [OF s Cons.prems(2)]
  then show ?case using Cons.IH [OF r] Cons.prems(3) ingested_keeps keeps_trans by auto
qed simp

section \<open>Reading and recording\<close>

lemma select_ready_Some:
  assumes "select_ready db s now = Some r"
  shows "r \<in> set (db_deliveries db)" and "ready_row s now r"
    and "\<And>r'. r' \<in> set (db_deliveries db) \<Longrightarrow> ready_row s now r' \<Longrightarrow> ready_order r \<le> ready_order r'"
proof -
  let ?rs = "filter (ready_row s now) (db_deliveries db)"
  from assms obtain rest where eq: "sort_key ready_order ?rs = r # rest"
    by (auto simp: select_ready_def split: list.splits)
  have set_eq: "set (r # rest) = set ?rs" by (metis eq set_sort)
  then show "r \<in> set (db_deliveries db)" and "ready_row s now r" by auto
  fix r' assume "r' \<in> set (db_deliveries db)" "ready_row s now r'"
  then have "r' \<in> set (r # rest)" using set_eq by simp
  moreover have "sorted (map ready_order (r # rest))" by (metis eq sorted_sort_key)
  ultimately show "ready_order r \<le> ready_order r'" by auto
qed

lemma select_ready_None:
  "select_ready db s now = None \<longleftrightarrow> (\<forall>r \<in> set (db_deliveries db). \<not> ready_row s now r)"
proof -
  let ?rs = "filter (ready_row s now) (db_deliveries db)"
  have "select_ready db s now = None \<longleftrightarrow> sort_key ready_order ?rs = []"
    by (simp add: select_ready_def split: list.splits)
  also have "\<dots> \<longleftrightarrow> ?rs = []" by (metis set_empty set_sort)
  finally show ?thesis by (simp add: filter_empty_conv)
qed

lemma get_event_ok:
  assumes "db_ok cd db" and "bt_get e (db_events db) = Some c"
  shows "get_event cd db e = Inr (Some \<lparr>oe_event_id = e, oe_payload = col_payload c,
    oe_payload_hash = col_payload_hash c, oe_created_at = col_created_at c\<rparr>)"
  using db_ok_event [OF assms] assms(2) by (simp add: get_event_def event_ok_def)

lemma sink_id_valid:
  assumes "validate_sink_ids [s] b = Inr ids"
  shows "ids = [trim s]" and "trim s \<noteq> []"
  using assms by (auto simp: validate_sink_ids_def validate_sink_id_def result_bind_eq_Inr_iff Let_def btree_set_def split: if_splits)

text \<open>The query for the next delivery on well-typed tables.\<close>

lemma next_ready_delivery_eq:
  assumes ok: "db_ok cd db" and v: "validate_sink_ids [s] False = Inr ids"
  shows "case select_ready db s now of
      None \<Rightarrow> next_ready_delivery cd db s now = Inr None
    | Some r \<Rightarrow> \<exists>row payload. next_ready_delivery cd db s now = Inr (Some \<lparr>rd_row = row, rd_payload = payload\<rparr>)
        \<and> decode_row (fst (fst r)) s (snd r) = Inr row \<and> stored db (fst (fst r)) = Some payload"
proof (cases "select_ready db s now")
  case None
  then show ?thesis by (simp add: next_ready_delivery_def v)
next
  case (Some r)
  obtain e s' c where r: "r = ((e, s'), c)" by (metis surj_pair)
  from select_ready_Some [OF Some] have mem: "((e, s'), c) \<in> set (db_deliveries db)" and s': "s' = s"
    by (simp_all add: r ready_row_def)
  have "bt_get (e, s) (db_deliveries db) = Some c"
    using mem s' ok bt.entries_mem_iff [of "db_deliveries db" "(e, s)" c] by (simp add: db_ok_def)
  then obtain row c' where row: "decode_row e s c = Inr row" and ev: "bt_get e (db_events db) = Some c'"
    using ok unfolding db_ok_def delivery_ok_def by blast
  show ?thesis using get_event_ok [OF ok ev]
    by (auto simp: next_ready_delivery_def v Some r s' row ev stored_def)
qed

lemma decode_row_fields:
  assumes "decode_row e s c = Inr row"
  shows "dr_event_id row = e" and "dr_sink_id row = s" and "state_from_str (col_state c) = Some (dr_state row)"
    and "uint (dr_attempts row) = col_attempt_count c" and "dr_next_attempt_at row = col_next_attempt_at c"
proof -
  from assms obtain a where a: "u32_try_from (col_attempt_count c) = Some a" and "dr_attempts row = a"
    and rest: "dr_event_id row = e" "dr_sink_id row = s" "state_from_str (col_state c) = Some (dr_state row)"
      "dr_next_attempt_at row = col_next_attempt_at c"
    by (auto simp: decode_row_def result_bind_eq_Inr_iff)
  have "0 \<le> col_attempt_count c \<and> col_attempt_count c < 2 ^ 32 \<and> a = word_of_int (col_attempt_count c)"
    using a by (auto simp: u32_try_from_def split: if_splits)
  then show "uint (dr_attempts row) = col_attempt_count c"
    using \<open>dr_attempts row = a\<close> by (simp add: unsigned_of_int take_bit_int_eq_self)
  from rest show "dr_event_id row = e" and "dr_sink_id row = s" and "state_from_str (col_state c) = Some (dr_state row)"
    and "dr_next_attempt_at row = col_next_attempt_at c" .
qed

lemma record_transaction_Inr:
  assumes "record_transaction e s u db = Inr ((), db')" and ok: "db_ok cd db"
    and t: "du_state u \<noteq> Pending \<longrightarrow> du_next_attempt_at u = None"
  shows "db_ok cd db'" and "db_events db' = db_events db" and "db_origins db' = db_origins db"
    and "db_generations db' = db_generations db" and "db_cursor db' = db_cursor db" and "db_meta db' = db_meta db"
    and "bt_get (e, s) (db_deliveries db) \<noteq> None"
    and "bt_get k (db_deliveries db') = (if k = (e, s) then Some (update_columns u) else bt_get k (db_deliveries db))"
proof -
  have inv: "bt_inv (db_deliveries db)" "bt_inv (db_health db)" using ok by (simp_all add: db_ok_def)
  from assms(1) obtain h where row: "bt_get (e, s) (db_deliveries db) \<noteq> None"
    and db': "db' = db\<lparr>db_deliveries := bt_put (e, s) (update_columns u) (db_deliveries db), db_health := h\<rparr>"
    and h: "bt_inv h"
    by (auto simp: record_transaction_def Let_def bt_inv_put bt_inv_insert_or_ignore inv split: option.splits if_splits)
  have get: "bt_get k (db_deliveries db') = (if k = (e, s) then Some (update_columns u) else bt_get k (db_deliveries db))" for k
    by (simp add: db' bt_get_put [OF inv(1)])
  have "delivery_ok e s (update_columns u)"
    unfolding delivery_ok_def update_columns_decode using t by (cases "du_state u") (auto simp: update_columns_def)
  moreover have "bt_get e (db_events db) \<noteq> None" using row ok unfolding db_ok_def by blast
  ultimately show "db_ok cd db'"
    using ok h bt_inv_put [OF inv(1)] unfolding db_ok_def get by (auto simp: db' bt_get_put [OF inv(1)] split: if_splits)
  show "bt_get k (db_deliveries db') = (if k = (e, s) then Some (update_columns u) else bt_get k (db_deliveries db))"
    by (rule get)
  show "bt_get (e, s) (db_deliveries db) \<noteq> None" by (rule row)
qed (use assms(1) in \<open>auto simp: record_transaction_def Let_def split: option.splits if_splits\<close>)

text \<open>Recording: either nothing changes, or exactly the one row does, and it reads back as recorded.\<close>

lemma record_delivery_at_cases:
  assumes "db_ok cd db"
  obtains (failed) err where "record_delivery_at e s u db = (Inl err, db)"
  | (recorded) db' where "record_delivery_at e s u db = (Inr (), db')" and "db_ok cd db'"
      and "record_transaction e s u db = Inr ((), db')"
      and "db_events db' = db_events db" and "db_origins db' = db_origins db"
      and "bt_get (e, s) (db_deliveries db) \<noteq> None"
      and "\<And>k. bt_get k (db_deliveries db') = (if k = (e, s) then Some (update_columns u) else bt_get k (db_deliveries db))"
proof (cases "record_delivery_at e s u db")
  case (Pair r db')
  show thesis
  proof (cases r)
    case (Inl err)
    then have "db' = db" using Pair by (auto simp: record_delivery_at_def in_transaction_def split: if_splits sum.splits prod.splits)
    with Pair Inl that(1) show thesis by simp
  next
    case (Inr x)
    have t: "record_transaction e s u db = Inr ((), db')" and g: "du_state u \<noteq> Pending \<longrightarrow> du_next_attempt_at u = None"
      using Pair Inr by (auto simp: record_delivery_at_def in_transaction_def split: if_splits sum.splits prod.splits)
    note f = record_transaction_Inr [OF t assms g]
    show thesis by (rule that(2) [OF _ f(1) t f(2,3,7,8)]) (use Pair Inr in auto)
  qed
qed

lemma keeps_record:
  assumes "record_transaction e s u db = Inr ((), db')" and "db_ok cd db" and "du_state u \<noteq> Pending \<longrightarrow> du_next_attempt_at u = None"
    and "bt_get (e, s) (db_deliveries db) = Some c" and "delivery_step c (update_columns u)"
  shows "keeps db db'"
  unfolding keeps_def using record_transaction_Inr [OF assms(1-3)] assms(4,5) by auto

section \<open>Release of blocked rows\<close>

lemma release_row_key: "fst (release_row s now r) = fst r"
  by (simp add: release_row_def)

lemma release_row_step:
  assumes "delivery_ok e s c"
  shows "delivery_ok e s (snd (release_row s' now ((e, s), c))) \<and> delivery_step\<^sup>*\<^sup>* c (snd (release_row s' now ((e, s), c)))"
proof (cases "s = s' \<and> col_state c = ''blocked''")
  case True
  let ?c = "c\<lparr>col_state := ''pending'', col_next_attempt_at := Some now, col_updated_at := now\<rparr>"
  have "delivery_ok e s ?c"
    using assms unfolding delivery_ok_def decode_row_def by (auto simp: result_bind_eq_Inr_iff state_from_str_def)
  moreover have "delivery_step c ?c" using True by (intro delivery_step.release) auto
  ultimately show ?thesis using True by (auto simp: release_row_def)
qed (use assms in \<open>auto simp: release_row_def\<close>)

lemma release_cases:
  "snd (release_blocked_for_sink raw now db) = db
   \<or> snd (release_blocked_for_sink raw now db) = db\<lparr>db_deliveries := map (release_row (trim raw) now) (db_deliveries db)\<rparr>"
  by (auto simp: release_blocked_for_sink_def sink_id_valid split: sum.splits list.splits dest: sink_id_valid(1))

interpretation release: durable_operation cd "\<lambda>db. snd (release_blocked_for_sink raw now db)" "\<lambda>_. True"
  for cd raw now
proof
  fix db assume ok: "db_ok cd db"
  let ?m = "map (release_row (trim raw) now) (db_deliveries db)"
  have get: "bt_get k ?m = map_option (\<lambda>v. snd (release_row (trim raw) now (k, v))) (bt_get k (db_deliveries db))" for k
    by (rule bt_get_map_values) (rule release_row_key)
  have step: "delivery_ok e s (snd (release_row (trim raw) now ((e, s), c)))
      \<and> delivery_step\<^sup>*\<^sup>* c (snd (release_row (trim raw) now ((e, s), c))) \<and> bt_get e (db_events db) \<noteq> None"
    if "bt_get (e, s) (db_deliveries db) = Some c" for e s c
    using release_row_step db_ok_delivery [OF ok that] by blast
  have "keeps db (db\<lparr>db_deliveries := ?m\<rparr>)"
    unfolding keeps_def using step by (auto simp: get)
  moreover have "db_ok cd (db\<lparr>db_deliveries := ?m\<rparr>)"
  proof -
    have "bt_inv ?m" using ok by (simp add: bt_inv_map_values release_row_key db_ok_def)
    with ok step show ?thesis unfolding db_ok_def by (auto simp: get)
  qed
  ultimately show "db_ok cd (snd (release_blocked_for_sink raw now db))" and "keeps db (snd (release_blocked_for_sink raw now db))"
    using release_cases [of raw now db] ok by auto
qed

text \<open>C22. On well-typed tables the query for a sink's next delivery never fails: it finds nothing exactly
  when no row of the sink is pending and due, and otherwise returns the least such row in the order
  of retry time, update time and event, decoded, with the bytes stored for its event.\<close>

theorem next_ready_delivery_total:
  assumes ok: "db_ok cd db" and v: "validate_sink_ids [s] False = Inr ids"
  shows "(next_ready_delivery cd db s now = Inr None \<and> (\<forall>r \<in> set (db_deliveries db). \<not> ready_row s now r))
    \<or> (\<exists>r row payload. next_ready_delivery cd db s now = Inr (Some \<lparr>rd_row = row, rd_payload = payload\<rparr>)
        \<and> r \<in> set (db_deliveries db) \<and> ready_row s now r
        \<and> (\<forall>r' \<in> set (db_deliveries db). ready_row s now r' \<longrightarrow> ready_order r \<le> ready_order r')
        \<and> decode_row (fst (fst r)) s (snd r) = Inr row \<and> dr_state row = Pending
        \<and> stored db (fst (fst r)) = Some payload)"
proof (cases "select_ready db s now")
  case None
  then have "next_ready_delivery cd db s now = Inr None" using next_ready_delivery_eq [OF ok v, of now] by simp
  then show ?thesis using None select_ready_None [of db s now] by blast
next
  case (Some r)
  note sel = select_ready_Some [OF Some]
  obtain row payload where n: "next_ready_delivery cd db s now = Inr (Some \<lparr>rd_row = row, rd_payload = payload\<rparr>)"
    and d: "decode_row (fst (fst r)) s (snd r) = Inr row" and st: "stored db (fst (fst r)) = Some payload"
    using next_ready_delivery_eq [OF ok v, of now] by (auto simp: Some)
  have "dr_state row = Pending"
    using decode_row_fields(3) [OF d] sel(2) by (simp add: ready_row_def state_from_str_def)
  then show ?thesis using n d st sel by blast
qed

section \<open>A concrete outbox\<close>

definition sample_json :: "string \<Rightarrow> json" where
  "sample_json s = JObject [(''schema_version'', JString ''3.0''), (''event_id'', JString s), (''telltale_version'', JString ''1''),
     (''timestamp'', JString ''t''), (''observed_at'', JString ''t''), (''ingested_at'', JString ''t''),
     (''time_source'', JString ''t''), (''time_confidence'', JString ''c''), (''event_type'', JString ''detection''),
     (''severity'', JString ''high''), (''client'', JString ''c''), (''session_id'', JString ''s''),
     (''risk_contributions'', JArray []), (''tags'', JArray []), (''evidence'', JArray [])]"

definition sample_codec :: codec where
  "sample_codec = \<lparr>cd_sha256 = \<lambda>s. take 32 (drop 13 s @ replicate 32 CHR ''0''), cd_from_slice = \<lambda>s. Some (sample_json s),
     cd_markers_ok = \<lambda>_. True\<rparr>"

definition sample_event :: string where
  "sample_event = ''telltale-00000000-0000-4000-8000-000000000001''"

definition sample_db :: outbox_db where
  "sample_db = \<lparr>db_meta = [(''journal_namespace'', ''n'')],
     db_events = [(sample_event, \<lparr>col_payload = sample_event, col_payload_hash = cd_sha256 sample_codec sample_event, col_created_at = 5\<rparr>)],
     db_deliveries = [((sample_event, ''a''), fresh_delivery 5), ((sample_event, ''b''), (fresh_delivery 5)\<lparr>col_state := ''acked''\<rparr>)],
     db_origins = [], db_health = [(''a'', fresh_health), (''b'', fresh_health)], db_cursor = None, db_generations = []\<rparr>"

lemma sample_event_native [simp]: "is_native_event_id sample_event"
  by (simp add: is_native_event_id_def sample_event_def strip_prefix_def lower_hex_def upt_rec less_eq_char_def)

lemma sample_validate:
  "is_native_event_id e \<Longrightarrow> trim e \<noteq> [] \<Longrightarrow> validate_canonical_event_bytes sample_codec e (Some e) = Inr ()"
  by (simp add: validate_canonical_event_bytes_def sample_codec_def sample_json_def check_text_field_def ensure_def
      REQUIRED_TEXT_FIELDS_def REQUIRED_ARRAY_FIELDS_def trim_id rust_simps)

lemma sample_sha_length [simp]: "length (cd_sha256 sample_codec e) = 32"
  by (simp add: sample_codec_def)

lemma sample_event_trim [simp]: "trim sample_event = sample_event"
  by (simp add: sample_event_def trim_id rust_simps)

lemma sample_event_nonempty [simp]: "sample_event \<noteq> []"
  by (simp add: sample_event_def)

lemma sample_db_ok: "db_ok sample_codec sample_db"
proof -
  have "event_ok sample_codec sample_event \<lparr>col_payload = sample_event, col_payload_hash = cd_sha256 sample_codec sample_event, col_created_at = 5\<rparr>"
    by (simp add: event_ok_def sample_validate)
  moreover have "delivery_ok sample_event ''a'' (fresh_delivery 5)"
    unfolding delivery_ok_def using fresh_delivery_decode by (auto simp: fresh_delivery_def)
  moreover have "delivery_ok sample_event ''b'' ((fresh_delivery 5)\<lparr>col_state := ''acked''\<rparr>)"
    by (auto simp: delivery_ok_def decode_row_def fresh_delivery_def state_from_str_def u32_try_from_def decode_error_class_def)
  ultimately show ?thesis
    by (auto simp: db_ok_def sample_db_def bt_inv_def bt_get_def less_char_def split: if_splits)
qed

lemma sample_sink_valid: "validate_sink_ids [''a''] False = Inr [''a'']"
  by (simp add: validate_sink_ids_def validate_sink_id_def trim_id rust_simps MAX_CURSOR_TEXT_def btree_set_def Let_def)

lemma sample_ready: "ready_row ''a'' 9 ((sample_event, ''a''), fresh_delivery 5)"
  by (simp add: ready_row_def fresh_delivery_def)

theorem next_ready_delivery_total_witness:
  "\<exists>r row. next_ready_delivery sample_codec sample_db ''a'' 9 = Inr (Some \<lparr>rd_row = row, rd_payload = sample_event\<rparr>)
     \<and> r \<in> set (db_deliveries sample_db) \<and> dr_state row = Pending"
proof -
  have ready: "\<exists>r \<in> set (db_deliveries sample_db). ready_row ''a'' 9 r"
    using sample_ready by (simp add: sample_db_def)
  have "stored sample_db (fst (fst r)) = Some payload \<Longrightarrow> r \<in> set (db_deliveries sample_db) \<Longrightarrow> payload = sample_event" for r payload
    by (auto simp: stored_def sample_db_def bt_get_def)
  then show ?thesis
    using next_ready_delivery_total [OF sample_db_ok sample_sink_valid, of 9] ready by blast
qed

theorem next_retry_bounds_witness:
  "next_retry_at 1000 250 3 = 2000 \<and> next_retry_at 1000 250 3 \<le> next_retry_at 1000 250 30"
  using next_retry_bounds [of 1000 250 3 30] by (simp add: I64_MAX_def)

end
