(* ===== verification/Outbox_Journal.thy ===== *)
theory Outbox_Journal
  imports Outbox
begin

text \<open>
  The canonical JSONL journal and the durable cursor into it, \<open>src/sink/outbox.rs\<close>: reading complete
  records from the cursor, reconciling them into the outbox in one transaction, capacity admission,
  and pruning of rotated generations.

  The journal is the list of its generations in the order of discovery, oldest first, each with the
  bytes that its file holds. It is inspected under the journal lock, so it does not change during an
  operation and the repeated identity checks of the code, which guard against replacement of a file
  during inspection, hold. The hash of the journal path is an argument.
\<close>

section \<open>Journal and progress\<close>

record JsonlGeneration =
  jg_identity :: string
  jg_is_active :: bool
  jg_bytes :: string

record GenerationProgress =
  gp_next_offset :: nat
  gp_complete :: bool
  gp_payloads :: "Event3DurablePayload list"

record ReconciliationPlan =
  rp_payloads :: "Event3DurablePayload list"
  rp_cursor :: "IngestCursor option"
  rp_advance :: bool
  rp_ingested_bytes :: nat

record ReconcileResult =
  rr_ingested_events :: nat
  rr_ingested_bytes :: nat

abbreviation newline :: char where
  "newline \<equiv> CHR 0x0A"

abbreviation carriage_return :: char where
  "carriage_return \<equiv> CHR 0x0D"

text \<open>\<open>Iterator::position\<close>.\<close>

fun position :: "('a \<Rightarrow> bool) \<Rightarrow> 'a list \<Rightarrow> nat option" where
  "position P [] = None"
| "position P (x # xs) = (if P x then Some 0 else map_option Suc (position P xs))"

definition ends_with :: "'a list \<Rightarrow> 'a \<Rightarrow> bool" where
  "ends_with xs x \<longleftrightarrow> xs \<noteq> [] \<and> last xs = x"

definition malformed :: DeliveryError where
  "malformed = storage_message ''outbox malformed non-tail canonical JSONL record''"

definition line_payload :: "codec \<Rightarrow> string \<Rightarrow> nat \<Rightarrow> string \<Rightarrow> (DeliveryError, Event3DurablePayload) result" where
  "line_payload cd identity offset line =
    (if ends_with line carriage_return then Inl (storage_message ''canonical JSONL uses an invalid line ending'')
     else case canonical_payload_from_bytes cd line of
       Inl _ \<Rightarrow> Inl malformed
     | Inr p \<Rightarrow> Inr (p\<lparr>pl_generation_id := Some identity, pl_generation_offset := Some offset\<rparr>))"

lemma position_less: "position P xs = Some i \<Longrightarrow> i < length xs"
  by (induction xs arbitrary: i) (auto split: if_splits)

function parse_lines ::
  "codec \<Rightarrow> string \<Rightarrow> string \<Rightarrow> nat \<Rightarrow> Event3DurablePayload list \<Rightarrow> (DeliveryError, GenerationProgress) result" where
  "parse_lines cd identity bytes cursor payloads =
    (if cursor < length bytes
     then case position (\<lambda>b. b = newline) (drop cursor bytes) of
         None \<Rightarrow> Inr \<lparr>gp_next_offset = cursor, gp_complete = False, gp_payloads = payloads\<rparr>
       | Some relative_end \<Rightarrow>
           result_bind (line_payload cd identity cursor (take relative_end (drop cursor bytes))) (\<lambda>p.
             parse_lines cd identity bytes (Suc (cursor + relative_end)) (payloads @ [p]))
     else Inr \<lparr>gp_next_offset = cursor, gp_complete = True, gp_payloads = payloads\<rparr>)"
  by pat_completeness auto
termination by (relation "measure (\<lambda>(cd, i, bytes, cursor, ps). length bytes - cursor)") auto

declare parse_lines.simps [simp del]

definition boundary_ok :: "string \<Rightarrow> nat \<Rightarrow> bool" where
  "boundary_ok bytes offset \<longleftrightarrow> offset = 0 \<or> (offset - 1 < length bytes \<and> bytes ! (offset - 1) = newline)"

definition parse_generation :: "codec \<Rightarrow> JsonlGeneration \<Rightarrow> nat \<Rightarrow> (DeliveryError, GenerationProgress) result" where
  "parse_generation cd g offset =
    (if length (jg_bytes g) < offset
     then Inl (storage_message ''durable ingest cursor points past the JSONL generation'')
     else if \<not> boundary_ok (jg_bytes g) offset
     then Inl (storage_message ''durable ingest cursor is not at a complete line boundary'')
     else parse_lines cd (jg_identity g) (jg_bytes g) offset [])"

section \<open>The cursor\<close>

definition CURSOR_INTEGRITY_WINDOW :: nat where
  "CURSOR_INTEGRITY_WINDOW = 4 * 1024"

definition prefix_digest :: "codec \<Rightarrow> string \<Rightarrow> nat \<Rightarrow> string" where
  "prefix_digest cd bytes offset = cd_sha256 cd (take (min offset CURSOR_INTEGRITY_WINDOW) bytes)"

definition window_digest :: "codec \<Rightarrow> string \<Rightarrow> nat \<Rightarrow> string" where
  "window_digest cd bytes offset =
    cd_sha256 cd (drop (offset - CURSOR_INTEGRITY_WINDOW) (take offset bytes))"

definition make_cursor ::
  "codec \<Rightarrow> string \<Rightarrow> string \<Rightarrow> JsonlGeneration \<Rightarrow> nat \<Rightarrow> (DeliveryError, IngestCursor) result" where
  "make_cursor cd namespace path_hash g offset =
    result_bind (bounded_cursor_text namespace ''journal namespace'') (\<lambda>ns.
    result_bind (bounded_cursor_text path_hash ''journal path hash'') (\<lambda>ph.
    result_bind (bounded_cursor_text (jg_identity g) ''generation identity'') (\<lambda>gid.
    Inr \<lparr>ic_journal_namespace = ns, ic_journal_path_hash = ph, ic_generation_id = gid, ic_byte_offset = offset,
         ic_observed_length = length (jg_bytes g), ic_window_start = offset - CURSOR_INTEGRITY_WINDOW,
         ic_prefix_hash = prefix_digest cd (jg_bytes g) offset,
         ic_window_hash = window_digest cd (jg_bytes g) offset\<rparr>)))"

definition verify_cursor_against_snapshot ::
  "codec \<Rightarrow> IngestCursor \<Rightarrow> JsonlGeneration \<Rightarrow> (DeliveryError, unit) result" where
  "verify_cursor_against_snapshot cd c g =
    (let offset = ic_byte_offset c; bytes = jg_bytes g in
     if length bytes < offset \<or> ic_observed_length c < offset \<or> length bytes < ic_observed_length c
     then Inl (storage_message ''durable JSONL generation was truncated'')
     else if \<not> boundary_ok bytes offset
     then Inl (storage_message ''durable ingest cursor is not at a complete line boundary'')
     else if ic_window_start c \<noteq> offset - CURSOR_INTEGRITY_WINDOW \<or> offset < ic_window_start c
     then Inl (storage_message ''durable ingest cursor integrity window is invalid'')
     else if prefix_digest cd bytes offset \<noteq> ic_prefix_hash c \<or> window_digest cd bytes offset \<noteq> ic_window_hash c
     then Inl (storage_message ''durable JSONL generation integrity check failed'')
     else Inr ())"

text \<open>The capacity scan checks the cursor against the open file, with the same outcome
  (\<open>verify_cursor_against_file_eq\<close> below), so the model of its start shares the check of a snapshot.\<close>

definition hash_file_range :: "codec \<Rightarrow> string \<Rightarrow> nat \<Rightarrow> nat \<Rightarrow> (DeliveryError, string) result" where
  "hash_file_range cd bytes first end_offset =
    (if end_offset < first \<or> CURSOR_INTEGRITY_WINDOW < end_offset - first
     then Inl (storage_message ''durable ingest cursor integrity range is invalid'')
     else Inr (cd_sha256 cd (take (end_offset - first) (drop first bytes))))"

definition verify_cursor_against_file ::
  "codec \<Rightarrow> IngestCursor \<Rightarrow> string \<Rightarrow> (DeliveryError, unit) result" where
  "verify_cursor_against_file cd c bytes =
    (let offset = ic_byte_offset c in
     if length bytes < offset \<or> ic_observed_length c < offset \<or> length bytes < ic_observed_length c
     then Inl (storage_message ''durable JSONL generation was truncated'')
     else if 0 < offset \<and> take 1 (drop (offset - 1) bytes) \<noteq> [newline]
     then Inl (storage_message ''durable ingest cursor is not at a complete line boundary'')
     else if ic_window_start c \<noteq> offset - CURSOR_INTEGRITY_WINDOW \<or> offset < ic_window_start c
     then Inl (storage_message ''durable ingest cursor integrity window is invalid'')
     else result_bind (hash_file_range cd bytes 0 (min offset CURSOR_INTEGRITY_WINDOW)) (\<lambda>prefix_hash.
       result_bind (hash_file_range cd bytes (ic_window_start c) offset) (\<lambda>window_hash.
       if prefix_hash \<noteq> ic_prefix_hash c \<or> window_hash \<noteq> ic_window_hash c
       then Inl (storage_message ''durable JSONL generation integrity check failed'')
       else Inr ())))"

definition read_ingest_cursor :: "outbox_db \<Rightarrow> (DeliveryError, IngestCursor option) result" where
  "read_ingest_cursor db =
    (case db_cursor db of
       None \<Rightarrow> Inr None
     | Some c \<Rightarrow>
         if length (ic_prefix_hash c) \<noteq> 32 then Inl (storage_message ''stored ingest cursor prefix hash is invalid'')
         else if length (ic_window_hash c) \<noteq> 32 then Inl (storage_message ''stored ingest cursor window hash is invalid'')
         else result_bind (bounded_cursor_text (ic_journal_namespace c) ''journal namespace'') (\<lambda>_.
           result_bind (bounded_cursor_text (ic_journal_path_hash c) ''journal path hash'') (\<lambda>_.
           result_bind (bounded_cursor_text (ic_generation_id c) ''generation identity'') (\<lambda>_. Inr (Some c)))))"

definition write_ingest_cursor :: "IngestCursor \<Rightarrow> outbox_db \<Rightarrow> (DeliveryError, outbox_db) result" where
  "write_ingest_cursor c db =
    (if I64_MAX < int (ic_byte_offset c) then Inl (storage_message ''ingest cursor offset is too large'')
     else if I64_MAX < int (ic_observed_length c) then Inl (storage_message ''ingest cursor length is too large'')
     else if I64_MAX < int (ic_window_start c) then Inl (storage_message ''ingest cursor window is too large'')
     else if length (ic_prefix_hash c) \<noteq> 32 \<or> length (ic_window_hash c) \<noteq> 32
     then Inl (storage_message ''outbox write ingest cursor'')
     else Inr (db\<lparr>db_cursor := Some c\<rparr>))"

section \<open>Reconciliation\<close>

text \<open>The generation of the cursor must be identified by exactly one generation of the journal.\<close>

definition cursor_start ::
  "codec \<Rightarrow> JsonlGeneration list \<Rightarrow> IngestCursor option \<Rightarrow> string \<Rightarrow> string \<Rightarrow> (DeliveryError, nat \<times> nat) result" where
  "cursor_start cd snapshots current namespace path_hash =
    (case current of
       None \<Rightarrow> Inr (0, 0)
     | Some c \<Rightarrow>
         if ic_journal_namespace c \<noteq> namespace
         then Inl (storage_message ''durable ingest cursor journal namespace is invalid'')
         else if ic_journal_path_hash c \<noteq> path_hash
         then Inl (storage_message ''durable ingest cursor belongs to a different JSONL journal'')
         else (case filter (\<lambda>i. jg_identity (snapshots ! i) = ic_generation_id c) [0..<length snapshots] of
             [] \<Rightarrow> Inl (storage_message ''durable ingest cursor generation cannot be identified safely'')
           | [i] \<Rightarrow> result_bind (verify_cursor_against_snapshot cd c (snapshots ! i)) (\<lambda>_. Inr (i, ic_byte_offset c))
           | _ \<Rightarrow> Inl (storage_message ''durable ingest cursor generation identity is ambiguous'')))"

record plan_state =
  ps_payloads :: "Event3DurablePayload list"
  ps_bytes :: nat
  ps_final_index :: nat
  ps_final_offset :: nat
  ps_advance :: bool

fun plan_loop ::
  "codec \<Rightarrow> nat \<Rightarrow> nat \<Rightarrow> nat \<Rightarrow> JsonlGeneration list \<Rightarrow> plan_state \<Rightarrow> (DeliveryError, plan_state) result" where
  "plan_loop cd start_index start_offset index [] st = Inr st"
| "plan_loop cd start_index start_offset index (g # gs) st =
    (let offset = (if index = start_index then start_offset else 0) in
     result_bind (parse_generation cd g offset) (\<lambda>progress.
     result_bind (ok_or (usize_checked_add (ps_bytes st) (sum_list (map (length \<circ> pl_bytes) (gp_payloads progress))))
       (storage_message ''durable ingest byte count overflow'')) (\<lambda>total.
     let st' = \<lparr>ps_payloads = ps_payloads st @ gp_payloads progress, ps_bytes = total, ps_final_index = index,
           ps_final_offset = gp_next_offset progress,
           ps_advance = (ps_advance st \<or> gp_payloads progress \<noteq> [] \<or> gp_next_offset progress \<noteq> offset
             \<or> index \<noteq> start_index)\<rparr>
     in if \<not> gp_complete progress then Inr st'
        else plan_loop cd start_index start_offset (Suc index) gs st')))"

definition build_reconciliation_plan ::
  "codec \<Rightarrow> JsonlGeneration list \<Rightarrow> IngestCursor option \<Rightarrow> string \<Rightarrow> string \<Rightarrow> (DeliveryError, ReconciliationPlan) result" where
  "build_reconciliation_plan cd snapshots current namespace path_hash =
    result_bind (cursor_start cd snapshots current namespace path_hash) (\<lambda>(start_index, start_offset).
    if length snapshots \<le> start_index then Inl (storage_message ''durable ingest cursor generation is invalid'')
    else result_bind (plan_loop cd start_index start_offset start_index (drop start_index snapshots)
        \<lparr>ps_payloads = [], ps_bytes = 0, ps_final_index = start_index, ps_final_offset = start_offset,
         ps_advance = (current = None)\<rparr>) (\<lambda>st.
      result_bind (if ps_advance st
          then result_bind (make_cursor cd namespace path_hash (snapshots ! ps_final_index st) (ps_final_offset st)) (\<lambda>c. Inr (Some c))
          else Inr None) (\<lambda>cursor.
      Inr \<lparr>rp_payloads = ps_payloads st, rp_cursor = cursor, rp_advance = ps_advance st,
           rp_ingested_bytes = ps_bytes st\<rparr>)))"

record GenerationMetadata =
  gm_generation_id :: string
  gm_journal_path_hash :: string
  gm_observed_at :: int
  gm_lifecycle :: GenerationLifecycle
  gm_pruned_at :: "int option"

definition validate_journal_path_hash :: "string \<Rightarrow> (DeliveryError, string) result" where
  "validate_journal_path_hash s =
    result_bind (bounded_cursor_text s ''journal path hash'') (\<lambda>v.
      if length v \<noteq> 64 \<or> list_ex (\<lambda>c. \<not> lower_hex c) v
      then Inl (storage_message ''durable journal path identity is invalid'') else Inr v)"

definition decode_generation ::
  "string \<times> generation_columns \<Rightarrow> (DeliveryError, GenerationMetadata) result" where
  "decode_generation row =
    (case row of (gid, c) \<Rightarrow>
      result_bind (bounded_cursor_text gid ''generation identity'') (\<lambda>_.
      result_bind (validate_journal_path_hash (col_journal_path_hash c)) (\<lambda>ph.
      if col_observed_at c < 0 then Inl (storage_message ''generation observation timestamp is invalid'')
      else result_bind (ok_or (lifecycle_from_str (col_lifecycle c))
          (storage_message ''stored generation lifecycle is unknown'')) (\<lambda>lifecycle.
      if lifecycle = Pruned \<and> col_pruned_at c = None
      then Inl (storage_message ''pruned generation metadata has no prune timestamp'')
      else if lifecycle \<noteq> Pruned \<and> col_pruned_at c \<noteq> None
      then Inl (storage_message ''unpruned generation metadata has a prune timestamp'')
      else if (case col_pruned_at c of None \<Rightarrow> False | Some t \<Rightarrow> t < 0)
      then Inl (storage_message ''generation prune timestamp is invalid'')
      else Inr \<lparr>gm_generation_id = gid, gm_journal_path_hash = ph, gm_observed_at = col_observed_at c,
           gm_lifecycle = lifecycle, gm_pruned_at = col_pruned_at c\<rparr>))))"

definition read_generation_metadata :: "outbox_db \<Rightarrow> (DeliveryError, GenerationMetadata list) result" where
  "read_generation_metadata db = try_map decode_generation (db_generations db)"

definition observe_generation :: "string list \<Rightarrow> JsonlGeneration \<Rightarrow> (DeliveryError, string list) result" where
  "observe_generation seen g =
    result_bind (bounded_cursor_text (jg_identity g) ''generation identity'') (\<lambda>i.
      if i \<in> set seen then Inl (storage_message ''durable JSONL generation identity is ambiguous'')
      else Inr (seen @ [i]))"

definition validate_observed_generations :: "JsonlGeneration list \<Rightarrow> (DeliveryError, string list) result" where
  "validate_observed_generations gs = result_bind (try_fold observe_generation [] gs) (\<lambda>ids. Inr (btree_set ids))"

text \<open>A recorded generation must belong to this journal; a present one must be observed and a pruned
  one must not reappear.\<close>

definition check_recorded :: "string \<Rightarrow> string \<Rightarrow> string list \<Rightarrow> GenerationMetadata \<Rightarrow> (DeliveryError, unit) result" where
  "check_recorded missing path_hash observed r =
    (if gm_journal_path_hash r \<noteq> path_hash
     then Inl (storage_message ''durable generation metadata belongs to a different JSONL journal'')
     else if gm_lifecycle r = Present \<and> gm_generation_id r \<notin> set observed
     then Inl (storage_message missing)
     else if gm_lifecycle r = Pruned \<and> gm_generation_id r \<in> set observed
     then Inl (storage_message ''pruned durable JSONL generation reappeared'')
     else Inr ())"

definition recorded_lifecycle :: "GenerationMetadata list \<Rightarrow> string \<Rightarrow> GenerationLifecycle option" where
  "recorded_lifecycle rs gid = map_of (map (\<lambda>r. (gm_generation_id r, gm_lifecycle r)) rs) gid"

definition check_observed :: "GenerationMetadata list \<Rightarrow> string \<Rightarrow> (DeliveryError, unit) result" where
  "check_observed rs gid =
    (case recorded_lifecycle rs gid of
       Some Pruned \<Rightarrow> Inl (storage_message ''pruned durable JSONL generation reappeared'')
     | Some _ \<Rightarrow> Inr ()
     | None \<Rightarrow> Inl (storage_message ''durable JSONL generation metadata is missing an observed generation''))"

definition validate_generation_metadata_readonly ::
  "outbox_db \<Rightarrow> string \<Rightarrow> JsonlGeneration list \<Rightarrow> bool \<Rightarrow> (DeliveryError, unit) result" where
  "validate_generation_metadata_readonly db raw_hash gs allow_uninitialized =
    result_bind (validate_journal_path_hash raw_hash) (\<lambda>path_hash.
    result_bind (validate_observed_generations gs) (\<lambda>observed.
    result_bind (read_generation_metadata db) (\<lambda>metadata.
    if allow_uninitialized \<and> metadata = [] then Inr ()
    else result_bind (try_fold (\<lambda>_ r. check_recorded
        ''durable JSONL generation metadata is missing a present generation'' path_hash observed r) () metadata) (\<lambda>_.
      try_fold (\<lambda>_ gid. check_observed metadata gid) () observed))))"

definition register_generation ::
  "int \<Rightarrow> string \<Rightarrow> GenerationMetadata list \<Rightarrow> outbox_db \<Rightarrow> JsonlGeneration \<Rightarrow> (DeliveryError, outbox_db) result" where
  "register_generation now path_hash metadata db g =
    result_bind (bounded_cursor_text (jg_identity g) ''generation identity'') (\<lambda>gid.
      case recorded_lifecycle metadata gid of
        Some Pruned \<Rightarrow> Inl (storage_message ''pruned durable JSONL generation reappeared'')
      | Some _ \<Rightarrow> Inr db
      | None \<Rightarrow> Inr (db\<lparr>db_generations := bt_put gid \<lparr>col_journal_path_hash = path_hash, col_observed_at = now,
          col_lifecycle = ''present'', col_pruned_at = None\<rparr> (db_generations db)\<rparr>))"

definition ensure_generation_metadata ::
  "int \<Rightarrow> string \<Rightarrow> JsonlGeneration list \<Rightarrow> outbox_db \<Rightarrow> (DeliveryError, outbox_db) result" where
  "ensure_generation_metadata now raw_hash gs db =
    result_bind (validate_journal_path_hash raw_hash) (\<lambda>path_hash.
    result_bind (validate_observed_generations gs) (\<lambda>observed.
    result_bind (read_generation_metadata db) (\<lambda>metadata.
    result_bind (try_fold (\<lambda>_ r. check_recorded
      ''durable JSONL generation metadata contains a missing present generation'' path_hash observed r) () metadata) (\<lambda>_.
    try_fold (register_generation now path_hash metadata) db gs))))"

definition journal_namespace :: "outbox_db \<Rightarrow> (DeliveryError, string) result" where
  "journal_namespace db =
    result_bind (ok_or (bt_get ''journal_namespace'' (db_meta db)) (storage_message ''outbox journal namespace is missing''))
      (\<lambda>v. bounded_cursor_text v ''journal namespace'')"

definition ensure_journal_path :: "string \<Rightarrow> outbox_db \<Rightarrow> (DeliveryError, outbox_db) result" where
  "ensure_journal_path path_hash db =
    (case bt_get ''journal_path_hash'' (db_meta db) of
       Some existing \<Rightarrow>
         if existing \<noteq> path_hash then Inl (storage_message ''outbox is bound to a different canonical JSONL journal'')
         else Inr db
     | None \<Rightarrow> Inr (db\<lparr>db_meta := bt_put ''journal_path_hash'' path_hash (db_meta db)\<rparr>))"

text \<open>The identities are stored as JSON text; encoder and decoder are those of the JSON library.\<close>

record identity_codec =
  id_encode :: "string list \<Rightarrow> string"
  id_decode :: "string \<Rightarrow> string list option"

definition ensure_sink_identities ::
  "identity_codec \<Rightarrow> string list \<Rightarrow> outbox_db \<Rightarrow> (DeliveryError, outbox_db) result" where
  "ensure_sink_identities ic sink_ids db =
    (case bt_get ''durable_sink_ids'' (db_meta db) of
       Some existing \<Rightarrow>
         result_bind (ok_or (id_decode ic existing) (storage_message ''stored durable sink identities are invalid'')) (\<lambda>parsed.
           if parsed \<noteq> sink_ids then Inl (storage_message ''configured durable sink identities changed'') else Inr db)
     | None \<Rightarrow> Inr (db\<lparr>db_meta := bt_put ''durable_sink_ids'' (id_encode ic sink_ids) (db_meta db)\<rparr>))"

definition apply_plan ::
  "codec \<Rightarrow> int \<Rightarrow> string list \<Rightarrow> ReconciliationPlan \<Rightarrow> outbox_db \<Rightarrow> (DeliveryError, outbox_db) result" where
  "apply_plan cd now sink_ids plan db =
    (if rp_advance plan
     then result_bind (try_fold (insert_payload_transaction cd now sink_ids) db (rp_payloads plan)) (\<lambda>db1.
       case rp_cursor plan of None \<Rightarrow> Inr db1 | Some c \<Rightarrow> write_ingest_cursor c db1)
     else Inr db)"

definition reconcile_transaction ::
  "codec \<Rightarrow> identity_codec \<Rightarrow> int \<Rightarrow> string \<Rightarrow> JsonlGeneration list \<Rightarrow> string list \<Rightarrow> outbox_db
    \<Rightarrow> (DeliveryError, ReconcileResult \<times> outbox_db) result" where
  "reconcile_transaction cd ic now path_hash journal sink_ids db =
    result_bind (read_ingest_cursor db) (\<lambda>current.
    result_bind (journal_namespace db) (\<lambda>namespace.
    result_bind (ensure_journal_path path_hash db) (\<lambda>db1.
    result_bind (ensure_sink_identities ic sink_ids db1) (\<lambda>db2.
    result_bind (ensure_generation_metadata now path_hash journal db2) (\<lambda>db3.
    if journal = []
    then if current \<noteq> None then Inl (storage_message ''durable ingest cursor generation is missing'')
         else Inr (\<lparr>rr_ingested_events = 0, rr_ingested_bytes = 0\<rparr>, db3)
    else result_bind (build_reconciliation_plan cd journal current namespace path_hash) (\<lambda>plan.
      result_bind (apply_plan cd now sink_ids plan db3) (\<lambda>db4.
      Inr (\<lparr>rr_ingested_events = length (rp_payloads plan), rr_ingested_bytes = rp_ingested_bytes plan\<rparr>, db4))))))))"

definition reconcile_jsonl ::
  "codec \<Rightarrow> identity_codec \<Rightarrow> int \<Rightarrow> string \<Rightarrow> JsonlGeneration list \<Rightarrow> string list \<Rightarrow> outbox_db
    \<Rightarrow> (DeliveryError, ReconcileResult) result \<times> outbox_db" where
  "reconcile_jsonl cd ic now path_hash journal raw_sink_ids db =
    (case validate_sink_ids raw_sink_ids False of
       Inl e \<Rightarrow> (Inl e, db)
     | Inr sink_ids \<Rightarrow> in_transaction (reconcile_transaction cd ic now path_hash journal sink_ids) db)"

section \<open>Capacity admission\<close>

record CapacityLimits =
  max_pending_events :: u64
  max_pending_bytes :: u64

definition default_capacity_limits :: CapacityLimits where
  "default_capacity_limits = \<lparr>max_pending_events = 100000, max_pending_bytes = 512 * 1024 * 1024\<rparr>"

record CapacityUsage =
  cu_events :: u64
  cu_bytes :: u64

record CapacityInspection =
  cx_base :: CapacityUsage
  cx_payloads :: "(string, string) btree_map"

definition no_usage :: CapacityUsage where
  "no_usage = \<lparr>cu_events = 0, cu_bytes = 0\<rparr>"

definition MAX_CAPACITY_SCAN_BYTES :: nat where
  "MAX_CAPACITY_SCAN_BYTES = 64 * 1024 * 1024"

definition CAPACITY_READ_CHUNK_BYTES :: nat where
  "CAPACITY_READ_CHUNK_BYTES = 64 * 1024"

definition u64_of_nat :: "nat \<Rightarrow> u64 option" where
  "u64_of_nat n = (if n < 2 ^ 64 then Some (of_nat n) else None)"

definition validate_capacity_limits :: "CapacityLimits \<Rightarrow> (DeliveryError, unit) result" where
  "validate_capacity_limits l =
    (if max_pending_events l = 0 then Inl (storage_message ''durable max pending event capacity must be greater than zero'')
     else if max_pending_bytes l = 0 then Inl (storage_message ''durable max pending byte capacity must be greater than zero'')
     else Inr ())"

definition validate_capacity_payload :: "codec \<Rightarrow> Event3DurablePayload \<Rightarrow> (DeliveryError, unit) result" where
  "validate_capacity_payload cd p =
    result_bind (validate_canonical_event_bytes cd (pl_bytes p) (Some (pl_event_id p))) (\<lambda>_.
      ensure (cd_sha256 cd (pl_bytes p) = pl_hash p)
        (storage_message ''prospective durable payload hash does not match its bytes''))"

text \<open>Events with a delivery that is pending or blocked at some sink, counted once.\<close>

definition undelivered :: "outbox_db \<Rightarrow> string \<Rightarrow> bool" where
  "undelivered db event_id \<longleftrightarrow>
    list_ex (\<lambda>r. fst (fst r) = event_id \<and> col_state (snd r) \<in> {''pending'', ''blocked''}) (db_deliveries db)"

definition query_pending_capacity :: "outbox_db \<Rightarrow> (DeliveryError, CapacityUsage) result" where
  "query_pending_capacity db =
    (let rows = filter (\<lambda>r. undelivered db (fst r)) (db_events db) in
     if I64_MAX < int (sum_list (map (length \<circ> col_payload \<circ> snd) rows))
     then Inl (storage_message ''calculate pending capacity'')
     else result_bind (ok_or (u64_of_nat (length rows)) (storage_message ''durable pending event count is invalid'')) (\<lambda>events.
     result_bind (ok_or (u64_of_nat (sum_list (map (length \<circ> col_payload \<circ> snd) rows)))
       (storage_message ''durable pending byte count is invalid'')) (\<lambda>bytes.
     Inr \<lparr>cu_events = events, cu_bytes = bytes\<rparr>)))"

definition event_overflow :: DeliveryError where
  "event_overflow = storage_message ''durable capacity event count overflow''"

definition byte_overflow :: DeliveryError where
  "byte_overflow = storage_message ''durable capacity byte count overflow''"

definition add_usage :: "CapacityUsage \<Rightarrow> CapacityUsage \<Rightarrow> (DeliveryError, CapacityUsage) result" where
  "add_usage a b =
    result_bind (ok_or (checked_add (cu_events a) (cu_events b)) event_overflow) (\<lambda>events.
    result_bind (ok_or (checked_add (cu_bytes a) (cu_bytes b)) byte_overflow) (\<lambda>bytes.
    Inr \<lparr>cu_events = events, cu_bytes = bytes\<rparr>))"

text \<open>A payload that is neither stored nor seen before adds one event and its bytes.\<close>

definition account_payload ::
  "outbox_db \<Rightarrow> (string, string) btree_map \<times> CapacityUsage \<Rightarrow> Event3DurablePayload
    \<Rightarrow> (DeliveryError, (string, string) btree_map \<times> CapacityUsage) result" where
  "account_payload db st p =
    (case st of (seen, usage) \<Rightarrow>
      result_bind (event_is_already_stored db p) (\<lambda>stored.
      if stored then Inr (seen, usage)
      else case bt_get (pl_event_id p) seen of
        Some previous \<Rightarrow> if previous \<noteq> pl_bytes p then Inl payload_collision_error else Inr (seen, usage)
      | None \<Rightarrow>
          result_bind (ok_or (checked_add (cu_events usage) 1) event_overflow) (\<lambda>events.
          result_bind (ok_or (u64_of_nat (length (pl_bytes p))) (storage_message ''durable capacity byte count is too large'')) (\<lambda>n.
          result_bind (ok_or (checked_add (cu_bytes usage) n) byte_overflow) (\<lambda>bytes.
          Inr (bt_put (pl_event_id p) (pl_bytes p) seen, \<lparr>cu_events = events, cu_bytes = bytes\<rparr>))))))"

definition account_unread_payload ::
  "codec \<Rightarrow> outbox_db \<Rightarrow> (string, string) btree_map \<times> CapacityUsage \<Rightarrow> string
    \<Rightarrow> (DeliveryError, (string, string) btree_map \<times> CapacityUsage) result" where
  "account_unread_payload cd db st bytes =
    (case canonical_payload_from_bytes cd bytes of
       Inl _ \<Rightarrow> Inl malformed
     | Inr p \<Rightarrow> account_payload db st p)"

text \<open>One byte of a chunk: a newline accounts for the line read so far.\<close>

definition scan_byte_capacity ::
  "codec \<Rightarrow> outbox_db \<Rightarrow> nat \<Rightarrow> string \<times> (string, string) btree_map \<times> CapacityUsage \<Rightarrow> char
    \<Rightarrow> (DeliveryError, string \<times> (string, string) btree_map \<times> CapacityUsage) result" where
  "scan_byte_capacity cd db bound st b =
    (case st of (line, acc) \<Rightarrow>
      if b = newline
      then if ends_with line carriage_return then Inl (storage_message ''canonical JSONL uses an invalid line ending'')
           else result_bind (account_unread_payload cd db acc line) (\<lambda>acc'. Inr ([], acc'))
      else if bound < Suc (length line)
      then Inl (storage_message ''durable JSONL record exceeds the bounded inspection range'')
      else Inr (line @ [b], acc))"

function scan_chunks ::
  "codec \<Rightarrow> outbox_db \<Rightarrow> nat \<Rightarrow> string \<Rightarrow> nat \<Rightarrow> nat \<times> string \<times> (string, string) btree_map \<times> CapacityUsage
    \<Rightarrow> (DeliveryError, nat \<times> string \<times> (string, string) btree_map \<times> CapacityUsage) result" where
  "scan_chunks cd db bound bytes offset st =
    (if offset < length bytes
     then let n = min (length bytes - offset) CAPACITY_READ_CHUNK_BYTES in
       (case st of (scanned, acc) \<Rightarrow>
         if bound < scanned + n
         then Inl (storage_message ''durable JSONL capacity scan exceeds the bounded inspection range'')
         else result_bind (try_fold (scan_byte_capacity cd db bound) acc (take n (drop offset bytes))) (\<lambda>acc'.
           scan_chunks cd db bound bytes (offset + n) (scanned + n, acc')))
     else Inr st)"
  by pat_completeness auto
termination
  by (relation "measure (\<lambda>(cd, db, bound, bytes, offset, st). length bytes - offset)")
    (auto simp: CAPACITY_READ_CHUNK_BYTES_def)

declare scan_chunks.simps [simp del]

definition scan_jsonl_generation_capacity ::
  "codec \<Rightarrow> outbox_db \<Rightarrow> nat \<Rightarrow> string \<Rightarrow> nat \<Rightarrow> bool \<Rightarrow> nat \<times> (string, string) btree_map \<times> CapacityUsage
    \<Rightarrow> (DeliveryError, nat \<times> (string, string) btree_map \<times> CapacityUsage) result" where
  "scan_jsonl_generation_capacity cd db bound bytes offset is_last st =
    (if length bytes < offset then Inl (storage_message ''durable ingest cursor points past the JSONL generation'')
     else case st of (scanned, acc) \<Rightarrow>
       result_bind (scan_chunks cd db bound bytes offset (scanned, [], acc)) (\<lambda>(scanned', line, acc').
       if line \<noteq> [] \<and> \<not> is_last then Inl (storage_message ''malformed non-tail canonical JSONL record'')
       else Inr (scanned', acc')))"

fun scan_generations ::
  "codec \<Rightarrow> outbox_db \<Rightarrow> nat \<Rightarrow> nat \<Rightarrow> JsonlGeneration list \<Rightarrow> nat \<times> (string, string) btree_map \<times> CapacityUsage
    \<Rightarrow> (DeliveryError, nat \<times> (string, string) btree_map \<times> CapacityUsage) result" where
  "scan_generations cd db bound offset [] st = Inr st"
| "scan_generations cd db bound offset (g # gs) st =
    result_bind (scan_jsonl_generation_capacity cd db bound (jg_bytes g) offset (gs = []) st) (\<lambda>st'.
      scan_generations cd db bound 0 gs st')"

definition inspect_unread_jsonl_capacity ::
  "codec \<Rightarrow> outbox_db \<Rightarrow> JsonlGeneration list \<Rightarrow> IngestCursor option \<Rightarrow> string \<Rightarrow> string \<Rightarrow> nat
    \<Rightarrow> (DeliveryError, CapacityInspection) result" where
  "inspect_unread_jsonl_capacity cd db gs cursor raw_namespace raw_hash bound =
    result_bind (bounded_cursor_text raw_namespace ''journal namespace'') (\<lambda>namespace.
    result_bind (validate_journal_path_hash raw_hash) (\<lambda>path_hash.
    result_bind (validate_observed_generations gs) (\<lambda>observed.
    if length observed \<noteq> length gs then Inl (storage_message ''durable JSONL generation identity is ambiguous'')
    else result_bind (cursor_start cd gs cursor namespace path_hash) (\<lambda>(start_index, start_offset).
    if length gs \<le> start_index
    then if cursor \<noteq> None then Inl (storage_message ''durable ingest cursor generation is invalid'')
         else Inr \<lparr>cx_base = no_usage, cx_payloads = []\<rparr>
    else result_bind (scan_generations cd db bound start_offset (drop start_index gs) (0, [], no_usage))
      (\<lambda>(scanned, seen, usage). Inr \<lparr>cx_base = usage, cx_payloads = seen\<rparr>)))))"

definition verify_journal_path_for_capacity :: "outbox_db \<Rightarrow> string \<Rightarrow> (DeliveryError, bool) result" where
  "verify_journal_path_for_capacity db raw_hash =
    result_bind (validate_journal_path_hash raw_hash) (\<lambda>path_hash.
      case bt_get ''journal_path_hash'' (db_meta db) of
        None \<Rightarrow>
          if db_events db \<noteq> [] \<or> db_cursor db \<noteq> None \<or> db_generations db \<noteq> []
          then Inl (storage_message ''durable canonical JSONL journal identity is missing'') else Inr False
      | Some persisted \<Rightarrow>
          result_bind (validate_journal_path_hash persisted) (\<lambda>v.
            if v \<noteq> path_hash then Inl (storage_message ''durable outbox is bound to a different canonical JSONL journal'')
            else Inr True))"

definition inspect_capacity_inputs ::
  "codec \<Rightarrow> outbox_db \<Rightarrow> string \<Rightarrow> JsonlGeneration list \<Rightarrow> nat \<Rightarrow> (DeliveryError, CapacityInspection) result" where
  "inspect_capacity_inputs cd db path_hash gs bound =
    result_bind (journal_namespace db) (\<lambda>namespace.
    result_bind (verify_journal_path_for_capacity db path_hash) (\<lambda>bound_journal.
    result_bind (validate_generation_metadata_readonly db path_hash gs (\<not> bound_journal)) (\<lambda>_.
    result_bind (read_ingest_cursor db) (\<lambda>cursor.
    result_bind (query_pending_capacity db) (\<lambda>pending.
    result_bind (inspect_unread_jsonl_capacity cd db gs cursor namespace path_hash bound) (\<lambda>unread.
    result_bind (add_usage pending (cx_base unread)) (\<lambda>base.
    Inr \<lparr>cx_base = base, cx_payloads = cx_payloads unread\<rparr>)))))))"

definition capacity_exceeded_error :: "string \<Rightarrow> u64 \<Rightarrow> u64 \<Rightarrow> u64 \<Rightarrow> DeliveryError" where
  "capacity_exceeded_error limit_kind current projected limit =
    DeliveryError DurableStorage 0 (''durable capacity exceeded: limit_kind='' @ limit_kind @ '' current='' @ show_nat (unat current)
      @ '' projected='' @ show_nat (unat projected) @ '' limit='' @ show_nat (unat limit))"

definition check_capacity_totals ::
  "CapacityUsage \<Rightarrow> CapacityUsage \<Rightarrow> CapacityLimits \<Rightarrow> (DeliveryError, unit) result" where
  "check_capacity_totals base projected limits =
    (if cu_events projected = 0 \<and> cu_bytes projected = 0 then Inr ()
     else result_bind (add_usage base projected) (\<lambda>total.
       if max_pending_events limits < cu_events total
       then Inl (capacity_exceeded_error ''pending_events'' (cu_events base) (cu_events total) (max_pending_events limits))
       else if max_pending_bytes limits < cu_bytes total
       then Inl (capacity_exceeded_error ''pending_bytes'' (cu_bytes base) (cu_bytes total) (max_pending_bytes limits))
       else Inr ()))"

definition check_capacity_payloads_locked ::
  "codec \<Rightarrow> outbox_db \<Rightarrow> string \<Rightarrow> JsonlGeneration list \<Rightarrow> nat \<Rightarrow> Event3DurablePayload list \<Rightarrow> CapacityLimits
    \<Rightarrow> (DeliveryError, unit) result" where
  "check_capacity_payloads_locked cd db path_hash gs bound prospective limits =
    result_bind (inspect_capacity_inputs cd db path_hash gs bound) (\<lambda>inspection.
    result_bind (try_fold (\<lambda>st p. result_bind (validate_capacity_payload cd p) (\<lambda>_. account_payload db st p))
      (cx_payloads inspection, no_usage) prospective) (\<lambda>(seen, usage).
    check_capacity_totals (cx_base inspection) usage limits))"

definition check_capacity_for_payloads ::
  "codec \<Rightarrow> outbox_db \<Rightarrow> string \<Rightarrow> JsonlGeneration list \<Rightarrow> Event3DurablePayload list \<Rightarrow> CapacityLimits
    \<Rightarrow> (DeliveryError, unit) result" where
  "check_capacity_for_payloads cd db path_hash gs prospective limits =
    result_bind (validate_capacity_limits limits) (\<lambda>_.
      check_capacity_payloads_locked cd db path_hash gs MAX_CAPACITY_SCAN_BYTES prospective limits)"

section \<open>Pruning of rotated generations\<close>

datatype PruneOutcome = PrunedFile | FinalizedAbsent | Protected

definition find_index :: "JsonlGeneration list \<Rightarrow> string \<Rightarrow> nat option" where
  "find_index gs gid = position (\<lambda>g. jg_identity g = gid) gs"

definition is_newest_kept_generation :: "JsonlGeneration list \<Rightarrow> string \<Rightarrow> nat \<Rightarrow> bool" where
  "is_newest_kept_generation gs gid keep =
    list_ex (\<lambda>g. jg_identity g = gid) (take keep (rev (filter (\<lambda>g. \<not> jg_is_active g) gs)))"

definition origin_event :: "outbox_db \<Rightarrow> string \<Rightarrow> nat \<Rightarrow> string option" where
  "origin_event db gid offset =
    map_option fst (find (\<lambda>(e, g, n). g = gid \<and> n = offset) (db_origins db))"

definition origin_matches ::
  "outbox_db \<Rightarrow> string \<Rightarrow> Event3DurablePayload \<Rightarrow> (DeliveryError, bool) result" where
  "origin_matches db gid p =
    (case pl_generation_offset p of
       None \<Rightarrow> Inr False
     | Some offset \<Rightarrow>
         if I64_MAX < int offset then Inl (storage_message ''durable event origin offset is too large'')
         else if origin_event db gid offset \<noteq> Some (pl_event_id p) then Inr False
         else event_is_already_stored db p)"

fun all_origins_match ::
  "outbox_db \<Rightarrow> string \<Rightarrow> Event3DurablePayload list \<Rightarrow> (DeliveryError, bool) result" where
  "all_origins_match db gid [] = Inr True"
| "all_origins_match db gid (p # ps) =
    result_bind (origin_matches db gid p) (\<lambda>ok. if ok then all_origins_match db gid ps else Inr False)"

definition generation_origins_match ::
  "outbox_db \<Rightarrow> string \<Rightarrow> Event3DurablePayload list \<Rightarrow> (DeliveryError, bool) result" where
  "generation_origins_match db gid payloads =
    (if length (filter (\<lambda>(e, g, n). g = gid) (db_origins db)) \<noteq> length payloads then Inr False
     else all_origins_match db gid payloads)"

definition generation_is_eligible ::
  "codec \<Rightarrow> outbox_db \<Rightarrow> string \<Rightarrow> JsonlGeneration list \<Rightarrow> JsonlGeneration \<Rightarrow> (DeliveryError, bool) result" where
  "generation_is_eligible cd db path_hash gs candidate =
    (if jg_is_active candidate then Inr False
     else result_bind (read_ingest_cursor db) (\<lambda>current.
       case current of
         None \<Rightarrow> Inr False
       | Some cursor \<Rightarrow>
           if ic_journal_path_hash cursor \<noteq> path_hash
           then Inl (storage_message ''durable ingest cursor belongs to a different JSONL journal'')
           else result_bind (ok_or (find_index gs (jg_identity candidate))
               (storage_message ''JSONL prune candidate is not currently observed'')) (\<lambda>candidate_index.
             result_bind (ok_or (find_index gs (ic_generation_id cursor))
               (storage_message ''durable ingest cursor generation is missing'')) (\<lambda>cursor_index.
             result_bind (parse_generation cd candidate 0) (\<lambda>progress.
             if \<not> gp_complete progress then Inr False
             else result_bind (verify_cursor_against_snapshot cd cursor (gs ! cursor_index)) (\<lambda>_.
               if cursor_index \<le> candidate_index then Inr False
               else generation_origins_match db (jg_identity candidate) (gp_payloads progress)))))))"

text \<open>Lifecycle updates, each guarded by the lifecycle it starts from.\<close>

definition set_lifecycle ::
  "string \<Rightarrow> string \<Rightarrow> string \<Rightarrow> int option \<Rightarrow> outbox_db \<Rightarrow> outbox_db option" where
  "set_lifecycle gid from_lifecycle to_lifecycle pruned_at db =
    (case bt_get gid (db_generations db) of
       None \<Rightarrow> None
     | Some c \<Rightarrow>
         if col_lifecycle c = from_lifecycle
         then Some (db\<lparr>db_generations := bt_put gid (c\<lparr>col_lifecycle := to_lifecycle, col_pruned_at := pruned_at\<rparr>)
           (db_generations db)\<rparr>)
         else None)"

definition mark_generation_prune_pending :: "string \<Rightarrow> outbox_db \<Rightarrow> bool \<times> outbox_db" where
  "mark_generation_prune_pending gid db =
    (case set_lifecycle gid ''present'' ''prune_pending'' None db of None \<Rightarrow> (False, db) | Some db' \<Rightarrow> (True, db'))"

definition restore_present_transaction :: "string \<Rightarrow> outbox_db \<Rightarrow> (DeliveryError, outbox_db) result" where
  "restore_present_transaction gid db =
    ok_or (set_lifecycle gid ''prune_pending'' ''present'' None db)
      (storage_message ''generation is not pending prune during recovery'')"

definition finalize_prune_pending_transaction :: "int \<Rightarrow> string \<Rightarrow> outbox_db \<Rightarrow> (DeliveryError, outbox_db) result" where
  "finalize_prune_pending_transaction now gid db =
    ok_or (set_lifecycle gid ''prune_pending'' ''pruned'' (Some now) db)
      (storage_message ''generation is not pending prune during finalization'')"

text \<open>Recovery of one pending prune; the result carries the journal that is left on disk. The file is
  removed before the database commits, so an error after the removal leaves the row pending.\<close>

definition recover_prune_pending ::
  "codec \<Rightarrow> int \<Rightarrow> string \<Rightarrow> nat \<Rightarrow> string \<Rightarrow> JsonlGeneration list \<times> outbox_db
    \<Rightarrow> (DeliveryError, PruneOutcome) result \<times> JsonlGeneration list \<times> outbox_db" where
  "recover_prune_pending cd now path_hash keep gid st =
    (case st of (gs, db) \<Rightarrow>
      case validate_generation_metadata_readonly db path_hash gs False of
        Inl e \<Rightarrow> (Inl e, gs, db)
      | Inr _ \<Rightarrow>
        (case find_index gs gid of
           None \<Rightarrow>
             (case finalize_prune_pending_transaction now gid db of
                Inl e \<Rightarrow> (Inl e, gs, db) | Inr db' \<Rightarrow> (Inr FinalizedAbsent, gs, db'))
         | Some i \<Rightarrow>
             if jg_is_active (gs ! i) \<or> is_newest_kept_generation gs gid keep
             then (case restore_present_transaction gid db of
                Inl e \<Rightarrow> (Inl e, gs, db) | Inr db' \<Rightarrow> (Inr Protected, gs, db'))
             else (case generation_is_eligible cd db path_hash gs (gs ! i) of
                Inl e \<Rightarrow> (Inl e, gs, db)
              | Inr False \<Rightarrow>
                  (case restore_present_transaction gid db of
                     Inl e \<Rightarrow> (Inl e, gs, db) | Inr db' \<Rightarrow> (Inr Protected, gs, db'))
              | Inr True \<Rightarrow>
                  (let gs' = take i gs @ drop (Suc i) gs in
                   case finalize_prune_pending_transaction now gid db of
                     Inl e \<Rightarrow> (Inl e, gs', db) | Inr db' \<Rightarrow> (Inr PrunedFile, gs', db')))))"

record PruneReport =
  pr_pruned :: nat
  pr_finalized_pending :: nat
  pr_protected :: nat
  pr_warnings :: "string list"

definition empty_report :: PruneReport where
  "empty_report = \<lparr>pr_pruned = 0, pr_finalized_pending = 0, pr_protected = 0, pr_warnings = []\<rparr>"

text \<open>A warning is its context; the rendered error that follows it is sanitised diagnostic text.\<close>

definition warn :: "string \<Rightarrow> PruneReport \<Rightarrow> PruneReport" where
  "warn context report = report\<lparr>pr_warnings := pr_warnings report @ [context]\<rparr>"

definition recovery_step ::
  "codec \<Rightarrow> int \<Rightarrow> string \<Rightarrow> nat \<Rightarrow> PruneReport \<times> JsonlGeneration list \<times> outbox_db \<Rightarrow> GenerationMetadata
    \<Rightarrow> PruneReport \<times> JsonlGeneration list \<times> outbox_db" where
  "recovery_step cd now path_hash keep st r =
    (case st of (report, js) \<Rightarrow>
      case recover_prune_pending cd now path_hash keep (gm_generation_id r) js of
        (Inr PrunedFile, js') \<Rightarrow> (report\<lparr>pr_pruned := Suc (pr_pruned report),
            pr_finalized_pending := Suc (pr_finalized_pending report)\<rparr>, js')
      | (Inr FinalizedAbsent, js') \<Rightarrow> (report\<lparr>pr_finalized_pending := Suc (pr_finalized_pending report)\<rparr>, js')
      | (Inr Protected, js') \<Rightarrow> (report\<lparr>pr_protected := Suc (pr_protected report),
            pr_finalized_pending := Suc (pr_finalized_pending report)\<rparr>, js')
      | (Inl e, js') \<Rightarrow> (warn ''recover pending JSONL prune'' report, js'))"

definition candidate_step ::
  "codec \<Rightarrow> int \<Rightarrow> string \<Rightarrow> nat \<Rightarrow> JsonlGeneration list \<Rightarrow> GenerationMetadata list
    \<Rightarrow> PruneReport \<times> JsonlGeneration list \<times> outbox_db \<Rightarrow> JsonlGeneration \<Rightarrow> PruneReport \<times> JsonlGeneration list \<times> outbox_db" where
  "candidate_step cd now path_hash keep generations metadata st g =
    (case st of (report, gs, db) \<Rightarrow>
      if find (\<lambda>r. gm_generation_id r = jg_identity g \<and> gm_lifecycle r = Present) metadata = None then st
      else case generation_is_eligible cd db path_hash generations g of
        Inl e \<Rightarrow> (warn ''validate JSONL generation eligibility'' report, gs, db)
      | Inr False \<Rightarrow> (report\<lparr>pr_protected := Suc (pr_protected report)\<rparr>, gs, db)
      | Inr True \<Rightarrow>
          (case mark_generation_prune_pending (jg_identity g) db of
             (False, db1) \<Rightarrow> (warn ''claim JSONL generation for pruning'' report, gs, db1)
           | (True, db1) \<Rightarrow>
               (case recover_prune_pending cd now path_hash keep (jg_identity g) (gs, db1) of
                  (Inr PrunedFile, js') \<Rightarrow> (report\<lparr>pr_pruned := Suc (pr_pruned report)\<rparr>, js')
                | (Inr FinalizedAbsent, js') \<Rightarrow> (report\<lparr>pr_finalized_pending := Suc (pr_finalized_pending report)\<rparr>, js')
                | (Inr Protected, js') \<Rightarrow> (report\<lparr>pr_protected := Suc (pr_protected report)\<rparr>, js')
                | (Inl e, js') \<Rightarrow> (warn ''complete JSONL generation prune'' report, js'))))"

definition prune_eligible_rotations ::
  "codec \<Rightarrow> int \<Rightarrow> string \<Rightarrow> nat \<Rightarrow> JsonlGeneration list \<times> outbox_db
    \<Rightarrow> PruneReport \<times> JsonlGeneration list \<times> outbox_db" where
  "prune_eligible_rotations cd now path_hash keep st =
    (case st of (gs, db) \<Rightarrow>
      if \<not> list_ex jg_is_active gs
      then (warn ''validate active JSONL generation for pruning'' empty_report, gs, db)
      else case validate_generation_metadata_readonly db path_hash gs False of
        Inl e \<Rightarrow> (warn ''validate JSONL generation metadata for pruning'' empty_report, gs, db)
      | Inr _ \<Rightarrow>
        (case read_generation_metadata db of
           Inl e \<Rightarrow> (warn ''read JSONL generation metadata for pruning'' empty_report, gs, db)
         | Inr metadata \<Rightarrow>
             foldl (candidate_step cd now path_hash keep gs metadata)
               (foldl (recovery_step cd now path_hash keep) (empty_report, gs, db)
                 (filter (\<lambda>r. gm_lifecycle r = PrunePending) metadata))
               (filter (\<lambda>g. \<not> jg_is_active g \<and> \<not> is_newest_kept_generation gs (jg_identity g) keep) gs)))"

section \<open>Reading complete records\<close>

text \<open>The reference reading of a file: its complete lines, each ended by a newline, and the bytes after
  the last newline.\<close>

definition unlines :: "string list \<Rightarrow> string" where
  "unlines ls = concat (map (\<lambda>l. l @ [newline]) ls)"

definition complete_lines :: "string \<Rightarrow> string list" where
  "complete_lines s = butlast (split_on (\<lambda>c. c = newline) s)"

definition tail_of :: "string \<Rightarrow> string" where
  "tail_of s = last (split_on (\<lambda>c. c = newline) s)"

fun numbered :: "nat \<Rightarrow> string list \<Rightarrow> (nat \<times> string) list" where
  "numbered n [] = []"
| "numbered n (l # ls) = (n, l) # numbered (Suc (n + length l)) ls"

definition newline_free :: "string \<Rightarrow> bool" where
  "newline_free s \<longleftrightarrow> newline \<notin> set s"

lemma unlines_simps [simp]: "unlines [] = []" "unlines (l # ls) = l @ newline # unlines ls"
  "unlines (ls @ ks) = unlines ls @ unlines ks"
  by (simp_all add: unlines_def)

lemma numbered_append: "numbered n (ls @ ks) = numbered n ls @ numbered (n + length (unlines ls)) ks"
  by (induction ls arbitrary: n) (auto simp: add.assoc)

lemma set_numbered: "set (map snd (numbered n ls)) = set ls"
  by (induction ls arbitrary: n) auto

lemma map_snd_numbered [simp]: "map snd (numbered n ls) = ls"
  by (induction ls arbitrary: n) auto

lemma lines_decompose:
  shows "unlines (complete_lines s) @ tail_of s = s" and "newline_free (tail_of s)"
    and "\<And>l. l \<in> set (complete_lines s) \<Longrightarrow> newline_free l"
proof -
  let ?p = "\<lambda>c. c = newline"
  show "unlines (complete_lines s) @ tail_of s = s"
    unfolding complete_lines_def tail_of_def
  proof (induction s)
    case (Cons c s)
    obtain w ws where w: "split_on ?p s = w # ws" by (cases "split_on ?p s") auto
    with Cons show ?case by (cases ws) (auto simp: split_on_eval)
  qed simp
  show "newline_free (tail_of s)"
    using split_on_last [of _ ?p s] by (auto simp: newline_free_def tail_of_def)
  show "newline_free l" if "l \<in> set (complete_lines s)" for l
    using split_on_pieces [of l ?p s] in_set_butlastD that by (fastforce simp: newline_free_def complete_lines_def)
qed

lemma lines_unique:
  assumes "\<forall>l \<in> set ls. newline_free l" and "newline_free t"
  shows "complete_lines (unlines ls @ t) = ls" and "tail_of (unlines ls @ t) = t"
proof -
  have free: "split_on (\<lambda>c. c = newline) t = [t]" if "newline_free t" for t
    using that by (induction t) (auto simp: newline_free_def)
  have line: "split_on (\<lambda>c. c = newline) (l @ newline # s) = l # split_on (\<lambda>c. c = newline) s" if "newline_free l" for l s
    using that by (induction l) (auto simp: newline_free_def)
  have "split_on (\<lambda>c. c = newline) (unlines ls @ t) = ls @ [t]"
    using assms by (induction ls) (auto simp: free line)
  then show "complete_lines (unlines ls @ t) = ls" and "tail_of (unlines ls @ t) = t"
    by (simp_all add: complete_lines_def tail_of_def)
qed

lemma position_newline_free: "newline_free l \<Longrightarrow> position (\<lambda>b. b = newline) (l @ newline # s) = Some (length l)"
  by (induction l) (auto simp: newline_free_def)

lemma position_None: "newline_free l \<Longrightarrow> position (\<lambda>b. b = newline) l = None"
  by (induction l) (auto simp: newline_free_def)

lemma parse_lines_eq:
  assumes "\<And>l. l \<in> set ls \<Longrightarrow> newline_free l" and "newline_free t"
  shows "parse_lines cd i (pre @ unlines ls @ t) (length pre) acc
    = result_bind (try_map (\<lambda>(n, l). line_payload cd i n l) (numbered (length pre) ls))
        (\<lambda>ps. Inr \<lparr>gp_next_offset = length pre + length (unlines ls), gp_complete = (t = []), gp_payloads = acc @ ps\<rparr>)"
  using assms
proof (induction ls arbitrary: pre acc)
  case Nil
  then show ?case by (subst parse_lines.simps) (auto simp: position_None)
next
  case (Cons l ls)
  have pos: "position (\<lambda>b. b = newline) (l @ newline # unlines ls @ t) = Some (length l)"
    using Cons.prems by (intro position_newline_free) auto
  have IH: "parse_lines cd i ((pre @ l @ [newline]) @ unlines ls @ t) (length (pre @ l @ [newline])) acc'
    = result_bind (try_map (\<lambda>(n, l). line_payload cd i n l) (numbered (length (pre @ l @ [newline])) ls))
        (\<lambda>ps. Inr \<lparr>gp_next_offset = length (pre @ l @ [newline]) + length (unlines ls), gp_complete = (t = []), gp_payloads = acc' @ ps\<rparr>)"
    for acc' by (rule Cons.IH) (use Cons.prems in auto)
  show ?case
  proof (cases "line_payload cd i (length pre) l")
    case (Inl e)
    then show ?thesis by (subst parse_lines.simps) (simp add: pos)
  next
    case (Inr p)
    have "parse_lines cd i (pre @ unlines (l # ls) @ t) (length pre) acc
        = parse_lines cd i (pre @ unlines (l # ls) @ t) (Suc (length pre + length l)) (acc @ [p])"
      by (subst parse_lines.simps) (simp add: pos Inr)
    also have "\<dots> = parse_lines cd i ((pre @ l @ [newline]) @ unlines ls @ t) (length (pre @ l @ [newline])) (acc @ [p])"
      by simp
    finally show ?thesis
      unfolding IH by (cases "try_map (\<lambda>(n, l). line_payload cd i n l) (numbered (Suc (length pre + length l)) ls)") (simp_all add: Inr)
  qed
qed

lemma verify_cursor_against_file_eq:
  "verify_cursor_against_file cd c (jg_bytes g) = verify_cursor_against_snapshot cd c g"
proof (cases "length (jg_bytes g) < ic_byte_offset c")
  case True
  then show ?thesis by (simp add: verify_cursor_against_file_def verify_cursor_against_snapshot_def Let_def)
next
  case False
  let ?o = "ic_byte_offset c"
  have b: "(0 < ?o \<and> take 1 (drop (?o - 1) (jg_bytes g)) \<noteq> [newline]) = (\<not> boundary_ok (jg_bytes g) ?o)"
  proof (cases "?o = 0")
    case nz: False
    then have "drop (?o - 1) (jg_bytes g) = jg_bytes g ! (?o - 1) # drop (Suc (?o - 1)) (jg_bytes g)"
      using False by (intro Cons_nth_drop_Suc [symmetric]) linarith
    moreover have "?o - 1 < length (jg_bytes g)" using nz False by linarith
    ultimately show ?thesis using nz by (simp add: boundary_ok_def)
  qed (simp add: boundary_ok_def)
  have h1: "hash_file_range cd (jg_bytes g) 0 (min ?o CURSOR_INTEGRITY_WINDOW) = Inr (prefix_digest cd (jg_bytes g) ?o)"
    by (simp add: hash_file_range_def prefix_digest_def)
  have h2: "hash_file_range cd (jg_bytes g) (?o - CURSOR_INTEGRITY_WINDOW) ?o = Inr (window_digest cd (jg_bytes g) ?o)"
  proof -
    have "\<not> ?o < ?o - CURSOR_INTEGRITY_WINDOW" "\<not> CURSOR_INTEGRITY_WINDOW < ?o - (?o - CURSOR_INTEGRITY_WINDOW)" by linarith+
    then show ?thesis by (simp add: hash_file_range_def window_digest_def drop_take)
  qed
  show ?thesis
    by (cases "ic_window_start c = ?o - CURSOR_INTEGRITY_WINDOW")
      (simp_all only: verify_cursor_against_file_def verify_cursor_against_snapshot_def Let_def b h1 h2 result_bind_simps simp_thms if_True)
qed

text \<open>The lines of a generation that are read from an offset, with their positions.\<close>

definition unread_records :: "JsonlGeneration \<Rightarrow> nat \<Rightarrow> (nat \<times> string) list" where
  "unread_records g offset = numbered offset (complete_lines (drop offset (jg_bytes g)))"

definition record_payload :: "codec \<Rightarrow> JsonlGeneration \<Rightarrow> nat \<times> string \<Rightarrow> (DeliveryError, Event3DurablePayload) result" where
  "record_payload cd g = (\<lambda>(n, l). line_payload cd (jg_identity g) n l)"

lemma parse_generation_eq:
  assumes "offset \<le> length (jg_bytes g)" and "boundary_ok (jg_bytes g) offset"
  shows "parse_generation cd g offset
    = result_bind (try_map (record_payload cd g) (unread_records g offset))
        (\<lambda>ps. Inr \<lparr>gp_next_offset = length (jg_bytes g) - length (tail_of (drop offset (jg_bytes g))),
           gp_complete = (tail_of (drop offset (jg_bytes g)) = []), gp_payloads = ps\<rparr>)"
proof -
  let ?s = "drop offset (jg_bytes g)"
  note d = lines_decompose [where s = ?s]
  have eq: "jg_bytes g = take offset (jg_bytes g) @ unlines (complete_lines ?s) @ tail_of ?s"
    using d(1) by simp
  have len: "length (take offset (jg_bytes g)) = offset" using assms(1) by simp
  have "length (unlines (complete_lines ?s)) + length (tail_of ?s) = length (jg_bytes g) - offset"
    using arg_cong [OF d(1), of length] by simp
  then have off: "offset + length (unlines (complete_lines ?s)) = length (jg_bytes g) - length (tail_of ?s)"
    using assms(1) by linarith
  have "parse_lines cd (jg_identity g) (take offset (jg_bytes g) @ unlines (complete_lines ?s) @ tail_of ?s)
      (length (take offset (jg_bytes g))) []
    = result_bind (try_map (\<lambda>(n, l). line_payload cd (jg_identity g) n l) (numbered (length (take offset (jg_bytes g))) (complete_lines ?s)))
        (\<lambda>ps. Inr \<lparr>gp_next_offset = length (take offset (jg_bytes g)) + length (unlines (complete_lines ?s)),
          gp_complete = (tail_of ?s = []), gp_payloads = [] @ ps\<rparr>)"
    by (rule parse_lines_eq) (use d in auto)
  then have "parse_lines cd (jg_identity g) (jg_bytes g) offset []
    = result_bind (try_map (record_payload cd g) (unread_records g offset))
        (\<lambda>ps. Inr \<lparr>gp_next_offset = length (jg_bytes g) - length (tail_of ?s), gp_complete = (tail_of ?s = []), gp_payloads = ps\<rparr>)"
    unfolding eq [symmetric] len off by (simp add: unread_records_def record_payload_def)
  with assms show ?thesis by (simp add: parse_generation_def)
qed

lemma line_payload_Inr:
  assumes "line_payload cd i n l = Inr p"
  shows "pl_bytes p = l" and "payload_ok cd p" and "pl_generation_id p = Some i" and "pl_generation_offset p = Some n"
    and "canonical_payload_from_bytes cd l = Inr (p\<lparr>pl_generation_id := None, pl_generation_offset := None\<rparr>)"
proof -
  from assms obtain q where q: "canonical_payload_from_bytes cd l = Inr q"
    and p: "p = q\<lparr>pl_generation_id := Some i, pl_generation_offset := Some n\<rparr>"
    by (auto simp: line_payload_def split: if_splits sum.splits)
  note c = canonical_payload_ok [OF q]
  from c p show "pl_bytes p = l" and "payload_ok cd p" and "pl_generation_id p = Some i" and "pl_generation_offset p = Some n"
    by (simp_all add: payload_ok_def)
  from q have "pl_generation_id q = None" "pl_generation_offset q = None"
    by (auto simp: canonical_payload_from_bytes_def result_bind_eq_Inr_iff)
  with q p show "canonical_payload_from_bytes cd l = Inr (p\<lparr>pl_generation_id := None, pl_generation_offset := None\<rparr>)"
    by simp
qed

section \<open>What reconciliation ingests\<close>

text \<open>Everything complete from a position of the journal on: the rest of its generation, then the
  following generations up to one that ends in an incomplete record.\<close>

fun readable :: "nat \<Rightarrow> JsonlGeneration list \<Rightarrow> (JsonlGeneration \<times> nat \<times> string) list" where
  "readable offset [] = []"
| "readable offset (g # gs) = map (Pair g) (unread_records g offset)
     @ (if tail_of (drop offset (jg_bytes g)) = [] then readable 0 gs else [])"

definition journal_payload :: "codec \<Rightarrow> JsonlGeneration \<times> nat \<times> string \<Rightarrow> (DeliveryError, Event3DurablePayload) result" where
  "journal_payload cd = (\<lambda>(g, r). record_payload cd g r)"

lemma journal_payload_Inr:
  assumes "journal_payload cd (g, n, l) = Inr p"
  shows "pl_bytes p = l" and "payload_ok cd p" and "pl_generation_id p = Some (jg_identity g)" and "pl_generation_offset p = Some n"
  using assms line_payload_Inr by (auto simp: journal_payload_def record_payload_def)

lemma parse_generation_Inr:
  assumes "parse_generation cd g offset = Inr pr"
  shows "offset \<le> length (jg_bytes g)" and "boundary_ok (jg_bytes g) offset"
    and "try_map (record_payload cd g) (unread_records g offset) = Inr (gp_payloads pr)"
    and "gp_complete pr \<longleftrightarrow> tail_of (drop offset (jg_bytes g)) = []"
    and "gp_next_offset pr = length (jg_bytes g) - length (tail_of (drop offset (jg_bytes g)))"
proof -
  show 1: "offset \<le> length (jg_bytes g)" and 2: "boundary_ok (jg_bytes g) offset"
    using assms by (auto simp: parse_generation_def split: if_splits)
  show "try_map (record_payload cd g) (unread_records g offset) = Inr (gp_payloads pr)"
    and "gp_complete pr \<longleftrightarrow> tail_of (drop offset (jg_bytes g)) = []"
    and "gp_next_offset pr = length (jg_bytes g) - length (tail_of (drop offset (jg_bytes g)))"
    using assms unfolding parse_generation_eq [OF 1 2] by (auto simp: result_bind_eq_Inr_iff)
qed


lemma parse_generation_payloads:
  assumes "parse_generation cd g offset = Inr pr"
  shows "try_map (journal_payload cd) (map (Pair g) (unread_records g offset)) = Inr (gp_payloads pr)"
  using parse_generation_Inr(3) [OF assms] by (simp add: try_map_map comp_def journal_payload_def)

lemma plan_loop_payloads:
  assumes "plan_loop cd si so index gs st = Inr st'" and "si \<le> index"
  shows "\<exists>ps. try_map (journal_payload cd) (readable (if index = si then so else 0) gs) = Inr ps
    \<and> ps_payloads st' = ps_payloads st @ ps \<and> ps_bytes st' = ps_bytes st + sum_list (map (length \<circ> pl_bytes) ps)"
  using assms
proof (induction gs arbitrary: index st)
  case (Cons g gs)
  let ?o = "if index = si then so else 0"
  from Cons.prems obtain pr n where pr: "parse_generation cd g ?o = Inr pr"
    and n: "usize_checked_add (ps_bytes st) (sum_list (map (length \<circ> pl_bytes) (gp_payloads pr))) = Some n"
    by (auto simp: Let_def result_bind_eq_Inr_iff)
  have n': "n = ps_bytes st + sum_list (map (length \<circ> pl_bytes) (gp_payloads pr))"
    using n by (auto simp: usize_checked_add_def split: if_splits)
  note p = parse_generation_payloads [OF pr]
  note c = parse_generation_Inr(4) [OF pr]
  show ?case
  proof (cases "gp_complete pr")
    case True
    obtain st1 where rest: "plan_loop cd si so (Suc index) gs st1 = Inr st'" and st1: "ps_payloads st1 = ps_payloads st @ gp_payloads pr"
      and b1: "ps_bytes st1 = n"
      using Cons.prems True by (auto simp: Let_def result_bind_eq_Inr_iff pr n)
    obtain ps where ps: "try_map (journal_payload cd) (readable 0 gs) = Inr ps"
      and st': "ps_payloads st' = ps_payloads st1 @ ps" "ps_bytes st' = ps_bytes st1 + sum_list (map (length \<circ> pl_bytes) ps)"
      using Cons.IH [OF rest] Cons.prems(2) by (auto simp: comp_def)
    show ?thesis using True c p ps st' st1 b1 n' by (auto simp: try_map_append comp_def)
  next
    case False
    then have "ps_payloads st' = ps_payloads st @ gp_payloads pr" "ps_bytes st' = n"
      using Cons.prems by (auto simp: Let_def result_bind_eq_Inr_iff pr n)
    with False c p n' show ?thesis by (auto simp: comp_def)
  qed
qed simp

text \<open>The position after reading, when only the last generation may end in an incomplete record.\<close>

definition end_position :: "JsonlGeneration \<Rightarrow> nat \<Rightarrow> nat" where
  "end_position g offset = length (jg_bytes g) - length (tail_of (drop offset (jg_bytes g)))"

definition complete_file :: "JsonlGeneration \<Rightarrow> bool" where
  "complete_file g \<longleftrightarrow> tail_of (jg_bytes g) = []"

lemma tail_of_empty_iff: "tail_of s = [] \<longleftrightarrow> s = [] \<or> last s = newline"
proof -
  note d = lines_decompose [where s = s]
  show ?thesis
  proof (cases "tail_of s = []")
    case True
    with d(1) have "s = unlines (complete_lines s)" by simp
    then have "s = [] \<or> last s = newline" by (cases "complete_lines s" rule: rev_cases) (metis unlines_simps(1), metis last_snoc unlines_simps append_Cons append_Nil append_assoc)
    with True show ?thesis by simp
  next
    case False
    then have "last s = last (tail_of s)" "s \<noteq> []" using d(1) by (metis last_appendR, metis append_is_Nil_conv)
    moreover have "last (tail_of s) \<noteq> newline" using d(2) False last_in_set unfolding newline_free_def by metis
    ultimately show ?thesis using False by simp
  qed
qed

lemma complete_file_drop: "complete_file g \<Longrightarrow> tail_of (drop offset (jg_bytes g)) = []"
  by (cases "offset < length (jg_bytes g)") (auto simp: complete_file_def tail_of_empty_iff)

lemma plan_loop_end:
  assumes "plan_loop cd si so index (gs @ [g]) st = Inr st'" and "\<forall>g \<in> set gs. complete_file g" and "si \<le> index"
  shows "ps_final_index st' = index + length gs
    \<and> ps_final_offset st' = end_position g (if index + length gs = si then so else 0)
    \<and> (\<not> ps_advance st' \<longrightarrow> \<not> ps_advance st \<and> index + length gs = si \<and> ps_final_offset st' = so)"
  using assms
proof (induction gs arbitrary: index st)
  case Nil
  then show ?case by (auto simp: Let_def result_bind_eq_Inr_iff parse_generation_Inr(5) end_position_def split: if_splits)
next
  case (Cons g' gs)
  let ?o = "if index = si then so else 0"
  from Cons.prems obtain pr n where pr: "parse_generation cd g' ?o = Inr pr"
    and n: "usize_checked_add (ps_bytes st) (sum_list (map (length \<circ> pl_bytes) (gp_payloads pr))) = Some n"
    by (auto simp: Let_def result_bind_eq_Inr_iff)
  have "gp_complete pr" using parse_generation_Inr(4) [OF pr] complete_file_drop Cons.prems(2) by simp
  then obtain st1 where rest: "plan_loop cd si so (Suc index) (gs @ [g]) st1 = Inr st'" and a: "ps_advance st \<longrightarrow> ps_advance st1"
    using Cons.prems by (auto simp: Let_def result_bind_eq_Inr_iff pr n)
  have "ps_final_index st' = Suc index + length gs
    \<and> ps_final_offset st' = end_position g (if Suc index + length gs = si then so else 0)
    \<and> (\<not> ps_advance st' \<longrightarrow> \<not> ps_advance st1 \<and> Suc index + length gs = si \<and> ps_final_offset st' = so)"
    by (rule Cons.IH [OF rest]) (use Cons.prems in auto)
  with a show ?case by auto
qed

section \<open>Reconciliation refines insertion into a write-once store\<close>

text \<open>The abstract store: an event identity is bound once, to bytes that never change; a second binding
  with other bytes is refused.\<close>

definition store_once :: "(string \<rightharpoonup> string) \<Rightarrow> string \<times> string \<Rightarrow> (string \<rightharpoonup> string) option" where
  "store_once m x = (case m (fst x) of None \<Rightarrow> Some (m(fst x \<mapsto> snd x)) | Some b \<Rightarrow> if b = snd x then Some m else None)"

fun store_all :: "(string \<rightharpoonup> string) \<Rightarrow> (string \<times> string) list \<Rightarrow> (string \<rightharpoonup> string) option" where
  "store_all m [] = Some m"
| "store_all m (x # xs) = (case store_once m x of None \<Rightarrow> None | Some m' \<Rightarrow> store_all m' xs)"

abbreviation identified :: "Event3DurablePayload \<Rightarrow> string \<times> string" where
  "identified p \<equiv> (pl_event_id p, pl_bytes p)"

lemma queue_all_events: "db_events (foldl (queue_delivery now e) db ss) = db_events db"
  by (induction ss arbitrary: db) (simp_all add: queue_delivery_def)

lemma store_event_once:
  assumes "store_event now p db = Inr db1" and "bt_inv (db_events db)"
  shows "store_once (stored db) (identified p) = Some (stored db1)"
  using assms by (auto simp: store_event_def store_once_def stored_def bt_get_put fun_eq_iff split: option.splits if_splits)

lemma insert_payload_refines:
  assumes "insert_payload_transaction cd now ss db p = Inr db'" and "bt_inv (db_events db)"
  shows "store_once (stored db) (identified p) = Some (stored db')"
proof -
  obtain db1 db2 where s1: "store_event now p db = Inr db1" and s2: "store_origin p db1 = Inr db2"
    and s3: "db' = (if is_delivery_failure_alert_payload cd (pl_bytes p) then db2 else foldl (queue_delivery now (pl_event_id p)) db2 ss)"
    by (rule insert_payload_cases [OF assms(1)])
  have "db_events db' = db_events db1"
    using s2 by (auto simp: s3 queue_all_events store_origin_def split: option.splits if_splits)
  then have "stored db' = stored db1" by (simp add: stored_def fun_eq_iff)
  with store_event_once [OF s1 assms(2)] show ?thesis by simp
qed

lemma insert_payloads_refines:
  assumes "try_fold (insert_payload_transaction cd now ss) db ps = Inr db'" and "db_ok cd db" and "\<forall>p \<in> set ps. payload_ok cd p"
  shows "store_all (stored db) (map identified ps) = Some (stored db')"
  using assms
proof (induction ps arbitrary: db)
  case (Cons p ps)
  then obtain db1 where s: "insert_payload_transaction cd now ss db p = Inr db1"
    and r: "try_fold (insert_payload_transaction cd now ss) db1 ps = Inr db'"
    by (auto simp: result_bind_eq_Inr_iff)
  have "store_once (stored db) (identified p) = Some (stored db1)"
    using insert_payload_refines [OF s] Cons.prems(2) by (simp add: db_ok_def)
  moreover have "db_ok cd db1" using insert_payload_ok(1) [OF s Cons.prems(2)] Cons.prems(3) by simp
  ultimately show ?case using Cons.IH [OF r] Cons.prems(3) by simp
qed simp

section \<open>Reconciliation\<close>

text \<open>Binding of the journal, the sinks and the generations changes none of the delivery tables.\<close>

definition same_tables :: "outbox_db \<Rightarrow> outbox_db \<Rightarrow> bool" where
  "same_tables db db' \<longleftrightarrow> db_events db' = db_events db \<and> db_deliveries db' = db_deliveries db
     \<and> db_origins db' = db_origins db \<and> db_health db' = db_health db \<and> db_cursor db' = db_cursor db"

lemma same_tables_ok: "same_tables db db' \<Longrightarrow> db_ok cd db' \<longleftrightarrow> db_ok cd db"
  by (simp add: same_tables_def db_ok_def)

lemma same_tables_keeps: "same_tables db db' \<Longrightarrow> keeps db db'"
  by (auto simp: same_tables_def keeps_def)

lemma same_tables_stored: "same_tables db db' \<Longrightarrow> stored db' = stored db"
  by (simp add: same_tables_def stored_def fun_eq_iff)

lemma same_tables_trans: "same_tables a b \<Longrightarrow> same_tables b c \<Longrightarrow> same_tables a c"
  by (simp add: same_tables_def)

lemma ensure_tables:
  "ensure_journal_path ph db = Inr db' \<Longrightarrow> same_tables db db'"
  "ensure_sink_identities ic ss db = Inr db' \<Longrightarrow> same_tables db db'"
  by (auto simp: ensure_journal_path_def ensure_sink_identities_def same_tables_def result_bind_eq_Inr_iff split: option.splits if_splits)

lemma register_tables: "register_generation now ph ms db g = Inr db' \<Longrightarrow> same_tables db db'"
  by (cases "recorded_lifecycle ms (jg_identity g)"; cases "the (recorded_lifecycle ms (jg_identity g))")
    (auto simp: register_generation_def same_tables_def bounded_cursor_text_def split: if_splits)

lemma ensure_generation_tables:
  assumes "ensure_generation_metadata now ph gs db = Inr db'"
  shows "same_tables db db'"
proof -
  from assms obtain path_hash metadata where
    fold: "try_fold (register_generation now path_hash metadata) db gs = Inr db'"
    by (auto simp: ensure_generation_metadata_def result_bind_eq_Inr_iff)
  show ?thesis
  proof (rule try_fold_invariant [OF fold])
    show "same_tables db db" by (simp add: same_tables_def)
    fix a x a' assume "same_tables db a" "register_generation now path_hash metadata a x = Inr a'"
    then show "same_tables db a'" using register_tables same_tables_trans by blast
  qed
qed

lemma write_cursor_tables:
  assumes "write_ingest_cursor c db = Inr db'"
  shows "db' = db\<lparr>db_cursor := Some c\<rparr>"
  using assms by (auto simp: write_ingest_cursor_def split: if_splits)

text \<open>The start of reading is the recorded cursor, or the beginning of the journal.\<close>

lemma cursor_start_Inr:
  assumes "cursor_start cd gs current ns ph = Inr (i, offset)"
  shows "case current of None \<Rightarrow> i = 0 \<and> offset = 0
    | Some c \<Rightarrow> i < length gs \<and> jg_identity (gs ! i) = ic_generation_id c \<and> offset = ic_byte_offset c
        \<and> verify_cursor_against_snapshot cd c (gs ! i) = Inr ()
        \<and> (\<forall>j < length gs. jg_identity (gs ! j) = ic_generation_id c \<longrightarrow> j = i)"
proof (cases current)
  case None
  with assms show ?thesis by (simp add: cursor_start_def)
next
  case (Some c)
  let ?is = "filter (\<lambda>i. jg_identity (gs ! i) = ic_generation_id c) [0..<length gs]"
  from assms Some have fl: "?is = [i]" and v: "verify_cursor_against_snapshot cd c (gs ! i) = Inr ()" and o: "offset = ic_byte_offset c"
    by (auto simp: cursor_start_def result_bind_eq_Inr_iff split: if_splits list.splits)
  have mem: "j \<in> set ?is \<longleftrightarrow> j = i" for j unfolding fl by simp
  have "i < length gs \<and> jg_identity (gs ! i) = ic_generation_id c" using mem [of i] by simp
  moreover have "j = i" if "j < length gs" "jg_identity (gs ! j) = ic_generation_id c" for j using mem [of j] that by simp
  ultimately show ?thesis using Some v o by simp
qed

text \<open>The position that a reconciliation reads from.\<close>

definition starts :: "codec \<Rightarrow> JsonlGeneration list \<Rightarrow> outbox_db \<Rightarrow> nat \<Rightarrow> nat \<Rightarrow> bool" where
  "starts cd gs db i offset \<longleftrightarrow> i < length gs
     \<and> (case db_cursor db of None \<Rightarrow> i = 0 \<and> offset = 0
        | Some c \<Rightarrow> jg_identity (gs ! i) = ic_generation_id c \<and> offset = ic_byte_offset c
            \<and> verify_cursor_against_snapshot cd c (gs ! i) = Inr ()
            \<and> (\<forall>j < length gs. jg_identity (gs ! j) = ic_generation_id c \<longrightarrow> j = i))"

lemma read_ingest_cursor_Inr: "read_ingest_cursor db = Inr current \<Longrightarrow> current = db_cursor db"
  by (auto simp: read_ingest_cursor_def result_bind_eq_Inr_iff split: option.splits if_splits)

lemma journal_payloads_ok:
  assumes "try_map (journal_payload cd) xs = Inr ps"
  shows "\<forall>p \<in> set ps. payload_ok cd p"
  using try_map_mem [OF assms] journal_payload_Inr(2) by (metis prod_cases3)

lemma build_plan_Inr:
  assumes "build_reconciliation_plan cd gs current ns ph = Inr plan"
  obtains si so st where "cursor_start cd gs current ns ph = Inr (si, so)" and "si < length gs"
    and "plan_loop cd si so si (drop si gs) \<lparr>ps_payloads = [], ps_bytes = 0, ps_final_index = si, ps_final_offset = so,
         ps_advance = (current = None)\<rparr> = Inr st"
    and "rp_payloads plan = ps_payloads st" and "rp_ingested_bytes plan = ps_bytes st" and "rp_advance plan = ps_advance st"
    and "try_map (journal_payload cd) (readable so (drop si gs)) = Inr (ps_payloads st)"
    and "if ps_advance st then \<exists>c. rp_cursor plan = Some c \<and> make_cursor cd ns ph (gs ! ps_final_index st) (ps_final_offset st) = Inr c
         else rp_cursor plan = None"
    and "ps_bytes st = sum_list (map (length \<circ> pl_bytes) (ps_payloads st))"
proof -
  from assms obtain si so st where c: "cursor_start cd gs current ns ph = Inr (si, so)" and i: "si < length gs"
    and l: "plan_loop cd si so si (drop si gs) \<lparr>ps_payloads = [], ps_bytes = 0, ps_final_index = si, ps_final_offset = so,
         ps_advance = (current = None)\<rparr> = Inr st"
    and p: "rp_payloads plan = ps_payloads st" "rp_ingested_bytes plan = ps_bytes st" "rp_advance plan = ps_advance st"
    and cu: "if ps_advance st then \<exists>c. rp_cursor plan = Some c \<and> make_cursor cd ns ph (gs ! ps_final_index st) (ps_final_offset st) = Inr c
         else rp_cursor plan = None"
    by (auto simp: build_reconciliation_plan_def result_bind_eq_Inr_iff split: if_splits)
  from plan_loop_payloads [OF l order.refl]
  have q: "try_map (journal_payload cd) (readable so (drop si gs)) = Inr (ps_payloads st)"
    "ps_bytes st = sum_list (map (length \<circ> pl_bytes) (ps_payloads st))" by auto
  show ?thesis by (rule that [OF c i l p q(1) cu q(2)])
qed

lemma queue_all_other:
  "db_cursor (foldl (queue_delivery now e) db ss) = db_cursor db"
  "db_meta (foldl (queue_delivery now e) db ss) = db_meta db"
  "db_generations (foldl (queue_delivery now e) db ss) = db_generations db"
  by (induction ss arbitrary: db) (simp_all add: queue_delivery_def)

lemma store_event_other:
  "store_event now p db = Inr db' \<Longrightarrow> db_cursor db' = db_cursor db \<and> db_meta db' = db_meta db \<and> db_generations db' = db_generations db"
  by (auto simp: store_event_def split: option.splits if_splits)

lemma store_origin_other:
  "store_origin p db = Inr db' \<Longrightarrow> db_cursor db' = db_cursor db \<and> db_meta db' = db_meta db \<and> db_generations db' = db_generations db"
  by (auto simp: store_origin_def split: option.splits if_splits)

lemma insert_payload_other:
  assumes "insert_payload_transaction cd now ss db p = Inr db'"
  shows "db_cursor db' = db_cursor db \<and> db_meta db' = db_meta db \<and> db_generations db' = db_generations db"
  by (rule insert_payload_cases [OF assms])
    (auto simp: queue_all_other dest!: store_event_other store_origin_other)

lemma plan_loop_advance:
  assumes "plan_loop cd si so index gs st = Inr st'" and "\<not> ps_advance st'"
  shows "\<not> ps_advance st \<and> ps_payloads st' = ps_payloads st"
  using assms
proof (induction gs arbitrary: index st)
  case (Cons g gs)
  let ?o = "if index = si then so else 0"
  from Cons.prems obtain pr n where pr: "parse_generation cd g ?o = Inr pr"
    and n: "usize_checked_add (ps_bytes st) (sum_list (map (length \<circ> pl_bytes) (gp_payloads pr))) = Some n"
    by (auto simp: Let_def result_bind_eq_Inr_iff)
  then show ?case
    using Cons.prems Cons.IH by (cases "gp_complete pr") (auto simp: Let_def dest!: Cons.IH)
qed simp

lemma apply_plan_Inr:
  assumes "apply_plan cd now ss plan db = Inr db'" and "db_ok cd db" and "\<forall>p \<in> set (rp_payloads plan). payload_ok cd p"
    and "\<not> rp_advance plan \<Longrightarrow> rp_payloads plan = []"
  shows "db_ok cd db'" and "keeps db db'" and "\<forall>p \<in> set (rp_payloads plan). ingested cd ss db' p"
    and "store_all (stored db) (map identified (rp_payloads plan)) = Some (stored db')"
    and "db_cursor db' = (case rp_cursor plan of Some c \<Rightarrow> if rp_advance plan then Some c else db_cursor db | None \<Rightarrow> db_cursor db)"
proof -
  have "db_ok cd db' \<and> keeps db db' \<and> (\<forall>p \<in> set (rp_payloads plan). ingested cd ss db' p)
    \<and> store_all (stored db) (map identified (rp_payloads plan)) = Some (stored db')
    \<and> db_cursor db' = (case rp_cursor plan of Some c \<Rightarrow> if rp_advance plan then Some c else db_cursor db | None \<Rightarrow> db_cursor db)"
  proof (cases "rp_advance plan")
    case True
    obtain db1 where f: "try_fold (insert_payload_transaction cd now ss) db (rp_payloads plan) = Inr db1"
      and w: "(case rp_cursor plan of None \<Rightarrow> Inr db1 | Some c \<Rightarrow> write_ingest_cursor c db1) = Inr db'"
      using assms(1) True by (auto simp: apply_plan_def result_bind_eq_Inr_iff)
    note i = insert_payloads_ok [OF f assms(2,3)] insert_payloads_refines [OF f assms(2,3)]
    have c1: "db_cursor db1 = db_cursor db"
      by (rule try_fold_invariant [OF f, where I = "\<lambda>d. db_cursor d = db_cursor db"]) (auto dest: insert_payload_other)
    show ?thesis
    proof (cases "rp_cursor plan")
      case None
      with w i True c1 show ?thesis by simp
    next
      case (Some c)
      then have db': "db' = db1\<lparr>db_cursor := Some c\<rparr>" using w write_cursor_tables by simp
      with i Some True show ?thesis by (auto simp: db_ok_def keeps_def ingested_def stored_def)
    qed
  next
    case False
    with assms(1,2,4) show ?thesis by (simp add: apply_plan_def split: option.splits)
  qed
  then show "db_ok cd db'" and "keeps db db'" and "\<forall>p \<in> set (rp_payloads plan). ingested cd ss db' p"
    and "store_all (stored db) (map identified (rp_payloads plan)) = Some (stored db')"
    and "db_cursor db' = (case rp_cursor plan of Some c \<Rightarrow> if rp_advance plan then Some c else db_cursor db | None \<Rightarrow> db_cursor db)"
    by blast+
qed


text \<open>A successful reconciliation: it reads every complete record from its start on, and afterwards all
  of them are ingested.\<close>

lemma reconcile_jsonl_Inr:
  assumes "reconcile_jsonl cd ic now ph gs raw db = (Inr rr, db')" and ok: "db_ok cd db" and "gs \<noteq> []"
  obtains ss ns i offset ps st where "validate_sink_ids raw False = Inr ss" and "starts cd gs db i offset"
    and "try_map (journal_payload cd) (readable offset (drop i gs)) = Inr ps"
    and "db_ok cd db'" and "keeps db db'" and "\<forall>p \<in> set ps. ingested cd ss db' p"
    and "store_all (stored db) (map identified ps) = Some (stored db')"
    and "rr = \<lparr>rr_ingested_events = length ps, rr_ingested_bytes = sum_list (map (length \<circ> pl_bytes) ps)\<rparr>"
    and "plan_loop cd i offset i (drop i gs) \<lparr>ps_payloads = [], ps_bytes = 0, ps_final_index = i, ps_final_offset = offset,
         ps_advance = (db_cursor db = None)\<rparr> = Inr st"
    and "if ps_advance st then \<exists>c. db_cursor db' = Some c \<and> make_cursor cd ns ph (gs ! ps_final_index st) (ps_final_offset st) = Inr c
         else db_cursor db' = db_cursor db"
proof -
  from assms(1) obtain ss where ss: "validate_sink_ids raw False = Inr ss"
    and t: "reconcile_transaction cd ic now ph gs ss db = Inr (rr, db')"
    by (auto simp: reconcile_jsonl_def in_transaction_def split: sum.splits)
  from t obtain ns db1 db2 db3 plan where
    1: "ensure_journal_path ph db = Inr db1" and 2: "ensure_sink_identities ic ss db1 = Inr db2"
    and 3: "ensure_generation_metadata now ph gs db2 = Inr db3"
    and plan: "build_reconciliation_plan cd gs (db_cursor db) ns ph = Inr plan"
    and ap: "apply_plan cd now ss plan db3 = Inr db'"
    and rr: "rr = \<lparr>rr_ingested_events = length (rp_payloads plan), rr_ingested_bytes = rp_ingested_bytes plan\<rparr>"
    using assms(3) by (auto simp: reconcile_transaction_def result_bind_eq_Inr_iff dest: read_ingest_cursor_Inr)
  have same: "same_tables db db3"
    using ensure_tables(1) [OF 1] ensure_tables(2) [OF 2] ensure_generation_tables [OF 3] same_tables_trans by blast
  from plan obtain i offset st where cs: "cursor_start cd gs (db_cursor db) ns ph = Inr (i, offset)" and i: "i < length gs"
    and pl: "plan_loop cd i offset i (drop i gs) \<lparr>ps_payloads = [], ps_bytes = 0, ps_final_index = i, ps_final_offset = offset,
         ps_advance = (db_cursor db = None)\<rparr> = Inr st"
    and p: "rp_payloads plan = ps_payloads st" "rp_ingested_bytes plan = ps_bytes st" "rp_advance plan = ps_advance st"
    and tm: "try_map (journal_payload cd) (readable offset (drop i gs)) = Inr (ps_payloads st)"
    and cu: "if ps_advance st then \<exists>c. rp_cursor plan = Some c \<and> make_cursor cd ns ph (gs ! ps_final_index st) (ps_final_offset st) = Inr c
         else rp_cursor plan = None"
    and b: "ps_bytes st = sum_list (map (length \<circ> pl_bytes) (ps_payloads st))"
    by (rule build_plan_Inr)
  have st: "starts cd gs db i offset"
    using cursor_start_Inr [OF cs] i by (auto simp: starts_def split: option.splits)
  have ok3: "db_ok cd db3" using same_tables_ok [OF same] ok by simp
  have adv: "\<not> rp_advance plan \<Longrightarrow> rp_payloads plan = []" using plan_loop_advance [OF pl] p by simp
  have pok: "\<forall>p \<in> set (rp_payloads plan). payload_ok cd p" using journal_payloads_ok [OF tm] p by simp
  note a = apply_plan_Inr [OF ap ok3 pok adv]
  have k: "keeps db db'" using same_tables_keeps [OF same] a(2) keeps_trans by blast
  have sa: "store_all (stored db) (map identified (ps_payloads st)) = Some (stored db')"
    using a(4) same_tables_stored [OF same] p by simp
  have c': "if ps_advance st then \<exists>c. db_cursor db' = Some c \<and> make_cursor cd ns ph (gs ! ps_final_index st) (ps_final_offset st) = Inr c
         else db_cursor db' = db_cursor db"
    using cu a(5) same p by (auto simp: same_tables_def)
  show ?thesis by (rule that [OF ss st tm a(1) k _ sa _ pl c']) (use a(3) p b rr in simp_all)
qed

lemma reconcile_jsonl_empty:
  assumes "reconcile_jsonl cd ic now ph [] raw db = (Inr rr, db')" and ok: "db_ok cd db"
  shows "db_ok cd db'" and "keeps db db'" and "same_tables db db'" and "db_cursor db = None"
    and "rr = \<lparr>rr_ingested_events = 0, rr_ingested_bytes = 0\<rparr>"
proof -
  from assms(1) obtain ss where t: "reconcile_transaction cd ic now ph [] ss db = Inr (rr, db')"
    by (auto simp: reconcile_jsonl_def in_transaction_def split: sum.splits)
  then obtain db1 db2 where
    1: "ensure_journal_path ph db = Inr db1" and 2: "ensure_sink_identities ic ss db1 = Inr db2"
    and 3: "ensure_generation_metadata now ph [] db2 = Inr db'"
    and rest: "db_cursor db = None" "rr = \<lparr>rr_ingested_events = 0, rr_ingested_bytes = 0\<rparr>"
    by (auto simp: reconcile_transaction_def result_bind_eq_Inr_iff dest: read_ingest_cursor_Inr split: if_splits)
  show same: "same_tables db db'"
    using ensure_tables(1) [OF 1] ensure_tables(2) [OF 2] ensure_generation_tables [OF 3] same_tables_trans by blast
  then show "db_ok cd db'" and "keeps db db'" using ok same_tables_ok same_tables_keeps by blast+
  show "db_cursor db = None" and "rr = \<lparr>rr_ingested_events = 0, rr_ingested_bytes = 0\<rparr>" using rest .
qed

lemma reconcile_jsonl_Inl: "reconcile_jsonl cd ic now ph gs raw db = (Inl e, db') \<Longrightarrow> db' = db"
  by (auto simp: reconcile_jsonl_def in_transaction_def split: sum.splits)

interpretation reconcile: durable_operation cd "\<lambda>db. snd (reconcile_jsonl cd ic now ph gs raw db)" "\<lambda>_. True"
  for cd ic now ph gs raw
proof
  fix db assume ok: "db_ok cd db"
  obtain r db' where r: "reconcile_jsonl cd ic now ph gs raw db = (r, db')" by fastforce
  have "db_ok cd db' \<and> keeps db db'"
  proof (cases r)
    case (Inl e)
    with r have "db' = db" using reconcile_jsonl_Inl by blast
    with ok show ?thesis by simp
  next
    case (Inr rr)
    show ?thesis
    proof (cases "gs = []")
      case True
      with r Inr ok show ?thesis using reconcile_jsonl_empty by blast
    next
      case False
      from r Inr have r': "reconcile_jsonl cd ic now ph gs raw db = (Inr rr, db')" by simp
      show ?thesis by (rule reconcile_jsonl_Inr [OF r' ok False]) blast
    qed
  qed
  with r show "db_ok cd (snd (reconcile_jsonl cd ic now ph gs raw db))" and "keeps db (snd (reconcile_jsonl cd ic now ph gs raw db))"
    by simp_all
qed

text \<open>C3. Reconciliation refines insertion of the complete unread records, in order, into a write-once
  store of canonical bytes: when it succeeds, every complete record from the cursor on is a canonical
  event, the store is the abstract store after inserting them, and the reported counts are theirs;
  when it fails, no table has changed.\<close>

theorem reconcile_refines_store:
  assumes "db_ok cd db" and "reconcile_jsonl cd ic now ph gs raw db = (r, db')" and "gs \<noteq> []"
  shows "case r of
      Inl e \<Rightarrow> db' = db
    | Inr rr \<Rightarrow> \<exists>i offset ps. starts cd gs db i offset
        \<and> try_map (journal_payload cd) (readable offset (drop i gs)) = Inr ps
        \<and> store_all (stored db) (map identified ps) = Some (stored db')
        \<and> rr_ingested_events rr = length ps \<and> rr_ingested_bytes rr = sum_list (map (length \<circ> pl_bytes) ps)"
proof (cases r)
  case (Inl e)
  with assms(2) have "db' = db" using reconcile_jsonl_Inl by blast
  with Inl show ?thesis by simp
next
  case (Inr rr)
  then have r': "reconcile_jsonl cd ic now ph gs raw db = (Inr rr, db')" using assms(2) by simp
  show ?thesis by (rule reconcile_jsonl_Inr [OF r' assms(1,3)]) (auto simp: Inr)
qed

section \<open>Pruning loses nothing\<close>

text \<open>A generation is covered when it ends in a complete record and each of its records is stored byte
  for byte.\<close>

definition covered :: "outbox_db \<Rightarrow> JsonlGeneration \<Rightarrow> bool" where
  "covered db g \<longleftrightarrow> complete_file g \<and> (\<forall>l \<in> set (complete_lines (jg_bytes g)). \<exists>e. stored db e = Some l)"

lemma already_stored: "event_is_already_stored db p = Inr True \<Longrightarrow> stored db (pl_event_id p) = Some (pl_bytes p)"
  by (auto simp: event_is_already_stored_def stored_def split: option.splits if_splits)

lemma all_origins_match_stored:
  assumes "all_origins_match db gid ps = Inr True" and "p \<in> set ps"
  shows "stored db (pl_event_id p) = Some (pl_bytes p)"
  using assms
proof (induction ps)
  case (Cons q ps)
  then have "origin_matches db gid q = Inr True" and "all_origins_match db gid ps = Inr True"
    by (auto simp: result_bind_eq_Inr_iff split: if_splits)
  moreover from this(1) have "event_is_already_stored db q = Inr True"
    by (auto simp: origin_matches_def split: option.splits if_splits)
  ultimately show ?case using Cons already_stored by auto
qed simp

lemma eligible_covered:
  assumes "generation_is_eligible cd db ph gs g = Inr True"
  shows "\<not> jg_is_active g" and "covered db g"
    and "\<exists>c i j. db_cursor db = Some c \<and> find_index gs (jg_identity g) = Some i
      \<and> find_index gs (ic_generation_id c) = Some j \<and> i < j"
proof -
  from assms obtain c i j pr where na: "\<not> jg_is_active g" and c: "read_ingest_cursor db = Inr (Some c)"
    and i: "find_index gs (jg_identity g) = Some i" and j: "find_index gs (ic_generation_id c) = Some j" and lt: "i < j"
    and pr: "parse_generation cd g 0 = Inr pr" and co: "gp_complete pr"
    and om: "generation_origins_match db (jg_identity g) (gp_payloads pr) = Inr True"
    by (auto simp: generation_is_eligible_def result_bind_eq_Inr_iff split: if_splits option.splits)
  show "\<not> jg_is_active g" by (rule na)
  show "\<exists>c i j. db_cursor db = Some c \<and> find_index gs (jg_identity g) = Some i
      \<and> find_index gs (ic_generation_id c) = Some j \<and> i < j"
    using read_ingest_cursor_Inr [OF c, symmetric] i j lt by blast
  note p = parse_generation_Inr(3,4) [OF pr]
  have "\<exists>e. stored db e = Some l" if l: "l \<in> set (complete_lines (jg_bytes g))" for l
  proof -
    have "l \<in> set (map snd (unread_records g 0))" using l by (simp add: unread_records_def)
    then obtain n where "(n, l) \<in> set (unread_records g 0)" by auto
    then obtain q where q: "q \<in> set (gp_payloads pr)" and rq: "record_payload cd g (n, l) = Inr q"
      using try_map_covers [OF p(1)] by blast
    have "pl_bytes q = l" using rq line_payload_Inr(1) by (auto simp: record_payload_def)
    moreover have "all_origins_match db (jg_identity g) (gp_payloads pr) = Inr True"
      using om by (auto simp: generation_origins_match_def split: if_splits)
    ultimately show ?thesis using all_origins_match_stored q by blast
  qed
  then show "covered db g" using p(2) co by (simp add: covered_def complete_file_def)
qed

text \<open>What pruning may do to journal and outbox.\<close>

definition newest :: "nat \<Rightarrow> JsonlGeneration list \<Rightarrow> JsonlGeneration list" where
  "newest keep gs = take keep (rev (filter (\<lambda>g. \<not> jg_is_active g) gs))"

definition prune_safe :: "nat \<Rightarrow> JsonlGeneration list \<times> outbox_db \<Rightarrow> JsonlGeneration list \<times> outbox_db \<Rightarrow> bool" where
  "prune_safe keep s s' \<longleftrightarrow> same_tables (snd s) (snd s') \<and> subseq (fst s') (fst s)
     \<and> filter jg_is_active (fst s') = filter jg_is_active (fst s) \<and> newest keep (fst s') = newest keep (fst s)
     \<and> (\<forall>g \<in> set (fst s) - set (fst s'). covered (snd s) g)"

lemma covered_same_tables: "same_tables db db' \<Longrightarrow> covered db' g = covered db g"
  by (simp add: covered_def same_tables_stored)

lemma prune_safe_refl [simp]: "prune_safe keep s s"
  by (simp add: prune_safe_def same_tables_def)

lemma prune_safe_db: "same_tables db db' \<Longrightarrow> prune_safe keep (gs, db) (gs, db')"
  by (simp add: prune_safe_def)

lemma prune_safe_trans:
  assumes "prune_safe keep a b" and "prune_safe keep b c"
  shows "prune_safe keep a c"
proof -
  have "covered (snd a) g" if "g \<in> set (fst a) - set (fst c)" for g
    using assms that covered_same_tables [of "snd a" "snd b" g] by (cases "g \<in> set (fst b)") (auto simp: prune_safe_def)
  then show ?thesis
    using assms same_tables_trans [of "snd a" "snd b" "snd c"] by (auto simp: prune_safe_def intro: subseq_order.trans)
qed

lemma set_lifecycle_tables: "set_lifecycle gid a b t db = Some db' \<Longrightarrow> same_tables db db'"
  by (auto simp: set_lifecycle_def same_tables_def split: option.splits if_splits)

lemma lifecycle_tables:
  "restore_present_transaction gid db = Inr db' \<Longrightarrow> same_tables db db'"
  "finalize_prune_pending_transaction now gid db = Inr db' \<Longrightarrow> same_tables db db'"
  "mark_generation_prune_pending gid db = (b, db') \<Longrightarrow> same_tables db db'"
  by (auto simp: restore_present_transaction_def finalize_prune_pending_transaction_def mark_generation_prune_pending_def
      same_tables_def dest!: set_lifecycle_tables split: option.splits)

lemma position_nth: "position P xs = Some i \<Longrightarrow> i < length xs \<and> P (xs ! i)"
  by (induction xs arbitrary: i) (auto split: if_splits)

lemma newest_remove:
  assumes "i < length gs" and "\<not> jg_is_active (gs ! i)" and "\<not> is_newest_kept_generation gs (jg_identity (gs ! i)) keep"
  shows "newest keep (take i gs @ drop (Suc i) gs) = newest keep gs"
proof -
  let ?P = "\<lambda>g. \<not> jg_is_active g"
  let ?A = "filter ?P (take i gs)" and ?B = "filter ?P (drop (Suc i) gs)"
  have gs: "gs = take i gs @ gs ! i # drop (Suc i) gs" using assms(1) by (rule id_take_nth_drop)
  have fl: "filter ?P gs = ?A @ gs ! i # ?B" using assms(2) by (subst gs) simp
  have "keep \<le> length ?B"
  proof (rule ccontr)
    assume "\<not> keep \<le> length ?B"
    then obtain m where m: "keep - length ?B = Suc m" by (cases "keep - length ?B") auto
    have "gs ! i \<in> set (take keep (rev (filter ?P gs)))" unfolding fl by (simp add: m)
    then have "is_newest_kept_generation gs (jg_identity (gs ! i)) keep"
      by (auto simp: is_newest_kept_generation_def list_ex_iff)
    with assms(3) show False by simp
  qed
  then show ?thesis unfolding newest_def fl by simp
qed

lemma recover_prune_safe:
  assumes "recover_prune_pending cd now ph keep gid (gs, db) = (r, s')"
  shows "prune_safe keep (gs, db) s'"
proof (cases "validate_generation_metadata_readonly db ph gs False")
  case (Inl e)
  with assms show ?thesis by (auto simp: recover_prune_pending_def)
next
  case v: (Inr u)
  show ?thesis
  proof (cases "find_index gs gid")
    case None
    with v assms show ?thesis
      by (auto simp: recover_prune_pending_def split: sum.splits intro!: prune_safe_db dest: lifecycle_tables)
  next
    case (Some i)
    then have i: "i < length gs" and gid: "jg_identity (gs ! i) = gid"
      using position_nth [of "\<lambda>g. jg_identity g = gid" gs i] by (simp_all add: find_index_def)
    let ?rm = "take i gs @ drop (Suc i) gs"
    have rm: "prune_safe keep (gs, db) (?rm, db)"
      if "\<not> jg_is_active (gs ! i)" "\<not> is_newest_kept_generation gs gid keep"
        and el: "generation_is_eligible cd db ph gs (gs ! i) = Inr True"
    proof -
      have gs: "gs = take i gs @ gs ! i # drop (Suc i) gs" using i by (rule id_take_nth_drop)
      have "subseq ?rm gs" by (subst (3) gs) (intro list_emb_append_mono, auto)
      moreover have "filter jg_is_active ?rm = filter jg_is_active gs"
        using that(1) by (subst (3) gs) simp
      moreover have "newest keep ?rm = newest keep gs" using newest_remove i that(1,2) gid by blast
      moreover have "covered db g" if "g \<in> set gs" "g \<notin> set ?rm" for g
      proof -
        from that gs have "g = gs ! i" by (metis Un_iff set_ConsD set_append)
        then show ?thesis using eligible_covered(2) [OF el] by simp
      qed
      ultimately show ?thesis by (auto simp: prune_safe_def same_tables_def)
    qed
    show ?thesis
    proof (cases "jg_is_active (gs ! i) \<or> is_newest_kept_generation gs gid keep")
      case True
      with v Some assms show ?thesis
        by (auto simp: recover_prune_pending_def split: sum.splits intro!: prune_safe_db dest: lifecycle_tables)
    next
      case False
      show ?thesis
      proof (cases "generation_is_eligible cd db ph gs (gs ! i) = Inr True")
        case True
        then have "fst s' = ?rm \<and> same_tables db (snd s')"
          using v Some assms False
          by (auto simp: recover_prune_pending_def Let_def same_tables_def split: sum.splits dest!: lifecycle_tables)
        then have "prune_safe keep (?rm, db) s'" by (metis prune_safe_db prod.collapse)
        with rm True False show ?thesis using prune_safe_trans by blast
      next
        case el: False
        with v Some assms False show ?thesis
          by (auto simp: recover_prune_pending_def split: sum.splits bool.splits intro!: prune_safe_db dest: lifecycle_tables)
      qed
    qed
  qed
qed

lemma recovery_step_safe: "prune_safe keep (snd st) (snd (recovery_step cd now ph keep st r))"
proof -
  obtain rep gs db where st: "st = (rep, gs, db)" by (cases st)
  obtain out s' where o: "recover_prune_pending cd now ph keep (gm_generation_id r) (gs, db) = (out, s')" by (rule prod.exhaust)
  have "snd (recovery_step cd now ph keep st r) = s'"
    by (cases out; cases "projr out") (auto simp: recovery_step_def st o)
  with recover_prune_safe [OF o] show ?thesis by (simp add: st)
qed

lemma candidate_step_safe: "prune_safe keep (snd st) (snd (candidate_step cd now ph keep gens ms st g))"
proof -
  obtain rep gs db where st: "st = (rep, gs, db)" by (cases st)
  obtain b db1 where mk: "mark_generation_prune_pending (jg_identity g) db = (b, db1)" by fastforce
  obtain out s' where o: "recover_prune_pending cd now ph keep (jg_identity g) (gs, db1) = (out, s')" by (rule prod.exhaust)
  have "snd (candidate_step cd now ph keep gens ms st g) \<in> {(gs, db), (gs, db1), s'}"
    by (cases out; cases "projr out") (auto simp: candidate_step_def st mk o split: sum.splits bool.splits)
  moreover have 1: "prune_safe keep (gs, db) (gs, db1)" using lifecycle_tables(3) [OF mk] by (rule prune_safe_db)
  moreover have "prune_safe keep (gs, db) s'" using 1 recover_prune_safe [OF o] by (rule prune_safe_trans)
  ultimately show ?thesis by (auto simp: st)
qed

lemma foldl_prune_safe:
  assumes "\<And>st x. prune_safe keep (snd st) (snd (f st x))"
  shows "prune_safe keep (snd st) (snd (foldl f st xs))"
proof (induction xs arbitrary: st)
  case (Cons x xs)
  then show ?case using assms [of st x] prune_safe_trans by (metis foldl_Cons)
qed simp

lemma prune_rotations_safe:
  assumes "prune_eligible_rotations cd now ph keep (gs, db) = (report, s')"
  shows "prune_safe keep (gs, db) s'"
proof (cases "list_ex jg_is_active gs")
  case False
  with assms show ?thesis by (auto simp: prune_eligible_rotations_def)
next
  case True
  show ?thesis
  proof (cases "validate_generation_metadata_readonly db ph gs False")
    case (Inl e)
    with assms True show ?thesis by (auto simp: prune_eligible_rotations_def)
  next
    case v: (Inr u)
    show ?thesis
    proof (cases "read_generation_metadata db")
      case (Inl e)
      with assms True v show ?thesis by (auto simp: prune_eligible_rotations_def)
    next
      case (Inr ms)
      let ?st0 = "(empty_report, gs, db)"
      let ?st1 = "foldl (recovery_step cd now ph keep) ?st0 (filter (\<lambda>r. gm_lifecycle r = PrunePending) ms)"
      let ?st2 = "foldl (candidate_step cd now ph keep gs ms) ?st1
        (filter (\<lambda>g. \<not> jg_is_active g \<and> \<not> is_newest_kept_generation gs (jg_identity g) keep) gs)"
      have "prune_safe keep (snd ?st0) (snd ?st1)" by (rule foldl_prune_safe) (rule recovery_step_safe)
      moreover have "prune_safe keep (snd ?st1) (snd ?st2)" by (rule foldl_prune_safe) (rule candidate_step_safe)
      ultimately have "prune_safe keep (snd ?st0) (snd ?st2)" by (rule prune_safe_trans)
      moreover have "snd ?st2 = s'" using assms True v Inr by (simp add: prune_eligible_rotations_def)
      ultimately show ?thesis by simp
    qed
  qed
qed

text \<open>C4. Pruning deletes a journal generation only when nothing is lost by it: the generation is not
  active and not among the newest to be kept, it ends in a complete record, and the outbox holds every
  one of its records byte for byte. The delivery tables do not change, and generations that stay keep
  their order.\<close>

theorem prune_loses_nothing:
  assumes "prune_eligible_rotations cd now ph keep (gs, db) = (report, gs', db')"
  shows "subseq gs' gs \<and> filter jg_is_active gs' = filter jg_is_active gs
    \<and> take keep (rev (filter (\<lambda>g. \<not> jg_is_active g) gs')) = take keep (rev (filter (\<lambda>g. \<not> jg_is_active g) gs))
    \<and> db_events db' = db_events db \<and> db_deliveries db' = db_deliveries db
    \<and> (\<forall>g \<in> set gs - set gs'. jg_bytes g = unlines (complete_lines (jg_bytes g))
         \<and> (\<forall>l \<in> set (complete_lines (jg_bytes g)). \<exists>e. stored db' e = Some l))"
proof -
  note safe = prune_rotations_safe [OF assms]
  have same: "same_tables db db'" using safe by (simp add: prune_safe_def)
  have "jg_bytes g = unlines (complete_lines (jg_bytes g)) \<and> (\<forall>l \<in> set (complete_lines (jg_bytes g)). \<exists>e. stored db' e = Some l)"
    if "g \<in> set gs - set gs'" for g
  proof -
    have "covered db g" using safe that by (simp add: prune_safe_def)
    then show ?thesis using lines_decompose(1) [of "jg_bytes g"] same_tables_stored [OF same]
      by (simp add: covered_def complete_file_def)
  qed
  with safe same show ?thesis by (simp add: prune_safe_def newest_def same_tables_def)
qed

section \<open>A concrete journal\<close>

definition sample_hash :: string where
  "sample_hash = replicate 64 (CHR ''a'')"

definition sample_ids :: identity_codec where
  "sample_ids = \<lparr>id_encode = \<lambda>xs. join '','' xs, id_decode = \<lambda>s. Some (split_on (\<lambda>c. c = CHR '','') s)\<rparr>"

definition empty_outbox :: outbox_db where
  "empty_outbox = \<lparr>db_meta = [(''journal_namespace'', ''n'')], db_events = [], db_deliveries = [], db_origins = [],
     db_health = [], db_cursor = None, db_generations = []\<rparr>"

definition sample_journal :: "JsonlGeneration list" where
  "sample_journal = [\<lparr>jg_identity = ''g'', jg_is_active = True, jg_bytes = sample_event @ [newline]\<rparr>]"

lemma empty_outbox_ok: "db_ok cd empty_outbox"
  by (simp add: db_ok_def empty_outbox_def)

lemma sample_payload: "canonical_payload_from_bytes sample_codec sample_event
    = Inr \<lparr>pl_event_id = sample_event, pl_bytes = sample_event, pl_hash = cd_sha256 sample_codec sample_event,
        pl_generation_id = None, pl_generation_offset = None\<rparr>"
  using sample_validate [of sample_event]
  by (simp add: canonical_payload_from_bytes_def) (simp add: sample_codec_def sample_json_def)

lemma sample_lines: "complete_lines (sample_event @ [newline]) = [sample_event]" "tail_of (sample_event @ [newline]) = []"
proof -
  have "newline_free sample_event" by (simp add: newline_free_def sample_event_def)
  then show "complete_lines (sample_event @ [newline]) = [sample_event]" "tail_of (sample_event @ [newline]) = []"
    using lines_unique [of "[sample_event]" "[]"] by (simp_all add: newline_free_def)
qed

lemma sample_hash_valid: "validate_journal_path_hash sample_hash = Inr sample_hash"
  by (simp add: validate_journal_path_hash_def bounded_cursor_text_def MAX_CURSOR_TEXT_def sample_hash_def numeral_eq_Suc
      lower_hex_def less_eq_char_def rust_simps)

lemma sample_length [simp]: "length sample_event = 45"
  by (simp add: sample_event_def)

lemma sample_not_alert [simp]: "\<not> is_delivery_failure_alert_payload sample_codec sample_event"
  by (simp add: is_delivery_failure_alert_payload_def sample_codec_def sample_json_def)

lemma sample_texts:
  "bounded_cursor_text sample_hash w = Inr sample_hash" "bounded_cursor_text ''n'' w = Inr ''n''" "bounded_cursor_text ''g'' w = Inr ''g''"
  by (simp_all add: bounded_cursor_text_def MAX_CURSOR_TEXT_def sample_hash_def numeral_eq_Suc rust_simps)

lemma sample_plan:
  "build_reconciliation_plan sample_codec sample_journal None ''n'' sample_hash
    = result_bind (make_cursor sample_codec ''n'' sample_hash (hd sample_journal) 46) (\<lambda>c.
        Inr \<lparr>rp_payloads = [\<lparr>pl_event_id = sample_event, pl_bytes = sample_event, pl_hash = cd_sha256 sample_codec sample_event,
          pl_generation_id = Some ''g'', pl_generation_offset = Some 0\<rparr>], rp_cursor = Some c, rp_advance = True, rp_ingested_bytes = 45\<rparr>)"
proof -
  have cr: "\<not> ends_with sample_event carriage_return" by (simp add: ends_with_def sample_event_def)
  have "parse_generation sample_codec (hd sample_journal) 0 = Inr \<lparr>gp_next_offset = 46, gp_complete = True,
      gp_payloads = [\<lparr>pl_event_id = sample_event, pl_bytes = sample_event, pl_hash = cd_sha256 sample_codec sample_event,
        pl_generation_id = Some ''g'', pl_generation_offset = Some 0\<rparr>]\<rparr>"
    by (subst parse_generation_eq)
      (simp_all add: boundary_ok_def unread_records_def sample_lines record_payload_def line_payload_def cr sample_payload sample_journal_def)
  then show ?thesis
    by (cases "make_cursor sample_codec ''n'' sample_hash (hd sample_journal) 46")
      (simp_all add: build_reconciliation_plan_def sample_journal_def cursor_start_def usize_checked_add_def USIZE_MAX_def)
qed

lemmas sample_reconcile_simps =
  reconcile_jsonl_def sample_sink_valid in_transaction_def reconcile_transaction_def read_ingest_cursor_def
  journal_namespace_def empty_outbox_def bt_get_def sample_texts ensure_journal_path_def ensure_sink_identities_def
  ensure_generation_metadata_def sample_hash_valid validate_observed_generations_def observe_generation_def
  read_generation_metadata_def register_generation_def recorded_lifecycle_def btree_set_def
  sample_journal_def sample_plan [unfolded sample_journal_def list.sel] make_cursor_def apply_plan_def insert_payload_transaction_def check_provenance_def
  store_event_def store_origin_def I64_MAX_def write_ingest_cursor_def prefix_digest_def window_digest_def CURSOR_INTEGRITY_WINDOW_def

lemma sample_reconcile:
  "\<exists>db'. reconcile_jsonl sample_codec sample_ids 7 sample_hash sample_journal [''a''] empty_outbox
    = (Inr \<lparr>rr_ingested_events = 1, rr_ingested_bytes = 45\<rparr>, db')"
  by (simp add: sample_reconcile_simps)

theorem reconcile_refines_store_witness:
  "\<exists>rr db' i offset ps. reconcile_jsonl sample_codec sample_ids 7 sample_hash sample_journal [''a''] empty_outbox = (Inr rr, db')
     \<and> starts sample_codec sample_journal empty_outbox i offset
     \<and> try_map (journal_payload sample_codec) (readable offset (drop i sample_journal)) = Inr ps
     \<and> store_all (stored empty_outbox) (map identified ps) = Some (stored db') \<and> length ps = 1"
proof -
  obtain db' where r: "reconcile_jsonl sample_codec sample_ids 7 sample_hash sample_journal [''a''] empty_outbox
    = (Inr \<lparr>rr_ingested_events = 1, rr_ingested_bytes = 45\<rparr>, db')"
    using sample_reconcile by blast
  show ?thesis using reconcile_refines_store [OF empty_outbox_ok r] r by (fastforce simp: sample_journal_def)
qed

text \<open>A rotated generation whose record is stored, and an active one that the cursor has reached.\<close>

definition rotated_generation :: JsonlGeneration where
  "rotated_generation = \<lparr>jg_identity = ''g'', jg_is_active = False, jg_bytes = sample_event @ [newline]\<rparr>"

definition active_generation :: JsonlGeneration where
  "active_generation = \<lparr>jg_identity = ''h'', jg_is_active = True, jg_bytes = []\<rparr>"

definition rotated_db :: outbox_db where
  "rotated_db = sample_db\<lparr>db_origins := [(sample_event, ''g'', 0)],
     db_cursor := Some \<lparr>ic_journal_namespace = ''n'', ic_journal_path_hash = sample_hash, ic_generation_id = ''h'', ic_byte_offset = 0,
       ic_observed_length = 0, ic_window_start = 0, ic_prefix_hash = cd_sha256 sample_codec [], ic_window_hash = cd_sha256 sample_codec []\<rparr>,
     db_generations := [(''g'', \<lparr>col_journal_path_hash = sample_hash, col_observed_at = 1, col_lifecycle = ''present'', col_pruned_at = None\<rparr>),
       (''h'', \<lparr>col_journal_path_hash = sample_hash, col_observed_at = 1, col_lifecycle = ''present'', col_pruned_at = None\<rparr>)]\<rparr>"

lemma bounded_samples [simp]:
  "bounded_cursor_text ''n'' w = Inr ''n''" "bounded_cursor_text ''g'' w = Inr ''g''" "bounded_cursor_text ''h'' w = Inr ''h''"
  "bounded_cursor_text sample_hash w = Inr sample_hash"
  by (simp_all add: bounded_cursor_text_def MAX_CURSOR_TEXT_def rust_simps sample_hash_def numeral_eq_Suc)

lemma sample_parse:
  "parse_generation sample_codec \<lparr>jg_identity = ''g'', jg_is_active = b, jg_bytes = sample_event @ [newline]\<rparr> 0
    = Inr \<lparr>gp_next_offset = 46, gp_complete = True, gp_payloads = [\<lparr>pl_event_id = sample_event, pl_bytes = sample_event,
        pl_hash = cd_sha256 sample_codec sample_event, pl_generation_id = Some ''g'', pl_generation_offset = Some 0\<rparr>]\<rparr>"
proof -
  have "\<not> ends_with sample_event carriage_return" "length sample_event = 45" by (simp_all add: ends_with_def sample_event_def)
  then show ?thesis
    by (subst parse_generation_eq)
      (simp_all add: boundary_ok_def unread_records_def sample_lines record_payload_def line_payload_def sample_payload)
qed

lemma rotated_eligible:
  assumes "db_cursor db = db_cursor rotated_db" and "db_origins db = db_origins rotated_db" and "db_events db = db_events rotated_db"
  shows "generation_is_eligible sample_codec db sample_hash [rotated_generation, active_generation] rotated_generation = Inr True"
proof -
  have p: "parse_generation sample_codec rotated_generation 0
    = Inr \<lparr>gp_next_offset = 46, gp_complete = True, gp_payloads = [\<lparr>pl_event_id = sample_event, pl_bytes = sample_event,
        pl_hash = cd_sha256 sample_codec sample_event, pl_generation_id = Some ''g'', pl_generation_offset = Some 0\<rparr>]\<rparr>"
    unfolding rotated_generation_def by (rule sample_parse)
  have v: "verify_cursor_against_snapshot sample_codec (the (db_cursor rotated_db)) active_generation = Inr ()"
    by (simp add: verify_cursor_against_snapshot_def rotated_db_def active_generation_def boundary_ok_def prefix_digest_def
        window_digest_def CURSOR_INTEGRITY_WINDOW_def)
  have o: "generation_origins_match db ''g'' [\<lparr>pl_event_id = sample_event, pl_bytes = sample_event,
        pl_hash = cd_sha256 sample_codec sample_event, pl_generation_id = Some ''g'', pl_generation_offset = Some 0\<rparr>] = Inr True"
    by (simp add: generation_origins_match_def origin_matches_def origin_event_def I64_MAX_def event_is_already_stored_def
        assms rotated_db_def sample_db_def bt_get_def)
  have c: "read_ingest_cursor db = Inr (db_cursor rotated_db)"
    by (simp add: read_ingest_cursor_def assms(1) rotated_db_def)
  show ?thesis
    using p v o
    by (simp add: generation_is_eligible_def c) (simp add: rotated_db_def find_index_def rotated_generation_def active_generation_def)
qed

lemma generations_valid:
  "validate_generation_metadata_readonly (rotated_db\<lparr>db_generations := gens\<rparr>) sample_hash [rotated_generation, active_generation] False = Inr ()"
  if "gens = [(''g'', \<lparr>col_journal_path_hash = sample_hash, col_observed_at = 1, col_lifecycle = l, col_pruned_at = None\<rparr>),
     (''h'', \<lparr>col_journal_path_hash = sample_hash, col_observed_at = 1, col_lifecycle = ''present'', col_pruned_at = None\<rparr>)]"
    and "l \<in> {''present'', ''prune_pending''}"
  using that
  by (auto simp: validate_generation_metadata_readonly_def sample_hash_valid validate_observed_generations_def observe_generation_def
      rotated_generation_def active_generation_def read_generation_metadata_def decode_generation_def lifecycle_from_str_def
      check_recorded_def check_observed_def recorded_lifecycle_def btree_set_def less_char_def)

lemma sample_prune:
  "\<exists>db'. prune_eligible_rotations sample_codec 9 sample_hash 0 ([rotated_generation, active_generation], rotated_db)
    = (\<lparr>pr_pruned = 1, pr_finalized_pending = 0, pr_protected = 0, pr_warnings = []\<rparr>, [active_generation], db')"
proof -
  let ?h = "(''h'', \<lparr>col_journal_path_hash = sample_hash, col_observed_at = 1, col_lifecycle = ''present'', col_pruned_at = None\<rparr>)"
  let ?g = "\<lambda>l. (''g'', \<lparr>col_journal_path_hash = sample_hash, col_observed_at = 1, col_lifecycle = l, col_pruned_at = None\<rparr>)"
  let ?gs = "[rotated_generation, active_generation]"
  let ?pending = "rotated_db\<lparr>db_generations := [?g ''prune_pending'', ?h]\<rparr>"
  have gens: "db_generations rotated_db = [?g ''present'', ?h]" by (simp add: rotated_db_def)
  have same: "rotated_db\<lparr>db_generations := [?g ''present'', ?h]\<rparr> = rotated_db" by (simp add: rotated_db_def)
  have v1: "validate_generation_metadata_readonly rotated_db sample_hash ?gs False = Inr ()"
    using generations_valid [OF refl, of "''present''"] same by simp
  have v2: "validate_generation_metadata_readonly ?pending sample_hash ?gs False = Inr ()"
    using generations_valid [OF refl, of "''prune_pending''"] by simp
  have md: "read_generation_metadata rotated_db
    = Inr [\<lparr>gm_generation_id = ''g'', gm_journal_path_hash = sample_hash, gm_observed_at = 1, gm_lifecycle = Present, gm_pruned_at = None\<rparr>,
        \<lparr>gm_generation_id = ''h'', gm_journal_path_hash = sample_hash, gm_observed_at = 1, gm_lifecycle = Present, gm_pruned_at = None\<rparr>]"
    by (simp add: read_generation_metadata_def gens decode_generation_def sample_hash_valid lifecycle_from_str_def)
  have mk: "mark_generation_prune_pending ''g'' rotated_db = (True, ?pending)"
    by (simp add: mark_generation_prune_pending_def set_lifecycle_def gens bt_get_def)
  have fz: "\<exists>db'. finalize_prune_pending_transaction 9 ''g'' ?pending = Inr db'"
    by (simp add: finalize_prune_pending_transaction_def set_lifecycle_def bt_get_def)
  have e1: "generation_is_eligible sample_codec rotated_db sample_hash ?gs rotated_generation = Inr True"
    by (rule rotated_eligible) simp_all
  have e2: "generation_is_eligible sample_codec ?pending sample_hash ?gs rotated_generation = Inr True"
    by (rule rotated_eligible) simp_all
  have na: "\<not> jg_is_active rotated_generation" "jg_is_active active_generation" "jg_identity rotated_generation = ''g''"
    "jg_identity active_generation = ''h''" by (simp_all add: rotated_generation_def active_generation_def)
  have nk: "\<not> is_newest_kept_generation ?gs ''g'' 0" by (simp add: is_newest_kept_generation_def)
  obtain db' where rec: "recover_prune_pending sample_codec 9 sample_hash 0 ''g'' (?gs, ?pending) = (Inr PrunedFile, [active_generation], db')"
    using fz by (auto simp: recover_prune_pending_def v2 find_index_def na nk e2)
  show ?thesis
    by (simp add: prune_eligible_rotations_def v1 md na nk candidate_step_def e1 mk rec empty_report_def is_newest_kept_generation_def)
qed

theorem prune_loses_nothing_witness:
  "\<exists>report db'. prune_eligible_rotations sample_codec 9 sample_hash 0 ([rotated_generation, active_generation], rotated_db)
      = (report, [active_generation], db')
    \<and> (\<forall>g \<in> {rotated_generation}. \<forall>l \<in> set (complete_lines (jg_bytes g)). \<exists>e. stored db' e = Some l)"
proof -
  obtain report db' where r: "prune_eligible_rotations sample_codec 9 sample_hash 0 ([rotated_generation, active_generation], rotated_db)
      = (report, [active_generation], db')" using sample_prune by blast
  have "rotated_generation \<in> set [rotated_generation, active_generation] - set [active_generation]"
    by (simp add: rotated_generation_def active_generation_def)
  then show ?thesis using prune_loses_nothing [OF r] r by blast
qed

end
