(* ===== verification/Rotation.thy ===== *)
theory Rotation
  imports Outbox_Journal
begin

text \<open>
  The local JSONL sink, \<open>src/sink/jsonl.rs\<close>, and the discovery of its generations,
  \<open>crates/telltale-sources/src/journal.rs\<close>: appending to the active file, rotation under a dated
  name with a counter, cleanup of old rotations, and the order in which generations are read.

  The directory of the log is a sorted map from names to files, each with the identity
  that the platform gives it and that survives a rename, the kind of the entry, and its number
  of links. Names are UTF-8. The lock file beside the log and what other processes do to it are an
  argument of an emission. Failures of the file system itself (a full disk, missing permissions) end the
  operation with an error and are not modelled further.
\<close>

section \<open>Calendar\<close>

text \<open>Days since 1970-01-01 to a civil date; \<open>i64\<close> division truncates towards zero. The arguments stay far
  from the bounds of \<open>i64\<close>.\<close>

definition tdiv :: "int \<Rightarrow> int \<Rightarrow> int" where
  "tdiv a b = sgn a * sgn b * (\<bar>a\<bar> div \<bar>b\<bar>)"

definition civil_from_days :: "int \<Rightarrow> int \<times> int \<times> int" where
  "civil_from_days days =
    (let z = days + 719468;
         era = tdiv (if 0 \<le> z then z else z - 146096) 146097;
         doe = z - era * 146097;
         yoe = tdiv (doe - tdiv doe 1460 + tdiv doe 36524 - tdiv doe 146096) 365;
         y = yoe + era * 400;
         doy = doe - (365 * yoe + tdiv yoe 4 - tdiv yoe 100);
         mp = tdiv (5 * doy + 2) 153;
         d = doy - tdiv (153 * mp + 2) 5 + 1;
         m = (if mp < 10 then mp + 3 else mp - 9);
         y' = (if m \<le> 2 then y + 1 else y)
     in (y', m, d))"

text \<open>\<open>{:04}\<close> and \<open>{:02}\<close> of a number that is not negative.\<close>

definition padded :: "nat \<Rightarrow> nat \<Rightarrow> string" where
  "padded width n = replicate (width - length (show_nat n)) (CHR ''0'') @ show_nat n"

definition date_from_days_since_epoch :: "int \<Rightarrow> string" where
  "date_from_days_since_epoch days =
    (case civil_from_days days of (y, m, d) \<Rightarrow>
      padded 4 (nat y) @ ''-'' @ padded 2 (nat m) @ ''-'' @ padded 2 (nat d))"

definition current_date_utc :: "nat \<Rightarrow> string" where
  "current_date_utc secs = date_from_days_since_epoch (int (secs div 86400))"

section \<open>Names of generations\<close>

text \<open>\<open>rsplit_once\<close> on a character.\<close>

definition rsplit_once :: "char \<Rightarrow> string \<Rightarrow> (string \<times> string) option" where
  "rsplit_once c s =
    (if c \<in> set s
     then Some (rev (tl (dropWhile (\<lambda>x. x \<noteq> c) (rev s))), rev (takeWhile (\<lambda>x. x \<noteq> c) (rev s)))
     else None)"

text \<open>\<open>Path::file_stem\<close> and \<open>Path::extension\<close> of a file name: there is no extension without a dot or when
  the only dot is the first character.\<close>

definition rotation_components :: "string \<Rightarrow> (string \<times> string) option" where
  "rotation_components name =
    (if name = ''..'' then None
     else case rsplit_once (CHR ''.'') name of
       None \<Rightarrow> None
     | Some (stem, ext) \<Rightarrow> if stem = [] then None else Some (stem, ext))"

definition two_digits :: "string \<Rightarrow> nat" where
  "two_digits s = (case parse_usize s of None \<Rightarrow> 0 | Some n \<Rightarrow> n)"

definition valid_date :: "string \<Rightarrow> bool" where
  "valid_date v \<longleftrightarrow> length v = 10 \<and> v ! 4 = CHR ''-'' \<and> v ! 7 = CHR ''-''
     \<and> list_all (\<lambda>i. i = 4 \<or> i = 7 \<or> is_ascii_digit (v ! i)) [0..<10]
     \<and> (let month = two_digits (take 2 (drop 5 v)); day = two_digits (take 2 (drop 8 v))
        in 1 \<le> month \<and> month \<le> 12 \<and> 1 \<le> day \<and> day \<le> 31)"

definition parse_rotated_name :: "string \<Rightarrow> string \<Rightarrow> string \<Rightarrow> (string \<times> nat) option" where
  "parse_rotated_name name stem ext =
    (case strip_prefix (stem @ ''-'') name of
       None \<Rightarrow> None
     | Some rest \<Rightarrow>
         (case strip_suffix (''.'' @ ext) rest of
            None \<Rightarrow> None
          | Some v \<Rightarrow>
              (case rsplit_once (CHR ''.'') v of
                 Some (date, counter) \<Rightarrow>
                   if valid_date date then map_option (Pair date) (parse_usize counter) else None
               | None \<Rightarrow> if valid_date v then Some (v, 0) else None)))"

definition rotated_path :: "string \<Rightarrow> string \<Rightarrow> string \<Rightarrow> string" where
  "rotated_path stem ext date = stem @ ''-'' @ date @ ''.'' @ ext"

definition rotated_with_counter :: "string \<Rightarrow> string \<Rightarrow> string \<Rightarrow> nat \<Rightarrow> string" where
  "rotated_with_counter stem ext date counter = stem @ ''-'' @ date @ ''.'' @ show_nat counter @ ''.'' @ ext"

section \<open>Directory, discovery and cleanup\<close>

text \<open>The kinds of entry the code tells apart: a regular file, a symbolic link that leads to no file, and
  everything else (directories, links to something that exists, devices).\<close>

datatype file_kind = RegularFile | DanglingLink | OtherEntry

record journal_file =
  jf_identity :: string
  jf_bytes :: string
  jf_kind :: file_kind
  jf_links :: nat

abbreviation jf_regular :: "journal_file \<Rightarrow> bool" where
  "jf_regular \<equiv> \<lambda>f. jf_kind f = RegularFile"

type_synonym directory = "(string, journal_file) btree_map"

text \<open>\<open>safe_path_info\<close> of \<open>src/file_lock.rs\<close>: a missing file is fine, anything but a regular file with one
  link is refused.\<close>

definition safe_path_info :: "string \<Rightarrow> directory \<Rightarrow> (string, journal_file option) result" where
  "safe_path_info name dir =
    (case bt_get name dir of
       None \<Rightarrow> Inr None
     | Some f \<Rightarrow>
         if \<not> jf_regular f then Inl ''unsafe persistence target: expected a regular file''
         else if 1 < jf_links f then Inl ''unsafe persistence target: hardlinked files are refused''
         else Inr (Some f))"

text \<open>Rotated names with their place in the order of date, counter and name.\<close>

definition rotated_entry :: "string \<Rightarrow> string \<Rightarrow> string \<times> journal_file \<Rightarrow> ((string \<times> nat \<times> string) \<times> journal_file) option" where
  "rotated_entry stem ext entry =
    (case entry of (name, f) \<Rightarrow>
      map_option (\<lambda>(date, counter). ((date, counter, name), f)) (parse_rotated_name name stem ext))"

definition generation_of :: "bool \<Rightarrow> journal_file \<Rightarrow> JsonlGeneration" where
  "generation_of active f = \<lparr>jg_identity = jf_identity f, jg_is_active = active, jg_bytes = jf_bytes f\<rparr>"

record JournalDiscovery =
  jd_generations :: "JsonlGeneration list"
  jd_directory_bound_reached :: bool

text \<open>\<open>path_metadata\<close> and \<open>validate_regular\<close> of the active file.\<close>

definition active_file_generation :: "string \<Rightarrow> (string \<times> journal_file) list \<Rightarrow> (string, JsonlGeneration list) result" where
  "active_file_generation active listing =
    (case map_of listing active of
       None \<Rightarrow> Inr []
     | Some f \<Rightarrow>
         if \<not> jf_regular f then Inl ''unsafe journal file''
         else if 1 < jf_links f then Inl ''unsafe journal hard link''
         else Inr [generation_of True f])"

text \<open>\<open>listing\<close> is the directory in the order in which \<open>read_dir\<close> reports it.\<close>

definition discover_generations ::
  "string \<Rightarrow> nat \<Rightarrow> (string \<times> journal_file) list \<Rightarrow> (string, JournalDiscovery) result" where
  "discover_generations active max_entries listing =
    (if max_entries = 0 then Inl ''journal discovery bound must be positive''
     else result_bind (active_file_generation active listing) (\<lambda>current.
       case rotation_components active of
         None \<Rightarrow> Inr \<lparr>jd_generations = current, jd_directory_bound_reached = False\<rparr>
       | Some (stem, ext) \<Rightarrow>
           let rotated = List.map_filter (rotated_entry stem ext) (take max_entries listing) in
           if list_ex (\<lambda>e. \<not> jf_regular (snd e)) rotated then Inl ''unsafe journal generation''
           else if list_ex (\<lambda>e. 1 < jf_links (snd e)) rotated then Inl ''unsafe journal hard link''
           else let generations = map (generation_of False \<circ> snd) (sort_key fst rotated) @ current
                in if distinct (map jg_identity generations)
                   then Inr \<lparr>jd_generations = generations, jd_directory_bound_reached = (max_entries < length listing)\<rparr>
                   else Inl ''ambiguous journal generation identity''))"

definition discover_jsonl_generations :: "string \<Rightarrow> directory \<Rightarrow> (string, JsonlGeneration list) result" where
  "discover_jsonl_generations active dir =
    result_bind (discover_generations active USIZE_MAX dir) (\<lambda>d. Inr (jd_generations d))"

definition bt_remove :: "'k \<Rightarrow> ('k, 'v) btree_map \<Rightarrow> ('k, 'v) btree_map" where
  "bt_remove k m = filter (\<lambda>p. fst p \<noteq> k) m"

text \<open>Cleanup looks at regular files only.\<close>

definition rotated_files :: "string \<Rightarrow> string \<Rightarrow> directory \<Rightarrow> ((string \<times> nat \<times> string) \<times> journal_file) list" where
  "rotated_files stem ext dir =
    sort_key fst (List.map_filter (rotated_entry stem ext) (filter (jf_regular \<circ> snd) dir))"

definition cleanup_rotated_files :: "string \<Rightarrow> string \<Rightarrow> nat \<Rightarrow> directory \<Rightarrow> directory" where
  "cleanup_rotated_files stem ext keep dir =
    (let rotated = rotated_files stem ext dir;
         to_delete = (if keep = 0 then rotated
                      else if keep < length rotated then take (length rotated - keep) rotated else [])
     in foldl (\<lambda>d e. bt_remove (snd (snd (fst e))) d) dir to_delete)"

section \<open>Rotation and appending\<close>

record RotationConfig =
  max_size_bytes :: nat
  keep_rotated :: nat

definition default_rotation :: RotationConfig where
  "default_rotation = \<lparr>max_size_bytes = 100 * 1024 * 1024, keep_rotated = 5\<rparr>"

definition is_enabled :: "RotationConfig \<Rightarrow> bool" where
  "is_enabled c \<longleftrightarrow> 0 < max_size_bytes c"

text \<open>\<open>Path::exists\<close> follows links, so a dangling one does not exist for it.\<close>

definition path_exists :: "string \<Rightarrow> directory \<Rightarrow> bool" where
  "path_exists name dir = (case bt_get name dir of None \<Rightarrow> False | Some f \<Rightarrow> jf_kind f \<noteq> DanglingLink)"

text \<open>The search for a free name; \<open>None\<close> when the fuel is used up.\<close>

fun free_name :: "nat \<Rightarrow> string \<Rightarrow> string \<Rightarrow> string \<Rightarrow> directory \<Rightarrow> nat \<Rightarrow> string \<Rightarrow> string option" where
  "free_name 0 stem ext date dir counter name = None"
| "free_name (Suc fuel) stem ext date dir counter name =
    (if \<not> path_exists name dir then Some name
     else free_name fuel stem ext date dir (Suc counter) (rotated_with_counter stem ext date counter))"

text \<open>\<open>atomic_rename_no_replace\<close> of \<open>src/file_lock.rs\<close>; the identity of the file stays. Unlike the search
  for a name it does not follow links, and refuses a dangling one.\<close>

definition atomic_rename_no_replace :: "string \<Rightarrow> string \<Rightarrow> directory \<Rightarrow> (string, directory) result" where
  "atomic_rename_no_replace source destination dir =
    result_bind (safe_path_info source dir) (\<lambda>s. case s of
      None \<Rightarrow> Inl ''rename source does not exist''
    | Some f \<Rightarrow> result_bind (safe_path_info destination dir) (\<lambda>d.
        if d \<noteq> None then Inl ''rename destination already exists''
        else Inr (bt_put destination f (bt_remove source dir))))"

definition rotate_file ::
  "string \<Rightarrow> RotationConfig \<Rightarrow> bool \<Rightarrow> string \<Rightarrow> directory \<Rightarrow> (string, bool \<times> directory) result" where
  "rotate_file active config preserve_rotated date dir =
    (case rotation_components active of
       None \<Rightarrow> Inl ''built-in rotation requires a UTF-8 filename''
     | Some (stem, ext) \<Rightarrow>
         (case free_name (Suc (length dir)) stem ext date dir 1 (rotated_path stem ext date) of
            None \<Rightarrow> Inl ''no free name''
          | Some name \<Rightarrow>
              result_bind (atomic_rename_no_replace active name dir) (\<lambda>dir'.
                Inr (True, if preserve_rotated then dir' else cleanup_rotated_files stem ext (keep_rotated config) dir'))))"

definition maybe_rotate_with_mode ::
  "string \<Rightarrow> RotationConfig \<Rightarrow> bool \<Rightarrow> string \<Rightarrow> directory \<Rightarrow> (string, bool \<times> directory) result" where
  "maybe_rotate_with_mode active config preserve_rotated date dir =
    (case bt_get active dir of
       None \<Rightarrow> Inr (False, dir)
     | Some f \<Rightarrow> if length (jf_bytes f) < max_size_bytes config then Inr (False, dir)
                 else rotate_file active config preserve_rotated date dir)"

definition ensure_jsonl_tail :: "string \<Rightarrow> directory \<Rightarrow> (string, unit) result" where
  "ensure_jsonl_tail active dir =
    (case bt_get active dir of
       None \<Rightarrow> Inr ()
     | Some f \<Rightarrow> if jf_bytes f \<noteq> [] \<and> last (jf_bytes f) \<noteq> newline
                 then Inl ''local JSONL ends with a partial record; repair or replace it before retrying'' else Inr ())"

text \<open>\<open>fresh\<close> is the identity of the file when the append creates it. \<open>open_append\<close> refuses an unsafe target.\<close>

definition append_jsonl_bytes :: "string \<Rightarrow> string \<Rightarrow> string \<Rightarrow> directory \<Rightarrow> (string, bool \<times> directory) result" where
  "append_jsonl_bytes active fresh bytes dir =
    result_bind (ensure_jsonl_tail active dir) (\<lambda>_.
    result_bind (safe_path_info active dir) (\<lambda>existing.
      case existing of
        None \<Rightarrow> Inr (True, bt_put active \<lparr>jf_identity = fresh, jf_bytes = bytes, jf_kind = RegularFile, jf_links = 1\<rparr> dir)
      | Some f \<Rightarrow> Inr (False, bt_put active (f\<lparr>jf_bytes := jf_bytes f @ bytes\<rparr>) dir)))"

record LocalJsonlSink =
  ls_path :: string
  ls_rotation :: RotationConfig
  ls_preserve_rotated :: bool

text \<open>The sidecar \<open><path>.lock\<close>: the entry found at its name, whether another process holds the lock, and
  whether the entry is still the locked file when the acquisition and when the operation end. Of the
  entries only a regular file can be locked: opening does not follow links, and what opens without being
  a regular file is refused by \<open>safe_file_info\<close>.\<close>

record sidecar =
  sc_entry :: "journal_file option"
  sc_busy :: bool
  sc_kept_at_acquire :: bool
  sc_kept_at_end :: bool

definition LOCK_BUSY :: string where
  "LOCK_BUSY = ''resource busy; retry later''"

definition open_lock :: "sidecar \<Rightarrow> (string, unit) result" where
  "open_lock lock =
    (case sc_entry lock of
       None \<Rightarrow> Inr ()
     | Some f \<Rightarrow> if jf_regular f then Inr () else Inl ''unsafe persistence target: expected a regular file'')"

definition safe_lock_info :: "sidecar \<Rightarrow> (string, unit) result" where
  "safe_lock_info lock =
    (case sc_entry lock of
       None \<Rightarrow> Inr ()
     | Some f \<Rightarrow> if 1 < jf_links f then Inl ''unsafe persistence target: hardlinked files are refused'' else Inr ())"

definition verify_lock :: "bool \<Rightarrow> (string, unit) result" where
  "verify_lock kept = (if kept then Inr () else Inl ''persistence lock target changed during operation'')"

definition acquire_lock_only :: "sidecar \<Rightarrow> string \<Rightarrow> directory \<Rightarrow> (string, unit) result" where
  "acquire_lock_only lock target dir =
    result_bind (open_lock lock) (\<lambda>_.
    if sc_busy lock then Inl LOCK_BUSY
    else result_bind (safe_lock_info lock) (\<lambda>_.
      result_bind (safe_path_info target dir) (\<lambda>_. verify_lock (sc_kept_at_acquire lock))))"

text \<open>The operation under the lock; the directory is returned with the result, as the last check can fail
  after the bytes are written. No other process changes the log while the lock is held.\<close>

definition write_jsonl_bytes ::
  "LocalJsonlSink \<Rightarrow> string \<Rightarrow> string \<Rightarrow> string \<Rightarrow> directory \<Rightarrow> (string, directory) result" where
  "write_jsonl_bytes sink date fresh bytes dir =
    result_bind (ensure_jsonl_tail (ls_path sink) dir) (\<lambda>_.
    result_bind (if is_enabled (ls_rotation sink)
        then maybe_rotate_with_mode (ls_path sink) (ls_rotation sink) (ls_preserve_rotated sink) date dir
        else Inr (False, dir)) (\<lambda>(rotated, dir1).
    result_bind (append_jsonl_bytes (ls_path sink) fresh bytes dir1) (\<lambda>(created, dir2). Inr dir2)))"

definition emit_jsonl_bytes ::
  "LocalJsonlSink \<Rightarrow> sidecar \<Rightarrow> string \<Rightarrow> string \<Rightarrow> string \<Rightarrow> directory \<Rightarrow> (string, unit) result \<times> directory" where
  "emit_jsonl_bytes sink lock date fresh bytes dir =
    (if bytes = [] then (Inr (), dir)
     else if is_enabled (ls_rotation sink) \<and> rotation_components (ls_path sink) = None
     then (Inl ''built-in rotation requires a UTF-8 filename'', dir)
     else case result_bind (acquire_lock_only lock (ls_path sink) dir) (\<lambda>_.
         write_jsonl_bytes sink date fresh bytes dir) of
       Inl m \<Rightarrow> (Inl m, dir)
     | Inr dir' \<Rightarrow> (verify_lock (sc_kept_at_end lock), dir'))"

section \<open>Names round trip\<close>

lemma strip_prefix_append [simp]: "strip_prefix p (p @ s) = Some s"
  by (simp add: strip_prefix_def)

lemma strip_suffix_append [simp]: "strip_suffix p (s @ p) = Some s"
  by (simp add: strip_suffix_def suffix_def)

lemma rsplit_once_append: "c \<notin> set t \<Longrightarrow> rsplit_once c (s @ c # t) = Some (s, t)"
proof -
  assume "c \<notin> set t"
  then have all: "x \<noteq> c" if "x \<in> set (rev t)" for x using that by auto
  show ?thesis
    using takeWhile_append2 [of "rev t" "\<lambda>x. x \<noteq> c" "c # rev s", OF all]
      dropWhile_append2 [of "rev t" "\<lambda>x. x \<noteq> c" "c # rev s", OF all] by (simp add: rsplit_once_def)
qed

lemma rsplit_once_None [simp]: "rsplit_once c s = None \<longleftrightarrow> c \<notin> set s"
  by (simp add: rsplit_once_def)

lemma show_nat_no_dot: "CHR ''.'' \<notin> set (show_nat n)"
  using show_nat_digits [of "CHR ''.''" n] by (auto simp: byte_def)

lemma valid_date_no_dot:
  assumes "valid_date d"
  shows "CHR ''.'' \<notin> set d"
proof
  assume "CHR ''.'' \<in> set d"
  then obtain i where "i < length d" "d ! i = CHR ''.''" by (auto simp: in_set_conv_nth)
  then show False using assms by (force simp: valid_date_def list_all_iff rust_simps)
qed

lemma parse_rotated_path [simp]:
  "valid_date date \<Longrightarrow> parse_rotated_name (rotated_path stem ext date) stem ext = Some (date, 0)"
  using strip_suffix_append [of "''.'' @ ext" date] strip_prefix_append [of "stem @ ''-''" "date @ ''.'' @ ext"]
  by (simp add: parse_rotated_name_def rotated_path_def valid_date_no_dot rsplit_once_def)

lemma parse_rotated_with_counter [simp]:
  assumes "valid_date date" "n \<le> USIZE_MAX"
  shows "parse_rotated_name (rotated_with_counter stem ext date n) stem ext = Some (date, n)"
  using strip_suffix_append [of "''.'' @ ext" "date @ ''.'' @ show_nat n"]
    strip_prefix_append [of "stem @ ''-''" "date @ ''.'' @ show_nat n @ ''.'' @ ext"]
    rsplit_once_append [OF show_nat_no_dot, of date n] assms
  by (simp add: parse_rotated_name_def rotated_with_counter_def parse_show_nat)

section \<open>A free name is always found\<close>

definition nth_name :: "string \<Rightarrow> string \<Rightarrow> string \<Rightarrow> nat \<Rightarrow> string" where
  "nth_name stem ext date n = (if n = 0 then rotated_path stem ext date else rotated_with_counter stem ext date n)"

lemma show_nat_inj: "show_nat m = show_nat n \<Longrightarrow> m = n"
proof (induction m arbitrary: n rule: show_nat.induct)
  case (1 m)
  have digit: "digit_char a = digit_char b \<Longrightarrow> a < 10 \<Longrightarrow> b < 10 \<Longrightarrow> a = b" for a b
    by (metis byte_digit_char add_left_cancel)
  show ?case
  proof (cases "m < 10"; cases "n < 10")
    assume "m < 10" "n < 10"
    with 1(2) digit show ?thesis by (simp add: show_nat.simps [of m] show_nat.simps [of n])
  next
    assume "m < 10" "\<not> n < 10"
    with 1(2) show_nat_nonempty [of "n div 10"] show ?thesis by (simp add: show_nat.simps [of m] show_nat.simps [of n])
  next
    assume "\<not> m < 10" "n < 10"
    with 1(2) show_nat_nonempty [of "m div 10"] show ?thesis by (simp add: show_nat.simps [of m] show_nat.simps [of n])
  next
    assume big: "\<not> m < 10" "\<not> n < 10"
    with 1(2) have "show_nat (m div 10) = show_nat (n div 10)" "digit_char (m mod 10) = digit_char (n mod 10)"
      by (simp_all add: show_nat.simps [of m] show_nat.simps [of n])
    with 1(1) [OF big(1)] digit have "m div 10 = n div 10" "m mod 10 = n mod 10" by simp_all
    then show ?thesis by (metis div_mult_mod_eq)
  qed
qed

lemma nth_name_inj: "inj (nth_name stem ext date)"
proof (rule injI)
  fix m n
  assume eq: "nth_name stem ext date m = nth_name stem ext date n"
  have path: "rotated_path stem ext date \<noteq> rotated_with_counter stem ext date k" for k
  proof
    assume "rotated_path stem ext date = rotated_with_counter stem ext date k"
    then have "length (rotated_path stem ext date) = length (rotated_with_counter stem ext date k)" by (rule arg_cong)
    then show False by (simp add: rotated_path_def rotated_with_counter_def)
  qed
  have "show_nat m = show_nat n" if "0 < m" "0 < n"
    using eq that by (simp add: nth_name_def rotated_with_counter_def)
  with eq path [of m] path [of n] show "m = n"
    by (cases "m = 0"; cases "n = 0") (auto simp: nth_name_def intro: show_nat_inj dest: sym)
qed

lemma free_name_search:
  assumes "n \<le> k" "\<not> path_exists (nth_name stem ext date k) dir" "k < n + fuel"
  shows "\<exists>j. n \<le> j \<and> j \<le> k \<and> \<not> path_exists (nth_name stem ext date j) dir
    \<and> (\<forall>i. n \<le> i \<and> i < j \<longrightarrow> path_exists (nth_name stem ext date i) dir)
    \<and> free_name fuel stem ext date dir (Suc n) (nth_name stem ext date n) = Some (nth_name stem ext date j)"
  using assms
proof (induction fuel arbitrary: n)
  case (Suc fuel)
  show ?case
  proof (cases "path_exists (nth_name stem ext date n) dir")
    case False
    with Suc.prems show ?thesis by (intro exI [of _ n]) auto
  next
    case True
    with Suc.prems have "n \<noteq> k" by auto
    with Suc.prems have "Suc n \<le> k" "k < Suc n + fuel" by simp_all
    with Suc.IH [of "Suc n"] Suc.prems obtain j where j: "Suc n \<le> j" "j \<le> k"
      "\<not> path_exists (nth_name stem ext date j) dir"
      "\<forall>i. Suc n \<le> i \<and> i < j \<longrightarrow> path_exists (nth_name stem ext date i) dir"
      "free_name fuel stem ext date dir (Suc (Suc n)) (nth_name stem ext date (Suc n)) = Some (nth_name stem ext date j)"
      by blast
    moreover have "rotated_with_counter stem ext date (Suc n) = nth_name stem ext date (Suc n)" by (simp add: nth_name_def)
    moreover have "\<forall>i. n \<le> i \<and> i < j \<longrightarrow> path_exists (nth_name stem ext date i) dir"
      using j(4) True by (metis le_antisym not_less_eq_eq)
    ultimately show ?thesis using True by (intro exI [of _ j]) auto
  qed
qed simp

lemma path_exists_Some: "path_exists name dir \<longleftrightarrow> (\<exists>f. bt_get name dir = Some f \<and> jf_kind f \<noteq> DanglingLink)"
  by (auto simp: path_exists_def split: option.splits)

lemma some_name_free:
  assumes "bt_inv dir"
  shows "\<exists>k \<le> length dir. bt_get (nth_name stem ext date k) dir = None"
proof (rule ccontr)
  assume "\<not> ?thesis"
  then have "nth_name stem ext date ` {..length dir} \<subseteq> fst ` set dir"
    by (force simp: bt_get_def dest!: map_of_SomeD)
  then have "card (nth_name stem ext date ` {..length dir}) \<le> card (fst ` set dir)" by (simp add: card_mono)
  also have "\<dots> \<le> length dir" by (metis card_length length_map list.set_map)
  finally show False using nth_name_inj [of stem ext date] by (simp add: card_image inj_on_subset)
qed

lemma free_name_total:
  assumes "bt_inv dir"
  obtains j where "free_name (Suc (length dir)) stem ext date dir 1 (rotated_path stem ext date) = Some (nth_name stem ext date j)"
    "j \<le> length dir" "\<not> path_exists (nth_name stem ext date j) dir"
    "\<And>i. i < j \<Longrightarrow> path_exists (nth_name stem ext date i) dir"
proof -
  obtain k where k: "k \<le> length dir" "\<not> path_exists (nth_name stem ext date k) dir"
    using some_name_free [OF assms, of stem ext date] by (auto simp: path_exists_def)
  from free_name_search [OF _ k(2), of 0 "Suc (length dir)"] k(1)
  obtain j where "j \<le> k" "\<not> path_exists (nth_name stem ext date j) dir"
    "\<forall>i. i < j \<longrightarrow> path_exists (nth_name stem ext date i) dir"
    "free_name (Suc (length dir)) stem ext date dir 1 (nth_name stem ext date 0) = Some (nth_name stem ext date j)"
    by auto
  with k(1) that show thesis by (auto simp: nth_name_def)
qed

text \<open>The name that the search finds is taken by a dangling link.\<close>

definition name_blocked :: "string \<Rightarrow> string \<Rightarrow> string \<Rightarrow> directory \<Rightarrow> bool" where
  "name_blocked stem ext date dir \<longleftrightarrow>
    (\<exists>j f. bt_get (nth_name stem ext date j) dir = Some f \<and> jf_kind f = DanglingLink
       \<and> (\<forall>i < j. path_exists (nth_name stem ext date i) dir))"

section \<open>The Gregorian calendar\<close>

text \<open>The reference: the calendar day by day, from the epoch on.\<close>

definition leap :: "int \<Rightarrow> bool" where
  "leap y \<longleftrightarrow> 4 dvd y \<and> (\<not> 100 dvd y \<or> 400 dvd y)"

definition month_length :: "int \<Rightarrow> int \<Rightarrow> int" where
  "month_length y m = (if m = 2 then if leap y then 29 else 28 else if m \<in> {4, 6, 9, 11} then 30 else 31)"

definition next_day :: "int \<times> int \<times> int \<Rightarrow> int \<times> int \<times> int" where
  "next_day c = (case c of (y, m, d) \<Rightarrow>
    if d < month_length y m then (y, m, d + 1) else if m < 12 then (y, m + 1, 1) else (y + 1, 1, 1))"

definition civil_ok :: "int \<times> int \<times> int \<Rightarrow> bool" where
  "civil_ok c \<longleftrightarrow> (case c of (y, m, d) \<Rightarrow> 1 \<le> m \<and> m \<le> 12 \<and> 1 \<le> d \<and> d \<le> month_length y m)"

text \<open>Days up to a date, with years that start in March.\<close>

definition shifted_year :: "int \<times> int \<times> int \<Rightarrow> int" where
  "shifted_year c = (case c of (y, m, d) \<Rightarrow> if m \<le> 2 then y - 1 else y)"

definition shifted_day :: "int \<times> int \<times> int \<Rightarrow> int" where
  "shifted_day c = (case c of (y, m, d) \<Rightarrow> (153 * (if m \<le> 2 then m + 9 else m - 3) + 2) div 5 + d - 1)"

definition year_days :: "int \<Rightarrow> int" where
  "year_days y = 365 * y + y div 4 - y div 100 + y div 400"

definition days_of :: "int \<times> int \<times> int \<Rightarrow> int" where
  "days_of c = year_days (shifted_year c) + shifted_day c - 719468"

lemma month_cases:
  assumes "1 \<le> m" "m \<le> (12::int)"
  shows "m = 1 \<or> m = 2 \<or> m = 3 \<or> m = 4 \<or> m = 5 \<or> m = 6 \<or> m = 7 \<or> m = 8 \<or> m = 9 \<or> m = 10 \<or> m = 11 \<or> m = 12"
  using assms by presburger

lemma div_Suc_int:
  fixes y k :: int
  assumes "0 < k"
  shows "(y + 1) div k = y div k + (if k dvd y + 1 then 1 else 0)"
proof (cases "k dvd y + 1")
  case True
  then obtain q where q: "y + 1 = k * q" by (rule dvdE)
  have "y div k = q - 1" using assms by (intro int_div_pos_eq [of y k "q - 1" "k - 1"]) (use q in \<open>simp_all add: algebra_simps\<close>)
  with True q assms show ?thesis by simp
next
  case False
  then have "(y + 1) mod k \<noteq> 0" by (simp add: dvd_eq_mod_eq_0)
  then have "1 \<le> (y + 1) mod k" "(y + 1) mod k < k"
    using pos_mod_sign [OF assms, of "y + 1"] pos_mod_bound [OF assms, of "y + 1"] by linarith+
  moreover have "y = k * ((y + 1) div k) + ((y + 1) mod k - 1)" using mult_div_mod_eq [of k "y + 1"] by linarith
  ultimately have "y div k = (y + 1) div k" by (intro int_div_pos_eq [where r = "(y + 1) mod k - 1"]) auto
  with False show ?thesis by simp
qed

lemma year_days_Suc: "year_days (y + 1) = year_days y + 365 + (if leap (y + 1) then 1 else 0)"
proof -
  have "(100::int) dvd y + 1" if "400 dvd y + 1" using that by (rule dvd_trans [rotated]) simp
  moreover have "(4::int) dvd y + 1" if "100 dvd y + 1" using that by (rule dvd_trans [rotated]) simp
  ultimately show ?thesis
    by (cases "(400::int) dvd y + 1"; cases "(100::int) dvd y + 1"; cases "(4::int) dvd y + 1")
      (simp_all only: year_days_def div_Suc_int leap_def zero_less_numeral if_True if_False simp_thms ring_distribs, simp_all)
qed

lemma next_day_ok: "civil_ok c \<Longrightarrow> civil_ok (next_day c)"
  by (auto simp: civil_ok_def next_day_def month_length_def split: prod.splits)

lemma days_of_next_day:
  assumes "civil_ok c"
  shows "days_of (next_day c) = days_of c + 1"
proof -
  obtain y m d where c: "c = (y, m, d)" by (metis surj_pair)
  have m: "1 \<le> m" "m \<le> 12" and d: "d \<le> month_length y m" using assms by (simp_all add: c civil_ok_def)
  show ?thesis
    using month_cases [OF m] d year_days_Suc [of "y - 1"]
    by (elim disjE) (auto simp: c days_of_def next_day_def shifted_year_def shifted_day_def month_length_def)
qed

lemma tdiv_nonneg [simp]: "0 \<le> a \<Longrightarrow> 0 < b \<Longrightarrow> tdiv a b = a div b"
  by (cases "a = 0") (simp_all add: tdiv_def sgn_if)

lemma year_of_era:
  assumes "0 \<le> c" "c \<le> 3" "0 \<le> q" "q \<le> 24" "0 \<le> t" "t \<le> 3" "0 \<le> u"
    and "u \<le> (if t = 3 \<and> (q \<noteq> 24 \<or> c = 3) then 365 else (364::int))"
  defines "doe \<equiv> 36524 * c + 1461 * q + 365 * t + u"
  shows "0 \<le> doe" "doe \<le> 146096"
    "(doe - doe div 1460 + doe div 36524 - doe div 146096) div 365 = 100 * c + 4 * q + t"
proof -
  have u: "u \<le> 365" "u = 365 \<Longrightarrow> t = 3 \<and> (q \<noteq> 24 \<or> c = 3)" using assms(8) by (auto split: if_splits)
  show "0 \<le> doe" using assms by (simp add: doe_def)
  show "doe \<le> 146096" using assms u by (simp add: doe_def)
  have "doe div 36524 - doe div 146096 = c"
  proof (cases "doe = 146096")
    case True
    then have "c = 3" using assms u by (simp add: doe_def)
    with True show ?thesis by simp
  next
    case False
    have "1461 * q + 365 * t + u < 36524"
    proof (cases "u = 365 \<and> q = 24")
      case True
      with u have "t = 3" "c = 3" by simp_all
      with True False show ?thesis by (simp add: doe_def)
    next
      case False
      with assms(3-7) u(1) show ?thesis by (cases "u = 365"; cases "q = 24") simp_all
    qed
    moreover have "doe < 146096" using False \<open>doe \<le> 146096\<close> by simp
    moreover have "doe div 36524 = c + (1461 * q + 365 * t + u) div 36524"
      using div_mult_self1 [of 36524 "1461 * q + 365 * t + u" c] by (simp add: doe_def algebra_simps)
    ultimately show ?thesis using assms by (simp add: doe_def)
  qed
  moreover define k where "k = (24 * c + q + 365 * t + u) div 1460"
  have "doe div 1460 = 25 * c + q + k"
    using div_mult_self1 [of 1460 "24 * c + q + 365 * t + u" "25 * c + q"] by (simp add: doe_def k_def algebra_simps)
  moreover have k: "0 \<le> u - k" "u - k \<le> 364"
  proof -
    define n where "n = 24 * c + q + 365 * t + u"
    have n: "1460 * k \<le> n" "n < 1460 * k + 1460"
      using mult_div_mod_eq [of 1460 n] pos_mod_sign [of 1460 n] pos_mod_bound [of 1460 n] by (simp_all add: k_def n_def)
    have "k = 0 \<or> k = 1" using n assms(1-7) u(1) by (auto simp: n_def)
    moreover have "1 \<le> u" if "k = 1" using that n assms(1-7) by (simp add: n_def)
    moreover have "k \<noteq> 0" if "u = 365" using that n u(2) assms(1-7) by (auto simp: n_def)
    moreover have "u = 365 \<or> u \<le> 364" using u(1) by linarith
    ultimately show "0 \<le> u - k" "u - k \<le> 364" using assms(7) by auto
  qed
  ultimately have "doe - doe div 1460 + doe div 36524 - doe div 146096 = (u - k) + (100 * c + 4 * q + t) * 365"
    by (simp add: doe_def algebra_simps)
  then show "(doe - doe div 1460 + doe div 36524 - doe div 146096) div 365 = 100 * c + 4 * q + t"
    using k div_mult_self1 [of 365 "u - k" "100 * c + 4 * q + t"] by simp
qed

text \<open>The last day of a shifted year exists only before a leap year.\<close>

lemma shifted_day_bounds:
  assumes "civil_ok c"
  shows "0 \<le> shifted_day c" "shifted_day c \<le> (if leap (shifted_year c + 1) then 365 else 364)"
proof -
  obtain y m d where c: "c = (y, m, d)" by (metis surj_pair)
  have m: "1 \<le> m" "m \<le> 12" and d: "1 \<le> d" "d \<le> month_length y m" using assms by (simp_all add: c civil_ok_def)
  show "0 \<le> shifted_day c"
    using month_cases [OF m] d by (elim disjE) (simp_all add: c shifted_day_def)
  show "shifted_day c \<le> (if leap (shifted_year c + 1) then 365 else 364)"
    using month_cases [OF m] d
    by (elim disjE) (simp_all add: c shifted_day_def shifted_year_def month_length_def split: if_splits)
qed

lemma only_multiple: "m = n * k \<Longrightarrow> 0 < m \<Longrightarrow> m \<le> n \<Longrightarrow> m = (n :: int)"
  by (metis dvd_triv_left order_antisym zdvd_imp_le)

lemma leap_parts:
  assumes "0 \<le> c" "c \<le> 3" "0 \<le> q" "q \<le> 24" "0 \<le> t" "t \<le> 3" "y = 400 * e + 100 * c + 4 * q + (t::int)"
  shows "leap (y + 1) \<longleftrightarrow> t = 3 \<and> (q \<noteq> 24 \<or> c = 3)"
proof -
  have "4 dvd y + 1 \<longleftrightarrow> t = 3"
  proof
    assume "4 dvd y + 1"
    then obtain k where "y + 1 = 4 * k" by (rule dvdE)
    with assms(7) have "t + 1 = 4 * (k - 100 * e - 25 * c - q)" by simp
    from only_multiple [OF this] assms(5,6) show "t = 3" by simp
  next
    assume "t = 3"
    with assms(7) have "y + 1 = 4 * (100 * e + 25 * c + q + 1)" by simp
    then show "4 dvd y + 1" by (rule dvdI)
  qed
  moreover have "100 dvd y + 1 \<longleftrightarrow> q = 24" if "t = 3"
  proof
    assume "100 dvd y + 1"
    then obtain k where "y + 1 = 100 * k" by (rule dvdE)
    with assms(7) that have "4 * q + 4 = 100 * (k - 4 * e - c)" by simp
    from only_multiple [OF this] assms(3,4) show "q = 24" by simp
  next
    assume "q = 24"
    with assms that have "y + 1 = 100 * (4 * e + c + 1)" by simp
    then show "100 dvd y + 1" by (rule dvdI)
  qed
  moreover have "400 dvd y + 1 \<longleftrightarrow> c = 3" if "t = 3" "q = 24"
  proof
    assume "400 dvd y + 1"
    then obtain k where "y + 1 = 400 * k" by (rule dvdE)
    with assms(7) that have "c + 1 = 4 * (k - e)" by simp
    from only_multiple [OF this] assms(1,2) show "c = 3" by simp
  next
    assume "c = 3"
    with assms that have "y + 1 = 400 * (e + 1)" by simp
    then show "400 dvd y + 1" by (rule dvdI)
  qed
  ultimately show ?thesis by (auto simp: leap_def)
qed

lemma month_of_shifted_day:
  assumes "civil_ok (y, m, d)"
  defines "u \<equiv> shifted_day (y, m, d)"
  defines "mp \<equiv> (5 * u + 2) div 153"
  shows "0 \<le> mp" "u - (153 * mp + 2) div 5 + 1 = d" "(if mp < 10 then mp + 3 else mp - 9) = m"
proof -
  have m: "1 \<le> m" "m \<le> 12" and d: "1 \<le> d" "d \<le> month_length y m" using assms by (simp_all add: civil_ok_def)
  have mp: "mp = (if m \<le> 2 then m + 9 else m - 3)"
    using month_cases [OF m] d unfolding mp_def u_def
    by (elim disjE) (simp_all add: shifted_day_def month_length_def div_pos_geq split: if_splits)
  show "0 \<le> mp" "(if mp < 10 then mp + 3 else mp - 9) = m" using m by (auto simp: mp)
  show "u - (153 * mp + 2) div 5 + 1 = d" by (simp add: mp u_def shifted_day_def)
qed

lemma year_parts:
  fixes y :: int
  obtains e c q t where "y = 400 * e + 100 * c + 4 * q + t" "0 \<le> c" "c \<le> 3" "0 \<le> q" "q \<le> 24" "0 \<le> t" "t \<le> 3"
    "y div 4 = 100 * e + 25 * c + q" "y div 100 = 4 * e + c" "y div 400 = e"
proof -
  define e c q t where "e = y div 400" and "c = y mod 400 div 100" and "q = y mod 400 mod 100 div 4"
    and "t = y mod 400 mod 100 mod 4"
  define r s where "r = y mod 400" and "s = r mod 100"
  have "y = 400 * e + r" "r = 100 * c + s" "s = 4 * q + t" by (simp_all add: e_def c_def q_def t_def r_def s_def)
  then have y: "y = 400 * e + 100 * c + 4 * q + t" by (simp only: add.assoc)
  have "0 \<le> r" "r < 400" "c = r div 100" by (simp_all add: r_def c_def)
  then have b: "0 \<le> c" "c \<le> 3" by simp_all
  have "0 \<le> s" "s < 100" "q = s div 4" "t = s mod 4" by (simp_all add: s_def r_def q_def t_def)
  then have b': "0 \<le> q" "q \<le> 24" "0 \<le> t" "t \<le> 3" by simp_all
  have "y div 4 = 100 * e + 25 * c + q" by (rule int_div_pos_eq [where r = t]) (use y b' in simp_all)
  moreover have "y div 100 = 4 * e + c" by (rule int_div_pos_eq [where r = "4 * q + t"]) (use y b' in simp_all)
  moreover have "y div 400 = e" by (simp only: e_def)
  ultimately show thesis by (rule that [OF y b b'])
qed

lemma civil_of_days_of:
  assumes ok: "civil_ok d" and year: "0 \<le> shifted_year d"
  shows "civil_from_days (days_of d) = d"
proof -
  obtain y m k where d: "d = (y, m, k)" by (metis surj_pair)
  define Y u where "Y = shifted_year d" and "u = shifted_day d"
  obtain e c q t where Y: "Y = 400 * e + 100 * c + 4 * q + t" and b: "0 \<le> c" "c \<le> 3" "0 \<le> q" "q \<le> 24" "0 \<le> t" "t \<le> 3"
    and div: "Y div 4 = 100 * e + 25 * c + q" "Y div 100 = 4 * e + c" "Y div 400 = e" by (rule year_parts [of Y])
  have u: "0 \<le> u" "u \<le> (if t = 3 \<and> (q \<noteq> 24 \<or> c = 3) then 365 else 364)"
    using shifted_day_bounds [OF ok] leap_parts [OF b Y] by (simp_all only: u_def Y_def [symmetric])
  define doe where "doe = 36524 * c + 1461 * q + 365 * t + u"
  have doe: "0 \<le> doe" "doe \<le> 146096"
    "(doe - doe div 1460 + doe div 36524 - doe div 146096) div 365 = 100 * c + 4 * q + t"
    using year_of_era [OF b u] by (simp_all add: doe_def)
  have e: "0 \<le> e" using year div(3) by (simp add: Y_def [symmetric] pos_imp_zdiv_nonneg_iff [symmetric])
  have z: "days_of d + 719468 = 146097 * e + doe"
    by (simp add: days_of_def year_days_def Y_def [symmetric] u_def [symmetric] div doe_def) (simp add: Y)
  have era: "(146097 * e + doe) div 146097 = e" by (rule int_div_pos_eq [where r = doe]) (use doe in simp_all)
  have n: "0 \<le> 146097 * e + doe" using e doe by simp
  have yoe: "0 \<le> doe - doe div 1460 + doe div 36524 - doe div 146096"
    using doe(3) b by (smt (verit) div_neg_pos_less0 zero_less_numeral)
  define w where "w = 100 * c + 4 * q + t"
  have w: "0 \<le> w" "w div 4 = 25 * c + q" "w div 100 = c"
    using b by (auto simp: w_def intro: int_div_pos_eq [where r = t] int_div_pos_eq [where r = "4 * q + t"])
  have doy: "doe - (365 * w + w div 4 - w div 100) = u" unfolding w by (simp add: doe_def w_def)
  note month = month_of_shifted_day [of y m k, folded d, OF ok, folded u_def]
  have Z: "tdiv (if 0 \<le> 146097 * e + doe then 146097 * e + doe else 146097 * e + doe - 146096) 146097 = e"
    using n era by simp
  have E: "146097 * e + doe - e * 146097 = doe" by simp
  have W: "tdiv (doe - tdiv doe 1460 + tdiv doe 36524 - tdiv doe 146096) 365 = w"
    using doe yoe by (simp add: w_def)
  have U: "doe - (365 * w + tdiv w 4 - tdiv w 100) = u" using doy w(1) by simp
  have P: "tdiv (5 * u + 2) 153 = (5 * u + 2) div 153" using u(1) by simp
  have D: "u - tdiv (153 * ((5 * u + 2) div 153) + 2) 5 + 1 = k" using month(1,2) by simp
  have "w + e * 400 = Y" by (simp add: w_def Y)
  then have y: "(if m \<le> 2 then w + e * 400 + 1 else w + e * 400) = y" by (simp add: Y_def d shifted_year_def)
  show ?thesis
    unfolding civil_from_days_def Let_def z Z E W U P D month(3) y by (simp only: d)
qed

lemma civil_days:
  "civil_ok ((next_day ^^ n) (1970, 1, 1)) \<and> days_of ((next_day ^^ n) (1970, 1, 1)) = int n
    \<and> 1970 \<le> fst ((next_day ^^ n) (1970, 1, 1))"
proof (induction n)
  case 0
  then show ?case
    by (simp add: civil_ok_def month_length_def days_of_def shifted_year_def shifted_day_def year_days_def)
next
  case (Suc n)
  then show ?case
    using next_day_ok days_of_next_day by (auto simp: next_day_def split: prod.splits)
qed

lemma civil_from_days_iterates: "civil_from_days (int n) = (next_day ^^ n) (1970, 1, 1)"
proof -
  note c = civil_days [of n]
  then have "0 \<le> shifted_year ((next_day ^^ n) (1970, 1, 1))" by (auto simp: shifted_year_def split: prod.splits)
  with civil_of_days_of c show ?thesis by metis
qed

section \<open>Directories\<close>

lemma bt_get_remove: "bt_get k' (bt_remove k m) = (if k' = k then None else bt_get k' m)"
  by (induction m) (auto simp: bt_remove_def bt_get_def)

lemma bt_inv_remove: "bt_inv m \<Longrightarrow> bt_inv (bt_remove k m)"
  by (simp add: bt_remove_def bt_inv_def sorted_wrt_map sorted_wrt_filter)

lemma bt_get_filter: "P k \<Longrightarrow> bt_get k (filter (\<lambda>p. P (fst p)) m) = bt_get k m"
  by (induction m) (auto simp: bt_get_def)

lemma foldl_bt_remove: "foldl (\<lambda>d e. bt_remove (f e) d) dir es = filter (\<lambda>p. fst p \<notin> f ` set es) dir"
  by (induction es arbitrary: dir) (auto simp: bt_remove_def intro: filter_cong)

lemma set_map_filter': "set (List.map_filter f xs) = {y. \<exists>x \<in> set xs. f x = Some y}"
  by (induction xs) (auto simp: List.map_filter_simps split: option.splits)

lemma map_filter_filter:
  "(\<And>x y. x \<in> set xs \<Longrightarrow> f x = Some y \<Longrightarrow> P x = Q y) \<Longrightarrow> List.map_filter f (filter P xs) = filter Q (List.map_filter f xs)"
  by (induction xs) (auto simp: List.map_filter_simps split: option.splits)

lemma rotated_entry_name: "rotated_entry stem ext p = Some e \<Longrightarrow> snd (snd (fst e)) = fst p \<and> snd e = snd p"
  by (auto simp: rotated_entry_def split: prod.splits)

lemma rotated_files_filter:
  "rotated_files stem ext (filter (\<lambda>p. fst p \<notin> S) dir) = filter (\<lambda>e. snd (snd (fst e)) \<notin> S) (rotated_files stem ext dir)"
proof -
  let ?d = "filter (jf_regular \<circ> snd) dir"
  have "List.map_filter (rotated_entry stem ext) (filter (\<lambda>p. fst p \<notin> S) ?d)
      = filter (\<lambda>e. snd (snd (fst e)) \<notin> S) (List.map_filter (rotated_entry stem ext) ?d)"
    by (rule map_filter_filter) (auto dest: rotated_entry_name)
  then show ?thesis by (simp add: rotated_files_def filter_sort conj_commute)
qed

lemma map_filter_names:
  "distinct (map fst xs) \<Longrightarrow> distinct (map (\<lambda>e. snd (snd (fst e))) (List.map_filter (rotated_entry stem ext) xs))"
proof (induction xs)
  case (Cons p xs)
  have "fst p \<notin> (\<lambda>e. snd (snd (fst e))) ` set (List.map_filter (rotated_entry stem ext) xs)"
  proof
    assume "fst p \<in> (\<lambda>e. snd (snd (fst e))) ` set (List.map_filter (rotated_entry stem ext) xs)"
    then obtain q e where "q \<in> set xs" "rotated_entry stem ext q = Some e" "fst p = snd (snd (fst e))"
      by (auto simp: set_map_filter')
    with rotated_entry_name [of stem ext q e] Cons.prems show False by auto
  qed
  with Cons show ?case
  proof (cases "rotated_entry stem ext p")
    case (Some e)
    then have "snd (snd (fst e)) = fst p" by (simp add: rotated_entry_name)
    with Cons Some \<open>fst p \<notin> _\<close> show ?thesis by simp
  qed simp
qed simp

lemma bt_inv_distinct: "bt_inv m \<Longrightarrow> distinct (map fst m)"
  by (simp add: bt_inv_def strict_sorted_iff)

lemma rotated_files_distinct: "bt_inv dir \<Longrightarrow> distinct (map (\<lambda>e. snd (snd (fst e))) (rotated_files stem ext dir))"
proof -
  assume "bt_inv dir"
  then have "distinct (map (\<lambda>e. snd (snd (fst e))) (List.map_filter (rotated_entry stem ext) (filter (jf_regular \<circ> snd) dir)))"
    by (intro map_filter_names) (simp add: bt_inv_distinct distinct_map_filter)
  then show ?thesis by (simp add: rotated_files_def distinct_map)
qed

lemma filter_not_taken:
  assumes "distinct (map f xs)"
  shows "filter (\<lambda>x. f x \<notin> f ` set (take n xs)) xs = drop n xs"
proof -
  have "distinct (map f (take n xs @ drop n xs))" using assms by simp
  then have "f x \<notin> f ` set (take n xs)" if "x \<in> set (drop n xs)" for x
    using that unfolding map_append distinct_append by fastforce
  then have "filter (\<lambda>x. f x \<notin> f ` set (take n xs)) (drop n xs) = drop n xs" by (simp add: filter_id_conv)
  moreover have "filter (\<lambda>x. f x \<notin> f ` set (take n xs)) (take n xs) = []" by (simp add: filter_empty_conv)
  moreover have "filter (\<lambda>x. f x \<notin> f ` set (take n xs)) (take n xs @ drop n xs)
      = filter (\<lambda>x. f x \<notin> f ` set (take n xs)) (take n xs) @ filter (\<lambda>x. f x \<notin> f ` set (take n xs)) (drop n xs)"
    by (rule filter_append)
  ultimately show ?thesis by simp
qed

lemma cleanup_eq:
  "cleanup_rotated_files stem ext keep dir
    = filter (\<lambda>p. fst p \<notin> (\<lambda>e. snd (snd (fst e)))
        ` set (take (length (rotated_files stem ext dir) - keep) (rotated_files stem ext dir))) dir"
  by (cases "keep = 0"; cases "keep < length (rotated_files stem ext dir)")
    (simp_all add: cleanup_rotated_files_def Let_def foldl_bt_remove [where f = "\<lambda>e. snd (snd (fst e))"])

text \<open>Cleanup keeps the last \<open>keep\<close> rotated files in the order of date, counter and name, and every other
  file of the directory.\<close>

lemma cleanup_keeps_last:
  assumes "bt_inv dir"
  shows "rotated_files stem ext (cleanup_rotated_files stem ext keep dir)
      = drop (length (rotated_files stem ext dir) - keep) (rotated_files stem ext dir)"
    and "parse_rotated_name name stem ext = None \<Longrightarrow> bt_get name (cleanup_rotated_files stem ext keep dir) = bt_get name dir"
proof -
  let ?r = "rotated_files stem ext dir" and ?f = "\<lambda>e::(string \<times> nat \<times> string) \<times> journal_file. snd (snd (fst e))"
  have c: "cleanup_rotated_files stem ext keep dir = filter (\<lambda>p. fst p \<notin> ?f ` set (take (length ?r - keep) ?r)) dir"
    by (rule cleanup_eq)
  show "rotated_files stem ext (cleanup_rotated_files stem ext keep dir) = drop (length ?r - keep) ?r"
    unfolding c rotated_files_filter by (rule filter_not_taken) (rule rotated_files_distinct [OF assms])
  assume none: "parse_rotated_name name stem ext = None"
  have "name \<notin> ?f ` set ?r"
    using none by (auto simp: rotated_files_def set_map_filter' rotated_entry_def split: prod.splits option.splits)
  then have "name \<notin> ?f ` set (take (length ?r - keep) ?r)" by (meson image_mono in_mono set_take_subset)
  then show "bt_get name (cleanup_rotated_files stem ext keep dir) = bt_get name dir"
    unfolding c by (rule bt_get_filter)
qed

section \<open>Discovery does not depend on the order of the listing\<close>

lemma sort_key_set_eq:
  assumes "set xs = set ys" "distinct (map f xs)" "distinct (map f ys)"
  shows "sort_key f xs = sort_key f ys"
  using assms by (intro map_sorted_distinct_set_unique [where f = f]) (auto simp: distinct_map)

lemma distinct_rotated_keys:
  assumes "distinct (map fst listing)"
  shows "distinct (map fst (List.map_filter (rotated_entry stem ext) listing))"
proof -
  have "distinct (map (snd \<circ> snd) (map fst (List.map_filter (rotated_entry stem ext) listing)))"
    using map_filter_names [OF assms] by (simp add: comp_def)
  then show ?thesis unfolding distinct_map by blast
qed

lemma discovery_listing_order:
  assumes "set listing = set listing'" "distinct (map fst listing)" "distinct (map fst listing')"
    and "length listing \<le> max_entries"
  shows "discover_generations active max_entries listing = discover_generations active max_entries listing'"
proof -
  have len: "length listing' = length listing" using assms by (metis distinct_card distinct_map)
  have "map_of listing active = map_of listing' active" using assms(1-3) map_of_inject_set by metis
  then have act: "active_file_generation active listing = active_file_generation active listing'" by (simp add: active_file_generation_def)
  have rot: "set (List.map_filter (rotated_entry stem ext) listing) = set (List.map_filter (rotated_entry stem ext) listing')" for stem ext
    using assms(1) by (simp add: set_map_filter')
  have srt: "sort_key fst (List.map_filter (rotated_entry stem ext) listing)
      = sort_key fst (List.map_filter (rotated_entry stem ext) listing')" for stem ext
    by (intro sort_key_set_eq rot distinct_rotated_keys assms)
  have ex: "list_ex P (List.map_filter (rotated_entry stem ext) listing)
      = list_ex P (List.map_filter (rotated_entry stem ext) listing')" for P stem ext
    by (simp add: list_ex_iff rot)
  have "take max_entries listing = listing" "take max_entries listing' = listing'" using assms(4) len by simp_all
  then show ?thesis
    unfolding discover_generations_def Let_def by (simp only: act srt ex len)
qed

section \<open>Dates in file names\<close>

lemma length_show_nat: "n < 10 ^ Suc k \<Longrightarrow> length (show_nat n) \<le> Suc k"
proof (induction k arbitrary: n)
  case 0
  then show ?case by (simp add: show_nat.simps)
next
  case (Suc k)
  show ?case
  proof (cases "n < 10")
    case False
    have "n div 10 < 10 ^ Suc k" using Suc.prems by (simp add: less_mult_imp_div_less)
    with Suc.IH [of "n div 10"] False show ?thesis by (simp add: show_nat.simps [of n])
  qed (simp add: show_nat.simps)
qed

lemma push_zeros: "foldl push_digit (Some 0) (replicate k (CHR ''0'')) = Some 0"
  by (induction k) (simp_all add: push_digit_def byte_def)

lemma padded_digits: "c \<in> set (padded k n) \<Longrightarrow> 48 \<le> byte c \<and> byte c \<le> 57"
  by (auto simp: padded_def byte_def dest: show_nat_digits)

lemma padded_length: "n < 10 ^ Suc k \<Longrightarrow> length (padded (Suc k) n) = Suc k"
  using length_show_nat [of n k] by (simp add: padded_def)

lemma parse_padded:
  assumes "n \<le> USIZE_MAX"
  shows "parse_usize (padded k n) = Some n"
proof -
  have ne: "padded k n \<noteq> []" by (simp add: padded_def)
  then obtain c rest where s: "padded k n = c # rest" by (cases "padded k n") auto
  have "c \<noteq> CHR ''+''" using padded_digits [of c k n] by (auto simp: s byte_def)
  with s ne have "parse_usize (padded k n) = foldl push_digit (Some 0) (padded k n)" by (simp add: parse_usize_def)
  then show ?thesis using foldl_push_digit [OF assms] by (simp add: padded_def push_zeros)
qed

text \<open>A date with a year of at most four digits has the form that the parser of rotated names expects.\<close>

lemma valid_date_civil:
  assumes "0 \<le> y" "y \<le> 9999" "1 \<le> m" "m \<le> 12" "1 \<le> d" "d \<le> 31"
  shows "valid_date (padded 4 (nat y) @ ''-'' @ padded 2 (nat m) @ ''-'' @ padded 2 (nat d))"
proof -
  define Y M D where "Y = padded 4 (nat y)" and "M = padded 2 (nat m)" and "D = padded 2 (nat d)"
  have len: "length Y = 4" "length M = 2" "length D = 2"
    using assms padded_length [of "nat y" 3] padded_length [of "nat m" 1] padded_length [of "nat d" 1]
    by (simp_all add: Y_def M_def D_def eval_nat_numeral(2,3) [symmetric] numeral_2_eq_2 nat_less_iff)
  have dig: "list_all is_ascii_digit Y" "list_all is_ascii_digit M" "list_all is_ascii_digit D"
    using padded_digits by (auto simp: list_all_iff is_ascii_digit_def Y_def M_def D_def)
  obtain y1 y2 y3 y4 where Y: "Y = [y1, y2, y3, y4]"
    using len(1) by (auto simp: numeral_eq_Suc length_Suc_conv)
  obtain m1 m2 where M: "M = [m1, m2]" using len(2) by (auto simp: numeral_eq_Suc length_Suc_conv)
  obtain d1 d2 where D: "D = [d1, d2]" using len(3) by (auto simp: numeral_eq_Suc length_Suc_conv)
  have "two_digits M = nat m" "two_digits D = nat d"
    using assms parse_padded [of "nat m" 2] parse_padded [of "nat d" 2]
    by (simp_all add: two_digits_def M_def D_def USIZE_MAX_def nat_le_iff)
  then have "valid_date (Y @ ''-'' @ M @ ''-'' @ D)"
    using assms dig by (simp add: valid_date_def Y M D upt_rec numeral_eq_Suc) (simp add: nat_le_iff le_nat_iff)
  then show ?thesis by (simp add: Y_def M_def D_def)
qed

lemma days_of_year:
  assumes "civil_ok (y, m, d)" "10000 \<le> y"
  shows "2932897 \<le> days_of (y, m, d)"
proof -
  have mono: "year_days a \<le> year_days b" if "a \<le> b" for a b
  proof -
    have "year_days a \<le> year_days (a + int n)" for n
    proof (induction n)
      case (Suc n)
      then show ?case using year_days_Suc [of "a + int n"] by (simp add: algebra_simps split: if_splits)
    qed simp
    from this [of "nat (b - a)"] that show ?thesis by simp
  qed
  show ?thesis
  proof (cases "m \<le> 2")
    case True
    with assms have "year_days 9999 \<le> year_days (shifted_year (y, m, d))" by (intro mono) (simp add: shifted_year_def)
    moreover have "306 \<le> shifted_day (y, m, d)" using True assms(1) by (auto simp: shifted_day_def civil_ok_def)
    ultimately show ?thesis by (simp add: days_of_def year_days_def)
  next
    case False
    with assms have "year_days 10000 \<le> year_days (shifted_year (y, m, d))" by (intro mono) (simp add: shifted_year_def)
    with shifted_day_bounds(1) [OF assms(1)] show ?thesis by (simp add: days_of_def year_days_def)
  qed
qed

lemma valid_current_date:
  assumes "secs < 253402300800"
  shows "valid_date (current_date_utc secs)"
proof -
  define n where "n = secs div 86400"
  obtain y m d where c: "(next_day ^^ n) (1970, 1, 1) = (y, m, d)" by (metis surj_pair)
  have ok: "civil_ok (y, m, d)" and days: "days_of (y, m, d) = int n" and "1970 \<le> y" using civil_days [of n] by (simp_all add: c)
  have "n < 2932897" using assms by (simp add: n_def)
  then have "y \<le> 9999" using days_of_year [OF ok] days by linarith
  with ok \<open>1970 \<le> y\<close> have "valid_date (padded 4 (nat y) @ ''-'' @ padded 2 (nat m) @ ''-'' @ padded 2 (nat d))"
    by (intro valid_date_civil) (auto simp: civil_ok_def month_length_def split: if_splits)
  then show ?thesis
    by (simp add: current_date_utc_def date_from_days_since_epoch_def n_def [symmetric] civil_from_days_iterates c)
qed

section \<open>Emission\<close>

definition safe_file :: "journal_file \<Rightarrow> bool" where
  "safe_file f \<longleftrightarrow> jf_regular f \<and> jf_links f \<le> 1"

definition new_file :: "string \<Rightarrow> string \<Rightarrow> journal_file" where
  "new_file fresh bytes = \<lparr>jf_identity = fresh, jf_bytes = bytes, jf_kind = RegularFile, jf_links = 1\<rparr>"

definition complete_tail :: "string \<Rightarrow> bool" where
  "complete_tail s \<longleftrightarrow> s = [] \<or> last s = newline"

text \<open>An emission that can proceed: the target is absent, or a safe file that ends with a complete record.\<close>

definition appendable :: "string \<Rightarrow> directory \<Rightarrow> bool" where
  "appendable active dir \<longleftrightarrow> (\<forall>f. bt_get active dir = Some f \<longrightarrow> safe_file f \<and> complete_tail (jf_bytes f))"

lemma safe_path_info_Inr:
  "safe_path_info name dir = Inr r \<longleftrightarrow> r = bt_get name dir \<and> (\<forall>f. bt_get name dir = Some f \<longrightarrow> safe_file f)"
  by (auto simp: safe_path_info_def safe_file_def split: option.splits)

lemma ensure_jsonl_tail_Inr: "ensure_jsonl_tail active dir = Inr u \<longleftrightarrow> (\<forall>f. bt_get active dir = Some f \<longrightarrow> complete_tail (jf_bytes f))"
  by (auto simp: ensure_jsonl_tail_def complete_tail_def split: option.splits)

lemma rotate_file_blocked:
  assumes "bt_inv dir" "rotation_components active = Some (stem, ext)" "bt_get active dir = Some f" "safe_file f"
    "name_blocked stem ext date dir"
  shows "\<exists>e. rotate_file active config preserve date dir = Inl e"
proof -
  obtain j where j: "free_name (Suc (length dir)) stem ext date dir 1 (rotated_path stem ext date) = Some (nth_name stem ext date j)"
    "\<not> path_exists (nth_name stem ext date j) dir" "\<And>i. i < j \<Longrightarrow> path_exists (nth_name stem ext date i) dir"
    by (rule free_name_total [OF assms(1), of stem ext date]) blast
  obtain k g where k: "bt_get (nth_name stem ext date k) dir = Some g" "jf_kind g = DanglingLink"
    "\<forall>i < k. path_exists (nth_name stem ext date i) dir" using assms(5) by (auto simp: name_blocked_def)
  then have "\<not> path_exists (nth_name stem ext date k) dir" by (simp add: path_exists_Some)
  with j(2,3) k(3) have "k = j" by (metis nat_neq_iff)
  with k show ?thesis using assms(2-4) j(1)
    by (simp add: rotate_file_def atomic_rename_no_replace_def safe_path_info_def safe_file_def)
qed

lemma rotate_file_outcome:
  assumes "bt_inv dir" "rotation_components active = Some (stem, ext)" "bt_get active dir = Some f" "safe_file f"
    and free: "\<not> name_blocked stem ext date dir"
  obtains j where "bt_get (nth_name stem ext date j) dir = None" "j \<le> length dir"
    "\<And>i. i < j \<Longrightarrow> bt_get (nth_name stem ext date i) dir \<noteq> None"
    "rotate_file active config preserve date dir = Inr (True,
      let dir' = bt_put (nth_name stem ext date j) f (bt_remove active dir)
      in if preserve then dir' else cleanup_rotated_files stem ext (keep_rotated config) dir')"
proof -
  obtain j where e: "free_name (Suc (length dir)) stem ext date dir 1 (rotated_path stem ext date) = Some (nth_name stem ext date j)"
    "j \<le> length dir" "\<not> path_exists (nth_name stem ext date j) dir"
    "\<And>i. i < j \<Longrightarrow> path_exists (nth_name stem ext date i) dir"
    by (rule free_name_total [OF assms(1), of stem ext date]) blast
  have "bt_get (nth_name stem ext date j) dir = None"
    using e(3,4) free unfolding name_blocked_def path_exists_Some by (metis option.exhaust)
  then have j: "free_name (Suc (length dir)) stem ext date dir 1 (rotated_path stem ext date) = Some (nth_name stem ext date j)"
    "j \<le> length dir" "bt_get (nth_name stem ext date j) dir = None"
    "\<And>i. i < j \<Longrightarrow> bt_get (nth_name stem ext date i) dir \<noteq> None"
    using e by (auto simp: path_exists_Some)
  have "safe_path_info active dir = Inr (Some f)" "safe_path_info (nth_name stem ext date j) dir = Inr None"
    using assms j(3) by (simp_all add: safe_path_info_Inr)
  then have "rotate_file active config preserve date dir = Inr (True,
      let dir' = bt_put (nth_name stem ext date j) f (bt_remove active dir)
      in if preserve then dir' else cleanup_rotated_files stem ext (keep_rotated config) dir')"
    using assms(2) j(1) by (simp add: rotate_file_def atomic_rename_no_replace_def Let_def)
  with j that show thesis by blast
qed

text \<open>The three ways in which an emission changes the directory: it creates the active file, extends it, or
  moves it to a free name and starts a new one, followed by cleanup when rotated files are not preserved.\<close>

definition emission ::
  "LocalJsonlSink \<Rightarrow> string \<Rightarrow> string \<Rightarrow> string \<Rightarrow> directory \<Rightarrow> directory \<Rightarrow> bool" where
  "emission sink date fresh bytes dir dir' \<longleftrightarrow>
    (case bt_get (ls_path sink) dir of
       None \<Rightarrow> dir' = bt_put (ls_path sink) (new_file fresh bytes) dir
     | Some f \<Rightarrow>
         if is_enabled (ls_rotation sink) \<and> max_size_bytes (ls_rotation sink) \<le> length (jf_bytes f)
         then \<exists>stem ext j. rotation_components (ls_path sink) = Some (stem, ext)
           \<and> bt_get (nth_name stem ext date j) dir = None \<and> j \<le> length dir
           \<and> (\<forall>i < j. bt_get (nth_name stem ext date i) dir \<noteq> None)
           \<and> dir' = bt_put (ls_path sink) (new_file fresh bytes)
               (let moved = bt_put (nth_name stem ext date j) f (bt_remove (ls_path sink) dir)
                in if ls_preserve_rotated sink then moved
                   else cleanup_rotated_files stem ext (keep_rotated (ls_rotation sink)) moved)
         else dir' = bt_put (ls_path sink) (f\<lparr>jf_bytes := jf_bytes f @ bytes\<rparr>) dir)"

lemma not_rotated_name: "rotation_components active = Some (stem, ext) \<Longrightarrow> parse_rotated_name active stem ext = None"
proof -
  assume a: "rotation_components active = Some (stem, ext)"
  then have "active = stem @ ''.'' @ ext"
  proof -
    obtain s t where st: "rsplit_once (CHR ''.'') active = Some (s, t)" "stem = s" "ext = t"
      using a by (auto simp: rotation_components_def split: if_splits option.splits prod.splits)
    then have mem: "CHR ''.'' \<in> set active" by (auto simp: rsplit_once_def split: if_splits)
    then obtain ys zs where yz: "active = ys @ CHR ''.'' # zs" "CHR ''.'' \<notin> set zs" by (metis split_list_last)
    with rsplit_once_append [of "CHR ''.''" zs ys] st show ?thesis by simp
  qed
  then have "strip_prefix (stem @ ''-'') active = None" by (auto simp: strip_prefix_def prefix_def)
  then show ?thesis by (simp add: parse_rotated_name_def)
qed

lemma bt_inv_filter: "bt_inv m \<Longrightarrow> bt_inv (filter P m)"
  by (simp add: bt_inv_def sorted_wrt_map sorted_wrt_filter)

lemma cleanup_inv: "bt_inv dir \<Longrightarrow> bt_inv (cleanup_rotated_files stem ext keep dir)"
  by (simp add: cleanup_rotated_files_def Let_def foldl_bt_remove [where f = "\<lambda>e. snd (snd (fst e))"] bt_inv_filter)

definition rotatable :: "LocalJsonlSink \<Rightarrow> bool" where
  "rotatable sink \<longleftrightarrow> (is_enabled (ls_rotation sink) \<longrightarrow> rotation_components (ls_path sink) \<noteq> None)"

lemma append_creates:
  "bt_get active dir = None \<Longrightarrow> append_jsonl_bytes active fresh bytes dir = Inr (True, bt_put active (new_file fresh bytes) dir)"
  by (simp add: append_jsonl_bytes_def ensure_jsonl_tail_def safe_path_info_def new_file_def)

lemma append_extends:
  assumes "bt_get active dir = Some f" "safe_file f" "complete_tail (jf_bytes f)"
  shows "append_jsonl_bytes active fresh bytes dir = Inr (False, bt_put active (f\<lparr>jf_bytes := jf_bytes f @ bytes\<rparr>) dir)"
  using assms by (auto simp: append_jsonl_bytes_def ensure_jsonl_tail_def safe_path_info_def safe_file_def complete_tail_def)

text \<open>Rotation is due, and the name found for the active file is a dangling link.\<close>

definition rotation_blocked :: "LocalJsonlSink \<Rightarrow> string \<Rightarrow> directory \<Rightarrow> bool" where
  "rotation_blocked sink date dir \<longleftrightarrow> is_enabled (ls_rotation sink)
     \<and> (\<exists>f stem ext. bt_get (ls_path sink) dir = Some f \<and> max_size_bytes (ls_rotation sink) \<le> length (jf_bytes f)
         \<and> rotation_components (ls_path sink) = Some (stem, ext) \<and> name_blocked stem ext date dir)"

definition lock_granted :: "sidecar \<Rightarrow> bool" where
  "lock_granted lock \<longleftrightarrow> \<not> sc_busy lock \<and> sc_kept_at_acquire lock \<and> (\<forall>f. sc_entry lock = Some f \<longrightarrow> safe_file f)"

lemma acquire_lock_only_Inr:
  "acquire_lock_only lock target dir = Inr u \<longleftrightarrow> lock_granted lock \<and> (\<forall>f. bt_get target dir = Some f \<longrightarrow> safe_file f)"
  by (cases "sc_entry lock"; cases "bt_get target dir")
    (auto simp: acquire_lock_only_def open_lock_def safe_lock_info_def verify_lock_def lock_granted_def safe_file_def
      safe_path_info_def)

lemma write_jsonl_bytes_proceeds:
  assumes inv: "bt_inv dir" and ok: "rotatable sink" "appendable (ls_path sink) dir" and free: "\<not> rotation_blocked sink date dir"
  shows "\<exists>dir'. write_jsonl_bytes sink date fresh bytes dir = Inr dir' \<and> emission sink date fresh bytes dir dir'"
proof -
  let ?a = "ls_path sink" and ?c = "ls_rotation sink" and ?p = "ls_preserve_rotated sink"
  have pre: "ensure_jsonl_tail ?a dir = Inr ()" using ok(2) by (simp add: ensure_jsonl_tail_Inr appendable_def)
  have emit: "write_jsonl_bytes sink date fresh bytes dir
      = result_bind (if is_enabled ?c then maybe_rotate_with_mode ?a ?c ?p date dir else Inr (False, dir))
          (\<lambda>(r, d). result_bind (append_jsonl_bytes ?a fresh bytes d) (\<lambda>(c, d'). Inr d'))"
    by (simp add: write_jsonl_bytes_def pre)
  show ?thesis
  proof (cases "bt_get ?a dir")
    case None
    then show ?thesis by (simp add: emit maybe_rotate_with_mode_def append_creates emission_def)
  next
    case (Some f)
    with ok(2) have f: "safe_file f" "complete_tail (jf_bytes f)" by (simp_all add: appendable_def)
    show ?thesis
    proof (cases "is_enabled ?c \<and> max_size_bytes ?c \<le> length (jf_bytes f)")
      case False
      then show ?thesis using f Some
        by (auto simp: emit maybe_rotate_with_mode_def append_extends emission_def not_le)
    next
      case True
      with ok(1) obtain stem ext where se: "rotation_components ?a = Some (stem, ext)" by (auto simp: rotatable_def)
      have nb: "\<not> name_blocked stem ext date dir" using free True Some se by (auto simp: rotation_blocked_def)
      obtain j where j: "bt_get (nth_name stem ext date j) dir = None" "j \<le> length dir"
        "\<And>i. i < j \<Longrightarrow> bt_get (nth_name stem ext date i) dir \<noteq> None"
        "rotate_file ?a ?c ?p date dir = Inr (True,
          let dir' = bt_put (nth_name stem ext date j) f (bt_remove ?a dir)
          in if ?p then dir' else cleanup_rotated_files stem ext (keep_rotated ?c) dir')"
        by (rule rotate_file_outcome [OF inv se Some f(1) nb]) blast
      define moved where "moved = (let dir' = bt_put (nth_name stem ext date j) f (bt_remove ?a dir)
          in if ?p then dir' else cleanup_rotated_files stem ext (keep_rotated ?c) dir')"
      have ne: "?a \<noteq> nth_name stem ext date j" using j(1) Some by auto
      have inv': "bt_inv (bt_put (nth_name stem ext date j) f (bt_remove ?a dir))" by (intro bt_inv_put bt_inv_remove inv)
      have "bt_get ?a (bt_put (nth_name stem ext date j) f (bt_remove ?a dir)) = None"
        using ne by (simp add: bt_get_put bt_inv_remove inv bt_get_remove)
      then have "bt_get ?a moved = None"
        using cleanup_keeps_last(2) [OF inv' not_rotated_name [OF se]] by (simp add: moved_def Let_def)
      then have "write_jsonl_bytes sink date fresh bytes dir = Inr (bt_put ?a (new_file fresh bytes) moved)"
        using True Some j(4) by (simp add: emit maybe_rotate_with_mode_def moved_def [symmetric] append_creates)
      moreover have "emission sink date fresh bytes dir (bt_put ?a (new_file fresh bytes) moved)"
        unfolding emission_def Some using True se j(1-3) by (auto simp: moved_def)
      ultimately show ?thesis by blast
    qed
  qed
qed

lemma write_jsonl_bytes_blocked:
  assumes "bt_inv dir" and "\<forall>f. bt_get (ls_path sink) dir = Some f \<longrightarrow> safe_file f"
    and "\<not> appendable (ls_path sink) dir \<or> rotation_blocked sink date dir"
  shows "\<exists>e. write_jsonl_bytes sink date fresh bytes dir = Inl e"
proof (cases "appendable (ls_path sink) dir")
  case False
  then obtain f where "bt_get (ls_path sink) dir = Some f" "\<not> complete_tail (jf_bytes f)"
    using assms(2) by (auto simp: appendable_def)
  then show ?thesis by (auto simp: write_jsonl_bytes_def ensure_jsonl_tail_def complete_tail_def)
next
  case True
  then have tail: "ensure_jsonl_tail (ls_path sink) dir = Inr ()" by (simp add: ensure_jsonl_tail_Inr appendable_def)
  from True assms(3) obtain f stem ext where f: "is_enabled (ls_rotation sink)" "bt_get (ls_path sink) dir = Some f"
    "max_size_bytes (ls_rotation sink) \<le> length (jf_bytes f)" "rotation_components (ls_path sink) = Some (stem, ext)"
    "name_blocked stem ext date dir" by (auto simp: rotation_blocked_def)
  moreover obtain e where "rotate_file (ls_path sink) (ls_rotation sink) (ls_preserve_rotated sink) date dir = Inl e"
    using rotate_file_blocked [OF assms(1) f(4,2) _ f(5)] assms(2) f(2) by blast
  ultimately show ?thesis by (simp add: write_jsonl_bytes_def tail maybe_rotate_with_mode_def)
qed

text \<open>What lets the bytes through, and the two outcomes.\<close>

definition emits :: "LocalJsonlSink \<Rightarrow> sidecar \<Rightarrow> string \<Rightarrow> directory \<Rightarrow> bool" where
  "emits sink lock date dir \<longleftrightarrow> rotatable sink \<and> lock_granted lock \<and> appendable (ls_path sink) dir
     \<and> \<not> rotation_blocked sink date dir"

lemma emit_jsonl_bytes_proceeds:
  assumes "bt_inv dir" "emits sink lock date dir" "bytes \<noteq> []"
  shows "\<exists>dir'. emit_jsonl_bytes sink lock date fresh bytes dir = (verify_lock (sc_kept_at_end lock), dir')
    \<and> emission sink date fresh bytes dir dir'"
proof -
  obtain dir' where "write_jsonl_bytes sink date fresh bytes dir = Inr dir'" "emission sink date fresh bytes dir dir'"
    using write_jsonl_bytes_proceeds [OF assms(1), of sink date fresh bytes] assms(2) by (auto simp: emits_def)
  moreover have "acquire_lock_only lock (ls_path sink) dir = Inr ()"
    using assms(2) by (simp add: acquire_lock_only_Inr emits_def appendable_def)
  ultimately show ?thesis using assms(2,3) by (auto simp: emit_jsonl_bytes_def emits_def rotatable_def)
qed

lemma emit_jsonl_bytes_blocked:
  assumes "bt_inv dir" "\<not> emits sink lock date dir" "bytes \<noteq> []"
  shows "\<exists>e. emit_jsonl_bytes sink lock date fresh bytes dir = (Inl e, dir)"
proof (cases "acquire_lock_only lock (ls_path sink) dir")
  case (Inl e)
  then show ?thesis using assms(3) by (simp add: emit_jsonl_bytes_def)
next
  case (Inr u)
  then have l: "lock_granted lock" "\<forall>f. bt_get (ls_path sink) dir = Some f \<longrightarrow> safe_file f"
    by (simp_all add: acquire_lock_only_Inr)
  show ?thesis
  proof (cases "rotatable sink")
    case False
    then show ?thesis using assms(3) by (auto simp: emit_jsonl_bytes_def rotatable_def)
  next
    case True
    obtain e where "write_jsonl_bytes sink date fresh bytes dir = Inl e"
      using write_jsonl_bytes_blocked [OF assms(1) l(2), of date fresh bytes] assms(2) True l(1) by (auto simp: emits_def)
    then show ?thesis using assms(3) Inr True by (auto simp: emit_jsonl_bytes_def rotatable_def)
  qed
qed

lemma emit_jsonl_bytes_cases:
  assumes "bt_inv dir" "emit_jsonl_bytes sink lock date fresh bytes dir = (r, dir')"
  obtains (nothing) "bytes = []" "r = Inr ()" "dir' = dir"
  | (refused) e where "bytes \<noteq> []" "r = Inl e" "dir' = dir"
  | (written) "bytes \<noteq> []" "rotatable sink" "appendable (ls_path sink) dir" "emission sink date fresh bytes dir dir'"
proof (cases "bytes = []")
  case True
  then have "r = Inr ()" "dir' = dir" using assms(2) by (simp_all add: emit_jsonl_bytes_def)
  with True show thesis by (rule nothing)
next
  case False
  show thesis
  proof (cases "emits sink lock date dir")
    case True
    then show thesis
      using emit_jsonl_bytes_proceeds [OF assms(1) True False, of fresh] assms(2) written [OF False] by (auto simp: emits_def)
  next
    case no: False
    then show thesis using emit_jsonl_bytes_blocked [OF assms(1) no False, of fresh] assms(2) refused [OF False] by auto
  qed
qed

lemma emit_jsonl_bytes_Inr:
  assumes "bt_inv dir" "emit_jsonl_bytes sink lock date fresh bytes dir = (Inr (), dir')" "bytes \<noteq> []"
  shows "rotatable sink" "appendable (ls_path sink) dir" "emission sink date fresh bytes dir dir'"
  using assms(3) by (cases rule: emit_jsonl_bytes_cases [OF assms(1,2)]; simp)+

lemma emission_inv: "bt_inv dir \<Longrightarrow> emission sink date fresh bytes dir dir' \<Longrightarrow> bt_inv dir'"
  by (auto simp: emission_def Let_def bt_inv_put bt_inv_remove cleanup_inv split: option.splits if_splits)

lemma emission_keeps_files:
  assumes inv: "bt_inv dir" and p: "ls_preserve_rotated sink" and em: "emission sink date fresh bytes dir dir'"
    and f: "bt_get name dir = Some f"
  shows "if name = ls_path sink
    then (\<exists>name' f'. bt_get name' dir' = Some f' \<and> jf_identity f' = jf_identity f \<and> (f' = f \<or> jf_bytes f' = jf_bytes f @ bytes))
    else bt_get name dir' = Some f"
proof (cases "name = ls_path sink")
  case True
  have "\<exists>name' f'. bt_get name' dir' = Some f' \<and> jf_identity f' = jf_identity f \<and> (f' = f \<or> jf_bytes f' = jf_bytes f @ bytes)"
  proof (cases "is_enabled (ls_rotation sink) \<and> max_size_bytes (ls_rotation sink) \<le> length (jf_bytes f)")
    case False
    with em f True have "dir' = bt_put (ls_path sink) (f\<lparr>jf_bytes := jf_bytes f @ bytes\<rparr>) dir" by (auto simp: emission_def)
    with inv have "bt_get (ls_path sink) dir' = Some (f\<lparr>jf_bytes := jf_bytes f @ bytes\<rparr>)" by (simp add: bt_get_put)
    then show ?thesis by (intro exI [of _ "ls_path sink"]) simp
  next
    case rot: True
    with em f p True obtain stem ext j where j: "bt_get (nth_name stem ext date j) dir = None"
      "dir' = bt_put (ls_path sink) (new_file fresh bytes) (bt_put (nth_name stem ext date j) f (bt_remove (ls_path sink) dir))"
      by (auto simp: emission_def)
    have "nth_name stem ext date j \<noteq> ls_path sink" using j(1) f True by auto
    with inv j(2) have "bt_get (nth_name stem ext date j) dir' = Some f" by (simp add: bt_get_put bt_inv_put bt_inv_remove)
    then show ?thesis by blast
  qed
  with True show ?thesis by simp
next
  case False
  have get: "bt_get name (bt_put n g d) = bt_get name d" if "n \<noteq> name" "bt_inv d" for n g d
    using that by (simp add: bt_get_put)
  from False em f inv p show ?thesis
    by (auto simp: emission_def Let_def bt_get_put bt_get_remove bt_inv_remove bt_inv_put split: if_splits option.splits)
qed

lemma emission_appends:
  assumes inv: "bt_inv dir" and em: "emission sink date fresh bytes dir dir'"
  shows "\<exists>g. bt_get (ls_path sink) dir' = Some g \<and> suffix bytes (jf_bytes g)"
proof -
  have get: "bt_get (ls_path sink) (bt_put (ls_path sink) g d) = Some g" if "bt_inv d" for g d
    using that by (simp add: bt_get_put)
  show ?thesis
    using em inv by (auto simp: emission_def Let_def get bt_inv_remove bt_inv_put cleanup_inv new_file_def suffix_def
        split: if_splits option.splits)
qed

lemma rotated_files_moved:
  assumes inv: "bt_inv dir" and act: "parse_rotated_name active stem ext = None"
    and new: "bt_get name dir = None" "parse_rotated_name name stem ext = Some (date, n)" and reg: "jf_regular f"
    and least: "\<And>e. e \<in> set (rotated_files stem ext dir) \<Longrightarrow> (date, n, name) < fst e"
  shows "rotated_files stem ext (bt_put name f (bt_remove active dir)) = ((date, n, name), f) # rotated_files stem ext dir"
proof -
  let ?dir = "bt_put name f (bt_remove active dir)" and ?r = "rotated_files stem ext"
  have inv': "bt_inv ?dir" by (intro bt_inv_put bt_inv_remove inv)
  have mem: "e \<in> set (?r d) \<longleftrightarrow> (\<exists>m g. bt_get m d = Some g \<and> jf_regular g \<and> rotated_entry stem ext (m, g) = Some e)"
    if "bt_inv d" for d e
    using bt.entries_mem_iff [OF that] by (auto simp: rotated_files_def set_map_filter')
  have keys: "distinct (map fst (?r d))" if "bt_inv d" for d
    using rotated_files_distinct [OF that, of stem ext] unfolding distinct_map by (auto simp: inj_on_def)
  have "set (?r ?dir) = insert ((date, n, name), f) (set (?r dir))"
  proof (rule set_eqI)
    fix e
    have get: "bt_get m ?dir = (if m = name then Some f else if m = active then None else bt_get m dir)" for m
      by (simp add: bt_get_put bt_inv_remove inv bt_get_remove)
    have entry: "rotated_entry stem ext (name, f) = Some ((date, n, name), f)" using new(2) by (simp add: rotated_entry_def)
    have none: "rotated_entry stem ext (active, g) \<noteq> Some e" for g using act by (simp add: rotated_entry_def)
    show "e \<in> set (?r ?dir) \<longleftrightarrow> e \<in> insert ((date, n, name), f) (set (?r dir))"
    proof (cases "e = ((date, n, name), f)")
      case True
      then show ?thesis unfolding mem [OF inv'] get using entry reg by auto
    next
      case False
      have "(\<exists>g. bt_get m ?dir = Some g \<and> jf_regular g \<and> rotated_entry stem ext (m, g) = Some e)
          \<longleftrightarrow> (\<exists>g. bt_get m dir = Some g \<and> jf_regular g \<and> rotated_entry stem ext (m, g) = Some e)" for m
        using False entry none new(1) unfolding get by (cases "m = name"; cases "m = active") auto
      with False show ?thesis unfolding mem [OF inv'] insert_iff mem [OF inv] by blast
    qed
  qed
  moreover have "((date, n, name), f) \<notin> set (?r dir)" using least by fastforce
  moreover have "sorted (map fst (?r d))" for d by (simp add: rotated_files_def)
  then have "sorted (map fst (((date, n, name), f) # ?r dir))"
    using less_imp_le [OF least] by (simp only: list.map sorted_simps fst_conv set_map ball_simps) blast
  moreover have "distinct (map fst (((date, n, name), f) # ?r dir))" using keys [OF inv] least by fastforce
  ultimately show ?thesis
    using keys [OF inv']
    by (intro map_sorted_distinct_set_unique [where f = fst]) (auto simp: rotated_files_def distinct_map)
qed


lemma bt_get_filtered: "k \<in> S \<Longrightarrow> bt_get k (filter (\<lambda>p. fst p \<notin> S) m) = None"
  by (induction m) (auto simp: bt_get_def)

lemma cleanup_first:
  assumes "bt_inv dir" "rotated_files stem ext dir = ((d, n, name), f) # es" "0 < keep" "keep \<le> length es"
  shows "bt_get name (cleanup_rotated_files stem ext keep dir) = None"
proof -
  have "length (rotated_files stem ext dir) - keep = Suc (length es - keep)" using assms(2,4) by simp
  then have "name \<in> (\<lambda>e. snd (snd (fst e))) ` set (take (length (rotated_files stem ext dir) - keep) (rotated_files stem ext dir))"
    by (simp add: assms(2))
  then show ?thesis unfolding cleanup_eq by (rule bt_get_filtered)
qed

text \<open>The name without a counter sorts before the rotations of the same day that carry one.\<close>

lemma newest_sorts_first:
  assumes "date < fst (fst e) \<or> (date = fst (fst e) \<and> 0 < fst (snd (fst e)))"
  shows "(date, 0 :: nat, rotated_path stem ext date) < fst e"
  using assms by (cases e) auto

lemma rotation_deletes_newest_lemma:
  assumes inv: "bt_inv dir" and se: "rotation_components active = Some (stem, ext)"
    and f: "bt_get active dir = Some f" "safe_file f" and date: "valid_date date"
    and free: "bt_get (rotated_path stem ext date) dir = None"
    and keep: "0 < keep_rotated config" "keep_rotated config \<le> length (rotated_files stem ext dir)"
    and later: "\<And>e. e \<in> set (rotated_files stem ext dir) \<Longrightarrow> date < fst (fst e) \<or> (date = fst (fst e) \<and> 0 < fst (snd (fst e)))"
  shows "\<exists>dir'. rotate_file active config False date dir = Inr (True, dir')
    \<and> bt_get active dir' = None \<and> bt_get (rotated_path stem ext date) dir' = None
    \<and> rotated_files stem ext dir' = drop (length (rotated_files stem ext dir) - keep_rotated config) (rotated_files stem ext dir)"
proof -
  have nb: "\<not> name_blocked stem ext date dir"
  proof
    assume "name_blocked stem ext date dir"
    then obtain j g where g: "bt_get (nth_name stem ext date j) dir = Some g" "\<forall>i < j. path_exists (nth_name stem ext date i) dir"
      by (auto simp: name_blocked_def)
    have "nth_name stem ext date 0 = rotated_path stem ext date" by (simp add: nth_name_def)
    with g free show False by (cases j) (auto simp: path_exists_Some)
  qed
  obtain j where j: "bt_get (nth_name stem ext date j) dir = None" "\<And>i. i < j \<Longrightarrow> bt_get (nth_name stem ext date i) dir \<noteq> None"
    "rotate_file active config False date dir = Inr (True,
      let dir' = bt_put (nth_name stem ext date j) f (bt_remove active dir)
      in if False then dir' else cleanup_rotated_files stem ext (keep_rotated config) dir')"
    by (rule rotate_file_outcome [OF inv se f nb]) blast
  have "j = 0" using j(2) [of 0] free by (cases j) (auto simp: nth_name_def)
  then have name: "nth_name stem ext date j = rotated_path stem ext date" by (simp add: nth_name_def)
  let ?moved = "bt_put (rotated_path stem ext date) f (bt_remove active dir)" and ?keep = "keep_rotated config"
  have inv': "bt_inv ?moved" by (intro bt_inv_put bt_inv_remove inv)
  have act: "parse_rotated_name active stem ext = None" using se by (rule not_rotated_name)
  have rf: "rotated_files stem ext ?moved = ((date, 0, rotated_path stem ext date), f) # rotated_files stem ext dir"
    using f(2) by (intro rotated_files_moved inv act free parse_rotated_path date newest_sorts_first later) (simp_all add: safe_file_def)
  have "active \<noteq> rotated_path stem ext date" using f free by auto
  then have "bt_get active (cleanup_rotated_files stem ext ?keep ?moved) = None"
    by (simp add: cleanup_keeps_last(2) [OF inv' act] bt_get_put bt_inv_remove inv bt_get_remove)
  moreover have "bt_get (rotated_path stem ext date) (cleanup_rotated_files stem ext ?keep ?moved) = None"
    by (rule cleanup_first [OF inv' rf keep])
  moreover have "rotated_files stem ext (cleanup_rotated_files stem ext ?keep ?moved)
      = drop (length (rotated_files stem ext dir) - ?keep) (rotated_files stem ext dir)"
    using keep(2) by (simp add: cleanup_keeps_last(1) [OF inv'] rf Suc_diff_le)
  ultimately show ?thesis using j(3) by (simp add: name Let_def)
qed

section \<open>Properties\<close>

text \<open>C21. The date in a file name is the calendar date. The closed formula of
  \<open>date_from_days_since_epoch\<close> agrees with the Gregorian calendar counted day by day from 1970-01-01, for
  every number of days.\<close>

theorem calendar_reference: "civil_from_days (int n) = (next_day ^^ n) (1970, 1, 1)"
  by (rule civil_from_days_iterates)

text \<open>C34. Every name that rotation gives to a file is recognised by discovery and cleanup, with the date and
  the counter it was made from, for every time up to the end of the year 9999.\<close>

theorem rotated_names_round_trip:
  assumes "secs < 253402300800" and "counter \<le> USIZE_MAX"
  shows "parse_rotated_name (rotated_path stem ext (current_date_utc secs)) stem ext = Some (current_date_utc secs, 0)
    \<and> parse_rotated_name (rotated_with_counter stem ext (current_date_utc secs) counter) stem ext
      = Some (current_date_utc secs, counter)"
  using parse_rotated_path parse_rotated_with_counter valid_current_date [OF assms(1)] assms(2) by blast

theorem rotated_names_round_trip_witness:
  "parse_rotated_name (rotated_with_counter ''e'' ''j'' (current_date_utc 0) 3) ''e'' ''j'' = Some (current_date_utc 0, 3)"
  using rotated_names_round_trip [of 0 3 "''e''" "''j''"] by (simp add: USIZE_MAX_def)

text \<open>C33. An emission to the local log always ends, the search for a free rotation name included. Short of a
  failure of the file system itself it succeeds exactly when there is nothing to write, or rotation has a usable file
  name, the lock file is a safe regular file that nobody else holds and that stays in place, the active
  file is absent or a safe regular file that ends with a complete record, and rotation, where it is due,
  does not run into a dangling link. Otherwise it reports an error, and the directory is as before unless
  it was only the final check of the lock that failed.\<close>

theorem emission_succeeds_iff:
  assumes "bt_inv dir"
  shows "(fst (emit_jsonl_bytes sink lock date fresh bytes dir) = Inr ()
      \<longleftrightarrow> bytes = [] \<or> (rotatable sink \<and> lock_granted lock \<and> sc_kept_at_end lock \<and> appendable (ls_path sink) dir
            \<and> \<not> rotation_blocked sink date dir))
    \<and> (fst (emit_jsonl_bytes sink lock date fresh bytes dir) \<noteq> Inr () \<and> sc_kept_at_end lock
        \<longrightarrow> snd (emit_jsonl_bytes sink lock date fresh bytes dir) = dir)"
proof (cases "bytes = []")
  case True
  then show ?thesis by (simp add: emit_jsonl_bytes_def)
next
  case False
  show ?thesis
  proof (cases "emits sink lock date dir")
    case True
    with emit_jsonl_bytes_proceeds [OF assms True False, of fresh] False show ?thesis
      by (auto simp: emits_def verify_lock_def split: if_splits)
  next
    case no: False
    with emit_jsonl_bytes_blocked [OF assms no False, of fresh] False show ?thesis by (auto simp: emits_def)
  qed
qed

lemma digit_char_numerals: "digit_char 0 = CHR ''0''" "digit_char (Suc 0) = CHR ''1''" "digit_char 2 = CHR ''2''" "digit_char 3 = CHR ''3''" "digit_char 4 = CHR ''4''" "digit_char 5 = CHR ''5''" "digit_char 6 = CHR ''6''" "digit_char 7 = CHR ''7''" "digit_char 8 = CHR ''8''" "digit_char 9 = CHR ''9''"
  by (simp_all add: digit_char_def char_of_def bit_0)

definition sample_sink :: "nat \<Rightarrow> LocalJsonlSink" where
  "sample_sink keep = \<lparr>ls_path = ''e.j'', ls_rotation = \<lparr>max_size_bytes = 1, keep_rotated = keep\<rparr>, ls_preserve_rotated = True\<rparr>"

definition free_lock :: sidecar where
  "free_lock = \<lparr>sc_entry = Some (new_file ''l'' []), sc_busy = False, sc_kept_at_acquire = True, sc_kept_at_end = True\<rparr>"

lemma sample_emits:
  "emits (sample_sink 1) free_lock ''2026-06-21'' [(''e.j'', new_file ''i1'' [newline])]"
proof -
  have "\<not> name_blocked stem ext date [(''e.j'', new_file ''i1'' [newline])]" for stem ext date
    by (auto simp: name_blocked_def bt_get_def new_file_def split: if_splits)
  then show ?thesis
    by (simp add: emits_def rotation_blocked_def rotatable_def sample_sink_def rotation_components_def rsplit_once_def
        appendable_def bt_get_def new_file_def safe_file_def complete_tail_def lock_granted_def free_lock_def)
qed

text \<open>A free lock lets the emission through; a dangling link at the dated name stops it, although the name
  counts as free in the search.\<close>

theorem emission_succeeds_iff_witness:
  "fst (emit_jsonl_bytes (sample_sink 1) free_lock ''2026-06-21'' ''i2'' [newline] [(''e.j'', new_file ''i1'' [newline])]) = Inr ()
   \<and> fst (emit_jsonl_bytes (sample_sink 1) free_lock ''2026-06-21'' ''i2'' [newline]
       [(''e-2026-06-21.j'', (new_file ''i0'' [])\<lparr>jf_kind := DanglingLink\<rparr>), (''e.j'', new_file ''i1'' [newline])]) \<noteq> Inr ()"
proof
  have "bt_inv [(''e.j'', new_file ''i1'' [newline])]" by (simp add: bt_inv_def)
  from emission_succeeds_iff [OF this] sample_emits
  show "fst (emit_jsonl_bytes (sample_sink 1) free_lock ''2026-06-21'' ''i2'' [newline] [(''e.j'', new_file ''i1'' [newline])]) = Inr ()"
    by (simp add: emits_def free_lock_def)
next
  let ?dir = "[(''e-2026-06-21.j'', (new_file ''i0'' [])\<lparr>jf_kind := DanglingLink\<rparr>), (''e.j'', new_file ''i1'' [newline])]"
  have inv: "bt_inv ?dir" by (simp add: bt_inv_def less_char_def rust_simps)
  have "name_blocked ''e'' ''j'' ''2026-06-21'' ?dir"
    unfolding name_blocked_def by (intro exI [of _ 0]) (simp add: nth_name_def rotated_path_def bt_get_def)
  then have "rotation_blocked (sample_sink 1) ''2026-06-21'' ?dir"
    by (simp add: rotation_blocked_def sample_sink_def is_enabled_def rotation_components_def rsplit_once_def bt_get_def new_file_def)
  with emission_succeeds_iff [OF inv, of "sample_sink 1" free_lock "''2026-06-21''" "''i2''" "[newline]"]
  show "fst (emit_jsonl_bytes (sample_sink 1) free_lock ''2026-06-21'' ''i2'' [newline] ?dir) \<noteq> Inr ()" by simp
qed

text \<open>C11. When rotated files are preserved, an emission loses nothing, whether it succeeds or fails. The active
  file is as before, extended at its end by the bytes, or moved unchanged, with its identity, to a name that
  was free, and every other file stays as it is. When it succeeds the active file ends with the new bytes.\<close>

theorem emission_loses_nothing:
  assumes "bt_inv dir" and "ls_preserve_rotated sink" and "bytes \<noteq> []"
    and "emit_jsonl_bytes sink lock date fresh bytes dir = (r, dir')"
  shows "(\<forall>name f. bt_get name dir = Some f \<longrightarrow>
        (if name = ls_path sink
         then (\<exists>name' f'. bt_get name' dir' = Some f' \<and> jf_identity f' = jf_identity f
           \<and> (f' = f \<or> jf_bytes f' = jf_bytes f @ bytes))
         else bt_get name dir' = Some f))
    \<and> (r = Inr () \<longrightarrow> (\<exists>g. bt_get (ls_path sink) dir' = Some g \<and> suffix bytes (jf_bytes g))) \<and> bt_inv dir'"
  using assms(1,4)
proof (cases rule: emit_jsonl_bytes_cases)
  case written
  then show ?thesis
    using emission_keeps_files [OF assms(1,2)] emission_appends [OF assms(1)] emission_inv [OF assms(1)] by blast
next
  case (refused e)
  then show ?thesis using assms(1) by auto
qed (use assms(3) in simp)

theorem emission_loses_nothing_witness:
  "\<exists>dir' f'. emit_jsonl_bytes (sample_sink 1) free_lock ''2026-06-21'' ''i2'' [newline] [(''e.j'', new_file ''i1'' [newline])]
      = (Inr (), dir')
    \<and> (\<exists>name. bt_get name dir' = Some f') \<and> jf_identity f' = ''i1''"
proof -
  let ?dir = "[(''e.j'', new_file ''i1'' [newline])]"
  have inv: "bt_inv ?dir" by (simp add: bt_inv_def)
  obtain dir' where e: "emit_jsonl_bytes (sample_sink 1) free_lock ''2026-06-21'' ''i2'' [newline] ?dir = (Inr (), dir')"
    using emit_jsonl_bytes_proceeds [OF inv sample_emits, of "[newline]" "''i2''"] by (auto simp: verify_lock_def free_lock_def)
  have "bt_get ''e.j'' ?dir = Some (new_file ''i1'' [newline])" "ls_path (sample_sink 1) = ''e.j''"
    by (simp_all add: bt_get_def sample_sink_def)
  with emission_loses_nothing [OF inv _ _ e] e show ?thesis
    by (force simp: sample_sink_def new_file_def)
qed

text \<open>C35. Rotation can delete the newest generation. The search for a free name starts again at the name
  without a counter, so once cleanup has removed that name while later rotations of the day carry counters,
  the file that is being rotated sorts before them and cleanup deletes it in the same call; the files that
  stay are older.\<close>

theorem rotation_deletes_newest:
  assumes "bt_inv dir" and "rotation_components active = Some (stem, ext)"
    and "bt_get active dir = Some f" and "safe_file f" and "valid_date date"
    and "bt_get (rotated_path stem ext date) dir = None"
    and "0 < keep_rotated config" and "keep_rotated config \<le> length (rotated_files stem ext dir)"
    and "\<And>e. e \<in> set (rotated_files stem ext dir) \<Longrightarrow> date < fst (fst e) \<or> (date = fst (fst e) \<and> 0 < fst (snd (fst e)))"
  shows "\<exists>dir'. rotate_file active config False date dir = Inr (True, dir')
    \<and> bt_get active dir' = None \<and> bt_get (rotated_path stem ext date) dir' = None
    \<and> rotated_files stem ext dir' = drop (length (rotated_files stem ext dir) - keep_rotated config) (rotated_files stem ext dir)"
  by (rule rotation_deletes_newest_lemma [OF assms])

text \<open>Third rotation of a day with one rotated file to keep: the second rotation is kept, the third is lost.\<close>

definition third_rotation :: directory where
  "third_rotation = [(''e-2026-06-21.1.j'', new_file ''i2'' ''b''), (''e.j'', new_file ''i3'' ''c'')]"

theorem rotation_deletes_newest_witness:
  "\<exists>dir'. rotate_file ''e.j'' \<lparr>max_size_bytes = 1, keep_rotated = 1\<rparr> False ''2026-06-21'' third_rotation = Inr (True, dir')
    \<and> bt_get ''e.j'' dir' = None \<and> bt_get ''e-2026-06-21.j'' dir' = None"
proof -
  have date: "valid_date ''2026-06-21''"
    using valid_date_civil [of 2026 6 21] by (simp add: padded_def show_nat.simps digit_char_numerals)
  have parse: "parse_rotated_name ''e-2026-06-21.1.j'' ''e'' ''j'' = Some (''2026-06-21'', 1)"
    using parse_rotated_with_counter [OF date, of 1 "''e''" "''j''"]
    by (simp add: rotated_with_counter_def show_nat.simps digit_char_numerals USIZE_MAX_def)
  have act: "rotation_components ''e.j'' = Some (''e'', ''j'')" by (simp add: rotation_components_def rsplit_once_def)
  have r: "rotated_files ''e'' ''j'' third_rotation = [((''2026-06-21'', 1, ''e-2026-06-21.1.j''), new_file ''i2'' ''b'')]"
    using not_rotated_name [OF act]
    by (simp add: rotated_files_def third_rotation_def rotated_entry_def parse new_file_def)
  have inv: "bt_inv third_rotation" by (simp add: bt_inv_def third_rotation_def)
  from rotation_deletes_newest [OF inv act, of "new_file ''i3'' ''c''" "''2026-06-21''" "\<lparr>max_size_bytes = 1, keep_rotated = 1\<rparr>"]
  show ?thesis
    by (simp add: r date) (simp add: third_rotation_def bt_get_def new_file_def safe_file_def rotated_path_def, blast)
qed

end
