(* ===== verification/Journal_Capacity.thy ===== *)
theory Journal_Capacity
  imports Outbox_Journal
begin

text \<open>
  Correctness of capacity admission: the chunked scan of the unread journal against the accounting of
  its lines, and what an admitted batch guarantees about the limits. The definitions are those of the
  section on capacity admission of \<open>Outbox_Journal\<close>.
\<close>

section \<open>Capacity scan\<close>

text \<open>The reference scan goes line by line; the code reads chunks of bytes.\<close>

definition account_line ::
  "codec \<Rightarrow> outbox_db \<Rightarrow> (string, string) btree_map \<times> CapacityUsage \<Rightarrow> string
    \<Rightarrow> (DeliveryError, (string, string) btree_map \<times> CapacityUsage) result" where
  "account_line cd db acc l =
    (if ends_with l carriage_return then Inl (storage_message ''canonical JSONL uses an invalid line ending'')
     else account_unread_payload cd db acc l)"

lemma scan_byte_step:
  "scan_byte_capacity cd db bound (line, acc) newline = result_bind (account_line cd db acc line) (\<lambda>acc'. Inr ([], acc'))"
  "b \<noteq> newline \<Longrightarrow> length line < bound \<Longrightarrow> scan_byte_capacity cd db bound (line, acc) b = Inr (line @ [b], acc)"
  by (simp_all add: scan_byte_capacity_def account_line_def)

text \<open>Byte by byte, with a line begun: the bytes read so far of the line join the first line.\<close>

lemma scan_bytes_eq:
  assumes "newline_free line" and "length line + length s \<le> bound"
  shows "try_fold (scan_byte_capacity cd db bound) (line, acc) s
    = result_bind (try_fold (account_line cd db) acc (complete_lines (line @ s))) (\<lambda>acc'. Inr (tail_of (line @ s), acc'))"
  using assms
proof (induction s arbitrary: line acc)
  case Nil
  then show ?case using lines_unique [of "[]" line] by simp
next
  case (Cons b s)
  show ?case
  proof (cases "b = newline")
    case True
    have "line @ newline # s = unlines (line # complete_lines s) @ tail_of s"
      using lines_decompose(1) [of s] by simp
    moreover have "\<forall>l \<in> set (line # complete_lines s). newline_free l"
      using Cons.prems(1) lines_decompose(3) by auto
    ultimately have l: "complete_lines (line @ newline # s) = line # complete_lines s" "tail_of (line @ newline # s) = tail_of s"
      using lines_unique lines_decompose(2) by metis+
    have IH: "try_fold (scan_byte_capacity cd db bound) ([], acc') s
      = result_bind (try_fold (account_line cd db) acc' (complete_lines s)) (\<lambda>acc'. Inr (tail_of s, acc'))" for acc'
      using Cons.IH [of "[]" acc'] Cons.prems by (simp add: newline_free_def)
    show ?thesis
      unfolding True l
      by (cases "account_line cd db acc line") (simp_all add: scan_byte_step IH)
  next
    case False
    have "newline_free (line @ [b])" using False Cons.prems(1) by (auto simp: newline_free_def)
    then have "try_fold (scan_byte_capacity cd db bound) (line @ [b], acc) s
      = result_bind (try_fold (account_line cd db) acc (complete_lines ((line @ [b]) @ s))) (\<lambda>acc'. Inr (tail_of ((line @ [b]) @ s), acc'))"
      by (rule Cons.IH) (use Cons.prems in simp)
    then show ?thesis using False Cons.prems by (simp add: scan_byte_step)
  qed
qed

text \<open>Chunks compose: reading a prefix and then the rest is reading all of it.\<close>

lemma scan_chunks_eq:
  assumes "offset \<le> length bytes" and "newline_free line" and "scanned + (length bytes - offset) \<le> bound" and "length line \<le> scanned"
  shows "scan_chunks cd db bound bytes offset (scanned, line, acc)
    = result_bind (try_fold (scan_byte_capacity cd db bound) (line, acc) (drop offset bytes))
        (\<lambda>st. Inr (scanned + (length bytes - offset), st))"
  using assms
proof (induction "length bytes - offset" arbitrary: offset scanned line acc rule: less_induct)
  case less
  show ?case
  proof (cases "offset < length bytes")
    case False
    then show ?thesis using less.prems by (subst scan_chunks.simps) simp
  next
    case True
    define n where "n = min (length bytes - offset) CAPACITY_READ_CHUNK_BYTES"
    have n: "0 < n" "offset + n \<le> length bytes" using True by (simp_all add: n_def CAPACITY_READ_CHUNK_BYTES_def)
    let ?chunk = "take n (drop offset bytes)"
    have split: "drop offset bytes = ?chunk @ drop (offset + n) bytes"
      by (metis append_take_drop_id drop_drop add.commute)
    have lenc: "length ?chunk = n" using n by simp
    have within: "\<not> bound < scanned + n" using less.prems n by linarith
    have step: "scan_chunks cd db bound bytes offset (scanned, line, acc)
      = result_bind (try_fold (scan_byte_capacity cd db bound) (line, acc) ?chunk)
          (\<lambda>acc'. scan_chunks cd db bound bytes (offset + n) (scanned + n, acc'))"
      using True within by (subst scan_chunks.simps) (simp add: n_def [symmetric] Let_def)
    have chunk: "try_fold (scan_byte_capacity cd db bound) (line, acc) ?chunk
      = result_bind (try_fold (account_line cd db) acc (complete_lines (line @ ?chunk))) (\<lambda>acc'. Inr (tail_of (line @ ?chunk), acc'))"
      by (rule scan_bytes_eq) (use less.prems n in auto)
    have whole: "try_fold (scan_byte_capacity cd db bound) (line, acc) (drop offset bytes)
      = result_bind (try_fold (scan_byte_capacity cd db bound) (line, acc) ?chunk)
          (\<lambda>acc'. try_fold (scan_byte_capacity cd db bound) acc' (drop (offset + n) bytes))"
      unfolding try_fold_append [symmetric] by (simp only: split [symmetric])
    show ?thesis
    proof (cases "try_fold (account_line cd db) acc (complete_lines (line @ ?chunk))")
      case (Inl e)
      then show ?thesis unfolding step whole chunk by simp
    next
      case (Inr acc1)
      let ?line1 = "tail_of (line @ ?chunk)"
      have len: "length ?line1 \<le> scanned + n"
        using arg_cong [OF lines_decompose(1) [of "line @ ?chunk"], of length] less.prems(4) lenc by simp
      have IH: "scan_chunks cd db bound bytes (offset + n) (scanned + n, ?line1, acc1)
        = result_bind (try_fold (scan_byte_capacity cd db bound) (?line1, acc1) (drop (offset + n) bytes))
            (\<lambda>st. Inr (scanned + n + (length bytes - (offset + n)), st))"
        by (rule less.hyps) (use n less.prems lines_decompose(2) len in auto)
      have "scanned + n + (length bytes - (offset + n)) = scanned + (length bytes - offset)" using n by simp
      then show ?thesis unfolding step whole chunk Inr by (simp only: result_bind_simps IH)
    qed
  qed
qed

lemma scan_exceeds:
  assumes "offset \<le> length bytes" and "bound < scanned + (length bytes - offset)" and "scanned \<le> bound"
  shows "\<exists>e. scan_chunks cd db bound bytes offset (scanned, line, acc) = Inl e"
  using assms
proof (induction "length bytes - offset" arbitrary: offset scanned line acc rule: less_induct)
  case less
  define n where "n = min (length bytes - offset) CAPACITY_READ_CHUNK_BYTES"
  have lt: "offset < length bytes" using less.prems by linarith
  then have n: "0 < n" "offset + n \<le> length bytes" by (simp_all add: n_def CAPACITY_READ_CHUNK_BYTES_def)
  show ?case
  proof (cases "bound < scanned + n")
    case True
    then show ?thesis using lt by (subst scan_chunks.simps) (simp add: n_def [symmetric] Let_def)
  next
    case False
    have step: "scan_chunks cd db bound bytes offset (scanned, line, acc)
      = result_bind (try_fold (scan_byte_capacity cd db bound) (line, acc) (take n (drop offset bytes)))
          (\<lambda>acc'. scan_chunks cd db bound bytes (offset + n) (scanned + n, acc'))"
      using lt False by (subst scan_chunks.simps) (simp add: n_def [symmetric] Let_def)
    have IH: "\<exists>e. scan_chunks cd db bound bytes (offset + n) (scanned + n, line', acc') = Inl e" for line' acc'
      by (rule less.hyps) (use n less.prems False in auto)
    show ?thesis
      by (cases "try_fold (scan_byte_capacity cd db bound) (line, acc) (take n (drop offset bytes))")
        (use IH in \<open>auto simp: step\<close>)
  qed
qed

lemma scan_generation_eq:
  assumes "offset \<le> length bytes" and "scanned \<le> bound"
  shows "if bound < scanned + (length bytes - offset)
    then \<exists>e. scan_jsonl_generation_capacity cd db bound bytes offset is_last (scanned, acc) = Inl e
    else scan_jsonl_generation_capacity cd db bound bytes offset is_last (scanned, acc)
      = result_bind (try_fold (account_line cd db) acc (complete_lines (drop offset bytes)))
          (\<lambda>acc'. if tail_of (drop offset bytes) \<noteq> [] \<and> \<not> is_last
             then Inl (storage_message ''malformed non-tail canonical JSONL record'')
             else Inr (scanned + (length bytes - offset), acc'))"
proof (cases "bound < scanned + (length bytes - offset)")
  case True
  obtain e where "scan_chunks cd db bound bytes offset (scanned, [], acc) = Inl e"
    using scan_exceeds [OF assms(1) True assms(2)] by blast
  with True assms(1) show ?thesis by (simp add: scan_jsonl_generation_capacity_def)
next
  case False
  have "scan_chunks cd db bound bytes offset (scanned, [], acc)
    = result_bind (try_fold (scan_byte_capacity cd db bound) ([], acc) (drop offset bytes))
        (\<lambda>st. Inr (scanned + (length bytes - offset), st))"
    by (rule scan_chunks_eq) (use assms False in \<open>auto simp: newline_free_def\<close>)
  also have "try_fold (scan_byte_capacity cd db bound) ([], acc) (drop offset bytes)
    = result_bind (try_fold (account_line cd db) acc (complete_lines ([] @ drop offset bytes))) (\<lambda>acc'. Inr (tail_of ([] @ drop offset bytes), acc'))"
    by (rule scan_bytes_eq) (use assms False in \<open>auto simp: newline_free_def\<close>)
  finally show ?thesis using False assms(1)
    by (cases "try_fold (account_line cd db) acc (complete_lines (drop offset bytes))")
      (auto simp: scan_jsonl_generation_capacity_def)
qed

text \<open>C20. The capacity scan, which reads a generation in chunks of 64 KiB and splits them into lines byte
  by byte, is the accounting of its complete lines in order whatever the chunk boundaries; it refuses
  an incomplete last line anywhere but in the last generation, and never returns a usage when the
  bytes exceed the inspection bound.\<close>

theorem capacity_scan_by_lines:
  assumes "offset \<le> length bytes" and "scanned \<le> bound"
  shows "if bound < scanned + (length bytes - offset)
    then \<exists>e. scan_jsonl_generation_capacity cd db bound bytes offset is_last (scanned, acc) = Inl e
    else scan_jsonl_generation_capacity cd db bound bytes offset is_last (scanned, acc)
      = result_bind (try_fold (account_line cd db) acc (complete_lines (drop offset bytes)))
          (\<lambda>acc'. if tail_of (drop offset bytes) \<noteq> [] \<and> \<not> is_last
             then Inl (storage_message ''malformed non-tail canonical JSONL record'')
             else Inr (scanned + (length bytes - offset), acc'))"
  using assms by (rule scan_generation_eq)

section \<open>Capacity admission\<close>

definition total_bytes :: "(string, string) btree_map \<Rightarrow> nat" where
  "total_bytes m = sum_list (map (length \<circ> snd) m)"

lemma total_bytes_put: "bt_inv m \<Longrightarrow> bt_get k m = None \<Longrightarrow> total_bytes (bt_put k v m) = total_bytes m + length v"
  using sum_list_bt_put [of m length k v] by (simp add: total_bytes_def)

text \<open>Accounting: the usage grows with the payloads recorded as seen, exactly and without wrap-around, and
  every accounted payload is stored already or recorded.\<close>

definition accounted :: "outbox_db \<Rightarrow> (string, string) btree_map \<Rightarrow> string \<Rightarrow> string \<Rightarrow> bool" where
  "accounted db seen e b \<longleftrightarrow> stored db e = Some b \<or> (stored db e = None \<and> bt_get e seen = Some b)"

definition grows ::
  "(string, string) btree_map \<times> CapacityUsage \<Rightarrow> (string, string) btree_map \<times> CapacityUsage \<Rightarrow> bool" where
  "grows a a' \<longleftrightarrow> bt_inv (fst a') \<and> unat (cu_events (snd a')) + length (fst a) = unat (cu_events (snd a)) + length (fst a')
     \<and> unat (cu_bytes (snd a')) + total_bytes (fst a) = unat (cu_bytes (snd a)) + total_bytes (fst a')
     \<and> (\<forall>k v. bt_get k (fst a) = Some v \<longrightarrow> bt_get k (fst a') = Some v)"

lemma grows_trans: "grows a b \<Longrightarrow> grows b c \<Longrightarrow> grows a c"
  by (auto simp: grows_def)

lemma accounted_grows: "grows (seen, u) (seen', u') \<Longrightarrow> accounted db seen e b \<Longrightarrow> accounted db seen' e b"
  by (auto simp: accounted_def grows_def)

lemma accounted_unique: "accounted db seen e b \<Longrightarrow> accounted db seen e b' \<Longrightarrow> b = b'"
  by (auto simp: accounted_def)

lemma accounted_stored: "accounted db seen e b \<Longrightarrow> stored db e \<in> {None, Some b}"
  by (auto simp: accounted_def)

lemma already_stored_False: "event_is_already_stored db p = Inr False \<Longrightarrow> stored db (pl_event_id p) = None"
  by (auto simp: event_is_already_stored_def stored_def split: option.splits if_splits)

lemma account_payload_grows:
  assumes "account_payload db (seen, u) p = Inr (seen', u')" and inv: "bt_inv seen"
  shows "grows (seen, u) (seen', u') \<and> accounted db seen' (pl_event_id p) (pl_bytes p)"
proof -
  from assms(1) obtain b where b: "event_is_already_stored db p = Inr b"
    by (auto simp: account_payload_def result_bind_eq_Inr_iff)
  show ?thesis
  proof (cases b)
    case True
    with assms b show ?thesis using already_stored [of db p]
      by (auto simp: account_payload_def grows_def accounted_def)
  next
    case False
    then have st: "stored db (pl_event_id p) = None" using b already_stored_False by simp
    show ?thesis
    proof (cases "bt_get (pl_event_id p) seen")
      case (Some v)
      with assms b False st show ?thesis
        by (auto simp: account_payload_def grows_def accounted_def split: if_splits)
    next
      case None
      from assms b False None obtain n where
        ev: "checked_add (cu_events u) 1 = Some (cu_events u')" and n: "u64_of_nat (length (pl_bytes p)) = Some n"
        and by': "checked_add (cu_bytes u) n = Some (cu_bytes u')" and seen': "seen' = bt_put (pl_event_id p) (pl_bytes p) seen"
        by (auto simp: account_payload_def result_bind_eq_Inr_iff)
      have "unat n = length (pl_bytes p)"
        using n by (auto simp: u64_of_nat_def unsigned_of_nat take_bit_nat_eq_self split: if_splits)
      then show ?thesis
        using ev by' None st inv
        by (auto simp: grows_def accounted_def seen' checked_add_Some_iff length_bt_put total_bytes_put bt_inv_put bt_get_put)
    qed
  qed
qed

text \<open>The identities that payloads add to an outbox, and a fold that accounts for a payload at every
  element.\<close>

definition new_ids :: "outbox_db \<Rightarrow> Event3DurablePayload list \<Rightarrow> string set" where
  "new_ids db ps = {pl_event_id p | p. p \<in> set ps \<and> stored db (pl_event_id p) = None}"

definition keys :: "(string, string) btree_map \<Rightarrow> string set" where
  "keys m = {k. bt_get k m \<noteq> None}"

lemma keys_account_payload:
  assumes "account_payload db (seen, u) p = Inr (seen', u')" and "bt_inv seen"
  shows "keys seen' = keys seen \<union> new_ids db [p]"
proof -
  from assms(1) obtain b where b: "event_is_already_stored db p = Inr b"
    by (auto simp: account_payload_def result_bind_eq_Inr_iff)
  show ?thesis
  proof (cases b)
    case True
    with assms b show ?thesis using already_stored [of db p]
      by (auto simp: account_payload_def keys_def new_ids_def)
  next
    case False
    then have st: "stored db (pl_event_id p) = None" using b already_stored_False by simp
    show ?thesis
      by (cases "bt_get (pl_event_id p) seen")
        (use assms b False st in \<open>auto simp: account_payload_def keys_def new_ids_def result_bind_eq_Inr_iff bt_get_put split: if_splits\<close>)
  qed
qed

lemma new_ids_Cons: "new_ids db (p # ps) = new_ids db [p] \<union> new_ids db ps"
  by (auto simp: new_ids_def)

lemma account_fold_grows:
  assumes "try_fold f (seen, u) xs = Inr (seen', u')" and "bt_inv seen"
    and step: "\<And>a x a'. f a x = Inr a' \<Longrightarrow> account_payload db a (pay x) = Inr a'"
  shows "grows (seen, u) (seen', u') \<and> keys seen' = keys seen \<union> new_ids db (map pay xs)
    \<and> (\<forall>x \<in> set xs. accounted db seen' (pl_event_id (pay x)) (pl_bytes (pay x)))"
  using assms(1,2)
proof (induction xs arbitrary: seen u)
  case Nil
  then show ?case by (auto simp: grows_def new_ids_def)
next
  case (Cons x xs)
  obtain s1 u1 where f: "f (seen, u) x = Inr (s1, u1)" and r: "try_fold f (s1, u1) xs = Inr (seen', u')"
    using Cons.prems(1) by (auto simp: result_bind_eq_Inr_iff)
  note p = step [OF f]
  note g = account_payload_grows [OF p Cons.prems(2)] keys_account_payload [OF p Cons.prems(2)]
  have inv: "bt_inv s1" using g by (simp add: grows_def)
  note IH = Cons.IH [OF r inv]
  have "grows (seen, u) (seen', u')" using g(1) IH grows_trans by blast
  moreover have "accounted db seen' (pl_event_id (pay x)) (pl_bytes (pay x))" using g(1) IH accounted_grows by blast
  moreover have "keys seen' = keys seen \<union> new_ids db (map pay (x # xs))"
    using IH g(2) new_ids_Cons [of db "pay x" "map pay xs"] by auto
  ultimately show ?case using IH by auto
qed

fun unread_lines :: "nat \<Rightarrow> JsonlGeneration list \<Rightarrow> string list" where
  "unread_lines offset [] = []"
| "unread_lines offset (g # gs) = complete_lines (drop offset (jg_bytes g)) @ unread_lines 0 gs"

lemma scan_generations_Inr:
  assumes "scan_generations cd db bound offset gs (scanned, acc) = Inr (scanned', acc')" and "scanned \<le> bound"
  shows "try_fold (account_line cd db) acc (unread_lines offset gs) = Inr acc'"
  using assms
proof (induction gs arbitrary: offset scanned acc)
  case (Cons g gs)
  from Cons.prems obtain sc1 acc1 where
    s: "scan_jsonl_generation_capacity cd db bound (jg_bytes g) offset (gs = []) (scanned, acc) = Inr (sc1, acc1)"
    and r: "scan_generations cd db bound 0 gs (sc1, acc1) = Inr (scanned', acc')"
    by (auto simp: result_bind_eq_Inr_iff)
  have le: "offset \<le> length (jg_bytes g)" using s by (auto simp: scan_jsonl_generation_capacity_def split: if_splits)
  note eq = scan_generation_eq [OF le Cons.prems(2), of cd db "gs = []" acc, unfolded s]
  have nb: "\<not> bound < scanned + (length (jg_bytes g) - offset)" using eq by (auto split: if_splits)
  have a: "try_fold (account_line cd db) acc (complete_lines (drop offset (jg_bytes g))) = Inr acc1
    \<and> sc1 = scanned + (length (jg_bytes g) - offset)"
    using eq nb by (cases "try_fold (account_line cd db) acc (complete_lines (drop offset (jg_bytes g)))") (auto split: if_splits)
  with Cons.IH [OF r] nb show ?case by (auto simp: try_fold_append)
qed simp

lemma account_line_Inr:
  assumes "account_line cd db a l = Inr a'"
  shows "\<exists>p. canonical_payload_from_bytes cd l = Inr p \<and> account_payload db a p = Inr a'"
  using assms by (auto simp: account_line_def account_unread_payload_def split: if_splits sum.splits)

lemma add_usage_Inr:
  "add_usage a b = Inr c \<Longrightarrow> unat (cu_events c) = unat (cu_events a) + unat (cu_events b) \<and> unat (cu_bytes c) = unat (cu_bytes a) + unat (cu_bytes b)"
  by (auto simp: add_usage_def result_bind_eq_Inr_iff checked_add_Some_iff)

definition line_payloads :: "codec \<Rightarrow> string list \<Rightarrow> Event3DurablePayload list" where
  "line_payloads cd ls = map (\<lambda>l. projr (canonical_payload_from_bytes cd l)) ls"

lemma account_line_projr:
  "account_line cd db a l = Inr a' \<Longrightarrow> account_payload db a (projr (canonical_payload_from_bytes cd l)) = Inr a'"
  using account_line_Inr by fastforce

lemma account_fold_parses:
  "try_fold (account_line cd db) a ls = Inr a' \<Longrightarrow> try_map (canonical_payload_from_bytes cd) ls = Inr (line_payloads cd ls)"
proof (induction ls arbitrary: a)
  case (Cons l ls)
  then obtain a1 where l: "account_line cd db a l = Inr a1" and "try_fold (account_line cd db) a1 ls = Inr a'"
    by (auto simp: result_bind_eq_Inr_iff)
  with Cons.IH account_line_Inr [OF l] show ?case by (auto simp: line_payloads_def)
qed (simp add: line_payloads_def)

lemma length_keys: "bt_inv m \<Longrightarrow> length m = card (keys m)"
  using bt.entries_keys [of m] distinct_card [OF bt.entries_distinct [of m]] by (simp add: keys_def)

text \<open>The unread part of the journal in the inspection.\<close>

lemma inspect_unread_Inr:
  assumes "inspect_unread_jsonl_capacity cd db gs (db_cursor db) ns ph bound = Inr x"
  shows "\<exists>i offset. (gs \<noteq> [] \<longrightarrow> starts cd gs db i offset) \<and> bt_inv (cx_payloads x)
    \<and> try_map (canonical_payload_from_bytes cd) (unread_lines offset (drop i gs))
        = Inr (line_payloads cd (unread_lines offset (drop i gs)))
    \<and> keys (cx_payloads x) = new_ids db (line_payloads cd (unread_lines offset (drop i gs)))
    \<and> (\<forall>p \<in> set (line_payloads cd (unread_lines offset (drop i gs))).
        accounted db (cx_payloads x) (pl_event_id p) (pl_bytes p))
    \<and> unat (cu_events (cx_base x)) = length (cx_payloads x) \<and> unat (cu_bytes (cx_base x)) = total_bytes (cx_payloads x)"
proof -
  from assms obtain ns' ph' i offset where cs: "cursor_start cd gs (db_cursor db) ns' ph' = Inr (i, offset)"
    and r: "(length gs \<le> i \<and> db_cursor db = None \<and> x = \<lparr>cx_base = no_usage, cx_payloads = []\<rparr>)
      \<or> (\<not> length gs \<le> i \<and> (\<exists>sc seen u. scan_generations cd db bound offset (drop i gs) (0, [], no_usage) = Inr (sc, seen, u)
          \<and> x = \<lparr>cx_base = u, cx_payloads = seen\<rparr>))"
    by (auto simp: inspect_unread_jsonl_capacity_def result_bind_eq_Inr_iff split: if_splits)
  show ?thesis
  proof (cases "length gs \<le> i")
    case True
    with r cursor_start_Inr [OF cs] have "gs = []" "x = \<lparr>cx_base = no_usage, cx_payloads = []\<rparr>"
      by (auto split: option.splits if_splits)
    then show ?thesis by (auto simp: keys_def new_ids_def line_payloads_def no_usage_def total_bytes_def)
  next
    case False
    have st: "starts cd gs db i offset" using cursor_start_Inr [OF cs] False by (auto simp: starts_def split: option.splits)
    from r False obtain sc seen u where sg: "scan_generations cd db bound offset (drop i gs) (0, [], no_usage) = Inr (sc, seen, u)"
      and x: "x = \<lparr>cx_base = u, cx_payloads = seen\<rparr>"
      by (auto simp: result_bind_eq_Inr_iff)
    have f: "try_fold (account_line cd db) ([], no_usage) (unread_lines offset (drop i gs)) = Inr (seen, u)"
      using scan_generations_Inr [OF sg] by simp
    have "grows ([], no_usage) (seen, u) \<and> keys seen = keys [] \<union> new_ids db (line_payloads cd (unread_lines offset (drop i gs)))
        \<and> (\<forall>p \<in> set (line_payloads cd (unread_lines offset (drop i gs))). accounted db seen (pl_event_id p) (pl_bytes p))"
      using account_fold_grows [OF f, of db "\<lambda>l. projr (canonical_payload_from_bytes cd l)"] account_line_projr
      by (auto simp: line_payloads_def)
    with st x account_fold_parses [OF f] show ?thesis by (auto simp: grows_def keys_def no_usage_def total_bytes_def)
  qed
qed

text \<open>What the limits are about: the events of the outbox with a pending or blocked delivery, and the
  events of payloads that the outbox has not stored, each with its bytes.\<close>

definition pending_ids :: "outbox_db \<Rightarrow> string set" where
  "pending_ids db = {e. stored db e \<noteq> None \<and> (\<exists>sink c. ((e, sink), c) \<in> set (db_deliveries db)
     \<and> state_from_str (col_state c) \<in> {Some Pending, Some Blocked})}"

definition new_events :: "outbox_db \<Rightarrow> Event3DurablePayload list \<Rightarrow> (string \<times> string) set" where
  "new_events db ps = {(pl_event_id p, pl_bytes p) | p. p \<in> set ps \<and> stored db (pl_event_id p) = None}"

lemma undelivered_iff:
  "undelivered db e \<longleftrightarrow> (\<exists>sink c. ((e, sink), c) \<in> set (db_deliveries db)
     \<and> state_from_str (col_state c) \<in> {Some Pending, Some Blocked})"
proof -
  have "state_from_str (col_state c) \<in> {Some Pending, Some Blocked} \<longleftrightarrow> col_state c \<in> {''pending'', ''blocked''}" for c
    by (auto simp: state_from_str_def)
  then show ?thesis unfolding undelivered_def list_ex_iff by force
qed

lemma bt_inv_entries: "bt_inv m \<Longrightarrow> distinct m \<and> inj_on fst (set m)"
  using bt.entries_distinct [of m] by (simp add: distinct_map)

lemma bt_get_mem: "bt_inv m \<Longrightarrow> bt_get k m = Some v \<longleftrightarrow> (k, v) \<in> set m"
  using bt.entries_distinct [of m] by (simp add: bt_get_def)

text \<open>The query counts exactly these events, with no wrap-around.\<close>

lemma query_pending_exact:
  assumes inv: "bt_inv (db_events db)" and q: "query_pending_capacity db = Inr pending"
  shows "unat (cu_events pending) = card (pending_ids db)"
    and "unat (cu_bytes pending) = (\<Sum>e \<in> pending_ids db. length (the (stored db e)))"
proof -
  let ?rows = "filter (\<lambda>r. undelivered db (fst r)) (db_events db)"
  have d: "distinct ?rows" "inj_on fst (set ?rows)" using bt_inv_entries [OF inv] by (auto simp: inj_on_def)
  have ids: "fst ` set ?rows = pending_ids db"
  proof -
    have "e \<in> fst ` set ?rows \<longleftrightarrow> e \<in> pending_ids db" for e
      using bt_get_mem [OF inv, of e] by (cases "bt_get e (db_events db)") (force simp: pending_ids_def stored_def undelivered_iff)+
    then show ?thesis by blast
  qed
  have ev: "unat (cu_events pending) = length ?rows"
    and by': "unat (cu_bytes pending) = sum_list (map (length \<circ> col_payload \<circ> snd) ?rows)"
    using q by (auto simp: query_pending_capacity_def Let_def result_bind_eq_Inr_iff u64_of_nat_def unsigned_of_nat
        take_bit_nat_eq_self split: if_splits)
  have "length ?rows = card (set ?rows)" by (rule distinct_card [OF d(1), symmetric])
  then show "unat (cu_events pending) = card (pending_ids db)" using ev ids card_image [OF d(2)] by simp
  have "sum_list (map (length \<circ> col_payload \<circ> snd) ?rows) = (\<Sum>r \<in> set ?rows. length (col_payload (snd r)))"
    using sum_list_distinct_conv_sum_set [OF d(1)] by (simp add: comp_def)
  also have "\<dots> = (\<Sum>r \<in> set ?rows. length (the (stored db (fst r))))"
  proof (rule sum.cong)
    fix r assume "r \<in> set ?rows"
    then have "bt_get (fst r) (db_events db) = Some (snd r)" using bt_get_mem [OF inv, of "fst r" "snd r"] by simp
    then show "length (col_payload (snd r)) = length (the (stored db (fst r)))" by (simp add: stored_def)
  qed simp
  also have "\<dots> = (\<Sum>e \<in> pending_ids db. length (the (stored db e)))"
    unfolding ids [symmetric] sum.reindex [OF d(2)] comp_def ..
  finally show "unat (cu_bytes pending) = (\<Sum>e \<in> pending_ids db. length (the (stored db e)))" using by' by simp
qed

text \<open>The payloads seen are the new events of the accounted payloads.\<close>

lemma seen_exact:
  assumes inv: "bt_inv seen" and keys: "keys seen = new_ids db ps"
    and acc: "\<forall>p \<in> set ps. accounted db seen (pl_event_id p) (pl_bytes p)"
  shows "set seen = new_events db ps" and "length seen = card (new_events db ps)"
    and "total_bytes seen = (\<Sum>(e, b) \<in> new_events db ps. length b)"
proof -
  show eq: "set seen = new_events db ps"
  proof (rule set_eqI)
    fix x :: "string \<times> string"
    obtain e b where x: "x = (e, b)" by (cases x)
    show "x \<in> set seen \<longleftrightarrow> x \<in> new_events db ps"
    proof
      assume "x \<in> set seen"
      then have g: "bt_get e seen = Some b" using bt_get_mem [OF inv] by (simp add: x)
      then have "e \<in> new_ids db ps" using keys by (auto simp: keys_def)
      then obtain p where p: "p \<in> set ps" "pl_event_id p = e" "stored db e = None" by (auto simp: new_ids_def)
      with acc g have "pl_bytes p = b" by (auto simp: accounted_def)
      with p show "x \<in> new_events db ps" by (auto simp: new_events_def x)
    next
      assume "x \<in> new_events db ps"
      then obtain p where "p \<in> set ps" "pl_event_id p = e" "pl_bytes p = b" "stored db e = None"
        by (auto simp: new_events_def x)
      with acc have "bt_get e seen = Some b" by (auto simp: accounted_def)
      then show "x \<in> set seen" using bt_get_mem [OF inv] by (simp add: x)
    qed
  qed
  have d: "distinct seen" using bt_inv_entries [OF inv] by simp
  show "length seen = card (new_events db ps)" using d eq by (metis distinct_card)
  show "total_bytes seen = (\<Sum>(e, b) \<in> new_events db ps. length b)"
    using sum_list_distinct_conv_sum_set [OF d, of "length \<circ> snd"] eq by (simp add: total_bytes_def comp_def case_prod_beta)
qed

lemma new_ids_append: "new_ids db (ps @ qs) = new_ids db ps \<union> new_ids db qs"
  by (auto simp: new_ids_def)

text \<open>The inspection and the batch together: what has been seen at the end, and the totals.\<close>

lemma capacity_checked:
  assumes "check_capacity_for_payloads cd db ph gs batch limits = Inr ()"
  shows "\<exists>pending seen i offset unread. query_pending_capacity db = Inr pending \<and> (gs \<noteq> [] \<longrightarrow> starts cd gs db i offset)
    \<and> try_map (canonical_payload_from_bytes cd) (unread_lines offset (drop i gs)) = Inr unread
    \<and> bt_inv seen \<and> keys seen = new_ids db (unread @ batch)
    \<and> (\<forall>p \<in> set (unread @ batch). accounted db seen (pl_event_id p) (pl_bytes p))
    \<and> (new_ids db batch \<subseteq> new_ids db unread
       \<or> unat (cu_events pending) + length seen \<le> unat (max_pending_events limits)
         \<and> unat (cu_bytes pending) + total_bytes seen \<le> unat (max_pending_bytes limits))"
proof -
  let ?f = "\<lambda>st p. result_bind (validate_capacity_payload cd p) (\<lambda>_. account_payload db st p)"
  from assms obtain x seen u where ins: "inspect_capacity_inputs cd db ph gs MAX_CAPACITY_SCAN_BYTES = Inr x"
    and fold: "try_fold ?f (cx_payloads x, no_usage) batch = Inr (seen, u)"
    and tot: "check_capacity_totals (cx_base x) u limits = Inr ()"
    by (auto simp: check_capacity_for_payloads_def check_capacity_payloads_locked_def result_bind_eq_Inr_iff)
  from ins obtain ns pending y where q: "query_pending_capacity db = Inr pending"
    and y: "inspect_unread_jsonl_capacity cd db gs (db_cursor db) ns ph MAX_CAPACITY_SCAN_BYTES = Inr y"
    and b: "add_usage pending (cx_base y) = Inr (cx_base x)" and pl: "cx_payloads x = cx_payloads y"
    by (auto simp: inspect_capacity_inputs_def result_bind_eq_Inr_iff dest: read_ingest_cursor_Inr)
  obtain i offset unread where un: "gs \<noteq> [] \<longrightarrow> starts cd gs db i offset" "bt_inv (cx_payloads y)"
    "try_map (canonical_payload_from_bytes cd) (unread_lines offset (drop i gs)) = Inr unread"
    "keys (cx_payloads y) = new_ids db unread"
    "\<forall>p \<in> set unread. accounted db (cx_payloads y) (pl_event_id p) (pl_bytes p)"
    "unat (cu_events (cx_base y)) = length (cx_payloads y)" "unat (cu_bytes (cx_base y)) = total_bytes (cx_payloads y)"
    using inspect_unread_Inr [OF y] by blast
  have g: "grows (cx_payloads y, no_usage) (seen, u)" "keys seen = keys (cx_payloads y) \<union> new_ids db batch"
    "\<forall>p \<in> set batch. accounted db seen (pl_event_id p) (pl_bytes p)"
    using account_fold_grows [OF fold, of db "\<lambda>p. p"] un(2) by (auto simp: pl result_bind_eq_Inr_iff)
  have unread_seen: "\<forall>p \<in> set unread. accounted db seen (pl_event_id p) (pl_bytes p)"
    using un(5) accounted_grows [OF g(1)] by blast
  have limits: "unat (cu_events pending) + length seen \<le> unat (max_pending_events limits)
      \<and> unat (cu_bytes pending) + total_bytes seen \<le> unat (max_pending_bytes limits)"
    if new: "\<not> new_ids db batch \<subseteq> keys (cx_payloads y)"
  proof -
    have "length seen \<noteq> length (cx_payloads y)"
    proof
      assume "length seen = length (cx_payloads y)"
      then have c: "card (keys (cx_payloads y)) = card (keys seen)" using g(1) un(2) by (simp add: length_keys grows_def)
      have fin: "finite (keys seen)" using g(1) bt.entries_keys [of seen] List.finite_set [of "map fst seen"]
        by (simp add: keys_def grows_def)
      have sub: "keys (cx_payloads y) \<subseteq> keys seen" and "new_ids db batch \<subseteq> keys seen" using g(2) by blast+
      with card_subset_eq [OF fin sub c] new show False by blast
    qed
    then have "cu_events u \<noteq> 0" using g(1) by (auto simp: grows_def no_usage_def)
    then obtain t where t: "add_usage (cx_base x) u = Inr t" and le: "cu_events t \<le> max_pending_events limits" "cu_bytes t \<le> max_pending_bytes limits"
      using tot by (auto simp: check_capacity_totals_def result_bind_eq_Inr_iff not_less split: if_splits)
    have "unat (cu_events pending) + length seen = unat (cu_events t)" "unat (cu_bytes pending) + total_bytes seen = unat (cu_bytes t)"
      using add_usage_Inr [OF t] add_usage_Inr [OF b] un(6,7) g(1) by (simp_all add: grows_def no_usage_def)
    then show ?thesis using le by (simp add: word_le_nat_alt)
  qed
  have inv: "bt_inv seen" using g(1) by (simp add: grows_def)
  show ?thesis
    by (intro exI [of _ pending] exI [of _ seen] exI [of _ i] exI [of _ offset] exI [of _ unread] conjI)
      (use q un(1,3,4) g(2,3) unread_seen limits inv in \<open>auto simp: new_ids_append\<close>)
qed

lemma new_ids_fst: "new_ids db ps = fst ` new_events db ps"
proof (rule set_eqI)
  fix e show "e \<in> new_ids db ps \<longleftrightarrow> e \<in> fst ` new_events db ps"
    by (simp add: new_ids_def new_events_def image_iff)
qed

lemma new_ids_subset_iff:
  assumes "\<forall>p \<in> set (ps @ qs). accounted db seen (pl_event_id p) (pl_bytes p)"
  shows "new_ids db qs \<subseteq> new_ids db ps \<longleftrightarrow> new_events db qs \<subseteq> new_events db ps"
proof
  assume sub: "new_ids db qs \<subseteq> new_ids db ps"
  show "new_events db qs \<subseteq> new_events db ps"
  proof
    fix x assume "x \<in> new_events db qs"
    then obtain q where q: "x = (pl_event_id q, pl_bytes q)" "q \<in> set qs" "stored db (pl_event_id q) = None"
      by (auto simp: new_events_def)
    then obtain p where p: "p \<in> set ps" "pl_event_id p = pl_event_id q" using sub by (force simp: new_ids_def)
    have "accounted db seen (pl_event_id q) (pl_bytes p)" "accounted db seen (pl_event_id q) (pl_bytes q)"
      using bspec [OF assms, of p] bspec [OF assms, of q] p q(2) by simp_all
    then have "pl_bytes p = pl_bytes q" by (rule accounted_unique)
    then show "x \<in> new_events db ps" unfolding new_events_def using p q by (intro CollectI exI [of _ p]) simp
  qed
qed (simp add: new_ids_fst image_mono)

text \<open>C18. Admission. When a batch is admitted, every line of the journal that is complete but unread from
  the cursor on is a canonical payload, and within those lines and the batch an identity has one
  payload, the stored one if it is stored. If the batch adds an event, then the events of the outbox
  with a pending or blocked delivery, the unread events of the journal and the events of the batch,
  each counted once and with its whole payload, stay within the event limit and the byte limit; no
  count wraps around.\<close>

theorem capacity_admission:
  assumes "bt_inv (db_events db)" and "check_capacity_for_payloads cd db ph gs batch limits = Inr ()"
  shows "\<exists>i offset unread. (gs \<noteq> [] \<longrightarrow> starts cd gs db i offset)
    \<and> try_map (canonical_payload_from_bytes cd) (unread_lines offset (drop i gs)) = Inr unread
    \<and> (\<forall>p \<in> set (unread @ batch). stored db (pl_event_id p) \<in> {None, Some (pl_bytes p)}
        \<and> (\<forall>q \<in> set (unread @ batch). pl_event_id p = pl_event_id q \<longrightarrow> pl_bytes p = pl_bytes q))
    \<and> (new_events db batch \<subseteq> new_events db unread
       \<or> card (pending_ids db) + card (new_events db (unread @ batch)) \<le> unat (max_pending_events limits)
         \<and> (\<Sum>e \<in> pending_ids db. length (the (stored db e))) + (\<Sum>(e, b) \<in> new_events db (unread @ batch). length b)
             \<le> unat (max_pending_bytes limits))"
proof -
  obtain pending seen i offset unread where q: "query_pending_capacity db = Inr pending"
    and st: "gs \<noteq> [] \<longrightarrow> starts cd gs db i offset"
    and un: "try_map (canonical_payload_from_bytes cd) (unread_lines offset (drop i gs)) = Inr unread"
    and seen: "bt_inv seen" "keys seen = new_ids db (unread @ batch)"
    and acc: "\<forall>p \<in> set (unread @ batch). accounted db seen (pl_event_id p) (pl_bytes p)"
    and lim: "new_ids db batch \<subseteq> new_ids db unread
       \<or> unat (cu_events pending) + length seen \<le> unat (max_pending_events limits)
         \<and> unat (cu_bytes pending) + total_bytes seen \<le> unat (max_pending_bytes limits)"
    using capacity_checked [OF assms(2)] by blast
  have once: "\<forall>p \<in> set (unread @ batch). stored db (pl_event_id p) \<in> {None, Some (pl_bytes p)}
        \<and> (\<forall>q \<in> set (unread @ batch). pl_event_id p = pl_event_id q \<longrightarrow> pl_bytes p = pl_bytes q)"
    using acc accounted_unique accounted_stored by metis
  note sizes = query_pending_exact [OF assms(1) q] seen_exact(2,3) [OF seen acc]
  from lim have "new_events db batch \<subseteq> new_events db unread
       \<or> card (pending_ids db) + card (new_events db (unread @ batch)) \<le> unat (max_pending_events limits)
         \<and> (\<Sum>e \<in> pending_ids db. length (the (stored db e))) + (\<Sum>(e, b) \<in> new_events db (unread @ batch). length b)
             \<le> unat (max_pending_bytes limits)"
    unfolding new_ids_subset_iff [OF acc] sizes .
  with st un once show ?thesis by blast
qed

theorem capacity_scan_by_lines_witness:
  "scan_jsonl_generation_capacity sample_codec empty_outbox 100 (sample_event @ [newline]) 0 True (0, [], no_usage)
    = result_bind (try_fold (account_line sample_codec empty_outbox) ([], no_usage) [sample_event]) (\<lambda>acc'. Inr (46, acc'))"
proof -
  have "length (sample_event @ [newline]) = 46" by (simp add: sample_event_def)
  then show ?thesis
    using capacity_scan_by_lines [of 0 "sample_event @ [newline]" 0 100 sample_codec empty_outbox True "([], no_usage)"]
    by (simp add: sample_lines)
qed

definition sample_batch :: "Event3DurablePayload list" where
  "sample_batch = [projr (canonical_payload_from_bytes sample_codec sample_event)]"

lemmas sample_admitted_simps =
  check_capacity_for_payloads_def validate_capacity_limits_def default_capacity_limits_def
  check_capacity_payloads_locked_def inspect_capacity_inputs_def journal_namespace_def empty_outbox_def bt_get_def
  verify_journal_path_for_capacity_def sample_hash_valid validate_generation_metadata_readonly_def
  validate_observed_generations_def read_generation_metadata_def read_ingest_cursor_def query_pending_capacity_def
  u64_of_nat_def I64_MAX_def inspect_unread_jsonl_capacity_def btree_set_def cursor_start_def add_usage_def no_usage_def checked_add_def
  sample_batch_def sample_payload validate_capacity_payload_def sample_validate ensure_def account_payload_def
  event_is_already_stored_def check_capacity_totals_def

lemma sample_admitted: "check_capacity_for_payloads sample_codec empty_outbox sample_hash [] sample_batch default_capacity_limits = Inr ()"
  by (simp add: sample_admitted_simps)

theorem capacity_admission_witness:
  "\<exists>unread. card (pending_ids empty_outbox) + card (new_events empty_outbox (unread @ sample_batch))
     \<le> unat (max_pending_events default_capacity_limits) \<and> unread = []"
proof -
  have "bt_inv (db_events empty_outbox)" by (simp add: empty_outbox_def bt_inv_def)
  from capacity_admission [OF this sample_admitted] have
    "new_events empty_outbox sample_batch \<subseteq> new_events empty_outbox []
     \<or> card (pending_ids empty_outbox) + card (new_events empty_outbox sample_batch) \<le> unat (max_pending_events default_capacity_limits)"
    by auto
  moreover have "new_events empty_outbox sample_batch \<noteq> {}" "new_events empty_outbox [] = {}"
    by (auto simp: new_events_def sample_batch_def stored_def empty_outbox_def bt_get_def)
  ultimately show ?thesis by auto
qed

end
