(* ===== verification/Delivery.thy ===== *)
theory Delivery
  imports Outbox
begin

text \<open>
  Dispatch of ready deliveries, \<open>SinkSet::dispatch_durable_with_outbox\<close> of \<open>src/sink/mod.rs\<close>: for
  every durable sink a bounded number of ready rows, each sent once and its outcome recorded.

  The sinks and the monotonic clock are the record \<open>transport\<close> over an arbitrary world that sending
  may change; so a sink may answer differently at every attempt. The state of a dispatch is the
  world, the outbox and the failures collected so far; what was recorded stays recorded when a later
  row fails.
\<close>

section \<open>Data\<close>

datatype emit_error = Emitted DeliveryError | OtherError string

record 'w transport =
  tr_emit :: "string \<Rightarrow> string \<Rightarrow> 'w \<Rightarrow> (emit_error, unit) result \<times> 'w"
  tr_monotonic_ms :: "'w \<Rightarrow> nat"
  tr_sanitize :: "string \<Rightarrow> string"

record SinkEntry =
  se_name :: string
  se_transport :: string
  se_max_attempts :: u32
  se_base_delay_ms :: u64

record SinkFailure =
  sf_name :: string
  sf_kind :: string
  sf_class :: DeliveryErrorClass
  sf_attempts :: u32
  sf_error :: string
  sf_prior_attempts :: u32
  sf_prior_error_class :: "DeliveryErrorClass option"

type_synonym 'w dispatch_state = "'w \<times> outbox_db \<times> SinkFailure list"

section \<open>Outcome of one attempt\<close>

fun delivery_error_details :: "'w transport \<Rightarrow> emit_error \<Rightarrow> DeliveryErrorClass \<times> string" where
  "delivery_error_details tr (Emitted e) = (de_class e, tr_sanitize tr (de_message e))"
| "delivery_error_details tr (OtherError m) = (UnknownInternal, tr_sanitize tr m)"

text \<open>A 401 or 403 blocks the row instead of retrying it.\<close>

fun effective_class :: "DeliveryErrorClass \<Rightarrow> DeliveryErrorClass" where
  "effective_class (HttpStatus status) =
    (if status = 401 \<or> status = 403 then AuthenticationBlocked status else HttpStatus status)"
| "effective_class c = c"

fun blocks :: "DeliveryErrorClass \<Rightarrow> bool" where
  "blocks (AuthenticationBlocked _) \<longleftrightarrow> True"
| "blocks SinkResponseBlocked \<longleftrightarrow> True"
| "blocks _ \<longleftrightarrow> False"

definition failure_state :: "int \<Rightarrow> SinkEntry \<Rightarrow> u32 \<Rightarrow> DeliveryErrorClass \<Rightarrow> DeliveryState \<times> int option" where
  "failure_state now entry attempt class =
    (if blocks class then (Blocked, None)
     else if is_retryable class \<and> attempt < max (se_max_attempts entry) 1
     then (Pending, Some (next_retry_at now (se_base_delay_ms entry) attempt))
     else (Dead, None))"

definition settle :: "int \<Rightarrow> u32 \<Rightarrow> DeliveryState \<times> int option \<Rightarrow> DeliveryErrorClass option \<Rightarrow> DeliveryUpdate" where
  "settle now attempt st class = \<lparr>du_state = fst st, du_attempts = attempt, du_next_attempt_at = snd st,
     du_last_error_class = class, du_updated_at = now\<rparr>"

definition failure_report ::
  "'w transport \<Rightarrow> SinkEntry \<Rightarrow> DeliveryRow \<Rightarrow> u32 \<Rightarrow> DeliveryErrorClass \<Rightarrow> string \<Rightarrow> SinkFailure" where
  "failure_report tr entry row attempt class message =
    \<lparr>sf_name = se_name entry, sf_kind = se_transport entry, sf_class = class, sf_attempts = attempt,
     sf_error = ''durable delivery attempt for sink '' @ tr_sanitize tr (se_name entry) @ '': '' @ message,
     sf_prior_attempts = dr_attempts row, sf_prior_error_class = dr_last_error_class row\<rparr>"

definition record_outcome ::
  "string \<Rightarrow> string \<Rightarrow> DeliveryUpdate \<Rightarrow> SinkFailure list \<Rightarrow> 'w dispatch_state
    \<Rightarrow> (emit_error, bool) result \<times> 'w dispatch_state" where
  "record_outcome event_id sink_id u new st =
    (case st of (w, db, fs) \<Rightarrow>
      case record_delivery_at event_id sink_id u db of
        (Inl e, db') \<Rightarrow> (Inl (Emitted e), w, db', fs)
      | (Inr _, db') \<Rightarrow> (Inr True, w, db', fs @ new))"

text \<open>One ready row: it returns whether there was one.\<close>

definition dispatch_one ::
  "'w transport \<Rightarrow> codec \<Rightarrow> int \<Rightarrow> SinkEntry \<Rightarrow> string \<Rightarrow> 'w dispatch_state
    \<Rightarrow> (emit_error, bool) result \<times> 'w dispatch_state" where
  "dispatch_one tr cd now entry sink_id st =
    (case st of (w, db, fs) \<Rightarrow>
      case next_ready_delivery cd db sink_id now of
        Inl e \<Rightarrow> (Inl (Emitted e), st)
      | Inr None \<Rightarrow> (Inr False, st)
      | Inr (Some ready) \<Rightarrow>
          (let row = rd_row ready in
           case checked_add (dr_attempts row) 1 of
             None \<Rightarrow> (Inl (OtherError ''durable delivery attempt count overflow''), st)
           | Some attempt \<Rightarrow>
               if is_delivery_failure_alert_payload cd (rd_payload ready)
               then record_outcome (dr_event_id row) sink_id (settle now attempt (Dead, None) None) [] st
               else case tr_emit tr sink_id (rd_payload ready) w of
                 (Inr _, w') \<Rightarrow>
                   record_outcome (dr_event_id row) sink_id (settle now attempt (Acked, None) None) [] (w', db, fs)
               | (Inl err, w') \<Rightarrow>
                   (case delivery_error_details tr err of (raw, message) \<Rightarrow>
                      if raw = DurableStorage then (Inl err, w', db, fs)
                      else let class = effective_class raw in
                        record_outcome (dr_event_id row) sink_id
                          (settle now attempt (failure_state now entry attempt class) (Some class))
                          [failure_report tr entry row attempt class message] (w', db, fs))))"

section \<open>The dispatch loops\<close>

definition MAX_ROWS_PER_SINK :: nat where
  "MAX_ROWS_PER_SINK = 16"

definition SINK_BUDGET_MS :: nat where
  "SINK_BUDGET_MS = 100"

text \<open>Rows from \<open>MAX_ROWS_PER_SINK - n\<close> on; the time budget is read before every row but the first.\<close>

fun dispatch_rows ::
  "'w transport \<Rightarrow> codec \<Rightarrow> int \<Rightarrow> SinkEntry \<Rightarrow> string \<Rightarrow> nat \<Rightarrow> nat \<Rightarrow> 'w dispatch_state
    \<Rightarrow> (emit_error, unit) result \<times> 'w dispatch_state" where
  "dispatch_rows tr cd now entry sink_id started 0 st = (Inr (), st)"
| "dispatch_rows tr cd now entry sink_id started (Suc n) st =
    (if Suc n < MAX_ROWS_PER_SINK \<and> SINK_BUDGET_MS \<le> tr_monotonic_ms tr (fst st) - started then (Inr (), st)
     else case dispatch_one tr cd now entry sink_id st of
       (Inl e, st') \<Rightarrow> (Inl e, st')
     | (Inr False, st') \<Rightarrow> (Inr (), st')
     | (Inr True, st') \<Rightarrow> dispatch_rows tr cd now entry sink_id started n st')"

definition dispatch_sink ::
  "'w transport \<Rightarrow> codec \<Rightarrow> int \<Rightarrow> SinkEntry list \<Rightarrow> string \<Rightarrow> 'w dispatch_state
    \<Rightarrow> (emit_error, unit) result \<times> 'w dispatch_state" where
  "dispatch_sink tr cd now entries sink_id st =
    (case find (\<lambda>e. se_name e = sink_id) entries of
       None \<Rightarrow> (Inl (OtherError (''durable sink identity '' @ [CHR 0x27] @ sink_id @ [CHR 0x27] @ '' is not configured'')), st)
     | Some entry \<Rightarrow> dispatch_rows tr cd now entry sink_id (tr_monotonic_ms tr (fst st)) MAX_ROWS_PER_SINK st)"

fun dispatch_sinks ::
  "'w transport \<Rightarrow> codec \<Rightarrow> int \<Rightarrow> SinkEntry list \<Rightarrow> string list \<Rightarrow> 'w dispatch_state
    \<Rightarrow> (emit_error, unit) result \<times> 'w dispatch_state" where
  "dispatch_sinks tr cd now entries [] st = (Inr (), st)"
| "dispatch_sinks tr cd now entries (s # ss) st =
    (case dispatch_sink tr cd now entries s st of
       (Inl e, st') \<Rightarrow> (Inl e, st')
     | (Inr _, st') \<Rightarrow> dispatch_sinks tr cd now entries ss st')"

definition dispatch_durable_with_outbox ::
  "'w transport \<Rightarrow> codec \<Rightarrow> int \<Rightarrow> SinkEntry list \<Rightarrow> string list \<Rightarrow> 'w \<Rightarrow> outbox_db
    \<Rightarrow> (emit_error, SinkFailure list) result \<times> 'w \<times> outbox_db" where
  "dispatch_durable_with_outbox tr cd now entries durable_sink_ids w db =
    (case dispatch_sinks tr cd now entries durable_sink_ids (w, db, []) of
       (Inl e, w', db', fs) \<Rightarrow> (Inl e, w', db')
     | (Inr _, w', db', fs) \<Rightarrow> (Inr fs, w', db'))"

section \<open>One attempt\<close>

text \<open>An attempt is settled in a state that is not ready again at the same time.\<close>

lemma settle_fields [simp]:
  "du_state (settle now a st cl) = fst st" "du_attempts (settle now a st cl) = a" "du_next_attempt_at (settle now a st cl) = snd st"
  "du_last_error_class (settle now a st cl) = cl" "du_updated_at (settle now a st cl) = now"
  by (simp_all add: settle_def)

definition rest_state :: "int \<Rightarrow> DeliveryState \<times> int option \<Rightarrow> bool" where
  "rest_state now st \<longleftrightarrow> (if fst st = Pending then \<exists>t. snd st = Some t \<and> now < t else snd st = None)"

lemma failure_state_rest:
  assumes "0 \<le> now" and "now + 86400000 \<le> I64_MAX"
  shows "rest_state now (failure_state now entry a class)"
  using next_retry_at_exact [OF assms] retry_delay_positive by (simp add: failure_state_def rest_state_def)

lemma failure_state_not_acked: "fst (failure_state now entry a class) \<noteq> Acked"
  by (simp add: failure_state_def)

lemma state_pending_iff: "state_as_str st = ''pending'' \<longleftrightarrow> st = Pending" "state_as_str st = ''acked'' \<longleftrightarrow> st = Acked"
  by (cases st; simp)+

lemma settled_not_ready:
  assumes "rest_state now st"
  shows "\<not> ready_row s now (k, update_columns (settle now a st cl))"
  using assms by (auto simp: ready_row_def update_columns_def state_pending_iff rest_state_def split: if_splits)

text \<open>The transport with a record of what was sent and whether the sink accepted it.\<close>

definition logged :: "'w transport \<Rightarrow> ('w \<times> (string \<times> string \<times> bool) list) transport" where
  "logged tr = \<lparr>tr_emit = \<lambda>s p (w, log). (case tr_emit tr s p w of (r, w') \<Rightarrow> (r, w', log @ [(s, p, \<exists>u. r = Inr u)])),
     tr_monotonic_ms = \<lambda>(w, log). tr_monotonic_ms tr w, tr_sanitize = tr_sanitize tr\<rparr>"

text \<open>What one call of the row body does: nothing, an attempt that is not recorded because of an error,
  or an attempt that is recorded.\<close>

inductive row_outcome ::
  "int \<Rightarrow> string \<Rightarrow> (string \<times> string \<times> bool) list \<times> outbox_db \<Rightarrow> bool \<Rightarrow> (string \<times> string \<times> bool) list \<times> outbox_db \<Rightarrow> bool"
  for now s where
  nothing: "row_outcome now s (log, db) ok (log, db)"
| unrecorded: "\<lbrakk>select_ready db s now = Some ((e, s), c); stored db e = Some p\<rbrakk>
    \<Longrightarrow> row_outcome now s (log, db) False (log @ [(s, p, sent)], db)"
| recorded: "\<lbrakk>select_ready db s now = Some ((e, s), c); stored db e = Some p; rest_state now st;
      uint a = col_attempt_count c + 1;
      record_transaction e s (settle now a st cl) db = Inr ((), db'); log' = log \<and> fst st = Dead \<or> log' = log @ [(s, p, fst st = Acked)]\<rbrakk>
    \<Longrightarrow> row_outcome now s (log, db) True (log', db')"

lemma record_outcome_eq:
  "record_outcome e s u new (w, db, fs) =
    (case record_delivery_at e s u db of (Inl er, db') \<Rightarrow> (Inl (Emitted er), w, db', fs) | (Inr _, db') \<Rightarrow> (Inr True, w, db', fs @ new))"
  by (simp add: record_outcome_def)

lemma record_outcome_cases:
  assumes "record_outcome e s u new (w, db, fs) = (r, w', db', fs')" and "db_ok cd db"
  shows "w' = w \<and> ((\<exists>er. r = Inl er \<and> db' = db) \<or> (r = Inr True \<and> record_transaction e s u db = Inr ((), db')))"
  using assms(2)
proof (cases rule: record_delivery_at_cases [of cd db e s u])
  case (failed err)
  then show ?thesis using assms(1) by (auto simp: record_outcome_eq)
next
  case (recorded d)
  then show ?thesis using assms(1) by (simp add: record_outcome_eq)
qed


lemma logged_emit:
  "tr_emit (logged tr) s p (w, log) = (case tr_emit tr s p w of (r, w') \<Rightarrow> (r, w', log @ [(s, p, \<exists>u. r = Inr u)]))"
  by (simp add: logged_def)

lemma next_ready_select:
  assumes "db_ok cd db" and "next_ready_delivery cd db s now = Inr (Some ready)"
  obtains e c where "select_ready db s now = Some ((e, s), c)" and "decode_row e s c = Inr (rd_row ready)"
    and "stored db e = Some (rd_payload ready)" and "dr_event_id (rd_row ready) = e"
proof -
  obtain ids where v: "validate_sink_ids [s] False = Inr ids"
    using assms(2) by (auto simp: next_ready_delivery_def result_bind_eq_Inr_iff)
  note eq = next_ready_delivery_eq [OF assms(1) v, of now]
  show thesis
  proof (cases "select_ready db s now")
    case None
    with eq assms(2) show thesis by simp
  next
    case (Some r)
    obtain e s' c where r: "r = ((e, s'), c)" by (metis surj_pair)
    have "s' = s" using select_ready_Some(2) [OF Some] by (simp add: r ready_row_def)
    with Some eq assms(2) r decode_row_fields(1) show thesis by (auto intro!: that)
  qed
qed

lemma dispatch_one_outcome:
  assumes run: "dispatch_one (logged tr) cd now entry s ((w, log), db, fs) = (r, (w', log'), db', fs')"
    and ok: "db_ok cd db" and now: "0 \<le> now" "now + 86400000 \<le> I64_MAX"
  shows "row_outcome now s (log, db) (\<exists>b. r = Inr b) (log', db')"
proof (cases "next_ready_delivery cd db s now")
  case (Inl er)
  then show ?thesis using run by (auto simp: dispatch_one_def intro: row_outcome.nothing)
next
  case (Inr found)
  show ?thesis
  proof (cases found)
    case None
    then show ?thesis using run Inr by (auto simp: dispatch_one_def intro: row_outcome.nothing)
  next
    case (Some ready)
    with Inr have n: "next_ready_delivery cd db s now = Inr (Some ready)" by simp
    obtain e c where sel: "select_ready db s now = Some ((e, s), c)" and dec: "decode_row e s c = Inr (rd_row ready)"
      and pay: "stored db e = Some (rd_payload ready)" and id: "dr_event_id (rd_row ready) = e"
      by (rule next_ready_select [OF ok n])
    show ?thesis
    proof (cases "checked_add (dr_attempts (rd_row ready)) 1")
      case None
      then show ?thesis using run n by (auto simp: dispatch_one_def Let_def intro: row_outcome.nothing)
    next
      case (Some a)
      have cnt: "uint a = col_attempt_count c + 1"
      proof -
        have "unat a = unat (dr_attempts (rd_row ready)) + 1" using Some by (simp add: checked_add_Some_iff)
        then show ?thesis unfolding decode_row_fields(4) [OF dec, symmetric] uint_nat by simp
      qed
      have settle: "row_outcome now s (log, db) (\<exists>b. r = Inr b) (log', db')"
        if ro: "record_outcome e s (settle now a st cl) new (v, db, fs) = (r, (w', log'), db', fs')"
          and rest: "rest_state now st" and lg: "snd v = log \<and> fst st = Dead \<or> snd v = log @ [(s, rd_payload ready, fst st = Acked)]"
        for st cl new v
        using record_outcome_cases [OF ro ok]
      proof (elim conjE disjE exE)
        fix er assume v: "(w', log') = v" and r: "r = Inl er" and db': "db' = db"
        from lg v show ?thesis unfolding r db' by (auto intro: row_outcome.nothing row_outcome.unrecorded [OF sel pay])
      next
        assume v: "(w', log') = v" and r: "r = Inr True" and t: "record_transaction e s (settle now a st cl) db = Inr ((), db')"
        have "log' = log \<and> fst st = Dead \<or> log' = log @ [(s, rd_payload ready, fst st = Acked)]" using lg v by auto
        note rec = row_outcome.recorded [OF sel pay rest cnt t this]
        have "\<exists>b. r = Inr b" using r by blast
        with rec show ?thesis by (simp only: eq_True)
      qed
      have dead: "rest_state now (Dead, None)" and acked: "rest_state now (Acked, None)" by (simp_all add: rest_state_def)
      show ?thesis
      proof (cases "is_delivery_failure_alert_payload cd (rd_payload ready)")
        case True
        then have "record_outcome e s (settle now a (Dead, None) None) [] ((w, log), db, fs) = (r, (w', log'), db', fs')"
          using run n Some id by (simp add: dispatch_one_def Let_def)
        from settle [OF this dead] show ?thesis by simp
      next
        case False
        obtain x w1 where em: "tr_emit tr s (rd_payload ready) w = (x, w1)" by fastforce
        show ?thesis
        proof (cases x)
          case (Inr u)
          then have "record_outcome e s (settle now a (Acked, None) None) [] ((w1, log @ [(s, rd_payload ready, True)]), db, fs) = (r, (w', log'), db', fs')"
            using run n Some id False em by (simp add: dispatch_one_def Let_def logged_emit)
          from settle [OF this acked] show ?thesis by simp
        next
          case (Inl err)
          obtain raw m where d: "delivery_error_details (logged tr) err = (raw, m)" by fastforce
          show ?thesis
          proof (cases "raw = DurableStorage")
            case True
            then have "r = Inl err \<and> log' = log @ [(s, rd_payload ready, False)] \<and> db' = db"
              using run n Some id False em Inl d by (auto simp: dispatch_one_def Let_def logged_emit)
            then show ?thesis using row_outcome.unrecorded [OF sel pay] by auto
          next
            case nd: False
            let ?cl = "effective_class raw" and ?st = "failure_state now entry a (effective_class raw)"
            have "record_outcome e s (settle now a ?st (Some ?cl)) [failure_report (logged tr) entry (rd_row ready) a ?cl m]
                ((w1, log @ [(s, rd_payload ready, False)]), db, fs) = (r, (w', log'), db', fs')"
              using run n Some id False em Inl d nd by (simp add: dispatch_one_def Let_def logged_emit)
            from settle [OF this failure_state_rest [OF now]] show ?thesis using failure_state_not_acked by simp
          qed
        qed
      qed
    qed
  qed
qed

section \<open>Invariant of a dispatch\<close>

text \<open>Relative to the tables at its start: stored events are unchanged; a row that is still ready is
  unchanged; whatever was sent belonged to a ready row and was sent once; a row that became
  acknowledged was accepted by its sink.\<close>

definition dispatched :: "codec \<Rightarrow> int \<Rightarrow> outbox_db \<Rightarrow> (string \<times> string \<times> bool) list \<Rightarrow> outbox_db \<Rightarrow> bool" where
  "dispatched cd now db0 log db \<longleftrightarrow> db_ok cd db \<and> keeps db0 db \<and> db_events db = db_events db0 \<and> db_origins db = db_origins db0
     \<and> (\<forall>e s c. bt_get (e, s) (db_deliveries db) = Some c \<and> ready_row s now ((e, s), c) \<longrightarrow> bt_get (e, s) (db_deliveries db0) = Some c)
     \<and> (\<forall>s p ok. (s, p, ok) \<in> set log \<longrightarrow> (\<exists>e c. bt_get (e, s) (db_deliveries db0) = Some c \<and> ready_row s now ((e, s), c) \<and> stored db0 e = Some p))
     \<and> distinct (map (\<lambda>(s, p, ok). (s, p)) log)
     \<and> (\<forall>e s c. bt_get (e, s) (db_deliveries db) = Some c \<and> col_state c = ''acked'' \<longrightarrow>
          bt_get (e, s) (db_deliveries db0) = Some c \<or> (\<exists>p. stored db0 e = Some p \<and> (s, p, True) \<in> set log))"

definition settled :: "int \<Rightarrow> (string \<times> string \<times> bool) list \<Rightarrow> outbox_db \<Rightarrow> bool" where
  "settled now log db \<longleftrightarrow> (\<forall>s p ok e c. (s, p, ok) \<in> set log \<and> stored db e = Some p \<and> bt_get (e, s) (db_deliveries db) = Some c
     \<longrightarrow> \<not> ready_row s now ((e, s), c))"

lemma dispatched_start: "db_ok cd db \<Longrightarrow> dispatched cd now db [] db \<and> settled now [] db"
  by (simp add: dispatched_def settled_def)

lemma stored_unique:
  assumes "db_ok cd db" and "stored db e = Some p" and "stored db e' = Some p"
  shows "e = e'"
proof -
  obtain c c' where c: "bt_get e (db_events db) = Some c" "col_payload c = p" "bt_get e' (db_events db) = Some c'" "col_payload c' = p"
    using assms(2,3) by (auto simp: stored_def)
  then show ?thesis
    using db_ok_event [OF assms(1) c(1)] db_ok_event [OF assms(1) c(3)] canonical_event_unique unfolding event_ok_def by metis
qed

lemma stored_events: "db_events db' = db_events db \<Longrightarrow> stored db' = stored db"
  by (simp add: stored_def fun_eq_iff)

lemma selected_row:
  assumes "db_ok cd db" and "select_ready db s now = Some ((e, s), c)"
  shows "bt_get (e, s) (db_deliveries db) = Some c" and "ready_row s now ((e, s), c)" and "col_state c = ''pending''"
  using select_ready_Some [OF assms(2)] db_ok_inv [OF assms(1)] bt.entries_mem_iff [of "db_deliveries db" "(e, s)" c]
  by (auto simp: ready_row_def)

text \<open>Sending the selected row: it was ready at the start, and it was not sent before.\<close>

lemma send_fresh:
  assumes inv: "dispatched cd now db0 log db" and set: "settled now log db"
    and sel: "select_ready db s now = Some ((e, s), c)" and p: "stored db e = Some p"
  shows "bt_get (e, s) (db_deliveries db0) = Some c" and "stored db0 e = Some p"
    and "(s, p) \<notin> set (map (\<lambda>(s, p, ok). (s, p)) log)"
proof -
  have ok: "db_ok cd db" using inv by (simp add: dispatched_def)
  note r = selected_row [OF ok sel]
  show "bt_get (e, s) (db_deliveries db0) = Some c" using inv r by (simp add: dispatched_def)
  show "stored db0 e = Some p" using inv p stored_events [of db db0] by (simp add: dispatched_def)
  show "(s, p) \<notin> set (map (\<lambda>(s, p, ok). (s, p)) log)"
  proof
    assume "(s, p) \<in> set (map (\<lambda>(s, p, ok). (s, p)) log)"
    then obtain sent where "(s, p, sent) \<in> set log" by auto
    with set p r show False unfolding settled_def by blast
  qed
qed

lemma step_unrecorded:
  assumes inv: "dispatched cd now db0 log db" and set: "settled now log db"
    and sel: "select_ready db s now = Some ((e, s), c)" and p: "stored db e = Some p"
  shows "dispatched cd now db0 (log @ [(s, p, sent)]) db"
proof -
  note f = send_fresh [OF inv set sel p]
  have ok: "db_ok cd db" using inv by (simp add: dispatched_def)
  have r: "ready_row s now ((e, s), c)" by (rule selected_row(2) [OF ok sel])
  have "(s', p', sent') \<in> set (log @ [(s, p, sent)]) \<Longrightarrow>
      \<exists>e c. bt_get (e, s') (db_deliveries db0) = Some c \<and> ready_row s' now ((e, s'), c) \<and> stored db0 e = Some p'" for s' p' sent'
  proof -
    assume "(s', p', sent') \<in> set (log @ [(s, p, sent)])"
    then consider "(s', p', sent') \<in> set log" | "s' = s" "p' = p" by auto
    then show ?thesis
    proof cases
      case 1
      with inv show ?thesis unfolding dispatched_def by blast
    next
      case 2
      with f(1,2) r show ?thesis by blast
    qed
  qed
  moreover have "distinct (map (\<lambda>(s, p, ok). (s, p)) (log @ [(s, p, sent)]))"
    using inv f(3) by (simp add: dispatched_def)
  ultimately show ?thesis using inv unfolding dispatched_def by (metis (no_types, lifting) Un_iff set_append)
qed

lemma step_recorded:
  assumes inv: "dispatched cd now db0 log db" and set: "settled now log db"
    and sel: "select_ready db s now = Some ((e, s), c)" and p: "stored db e = Some p"
    and st: "rest_state now st" and cnt: "uint a = col_attempt_count c + 1"
    and tr: "record_transaction e s (settle now a st cl) db = Inr ((), db')"
    and log': "log' = log \<and> fst st = Dead \<or> log' = log @ [(s, p, fst st = Acked)]"
  shows "dispatched cd now db0 log' db' \<and> settled now log' db'"
proof -
  let ?u = "settle now a st cl"
  have ok: "db_ok cd db" using inv by (simp add: dispatched_def)
  note row = selected_row [OF ok sel]
  note f = send_fresh [OF inv set sel p]
  have t: "du_state ?u \<noteq> Pending \<longrightarrow> du_next_attempt_at ?u = None" using st by (auto simp: rest_state_def split: if_splits)
  note rt = record_transaction_Inr [OF tr ok t]
  have other: "(e', s') \<noteq> (e, s) \<Longrightarrow> bt_get (e', s') (db_deliveries db') = bt_get (e', s') (db_deliveries db)" for e' s'
    by (subst rt(8)) (rule if_not_P)
  have ready: "\<not> ready_row s now ((e, s), update_columns ?u)" by (rule settled_not_ready [OF st])
  have sub: "set log \<subseteq> set log'" using log' by auto
  have inv': "dispatched cd now db0 log' db" using log' inv step_unrecorded [OF inv set sel p] by blast
  have "delivery_step c (update_columns ?u)"
    using row(3) cnt by (intro delivery_step.attempt) (simp_all add: update_columns_def)
  then have k: "keeps db0 db'"
    using keeps_record [OF tr ok t row(1)] inv keeps_trans by (auto simp: dispatched_def)
  have acked: "fst st = Acked" if "col_state (update_columns ?u) = ''acked''"
    using that by (simp add: update_columns_def state_pending_iff)
  have new: "bt_get (e', s') (db_deliveries db0) = Some c' \<or> (\<exists>p. stored db0 e' = Some p \<and> (s', p, True) \<in> set log')"
    if "bt_get (e', s') (db_deliveries db') = Some c'" "col_state c' = ''acked''" for e' s' c'
  proof (cases "(e', s') = (e, s)")
    case True
    with that rt(8) acked have "fst st = Acked" by simp
    with log' f(2) True show ?thesis by auto
  next
    case False
    then have "bt_get (e', s') (db_deliveries db) = Some c'" using that(1) other [of e' s'] by simp
    with inv' that(2) show ?thesis unfolding dispatched_def by blast
  qed
  have still: "bt_get (e', s') (db_deliveries db0) = Some c'"
    if "bt_get (e', s') (db_deliveries db') = Some c'" "ready_row s' now ((e', s'), c')" for e' s' c'
  proof -
    have "(e', s') \<noteq> (e, s)" using that rt(8) [of "(e', s')"] ready by auto
    then have "bt_get (e', s') (db_deliveries db) = Some c'" using that(1) other [of e' s'] by simp
    with inv that(2) show ?thesis unfolding dispatched_def by blast
  qed
  have disp: "dispatched cd now db0 log' db'"
    using inv' rt(1-3) k new still unfolding dispatched_def by metis
  have "settled now log' db'"
    unfolding settled_def
  proof (intro allI impI, elim conjE)
    fix s1 p1 sent1 e1 c1
    assume m: "(s1, p1, sent1) \<in> set log'" and p1: "stored db' e1 = Some p1" and g: "bt_get (e1, s1) (db_deliveries db') = Some c1"
    show "\<not> ready_row s1 now ((e1, s1), c1)"
    proof (cases "(e1, s1) = (e, s)")
      case True
      with g rt(8) ready show ?thesis by auto
    next
      case False
      have p1': "stored db e1 = Some p1" using p1 stored_events [OF rt(2)] by simp
      have "(s1, p1, sent1) \<in> set log"
      proof (rule ccontr)
        assume "(s1, p1, sent1) \<notin> set log"
        then have "s1 = s" "p1 = p" using m log' by auto
        with stored_unique [OF ok p] p1' False show False by blast
      qed
      moreover have "bt_get (e1, s1) (db_deliveries db) = Some c1" using False g other [of e1 s1] by simp
      ultimately show ?thesis using p1' set unfolding settled_def by blast
    qed
  qed
  with disp show ?thesis by blast
qed

lemma row_outcome_step:
  assumes "row_outcome now s (log, db) ok (log', db')" and "dispatched cd now db0 log db" and "settled now log db"
  shows "dispatched cd now db0 log' db' \<and> (ok \<longrightarrow> settled now log' db') \<and> (\<exists>l. log' = log @ l \<and> length l \<le> 1 \<and> fst ` set l \<subseteq> {s})"
  using assms(1)
proof (cases rule: row_outcome.cases)
  case nothing
  then show ?thesis using assms by simp
next
  case (unrecorded e c p sent)
  then show ?thesis using step_unrecorded [OF assms(2,3)] by auto
next
  case (recorded e c p st a cl)
  then show ?thesis using step_recorded [OF assms(2,3)] by auto
qed

section \<open>The loops\<close>

text \<open>Logging does not change what a dispatch does.\<close>

lemma logged_details: "delivery_error_details (logged tr) = delivery_error_details tr" "failure_report (logged tr) = failure_report tr"
proof -
  show "delivery_error_details (logged tr) = delivery_error_details tr"
  proof
    show "delivery_error_details (logged tr) e = delivery_error_details tr e" for e by (cases e) (simp_all add: logged_def)
  qed
  show "failure_report (logged tr) = failure_report tr" by (simp add: failure_report_def logged_def fun_eq_iff)
qed

lemma record_outcome_world:
  "record_outcome e s u new ((w, log), db, fs) = (r, (w', log'), db', fs') \<longleftrightarrow>
    log' = log \<and> record_outcome e s u new (w, db, fs) = (r, w', db', fs')"
  by (auto simp: record_outcome_eq split: prod.splits sum.splits)

lemma dispatch_one_logged:
  assumes "dispatch_one (logged tr) cd now entry s ((w, log), db, fs) = (r, (w', log'), db', fs')"
  shows "dispatch_one tr cd now entry s (w, db, fs) = (r, w', db', fs')"
proof (cases "next_ready_delivery cd db s now")
  case (Inl e)
  with assms show ?thesis by (simp add: dispatch_one_def)
next
  case (Inr found)
  show ?thesis
  proof (cases found)
    case None
    with Inr assms show ?thesis by (simp add: dispatch_one_def)
  next
    case (Some ready)
    obtain x w1 where em: "tr_emit tr s (rd_payload ready) w = (x, w1)" by fastforce
    show ?thesis
      using assms Inr Some em
      by (cases "checked_add (dr_attempts (rd_row ready)) 1"; cases x)
        (auto simp: dispatch_one_def Let_def logged_emit logged_details record_outcome_world split: if_splits prod.splits)
  qed
qed

lemma dispatch_rows_logged:
  assumes "dispatch_rows (logged tr) cd now entry s started n ((w, log), db, fs) = (r, (w', log'), db', fs')"
  shows "dispatch_rows tr cd now entry s started n (w, db, fs) = (r, w', db', fs')"
  using assms
proof (induction n arbitrary: w log db fs)
  case (Suc n)
  have ms: "tr_monotonic_ms (logged tr) (w, log) = tr_monotonic_ms tr w" by (simp add: logged_def)
  obtain r1 w1 log1 db1 fs1 where one: "dispatch_one (logged tr) cd now entry s ((w, log), db, fs) = (r1, (w1, log1), db1, fs1)"
    by (metis surj_pair)
  note one' = dispatch_one_logged [OF one]
  show ?case using Suc one one' ms by (auto split: sum.splits bool.splits if_splits)
qed simp

lemma dispatch_sinks_logged:
  assumes "dispatch_sinks (logged tr) cd now entries ids ((w, log), db, fs) = (r, (w', log'), db', fs')"
  shows "dispatch_sinks tr cd now entries ids (w, db, fs) = (r, w', db', fs')"
  using assms
proof (induction ids arbitrary: w log db fs)
  case (Cons s ids)
  have ms: "tr_monotonic_ms (logged tr) (w, log) = tr_monotonic_ms tr w" by (simp add: logged_def)
  obtain r1 w1 log1 db1 fs1 where one: "dispatch_sink (logged tr) cd now entries s ((w, log), db, fs) = (r1, (w1, log1), db1, fs1)"
    by (metis surj_pair)
  then have one': "dispatch_sink tr cd now entries s (w, db, fs) = (r1, w1, db1, fs1)"
    by (auto simp: dispatch_sink_def ms dest: dispatch_rows_logged split: option.splits)
  show ?case using Cons one one' by (auto split: sum.splits)
qed simp

lemma dispatch_logged:
  "dispatch_durable_with_outbox (logged tr) cd now entries ids (w, log) db = (r, (w', log'), db') \<Longrightarrow>
   dispatch_durable_with_outbox tr cd now entries ids w db = (r, w', db')"
  by (auto simp: dispatch_durable_with_outbox_def split: sum.splits prod.splits dest!: dispatch_sinks_logged)

lemma dispatch_rows_inv:
  assumes "dispatch_rows (logged tr) cd now entry s started n ((w, log), db, fs) = (r, (w', log'), db', fs')"
    and "dispatched cd now db0 log db" and "settled now log db" and now: "0 \<le> now" "now + 86400000 \<le> I64_MAX"
  shows "dispatched cd now db0 log' db' \<and> ((\<exists>b. r = Inr b) \<longrightarrow> settled now log' db')
    \<and> (\<exists>l. log' = log @ l \<and> length l \<le> n \<and> fst ` set l \<subseteq> {s})"
  using assms(1-3)
proof (induction n arbitrary: w log db fs)
  case (Suc n)
  obtain r1 w1 log1 db1 fs1 where one: "dispatch_one (logged tr) cd now entry s ((w, log), db, fs) = (r1, (w1, log1), db1, fs1)"
    by (metis surj_pair)
  have ok: "db_ok cd db" using Suc.prems(2) by (simp add: dispatched_def)
  note st = row_outcome_step [OF dispatch_one_outcome [OF one ok now] Suc.prems(2,3)]
  obtain l1 where l1: "log1 = log @ l1" "length l1 \<le> 1" "fst ` set l1 \<subseteq> {s}" using st by blast
  let ?stop = "Suc n < MAX_ROWS_PER_SINK \<and> SINK_BUDGET_MS \<le> tr_monotonic_ms (logged tr) (w, log) - started"
  consider (stop) "?stop" | (fail) err where "\<not> ?stop" "r1 = Inl err" | (none) "\<not> ?stop" "r1 = Inr False" | (row) "\<not> ?stop" "r1 = Inr True"
    using sum.exhaust [of r1] by (metis (full_types))
  then show ?case
  proof cases
    case stop
    with Suc.prems show ?thesis by auto
  next
    case fail
    with Suc.prems(1) one have "r = Inl err" "log' = log1" "db' = db1" by auto
    with st l1 show ?thesis by auto
  next
    case none
    with Suc.prems(1) one have "log' = log1" "db' = db1" by auto
    with st l1 none show ?thesis by auto
  next
    case row
    with Suc.prems(1) one have rest: "dispatch_rows (logged tr) cd now entry s started n ((w1, log1), db1, fs1) = (r, (w', log'), db', fs')" by auto
    have "settled now log1 db1" using st row by blast
    from Suc.IH [OF rest _ this] st obtain l2 where "dispatched cd now db0 log' db'" "(\<exists>b. r = Inr b) \<longrightarrow> settled now log' db'"
      and l2: "log' = log1 @ l2" "length l2 \<le> n" "fst ` set l2 \<subseteq> {s}" by blast
    moreover have "log' = log @ (l1 @ l2) \<and> length (l1 @ l2) \<le> Suc n \<and> fst ` set (l1 @ l2) \<subseteq> {s}"
      using l1 l2 by auto
    ultimately show ?thesis by blast
  qed
qed auto

lemma dispatch_sinks_inv:
  assumes "dispatch_sinks (logged tr) cd now entries ids ((w, log), db, fs) = (r, (w', log'), db', fs')"
    and "dispatched cd now db0 log db" and "settled now log db" and now: "0 \<le> now" "now + 86400000 \<le> I64_MAX" and "distinct ids"
  shows "dispatched cd now db0 log' db'
    \<and> (\<exists>l. log' = log @ l \<and> fst ` set l \<subseteq> set ids \<and> (\<forall>s. length (filter (\<lambda>x. fst x = s) l) \<le> MAX_ROWS_PER_SINK))"
  using assms(1-3,6)
proof (induction ids arbitrary: w log db fs)
  case (Cons s ids)
  obtain r1 w1 log1 db1 fs1 where one: "dispatch_sink (logged tr) cd now entries s ((w, log), db, fs) = (r1, (w1, log1), db1, fs1)"
    by (metis surj_pair)
  have s1: "dispatched cd now db0 log1 db1 \<and> ((\<exists>b. r1 = Inr b) \<longrightarrow> settled now log1 db1)
      \<and> (\<exists>l. log1 = log @ l \<and> length l \<le> MAX_ROWS_PER_SINK \<and> fst ` set l \<subseteq> {s})"
  proof (cases "find (\<lambda>e. se_name e = s) entries")
    case None
    with one Cons.prems(2) show ?thesis by (auto simp: dispatch_sink_def)
  next
    case (Some entry)
    with one have "dispatch_rows (logged tr) cd now entry s (tr_monotonic_ms (logged tr) (w, log)) MAX_ROWS_PER_SINK ((w, log), db, fs) = (r1, (w1, log1), db1, fs1)"
      by (simp add: dispatch_sink_def)
    from dispatch_rows_inv [OF this Cons.prems(2,3) now] show ?thesis .
  qed
  obtain l1 where l1: "log1 = log @ l1" "length l1 \<le> MAX_ROWS_PER_SINK" "fst ` set l1 \<subseteq> {s}" using s1 by blast
  have f1: "filter (\<lambda>x. fst x = s') l1 = (if s' = s then l1 else [])" for s'
    using l1(3) by (auto simp: filter_id_conv filter_empty_conv)
  show ?case
  proof (cases r1)
    case (Inl e)
    then have "log' = log1" "db' = db1" using Cons.prems(1) one by auto
    moreover have "\<forall>s'. length (filter (\<lambda>x. fst x = s') l1) \<le> MAX_ROWS_PER_SINK" using l1(2) by (simp add: f1)
    ultimately show ?thesis using s1 l1 by auto
  next
    case (Inr u)
    then have rest: "dispatch_sinks (logged tr) cd now entries ids ((w1, log1), db1, fs1) = (r, (w', log'), db', fs')"
      using Cons.prems(1) one by auto
    obtain l2 where l2: "log' = log1 @ l2" "fst ` set l2 \<subseteq> set ids" "\<forall>s. length (filter (\<lambda>x. fst x = s) l2) \<le> MAX_ROWS_PER_SINK"
      and d: "dispatched cd now db0 log' db'"
      using Cons.IH [OF rest] s1 Inr Cons.prems(4) by auto
    have f2: "filter (\<lambda>x. fst x = s) l2 = []" using l2(2) Cons.prems(4) by (auto simp: filter_empty_conv)
    have "length (filter (\<lambda>x. fst x = s') (l1 @ l2)) \<le> MAX_ROWS_PER_SINK" for s'
      using l1(2) l2(3) f2 by (cases "s' = s") (simp_all add: f1)
    moreover have "log' = log @ (l1 @ l2)" "fst ` set (l1 @ l2) \<subseteq> set (s # ids)" using l1 l2 by auto
    ultimately show ?thesis using d by blast
  qed
qed auto

lemma dispatch_inv:
  assumes "dispatch_durable_with_outbox (logged tr) cd now entries ids (w, []) db = (r, (w', log), db')"
    and "db_ok cd db" and "0 \<le> now" "now + 86400000 \<le> I64_MAX" and "distinct ids"
  shows "dispatched cd now db log db' \<and> fst ` set log \<subseteq> set ids
    \<and> (\<forall>s. length (filter (\<lambda>x. fst x = s) log) \<le> MAX_ROWS_PER_SINK)"
proof -
  obtain r1 fs where run: "dispatch_sinks (logged tr) cd now entries ids ((w, []), db, []) = (r1, (w', log), db', fs)"
    using assms(1) by (auto simp: dispatch_durable_with_outbox_def split: prod.splits sum.splits)
  show ?thesis
    using dispatch_sinks_inv [OF run _ _ assms(3-5)] dispatched_start [OF assms(2), of now] by auto
qed

interpretation dispatch: durable_operation cd "\<lambda>db. snd (snd (dispatch_durable_with_outbox tr cd now entries ids w db))"
    "\<lambda>_. 0 \<le> now \<and> now + 86400000 \<le> I64_MAX \<and> distinct ids"
  for cd tr now entries ids w
proof
  fix db assume ok: "db_ok cd db" and pre: "0 \<le> now \<and> now + 86400000 \<le> I64_MAX \<and> distinct ids"
  obtain r w' log db' where run: "dispatch_durable_with_outbox (logged tr) cd now entries ids (w, []) db = (r, (w', log), db')"
    by (metis surj_pair)
  have "dispatched cd now db log db'" using dispatch_inv [OF run ok] pre by blast
  moreover have "dispatch_durable_with_outbox tr cd now entries ids w db = (r, w', db')" by (rule dispatch_logged [OF run])
  ultimately show "db_ok cd (snd (snd (dispatch_durable_with_outbox tr cd now entries ids w db)))"
    and "keeps db (snd (snd (dispatch_durable_with_outbox tr cd now entries ids w db)))"
    by (simp_all add: dispatched_def)
qed

text \<open>C5. Dispatch, observed through a transport that also logs what is sent: logging does not change the
  outcome; a payload is sent to a sink at most once and only if a delivery row of that sink with these
  stored bytes was pending and due; no sink is sent more than sixteen payloads; and a row that becomes
  acknowledged was accepted by its sink in this dispatch. This holds whether the dispatch succeeds or
  stops at an error, whatever the sinks answer.\<close>

theorem dispatch_sends_once:
  assumes "db_ok cd db" and "0 \<le> now" and "now + 86400000 \<le> I64_MAX" and "distinct ids"
    and "dispatch_durable_with_outbox (logged tr) cd now entries ids (w, []) db = (r, (w', log), db')"
  shows "dispatch_durable_with_outbox tr cd now entries ids w db = (r, w', db')
    \<and> distinct (map (\<lambda>(s, p, ok). (s, p)) log)
    \<and> (\<forall>s. length (filter (\<lambda>x. fst x = s) log) \<le> 16)
    \<and> (\<forall>s p ok. (s, p, ok) \<in> set log \<longrightarrow> s \<in> set ids
         \<and> (\<exists>e c. bt_get (e, s) (db_deliveries db) = Some c \<and> ready_row s now ((e, s), c) \<and> stored db e = Some p))
    \<and> (\<forall>e s c. bt_get (e, s) (db_deliveries db') = Some c \<and> col_state c = ''acked'' \<longrightarrow>
         bt_get (e, s) (db_deliveries db) = Some c \<or> (\<exists>p. stored db e = Some p \<and> (s, p, True) \<in> set log))"
proof -
  note inv = dispatch_inv [OF assms(5,1-4)]
  have d: "dispatched cd now db log db'" and ids: "fst ` set log \<subseteq> set ids"
    and n: "\<forall>s. length (filter (\<lambda>x. fst x = s) log) \<le> 16"
    using inv by (simp_all add: MAX_ROWS_PER_SINK_def)
  have "s \<in> set ids" if "(s, p, ok) \<in> set log" for s p ok using ids that by force
  then show ?thesis using dispatch_logged [OF assms(5)] n d unfolding dispatched_def by blast
qed

section \<open>A concrete dispatch\<close>

definition accepting :: "unit transport" where
  "accepting = \<lparr>tr_emit = \<lambda>s p w. (Inr (), w), tr_monotonic_ms = \<lambda>w. 0, tr_sanitize = \<lambda>m. m\<rparr>"

definition sample_entry :: SinkEntry where
  "sample_entry = \<lparr>se_name = ''a'', se_transport = ''http'', se_max_attempts = 3, se_base_delay_ms = 250\<rparr>"

lemma sample_select: "select_ready sample_db ''a'' 9 = Some ((sample_event, ''a''), fresh_delivery 5)"
  by (simp add: select_ready_def sample_db_def ready_row_def fresh_delivery_def)

lemma sample_next_ready:
  "next_ready_delivery sample_codec sample_db ''a'' 9 = Inr (Some \<lparr>rd_row = \<lparr>dr_event_id = sample_event, dr_sink_id = ''a'',
     dr_state = Pending, dr_attempts = 0, dr_next_attempt_at = None, dr_last_error_class = None, dr_updated_at = 5\<rparr>, rd_payload = sample_event\<rparr>)"
proof -
  have "stored sample_db sample_event = Some sample_event" by (simp add: stored_def sample_db_def bt_get_def)
  then show ?thesis
    using next_ready_delivery_eq [OF sample_db_ok sample_sink_valid, of 9] by (auto simp: sample_select fresh_delivery_decode)
qed

lemma sample_dispatch:
  "\<exists>db'. dispatch_durable_with_outbox (logged accepting) sample_codec 9 [sample_entry] [''a''] ((), []) sample_db
    = (Inr [], ((), [(''a'', sample_event, True)]), db') \<and> bt_get (sample_event, ''a'') (db_deliveries db')
      = Some (update_columns (settle 9 1 (Acked, None) None))"
proof -
  let ?u = "settle 9 1 (Acked, None) None"
  let ?db = "sample_db\<lparr>db_deliveries := bt_put (sample_event, ''a'') (update_columns ?u) (db_deliveries sample_db),
     db_health := bt_put ''a'' (fresh_health\<lparr>col_last_success_at := Some 9\<rparr>) (db_health sample_db)\<rparr>"
  have rec: "record_delivery_at sample_event ''a'' ?u sample_db = (Inr (), ?db)"
    by (simp add: record_delivery_at_def trim_id rust_simps in_transaction_def record_transaction_def sample_db_def bt_get_def
        insert_or_ignore_def update_health_def health_ok_def fresh_health_def Let_def)
  have alert: "\<not> is_delivery_failure_alert_payload sample_codec sample_event"
    by (simp add: is_delivery_failure_alert_payload_def sample_codec_def sample_json_def)
  have none: "select_ready ?db ''a'' 9 = None"
    by (simp add: select_ready_def sample_db_def ready_row_def update_columns_def)
  have nr: "next_ready_delivery sample_codec ?db ''a'' 9 = Inr None"
    by (simp add: next_ready_delivery_def sample_sink_valid none)
  have ck: "checked_add (0 :: u32) 1 = Some 1" by (simp add: checked_add_def)
  have one: "dispatch_one (logged accepting) sample_codec 9 sample_entry ''a'' (((), []), sample_db, [])
    = (Inr True, ((), [(''a'', sample_event, True)]), ?db, [])"
    by (simp add: dispatch_one_def sample_next_ready ck alert logged_emit accepting_def record_outcome_eq rec)
  have two: "dispatch_one (logged accepting) sample_codec 9 sample_entry ''a'' (((), [(''a'', sample_event, True)]), ?db, [])
    = (Inr False, ((), [(''a'', sample_event, True)]), ?db, [])"
    by (simp add: dispatch_one_def nr)
  have ms: "tr_monotonic_ms (logged accepting) x = 0" for x by (cases x) (simp add: logged_def accepting_def)
  have "dispatch_rows (logged accepting) sample_codec 9 sample_entry ''a'' 0 (Suc (Suc n)) (((), []), sample_db, [])
    = (Inr (), ((), [(''a'', sample_event, True)]), ?db, [])" for n
    by (simp add: one two ms SINK_BUDGET_MS_def)
  from this [of 14] have "dispatch_sink (logged accepting) sample_codec 9 [sample_entry] ''a'' (((), []), sample_db, [])
    = (Inr (), ((), [(''a'', sample_event, True)]), ?db, [])"
    by (simp add: dispatch_sink_def sample_entry_def ms MAX_ROWS_PER_SINK_def numeral_eq_Suc)
  then show ?thesis
    by (simp add: dispatch_durable_with_outbox_def) (simp add: sample_db_def bt_get_def)
qed

theorem dispatch_sends_once_witness:
  "\<exists>db'. dispatch_durable_with_outbox accepting sample_codec 9 [sample_entry] [''a''] () sample_db = (Inr [], (), db')
    \<and> (\<exists>e c. bt_get (e, ''a'') (db_deliveries sample_db) = Some c \<and> ready_row ''a'' 9 ((e, ''a''), c) \<and> stored sample_db e = Some sample_event)"
proof -
  obtain db' where run: "dispatch_durable_with_outbox (logged accepting) sample_codec 9 [sample_entry] [''a''] ((), []) sample_db
    = (Inr [], ((), [(''a'', sample_event, True)]), db')"
    using sample_dispatch by blast
  have now: "0 \<le> (9 :: int)" "(9 :: int) + 86400000 \<le> I64_MAX" "distinct [''a'']" by (simp_all add: I64_MAX_def)
  show ?thesis using dispatch_sends_once [OF sample_db_ok now run] by auto
qed

end
