(* ===== verification/Durable.thy ===== *)
theory Durable
  imports Rotation Journal_Capacity Delivery Events
begin

text \<open>
  The sink set, \<open>src/sink/mod.rs\<close>: registration of sinks, best-effort delivery, and the durable path
  that writes a batch to the canonical journal, reconciles the journal into the outbox, dispatches ready
  deliveries and prunes rotated generations. It composes the local sink (\<open>Rotation\<close>), the outbox and its
  journal (\<open>Outbox\<close>, \<open>Outbox_Journal\<close>) and dispatch (\<open>Delivery\<close>).

  The state is the directory of the journal, the outbox and the world of the remote sinks. A computation
  keeps the state that it has reached when it fails. Not modelled are the serialisation of events, which
  is the function \<open>env_serialize\<close>, remote sinks, and the checks that touch only files outside the journal:
  path aliasing, the admission lock and the opening of the database, whose outcomes are the record \<open>host\<close>.
\<close>

section \<open>Sinks\<close>

datatype DeliveryPolicy = BestEffort | DurablePolicy

datatype PersistenceRole = NoPersistence | CanonicalFirstWrite | DeliveryStateRole

datatype DeliveryPosture = DurableFirstWrite | BestEffortNoReplay | NoEnabledSinks

fun posture_as_str :: "DeliveryPosture \<Rightarrow> string" where
  "posture_as_str DurableFirstWrite = ''durable_first_write''"
| "posture_as_str BestEffortNoReplay = ''best_effort_no_replay''"
| "posture_as_str NoEnabledSinks = ''no_enabled_sinks''"

text \<open>A registered sink; \<open>sl_local\<close> is the sink itself when it is the local JSONL sink.\<close>

record SinkSlot =
  sl_entry :: SinkEntry
  sl_local :: "LocalJsonlSink option"
  sl_persistence_path :: "string option"
  sl_rotation_keep :: "nat option"
  sl_policy :: DeliveryPolicy
  sl_role :: PersistenceRole

record SinkSet =
  ss_entries :: "SinkSlot list"
  ss_durable_outbox_path :: "string option"
  ss_durable_sink_ids :: "string list"
  ss_capacity_limits :: CapacityLimits
  ss_replay_active :: bool

definition empty_sink_set :: SinkSet where
  "empty_sink_set = \<lparr>ss_entries = [], ss_durable_outbox_path = None, ss_durable_sink_ids = [],
     ss_capacity_limits = default_capacity_limits, ss_replay_active = False\<rparr>"

abbreviation sl_name :: "SinkSlot \<Rightarrow> string" where
  "sl_name slot \<equiv> se_name (sl_entry slot)"

definition add_with_roles_and_retry ::
  "SinkEntry \<Rightarrow> LocalJsonlSink option \<Rightarrow> DeliveryPolicy \<Rightarrow> PersistenceRole \<Rightarrow> SinkSet \<Rightarrow> SinkSet" where
  "add_with_roles_and_retry entry local policy role sinks =
    sinks\<lparr>ss_entries := ss_entries sinks @ [\<lparr>sl_entry = entry, sl_local = local, sl_persistence_path = None,
      sl_rotation_keep = None, sl_policy = policy, sl_role = role\<rparr>]\<rparr>"

text \<open>An entry with the default retry configuration.\<close>

definition default_retry :: "SinkEntry \<Rightarrow> SinkEntry" where
  "default_retry entry = entry\<lparr>se_max_attempts := 3, se_base_delay_ms := 500\<rparr>"

definition add_with_roles :: "SinkEntry \<Rightarrow> LocalJsonlSink option \<Rightarrow> DeliveryPolicy \<Rightarrow> PersistenceRole \<Rightarrow> SinkSet \<Rightarrow> SinkSet" where
  "add_with_roles entry local policy role sinks = add_with_roles_and_retry (default_retry entry) local policy role sinks"

definition add_best_effort :: "SinkEntry \<Rightarrow> LocalJsonlSink option \<Rightarrow> SinkSet \<Rightarrow> SinkSet" where
  "add_best_effort entry local sinks = add_with_roles entry local BestEffort NoPersistence sinks"

definition add_best_effort_with_retry :: "SinkEntry \<Rightarrow> LocalJsonlSink option \<Rightarrow> SinkSet \<Rightarrow> SinkSet" where
  "add_best_effort_with_retry entry local sinks = add_with_roles_and_retry entry local BestEffort NoPersistence sinks"

definition add_canonical_first_write_path_with_rotation_and_keep ::
  "SinkEntry \<Rightarrow> LocalJsonlSink option \<Rightarrow> string \<Rightarrow> nat option \<Rightarrow> SinkSet \<Rightarrow> SinkSet" where
  "add_canonical_first_write_path_with_rotation_and_keep entry local path keep sinks =
    sinks\<lparr>ss_entries := ss_entries sinks @ [\<lparr>sl_entry = default_retry entry, sl_local = local, sl_persistence_path = Some path,
      sl_rotation_keep = keep, sl_policy = BestEffort, sl_role = CanonicalFirstWrite\<rparr>]\<rparr>"

definition add_canonical_first_write_path_with_rotation :: "SinkEntry \<Rightarrow> LocalJsonlSink option \<Rightarrow> string \<Rightarrow> SinkSet \<Rightarrow> SinkSet" where
  "add_canonical_first_write_path_with_rotation entry local path sinks =
    add_canonical_first_write_path_with_rotation_and_keep entry local path None sinks"

definition make_durable :: "string list \<Rightarrow> SinkSlot \<Rightarrow> SinkSlot" where
  "make_durable sink_ids slot =
    (if sl_name slot \<in> List.set sink_ids then slot\<lparr>sl_policy := DurablePolicy, sl_role := DeliveryStateRole\<rparr> else slot)"

definition enable_persistent_replay_with_capacity ::
  "string \<Rightarrow> string list \<Rightarrow> CapacityLimits \<Rightarrow> SinkSet \<Rightarrow> SinkSet" where
  "enable_persistent_replay_with_capacity outbox_path sink_ids limits sinks =
    sinks\<lparr>ss_entries := map (make_durable sink_ids) (ss_entries sinks), ss_durable_outbox_path := Some outbox_path,
      ss_durable_sink_ids := sink_ids, ss_capacity_limits := limits, ss_replay_active := False\<rparr>"

definition has_persistent_replay :: "SinkSet \<Rightarrow> bool" where
  "has_persistent_replay sinks \<longleftrightarrow> ss_durable_outbox_path sinks \<noteq> None"

definition local_persistence_paths :: "SinkSet \<Rightarrow> string list" where
  "local_persistence_paths sinks = List.map_filter sl_persistence_path (ss_entries sinks)"

definition canonical_slots :: "SinkSet \<Rightarrow> SinkSlot list" where
  "canonical_slots sinks = filter (\<lambda>slot. sl_role slot = CanonicalFirstWrite) (ss_entries sinks)"

definition has_canonical_first_write :: "SinkSet \<Rightarrow> bool" where
  "has_canonical_first_write sinks \<longleftrightarrow> list_ex (\<lambda>slot. sl_role slot = CanonicalFirstWrite) (ss_entries sinks)"

definition delivery_sink_ids :: "SinkSet \<Rightarrow> string list" where
  "delivery_sink_ids sinks = map sl_name (filter (\<lambda>slot. sl_role slot \<noteq> CanonicalFirstWrite) (ss_entries sinks))"

definition delivery_posture :: "SinkSet \<Rightarrow> DeliveryPosture" where
  "delivery_posture sinks =
    (if ss_entries sinks = [] then NoEnabledSinks
     else if has_canonical_first_write sinks then DurableFirstWrite else BestEffortNoReplay)"

section \<open>State and environment\<close>

record 'w system =
  sy_dir :: directory
  sy_outbox :: outbox_db
  sy_world :: 'w

record 'w env =
  env_codec :: codec
  env_ids :: identity_codec
  env_transport :: "'w transport"
  env_emit :: "string \<Rightarrow> Event list \<Rightarrow> 'w \<Rightarrow> (emit_error, unit) result \<times> 'w"
  env_serialize :: "Event \<Rightarrow> (string, string) result"
  env_path_hash :: "string \<Rightarrow> string"

text \<open>The clock readings of one call, the identity that a file created by it gets, and the state of the
  lock file of the log.\<close>

record moment =
  mo_reconcile :: int
  mo_dispatch :: int
  mo_reconcile_again :: int
  mo_prune :: int
  mo_date :: string
  mo_fresh :: string
  mo_lock :: sidecar

record host =
  ho_windows :: bool
  ho_paths :: "(emit_error, unit) result"
  ho_outbox_path :: "(emit_error, unit) result"
  ho_lock :: "(emit_error, unit) result"
  ho_open :: "(emit_error, unit) result"
  ho_verify :: "(emit_error, unit) result"

type_synonym ('w, 'a) run = "('w system, emit_error, 'a) comp"

definition lift :: "(emit_error, 'a) result \<Rightarrow> ('w, 'a) run" where
  "lift r s = (r, s)"

definition emitted :: "(DeliveryError, 'a) result \<Rightarrow> (emit_error, 'a) result" where
  "emitted r = (case r of Inl e \<Rightarrow> Inl (Emitted e) | Inr x \<Rightarrow> Inr x)"

definition others :: "(string, 'a) result \<Rightarrow> (emit_error, 'a) result" where
  "others r = (case r of Inl m \<Rightarrow> Inl (OtherError m) | Inr x \<Rightarrow> Inr x)"

definition storage_failure :: "string \<Rightarrow> emit_error" where
  "storage_failure m = Emitted (storage_message m)"

definition ensure_durable_storage_supported_for_platform :: "bool \<Rightarrow> (emit_error, unit) result" where
  "ensure_durable_storage_supported_for_platform is_windows =
    (if is_windows then Inl (storage_failure ''persistent durable-delivery private storage is not supported on Windows yet'') else Inr ())"

text \<open>The outbox may not alias the journal (\<open>ho_paths\<close>) and its own path must be usable (\<open>ho_outbox_path\<close>).\<close>

definition validate_persistent_replay_paths :: "SinkSet \<Rightarrow> host \<Rightarrow> (emit_error, unit) result" where
  "validate_persistent_replay_paths sinks ho =
    (if ss_durable_outbox_path sinks = None then Inr ()
     else case local_persistence_paths sinks of
       [] \<Rightarrow> ho_outbox_path ho
     | [path] \<Rightarrow> result_bind (ho_paths ho) (\<lambda>_. ho_outbox_path ho)
     | _ \<Rightarrow> Inl (storage_failure ''durable downstream delivery requires exactly one canonical JSONL path''))"

definition activate_persistent_replay :: "host \<Rightarrow> SinkSet \<Rightarrow> (emit_error, SinkSet) result" where
  "activate_persistent_replay ho sinks =
    (if ss_durable_outbox_path sinks = None then Inr sinks
     else result_bind (validate_persistent_replay_paths sinks ho) (\<lambda>_.
       result_bind (ensure_durable_storage_supported_for_platform (ho_windows ho)) (\<lambda>_.
       result_bind (ho_open ho) (\<lambda>_. Inr (sinks\<lparr>ss_replay_active := True\<rparr>)))))"

section \<open>Batches\<close>

record Event3DurableBatch =
  ba_payloads :: "Event3DurablePayload list"
  ba_jsonl_bytes :: string

definition canonical_payload :: "'w env \<Rightarrow> Event \<Rightarrow> (DeliveryError, Event3DurablePayload) result" where
  "canonical_payload env e =
    (case env_serialize env e of
       Inl m \<Rightarrow> Inl (canonical_error (''serialize Event 3.0 payload: '' @ m))
     | Inr bytes \<Rightarrow>
         result_bind (validate_canonical_event_bytes (env_codec env) bytes (Some (ev_event_id e))) (\<lambda>_.
           Inr \<lparr>pl_event_id = ev_event_id e, pl_bytes = bytes, pl_hash = cd_sha256 (env_codec env) bytes,
             pl_generation_id = None, pl_generation_offset = None\<rparr>))"

definition event3_durable_batch :: "'w env \<Rightarrow> Event list \<Rightarrow> (DeliveryError, Event3DurableBatch) result" where
  "event3_durable_batch env events =
    try_fold (\<lambda>b e. result_bind (canonical_payload env e) (\<lambda>p.
      Inr \<lparr>ba_payloads = ba_payloads b @ [p], ba_jsonl_bytes = ba_jsonl_bytes b @ pl_bytes p @ [newline]\<rparr>))
      \<lparr>ba_payloads = [], ba_jsonl_bytes = []\<rparr> events"

definition serialize_jsonl_events :: "'w env \<Rightarrow> Event list \<Rightarrow> (string, string) result" where
  "serialize_jsonl_events env events =
    try_fold (\<lambda>bytes e. result_bind (env_serialize env e) (\<lambda>line. Inr (bytes @ line @ [newline]))) [] events"

section \<open>Journal operations on the directory\<close>

text \<open>\<open>Outbox::reconcile_jsonl\<close> with the discovery of the generations in its place.\<close>

definition reconcile_log :: "'w env \<Rightarrow> int \<Rightarrow> string \<Rightarrow> string list \<Rightarrow> ('w, ReconcileResult) run" where
  "reconcile_log env now log_path sink_ids s =
    (case result_bind (emitted (validate_sink_ids sink_ids False)) (\<lambda>_.
          result_bind (emitted (read_ingest_cursor (sy_outbox s))) (\<lambda>_.
          case discover_jsonl_generations log_path (sy_dir s) of
            Inl m \<Rightarrow> Inl (storage_failure (''outbox discover JSONL generations: '' @ m)) | Inr gs \<Rightarrow> Inr gs)) of
       Inl e \<Rightarrow> (Inl e, s)
     | Inr gs \<Rightarrow>
         (case reconcile_jsonl (env_codec env) (env_ids env) now (env_path_hash env log_path) gs sink_ids (sy_outbox s) of
            (r, db') \<Rightarrow> (emitted r, s\<lparr>sy_outbox := db'\<rparr>)))"

definition check_capacity_log ::
  "'w env \<Rightarrow> string \<Rightarrow> Event3DurablePayload list \<Rightarrow> CapacityLimits \<Rightarrow> ('w, unit) run" where
  "check_capacity_log env log_path payloads limits s =
    (result_bind (emitted (validate_capacity_limits limits)) (\<lambda>_.
       case discover_jsonl_generations log_path (sy_dir s) of
         Inl m \<Rightarrow> Inl (storage_failure (''outbox discover JSONL generations for capacity: '' @ m))
       | Inr gs \<Rightarrow> emitted (check_capacity_for_payloads (env_codec env) (sy_outbox s) (env_path_hash env log_path) gs payloads limits)), s)"

text \<open>Files that pruning has removed from the list of generations leave the directory.\<close>

definition is_generation_name :: "string \<Rightarrow> string \<Rightarrow> bool" where
  "is_generation_name active name \<longleftrightarrow> name = active
     \<or> (case rotation_components active of None \<Rightarrow> False | Some (stem, ext) \<Rightarrow> parse_rotated_name name stem ext \<noteq> None)"

definition keep_generations :: "string \<Rightarrow> JsonlGeneration list \<Rightarrow> directory \<Rightarrow> directory" where
  "keep_generations active gs dir =
    filter (\<lambda>(name, f). is_generation_name active name \<longrightarrow> jf_identity f \<in> List.set (map jg_identity gs)) dir"

definition prune_log :: "'w env \<Rightarrow> int \<Rightarrow> string \<Rightarrow> nat \<Rightarrow> 'w system \<Rightarrow> 'w system" where
  "prune_log env now log_path keep s =
    (case discover_jsonl_generations log_path (sy_dir s) of
       Inl m \<Rightarrow> s
     | Inr gs \<Rightarrow>
         (case prune_eligible_rotations (env_codec env) now (env_path_hash env log_path) keep (gs, sy_outbox s) of
            (report, gs', db') \<Rightarrow> s\<lparr>sy_dir := keep_generations log_path gs' (sy_dir s), sy_outbox := db'\<rparr>))"

definition prune_slot :: "'w env \<Rightarrow> int \<Rightarrow> 'w system \<Rightarrow> SinkSlot \<Rightarrow> 'w system" where
  "prune_slot env now s slot =
    (case (sl_persistence_path slot, sl_rotation_keep slot) of
       (Some path, Some keep) \<Rightarrow> prune_log env now path keep s
     | _ \<Rightarrow> s)"

text \<open>Pruning only warns when its checks fail.\<close>

definition prune_durable_rotations :: "'w env \<Rightarrow> SinkSet \<Rightarrow> host \<Rightarrow> int \<Rightarrow> ('w, unit) run" where
  "prune_durable_rotations env sinks ho now s =
    (if ss_durable_outbox_path sinks = None then (Inr (), s)
     else case result_bind (validate_persistent_replay_paths sinks ho) (\<lambda>_. ho_open ho) of
       Inl e \<Rightarrow> (Inr (), s)
     | Inr _ \<Rightarrow> (Inr (), foldl (prune_slot env now) s (canonical_slots sinks)))"

section \<open>Emission through a sink\<close>

definition emit_local :: "LocalJsonlSink \<Rightarrow> moment \<Rightarrow> string \<Rightarrow> ('w, unit) run" where
  "emit_local sink mo bytes s =
    (case emit_jsonl_bytes sink (mo_lock mo) (mo_date mo) (mo_fresh mo) bytes (sy_dir s) of
       (r, dir') \<Rightarrow> (others r, s\<lparr>sy_dir := dir'\<rparr>))"

text \<open>\<open>EventSink::emit\<close> and \<open>EventSink::emit_canonical_jsonl_bytes\<close>, which only the local sink implements.\<close>

definition sink_emit :: "'w env \<Rightarrow> moment \<Rightarrow> SinkSlot \<Rightarrow> Event list \<Rightarrow> ('w, unit) run" where
  "sink_emit env mo slot events =
    (case sl_local slot of
       Some sink \<Rightarrow> cbind (lift (others (serialize_jsonl_events env events))) (\<lambda>bytes. emit_local sink mo bytes)
     | None \<Rightarrow> (\<lambda>s. case env_emit env (sl_name slot) events (sy_world s) of (r, w') \<Rightarrow> (r, s\<lparr>sy_world := w'\<rparr>)))"

definition emit_canonical_jsonl_bytes :: "moment \<Rightarrow> string \<Rightarrow> SinkSlot \<Rightarrow> ('w, unit) run" where
  "emit_canonical_jsonl_bytes mo bytes slot =
    (case sl_local slot of
       Some sink \<Rightarrow> emit_local sink mo bytes
     | None \<Rightarrow> throw (storage_failure ''canonical first-write sink does not accept serialized JSONL bytes''))"

section \<open>Durable delivery\<close>

definition configured :: "SinkSet \<Rightarrow> bool" where
  "configured sinks \<longleftrightarrow> list_all (\<lambda>sink_id. list_ex (\<lambda>slot. sl_name slot = sink_id) (ss_entries sinks)) (ss_durable_sink_ids sinks)"

definition dispatch_system :: "'w env \<Rightarrow> SinkSet \<Rightarrow> int \<Rightarrow> ('w, SinkFailure list) run" where
  "dispatch_system env sinks now s =
    (case dispatch_durable_with_outbox (env_transport env) (env_codec env) now (map sl_entry (ss_entries sinks))
        (ss_durable_sink_ids sinks) (sy_world s) (sy_outbox s) of
       (r, w', db') \<Rightarrow> (r, s\<lparr>sy_world := w', sy_outbox := db'\<rparr>))"

definition admit_batch ::
  "'w env \<Rightarrow> SinkSet \<Rightarrow> moment \<Rightarrow> string \<Rightarrow> Event3DurableBatch \<Rightarrow> ('w, unit) run" where
  "admit_batch env sinks mo log_path batch =
    cbind (check_capacity_log env log_path (ba_payloads batch) (ss_capacity_limits sinks)) (\<lambda>_.
    cbind (cfold (\<lambda>_. emit_canonical_jsonl_bytes mo (ba_jsonl_bytes batch)) () (canonical_slots sinks)) (\<lambda>_.
    cbind (reconcile_log env (mo_reconcile_again mo) log_path (ss_durable_sink_ids sinks)) (\<lambda>_. ret ())))"

definition persist_for_durable_replay_with_failures_for_platform ::
  "'w env \<Rightarrow> SinkSet \<Rightarrow> host \<Rightarrow> moment \<Rightarrow> Event list \<Rightarrow> ('w, SinkFailure list) run" where
  "persist_for_durable_replay_with_failures_for_platform env sinks ho mo events =
    (if \<not> has_persistent_replay sinks then ret []
     else
       cbind (lift (ensure_durable_storage_supported_for_platform (ho_windows ho))) (\<lambda>_.
       cbind (lift (emitted (event3_durable_batch env events))) (\<lambda>batch.
       case local_persistence_paths sinks of
         [log_path] \<Rightarrow>
           cbind (lift (validate_persistent_replay_paths sinks ho)) (\<lambda>_.
           cbind (lift (ho_lock ho)) (\<lambda>_.
           cbind (lift (ho_open ho)) (\<lambda>_.
           cbind (reconcile_log env (mo_reconcile mo) log_path (ss_durable_sink_ids sinks)) (\<lambda>_.
           cbind (if configured sinks then dispatch_system env sinks (mo_dispatch mo) else ret []) (\<lambda>failures.
           cbind (if events = [] then ret () else admit_batch env sinks mo log_path batch) (\<lambda>_.
           cbind (lift (ho_verify ho)) (\<lambda>_.
           cbind (prune_durable_rotations env sinks ho (mo_prune mo)) (\<lambda>_.
           ret failures))))))))
       | _ \<Rightarrow> throw (storage_failure ''durable replay requires exactly one canonical JSONL path''))))"

definition dispatch_durable_with_clock :: "'w env \<Rightarrow> SinkSet \<Rightarrow> host \<Rightarrow> moment \<Rightarrow> ('w, SinkFailure list) run" where
  "dispatch_durable_with_clock env sinks ho mo =
    (if ss_durable_outbox_path sinks = None then ret []
     else
       cbind (lift (validate_persistent_replay_paths sinks ho)) (\<lambda>_.
       cbind (lift (ho_lock ho)) (\<lambda>_.
       cbind (lift (ho_open ho)) (\<lambda>_.
       cbind (dispatch_system env sinks (mo_dispatch mo)) (\<lambda>failures.
       cbind (lift (ho_verify ho)) (\<lambda>_.
       ret failures))))))"

definition deliver_durable :: "'w env \<Rightarrow> SinkSet \<Rightarrow> host \<Rightarrow> moment \<Rightarrow> ('w, SinkFailure list) run" where
  "deliver_durable env sinks ho mo =
    cbind (lift (if has_persistent_replay sinks then ensure_durable_storage_supported_for_platform (ho_windows ho) else Inr ())) (\<lambda>_.
    cbind (dispatch_durable_with_clock env sinks ho mo) (\<lambda>failures.
    cbind (prune_durable_rotations env sinks ho (mo_prune mo)) (\<lambda>_.
    ret failures)))"

section \<open>Best-effort delivery and alerts\<close>

definition error_text :: "emit_error \<Rightarrow> string" where
  "error_text e = (case e of OtherError m \<Rightarrow> m
     | Emitted d \<Rightarrow> de_message d @ '' (after '' @ show_nat (unat (de_attempts d)) @ '' attempts)'')"

definition best_effort_failure :: "'w env \<Rightarrow> SinkSlot \<Rightarrow> emit_error \<Rightarrow> SinkFailure" where
  "best_effort_failure env slot e =
    \<lparr>sf_name = sl_name slot, sf_kind = se_transport (sl_entry slot),
     sf_class = (case e of Emitted d \<Rightarrow> de_class d | OtherError m \<Rightarrow> UnknownInternal),
     sf_attempts = (case e of Emitted d \<Rightarrow> de_attempts d | OtherError m \<Rightarrow> 1),
     sf_error = tr_sanitize (env_transport env) (error_text e),
     sf_prior_attempts = 0, sf_prior_error_class = None\<rparr>"

definition emit_reporting ::
  "'w env \<Rightarrow> moment \<Rightarrow> Event list \<Rightarrow> SinkFailure list \<Rightarrow> SinkSlot \<Rightarrow> ('w, SinkFailure list) run" where
  "emit_reporting env mo events failures slot s =
    (case sink_emit env mo slot events s of
       (Inr _, s') \<Rightarrow> (Inr failures, s')
     | (Inl e, s') \<Rightarrow> (Inr (failures @ [best_effort_failure env slot e]), s'))"

definition deliver_best_effort :: "'w env \<Rightarrow> SinkSet \<Rightarrow> moment \<Rightarrow> Event list \<Rightarrow> ('w, SinkFailure list) run" where
  "deliver_best_effort env sinks mo events =
    cbind (cfold (\<lambda>_ slot. sink_emit env mo slot events) ()
      (filter (\<lambda>slot. sl_role slot = CanonicalFirstWrite \<and> \<not> has_persistent_replay sinks) (ss_entries sinks))) (\<lambda>_.
    cfold (emit_reporting env mo events) []
      (filter (\<lambda>slot. sl_role slot \<noteq> CanonicalFirstWrite
        \<and> (\<not> has_persistent_replay sinks \<or> sl_policy slot \<noteq> DurablePolicy)) (ss_entries sinks)))"

text \<open>The durable dispatch that follows persistence reads the clock and the host again.\<close>

definition deliver ::
  "'w env \<Rightarrow> SinkSet \<Rightarrow> host \<Rightarrow> moment \<Rightarrow> host \<Rightarrow> moment \<Rightarrow> Event list \<Rightarrow> ('w, SinkFailure list) run" where
  "deliver env sinks ho mo ho' mo' events =
    (if has_persistent_replay sinks
     then cbind (persist_for_durable_replay_with_failures_for_platform env sinks ho mo events) (\<lambda>persisted.
       cbind (deliver_durable env sinks ho' mo') (\<lambda>durable.
       cbind (deliver_best_effort env sinks mo' events) (\<lambda>best_effort.
       ret (persisted @ durable @ best_effort))))
     else deliver_best_effort env sinks mo' events)"

definition durable_alerts_admitted :: "'w env \<Rightarrow> SinkSet \<Rightarrow> host \<Rightarrow> Event list \<Rightarrow> outbox_db \<Rightarrow> bool" where
  "durable_alerts_admitted env sinks ho events db \<longleftrightarrow>
    \<not> has_persistent_replay sinks \<or> events = []
    \<or> (ho_open ho = Inr () \<and> list_all (\<lambda>e. case get_event (env_codec env) db (ev_event_id e) of
         Inr (Some _) \<Rightarrow> True | _ \<Rightarrow> False) events)"

definition emit_warning :: "'w env \<Rightarrow> moment \<Rightarrow> Event list \<Rightarrow> bool \<Rightarrow> SinkSlot \<Rightarrow> ('w, bool) run" where
  "emit_warning env mo events accepted slot s =
    (case sink_emit env mo slot events s of (Inr _, s') \<Rightarrow> (Inr True, s') | (Inl e, s') \<Rightarrow> (Inr accepted, s'))"

definition deliver_alerts :: "'w env \<Rightarrow> SinkSet \<Rightarrow> host \<Rightarrow> moment \<Rightarrow> Event list \<Rightarrow> string list \<Rightarrow> ('w, bool) run" where
  "deliver_alerts env sinks ho mo events skip s =
    (let admitted = durable_alerts_admitted env sinks ho events (sy_outbox s);
         slots = filter (\<lambda>slot. sl_name slot \<notin> List.set skip) (ss_entries sinks);
         remote = filter (\<lambda>slot. sl_role slot \<noteq> CanonicalFirstWrite) slots
     in if \<not> admitted then (Inr False, s)
        else cbind (cfold (\<lambda>_ slot. cbind (sink_emit env mo slot events) (\<lambda>_. ret True)) (has_persistent_replay sinks)
              (filter (\<lambda>slot. sl_role slot = CanonicalFirstWrite \<and> \<not> has_persistent_replay sinks) slots)) (\<lambda>accepted.
          cbind (cfold (emit_warning env mo events) accepted (filter (\<lambda>slot. sl_policy slot = DurablePolicy) remote)) (\<lambda>accepted'.
          cfold (emit_warning env mo events) accepted' (filter (\<lambda>slot. sl_policy slot \<noteq> DurablePolicy) remote))) s)"

end
