(* ===== verification/Durable_Runs.thy ===== *)
theory Durable_Runs
  imports Durable
begin

text \<open>
  What durable delivery promises, for the operations of \<open>Durable\<close>. The journal directory and the outbox
  together lose nothing, through whole deliveries and through every point where a crash can stop one, and a
  delivery that succeeds leaves its events stored with a delivery row for every durable sink.

  A change of state is \<open>lossless\<close> when it keeps the invariant \<open>sound\<close> and every recoverable record; the
  relation is graded by the number of files that it may create, and the locale \<open>graded_state\<close> carries it
  through the sequencing and the loops of a computation.
\<close>

section \<open>Computations\<close>

lemma cbind_cases:
  assumes "cbind m f s = (r, s')"
  obtains (failed) e where "m s = (Inl e, s')" "r = Inl e"
    | (continued) x s1 where "m s = (Inr x, s1)" "f x s1 = (r, s')"
  using assms by (cases "m s"; cases "fst (m s)") (auto simp: cbind_def)

text \<open>A relation between states that every part of a computation keeps.\<close>

definition along :: "('s \<Rightarrow> 's \<Rightarrow> bool) \<Rightarrow> ('s, 'e, 'a) comp \<Rightarrow> bool" where
  "along R m \<longleftrightarrow> (\<forall>s r s'. m s = (r, s') \<longrightarrow> R s s')"

section \<open>Generations of a directory\<close>

definition generation_file :: "string \<Rightarrow> directory \<Rightarrow> string \<Rightarrow> journal_file \<Rightarrow> bool" where
  "generation_file log dir name f \<longleftrightarrow> is_generation_name log name \<and> bt_get name dir = Some f"

text \<open>What discovery returns, for a directory that fits its bound: the rotated files in order, then the active
  one.\<close>

definition rotated_generations :: "string \<Rightarrow> directory \<Rightarrow> JsonlGeneration list" where
  "rotated_generations log dir =
    (case rotation_components log of
       None \<Rightarrow> []
     | Some (stem, ext) \<Rightarrow> map (generation_of False \<circ> snd) (sort_key fst (List.map_filter (rotated_entry stem ext) dir)))"

definition active_generations :: "string \<Rightarrow> directory \<Rightarrow> JsonlGeneration list" where
  "active_generations log dir = (case bt_get log dir of None \<Rightarrow> [] | Some f \<Rightarrow> [generation_of True f])"

lemma discover_Inr:
  assumes "discover_jsonl_generations log dir = Inr gs" and "length dir \<le> USIZE_MAX"
  shows "gs = rotated_generations log dir @ active_generations log dir" and "distinct (map jg_identity gs)"
proof -
  obtain cur d where cur: "active_file_generation log dir = Inr cur" and gs: "gs = jd_generations d"
    and d: "(case rotation_components log of
         None \<Rightarrow> Inr \<lparr>jd_generations = cur, jd_directory_bound_reached = False\<rparr>
       | Some (stem, ext) \<Rightarrow>
           let rotated = List.map_filter (rotated_entry stem ext) (take USIZE_MAX dir) in
           if list_ex (\<lambda>e. \<not> jf_regular (snd e)) rotated then Inl ''unsafe journal generation''
           else if list_ex (\<lambda>e. 1 < jf_links (snd e)) rotated then Inl ''unsafe journal hard link''
           else let generations = map (generation_of False \<circ> snd) (sort_key fst rotated) @ cur
                in if distinct (map jg_identity generations)
                   then Inr \<lparr>jd_generations = generations, jd_directory_bound_reached = (USIZE_MAX < length dir)\<rparr>
                   else Inl ''ambiguous journal generation identity'') = Inr d"
    using assms(1) by (auto simp: discover_jsonl_generations_def discover_generations_def result_bind_eq_Inr_iff split: if_splits)
  have c: "cur = active_generations log dir"
    using cur by (auto simp: active_file_generation_def active_generations_def bt_get_def split: option.splits if_splits)
  show "gs = rotated_generations log dir @ active_generations log dir"
  proof (cases "rotation_components log")
    case (Some se)
    then show ?thesis using d assms(2)
      by (cases se) (auto simp: gs c rotated_generations_def Let_def split: if_splits)
  qed (use d in \<open>auto simp: gs c rotated_generations_def\<close>)
  show "distinct (map jg_identity gs)"
  proof (cases "rotation_components log")
    case None
    then show ?thesis using d by (auto simp: gs c active_generations_def split: option.splits)
  next
    case (Some se)
    then show ?thesis using d by (cases se) (auto simp: gs Let_def split: if_splits)
  qed
qed

lemma rotated_generations_mem:
  assumes "bt_inv dir"
  shows "g \<in> set (rotated_generations log dir) \<longleftrightarrow>
    (\<exists>name f. generation_file log dir name f \<and> name \<noteq> log \<and> g = generation_of False f)"
proof (cases "rotation_components log")
  case None
  then show ?thesis by (auto simp: rotated_generations_def generation_file_def is_generation_name_def)
next
  case (Some se)
  obtain stem ext where se: "se = (stem, ext)" by (rule prod.exhaust)
  have none: "parse_rotated_name log stem ext = None" using not_rotated_name Some se by simp
  have "g \<in> set (rotated_generations log dir)
      \<longleftrightarrow> (\<exists>name f. bt_get name dir = Some f \<and> parse_rotated_name name stem ext \<noteq> None \<and> g = generation_of False f)"
  proof -
    have "e \<in> set (List.map_filter (rotated_entry stem ext) dir)
        \<longleftrightarrow> (\<exists>name f d. bt_get name dir = Some f \<and> parse_rotated_name name stem ext = Some d \<and> e = ((fst d, snd d, name), f))" for e
      unfolding set_map_filter' rotated_entry_def mem_Collect_eq bex_simps
      by (auto simp: bt.entries_mem_iff [OF assms] Bex_def)
    note mem = this
    have "g \<in> set (rotated_generations log dir)
        \<longleftrightarrow> (\<exists>e. e \<in> set (List.map_filter (rotated_entry stem ext) dir) \<and> g = generation_of False (snd e))"
      unfolding rotated_generations_def Some se by (simp add: image_iff Bex_def)
    then show ?thesis unfolding mem by fastforce
  qed
  moreover have "generation_file log dir name f \<and> name \<noteq> log \<longleftrightarrow> bt_get name dir = Some f \<and> parse_rotated_name name stem ext \<noteq> None" for name f
    using none by (auto simp: generation_file_def is_generation_name_def Some se)
  ultimately show ?thesis by (metis (no_types, lifting))
qed

lemma active_generations_mem:
  "g \<in> set (active_generations log dir) \<longleftrightarrow> (\<exists>f. generation_file log dir log f \<and> g = generation_of True f)"
  by (cases "bt_get log dir") (auto simp: active_generations_def generation_file_def is_generation_name_def)

lemma generation_of_simps [simp]:
  "jg_identity (generation_of a f) = jf_identity f" "jg_is_active (generation_of a f) = a" "jg_bytes (generation_of a f) = jf_bytes f"
  by (simp_all add: generation_of_def)

lemma discovered_mem:
  assumes "discover_jsonl_generations log dir = Inr gs" "length dir \<le> USIZE_MAX" "bt_inv dir"
  shows "g \<in> set gs \<longleftrightarrow> (\<exists>name f. generation_file log dir name f \<and> g = generation_of (name = log) f)"
proof -
  have "g \<in> set gs \<longleftrightarrow> g \<in> set (rotated_generations log dir) \<or> g \<in> set (active_generations log dir)"
    using discover_Inr(1) [OF assms(1,2)] by simp
  then have "g \<in> set gs \<longleftrightarrow> (\<exists>name f. generation_file log dir name f \<and> name \<noteq> log \<and> g = generation_of False f)
      \<or> (\<exists>f. generation_file log dir log f \<and> g = generation_of True f)"
    unfolding rotated_generations_mem [OF assms(3)] active_generations_mem .
  also have "\<dots> \<longleftrightarrow> (\<exists>name f. generation_file log dir name f \<and> g = generation_of (name = log) f)" by (metis (full_types))
  finally show ?thesis .
qed

section \<open>What the journal and the outbox hold together\<close>

text \<open>A record can be recovered when a generation holds it as a complete line or the outbox stores it.\<close>

definition recoverable :: "string \<Rightarrow> 'w system \<Rightarrow> string \<Rightarrow> bool" where
  "recoverable log s l \<longleftrightarrow>
    (\<exists>name f. generation_file log (sy_dir s) name f \<and> l \<in> set (complete_lines (jf_bytes f)))
    \<or> (\<exists>e. stored (sy_outbox s) e = Some l)"

text \<open>The invariant: well-typed tables, a directory with unique names, and no partial record in a rotated file.\<close>

definition sound :: "codec \<Rightarrow> string \<Rightarrow> 'w system \<Rightarrow> bool" where
  "sound cd log s \<longleftrightarrow> db_ok cd (sy_outbox s) \<and> bt_inv (sy_dir s)
     \<and> (\<forall>name f. generation_file log (sy_dir s) name f \<and> name \<noteq> log \<longrightarrow> complete_tail (jf_bytes f))"

text \<open>A change of state that keeps the invariant and loses nothing; \<open>n\<close> bounds the files that it creates.\<close>

definition lossless :: "codec \<Rightarrow> string \<Rightarrow> nat \<Rightarrow> 'w system \<Rightarrow> 'w system \<Rightarrow> bool" where
  "lossless cd log n s s' \<longleftrightarrow>
    (sound cd log s \<and> length (sy_dir s) + n \<le> USIZE_MAX \<longrightarrow>
      sound cd log s' \<and> length (sy_dir s') \<le> length (sy_dir s) + n \<and> keeps (sy_outbox s) (sy_outbox s')
      \<and> (\<forall>l. recoverable log s l \<longrightarrow> recoverable log s' l))"

locale graded_state =
  fixes R :: "nat \<Rightarrow> 's \<Rightarrow> 's \<Rightarrow> bool"
  assumes R_refl: "R 0 s s" and R_trans: "R m a b \<Longrightarrow> R n b c \<Longrightarrow> R (m + n) a c"
    and R_mono: "R m a b \<Longrightarrow> m \<le> n \<Longrightarrow> R n a b"
begin

lemma along_ret: "along (R 0) (ret x)"
  by (simp add: along_def ret_def R_refl)

lemma along_throw: "along (R 0) (throw e)"
  by (simp add: along_def throw_def R_refl)

lemma along_mono: "along (R m) c \<Longrightarrow> m \<le> n \<Longrightarrow> along (R n) c"
  using R_mono unfolding along_def by blast

lemma along_bind:
  assumes "along (R m) c" and "\<And>x. along (R n) (f x)"
  shows "along (R (m + n)) (cbind c f)"
  unfolding along_def
proof (intro allI impI)
  fix s r s' assume "cbind c f s = (r, s')"
  then show "R (m + n) s s'"
  proof (cases rule: cbind_cases)
    case (failed e)
    with assms(1) have "R m s s'" by (auto simp: along_def)
    then show ?thesis by (rule R_mono) simp
  next
    case (continued x s1)
    with assms have "R m s s1" "R n s1 s'" by (auto simp: along_def)
    then show ?thesis by (rule R_trans)
  qed
qed

lemma along_bind0: "along (R 0) c \<Longrightarrow> (\<And>x. along (R n) (f x)) \<Longrightarrow> along (R n) (cbind c f)"
  using along_bind [of 0 c n f] by simp

lemma along_cfold:
  assumes "\<And>acc x. x \<in> set xs \<Longrightarrow> along (R n) (f acc x)"
  shows "along (R (length xs * n)) (cfold f acc xs)"
  using assms
proof (induction xs arbitrary: acc)
  case (Cons x xs)
  then have "along (R (n + length xs * n)) (cbind (f acc x) (\<lambda>acc'. cfold f acc' xs))" by (intro along_bind) auto
  then show ?case by simp
qed (simp add: along_ret)

lemma foldl_related:
  assumes "\<And>s x. x \<in> set xs \<Longrightarrow> R 0 s (f s x)"
  shows "R 0 s (foldl f s xs)"
  using assms
proof (induction xs arbitrary: s)
  case (Cons x xs)
  then have "R 0 s (f s x)" "R 0 (f s x) (foldl f (f s x) xs)" by simp_all
  from R_trans [OF this] show ?case by simp
qed (simp add: R_refl)

end

interpretation lossless: graded_state "lossless cd log" for cd log
proof
  fix m n :: nat and a b c :: "'a system"
  show "lossless cd log 0 a a" by (simp add: lossless_def)
  show "lossless cd log m a b \<Longrightarrow> m \<le> n \<Longrightarrow> lossless cd log n a b" by (auto simp: lossless_def)
  show "lossless cd log m a b \<Longrightarrow> lossless cd log n b c \<Longrightarrow> lossless cd log (m + n) a c"
    using keeps_trans unfolding lossless_def by fastforce
qed

section \<open>Emission\<close>

lemma complete_lines_append:
  assumes "complete_tail s"
  shows "complete_lines (s @ t) = complete_lines s @ complete_lines t" "tail_of (s @ t) = tail_of t"
proof -
  have "tail_of s = []" using assms by (simp add: complete_tail_def tail_of_empty_iff)
  then have s: "s = unlines (complete_lines s)" using lines_decompose(1) [of s] by simp
  have "s @ t = unlines (complete_lines s @ complete_lines t) @ tail_of t"
    using s lines_decompose(1) [of t] by (metis append.assoc unlines_simps(3))
  moreover have "\<forall>l \<in> set (complete_lines s @ complete_lines t). newline_free l" using lines_decompose(3) by auto
  ultimately show "complete_lines (s @ t) = complete_lines s @ complete_lines t" "tail_of (s @ t) = tail_of t"
    using lines_unique lines_decompose(2) by metis+
qed

lemma generation_name_nth:
  assumes "rotation_components log = Some (stem, ext)" "valid_date date" "j \<le> USIZE_MAX"
  shows "is_generation_name log (nth_name stem ext date j)"
  using assms parse_rotated_path [of date stem ext] parse_rotated_with_counter [of date j stem ext]
  by (auto simp: is_generation_name_def nth_name_def)

text \<open>A directory that is the journal moved on: rotated files stay as they are, and the lines of every
  generation are lines of one of the result.\<close>

definition journal_grows :: "string \<Rightarrow> directory \<Rightarrow> directory \<Rightarrow> bool" where
  "journal_grows log dir dir' \<longleftrightarrow> bt_inv dir' \<and> length dir' \<le> Suc (length dir)
     \<and> (\<forall>name f. generation_file log dir name f \<longrightarrow>
          (\<exists>name' f'. generation_file log dir' name' f' \<and> set (complete_lines (jf_bytes f)) \<subseteq> set (complete_lines (jf_bytes f'))))
     \<and> (\<forall>name f. generation_file log dir' name f \<and> name \<noteq> log \<longrightarrow>
          generation_file log dir name f \<or> (bt_get log dir = Some f \<and> complete_tail (jf_bytes f)))"

lemma journal_grows_extend:
  assumes inv: "bt_inv dir" and f: "bt_get log dir = Some f" "complete_tail (jf_bytes f)" and f': "jf_bytes f' = jf_bytes f @ bytes"
  shows "journal_grows log dir (bt_put log f' dir)"
proof -
  have get: "bt_get name (bt_put log f' dir) = (if name = log then Some f' else bt_get name dir)" for name
    by (simp add: bt_get_put inv)
  have log: "generation_file log (bt_put log f' dir) log f'" by (simp add: generation_file_def is_generation_name_def get)
  have "\<exists>name' h'. generation_file log (bt_put log f' dir) name' h' \<and> set (complete_lines (jf_bytes h)) \<subseteq> set (complete_lines (jf_bytes h'))"
    if "generation_file log dir name h" for name h
  proof (cases "name = log")
    case True
    with that f have "h = f" by (simp add: generation_file_def)
    then show ?thesis using log f f' complete_lines_append(1) [OF f(2)] by (intro exI [of _ log] exI [of _ f']) simp
  next
    case False
    with that have "generation_file log (bt_put log f' dir) name h" by (simp add: generation_file_def get)
    then show ?thesis by blast
  qed
  then show ?thesis
    using f inv by (auto simp: journal_grows_def bt_inv_put length_bt_put generation_file_def get)
qed

lemma journal_grows_create:
  assumes inv: "bt_inv dir" and f: "bt_get log dir = None"
  shows "journal_grows log dir (bt_put log f' dir)"
proof -
  have get: "bt_get name (bt_put log f' dir) = (if name = log then Some f' else bt_get name dir)" for name
    by (simp add: bt_get_put inv)
  have "generation_file log (bt_put log f' dir) name h" if "generation_file log dir name h" for name h
    using that f by (auto simp: generation_file_def get)
  then have "\<forall>name h. generation_file log dir name h \<longrightarrow>
      (\<exists>name' h'. generation_file log (bt_put log f' dir) name' h' \<and> set (complete_lines (jf_bytes h)) \<subseteq> set (complete_lines (jf_bytes h')))"
    by blast
  moreover have "generation_file log dir name h" if "generation_file log (bt_put log f' dir) name h" "name \<noteq> log" for name h
    using that by (simp add: generation_file_def get)
  ultimately show ?thesis using inv f by (simp add: journal_grows_def bt_inv_put length_bt_put)
qed

lemma length_bt_remove: "bt_inv m \<Longrightarrow> length (bt_remove k m) = length m - (if bt_get k m = None then 0 else 1)"
proof (induction m)
  case (Cons p m)
  obtain k' v where p: "p = (k', v)" by (rule prod.exhaust)
  have inv: "bt_inv m" using Cons.prems by (auto simp: bt_inv_def)
  have nk: "bt_get k' m = None" using Cons.prems by (force simp: bt_inv_def bt_get_def p map_of_eq_None_iff)
  show ?case
  proof (cases "k' = k")
    case True
    then have "bt_remove k m = m" using nk unfolding bt_remove_def by (auto simp: filter_id_conv bt_get_def map_of_eq_None_iff)
    with True p show ?thesis by (simp add: bt_remove_def bt_get_def)
  next
    case False
    have "m \<noteq> []" if "bt_get k m \<noteq> None" using that by (auto simp: bt_get_def)
    with False p Cons.IH [OF inv] show ?thesis by (cases m) (auto simp: bt_remove_def bt_get_def)
  qed
qed (simp add: bt_remove_def bt_get_def)

lemma journal_grows_move:
  assumes inv: "bt_inv dir" and f: "bt_get log dir = Some f" "complete_tail (jf_bytes f)"
    and name: "bt_get new dir = None" "is_generation_name log new"
  shows "journal_grows log dir (bt_put new f (bt_remove log dir))" "length (bt_put new f (bt_remove log dir)) = length dir"
proof -
  let ?dir = "bt_put new f (bt_remove log dir)"
  have ne: "new \<noteq> log" using f name by auto
  have get: "bt_get n ?dir = (if n = new then Some f else if n = log then None else bt_get n dir)" for n
    by (simp add: bt_get_put bt_inv_remove inv bt_get_remove)
  have "0 < length dir" using f(1) by (cases dir) (auto simp: bt_get_def)
  then show len: "length ?dir = length dir"
    using f name ne by (simp add: length_bt_put bt_inv_remove inv bt_get_remove length_bt_remove)
  have "\<exists>n' h'. generation_file log ?dir n' h' \<and> set (complete_lines (jf_bytes h)) \<subseteq> set (complete_lines (jf_bytes h'))"
    if "generation_file log dir n h" for n h
  proof (cases "n = log")
    case True
    with that f have "h = f" by (simp add: generation_file_def)
    moreover have "generation_file log ?dir new f" using name by (simp add: generation_file_def get)
    ultimately show ?thesis by blast
  next
    case False
    with that name have "generation_file log ?dir n h" by (auto simp: generation_file_def get)
    then show ?thesis by blast
  qed
  then show "journal_grows log dir ?dir"
    unfolding journal_grows_def len using inv f by (auto simp: bt_inv_put bt_inv_remove generation_file_def get split: if_splits)
qed

lemma lossless_journal:
  assumes "journal_grows log (sy_dir s) dir'" "length dir' \<le> length (sy_dir s) + n"
  shows "lossless cd log n s (s\<lparr>sy_dir := dir'\<rparr>)"
  using assms unfolding lossless_def sound_def journal_grows_def recoverable_def
  by (fastforce simp: generation_file_def)

lemma lossless_journal1: "journal_grows log (sy_dir s) dir' \<Longrightarrow> lossless cd log 1 s (s\<lparr>sy_dir := dir'\<rparr>)"
  by (rule lossless_journal) (simp_all add: journal_grows_def)

lemma lossless_outbox:
  assumes "db_ok cd (sy_outbox s) \<Longrightarrow> db_ok cd (sy_outbox s') \<and> keeps (sy_outbox s) (sy_outbox s')" and "sy_dir s' = sy_dir s"
  shows "lossless cd log 0 s s'"
proof -
  have "recoverable log s' l" if "keeps (sy_outbox s) (sy_outbox s')" "recoverable log s l" for l
    using that(2) keeps_stored [OF that(1)] assms(2) unfolding recoverable_def by metis
  then show ?thesis using assms unfolding lossless_def sound_def by simp
qed

lemma lossless_emission:
  assumes em: "emission sink date fresh bytes (sy_dir s) dir'" and ap: "appendable log (sy_dir s)"
    and cfg: "ls_path sink = log" "ls_preserve_rotated sink" and date: "valid_date date"
  shows "lossless cd log 1 s (s\<lparr>sy_dir := dir'\<rparr>)"
proof -
  have "lossless cd log 1 s (s\<lparr>sy_dir := dir'\<rparr>)" if inv: "bt_inv (sy_dir s)" and len: "length (sy_dir s) + 1 \<le> USIZE_MAX"
  proof (cases "bt_get log (sy_dir s)")
    case None
    then have "dir' = bt_put log (new_file fresh bytes) (sy_dir s)" using em cfg by (simp add: emission_def)
    then show ?thesis using journal_grows_create [OF inv None] by (simp add: lossless_journal1 del: One_nat_def)
  next
    case (Some f)
    then have f: "complete_tail (jf_bytes f)" using ap by (simp add: appendable_def)
    show ?thesis
    proof (cases "is_enabled (ls_rotation sink) \<and> max_size_bytes (ls_rotation sink) \<le> length (jf_bytes f)")
      case False
      then have "dir' = bt_put log (f\<lparr>jf_bytes := jf_bytes f @ bytes\<rparr>) (sy_dir s)"
        using em cfg Some by (auto simp: emission_def)
      moreover have "journal_grows log (sy_dir s) (bt_put log (f\<lparr>jf_bytes := jf_bytes f @ bytes\<rparr>) (sy_dir s))"
        by (rule journal_grows_extend [OF inv Some f]) simp
      ultimately show ?thesis by (simp add: lossless_journal1 del: One_nat_def)
    next
      case True
      then obtain stem ext j where j: "rotation_components log = Some (stem, ext)"
          "bt_get (nth_name stem ext date j) (sy_dir s) = None" "j \<le> length (sy_dir s)"
        and dir': "dir' = bt_put log (new_file fresh bytes) (bt_put (nth_name stem ext date j) f (bt_remove log (sy_dir s)))"
        using em cfg Some by (auto simp: emission_def)
      let ?moved = "bt_put (nth_name stem ext date j) f (bt_remove log (sy_dir s))"
      have "is_generation_name log (nth_name stem ext date j)"
        using j(1,3) len by (intro generation_name_nth date) simp_all
      note move = journal_grows_move [OF inv Some f j(2) this]
      have "lossless cd log 0 s (s\<lparr>sy_dir := ?moved\<rparr>)" using move by (intro lossless_journal) simp_all
      moreover have "nth_name stem ext date j \<noteq> log" using j(2) Some by auto
      then have "bt_get log ?moved = None" by (simp add: bt_get_put bt_inv_remove inv bt_get_remove)
      then have "journal_grows log ?moved dir'"
        unfolding dir' by (intro journal_grows_create bt_inv_put bt_inv_remove inv)
      then have "lossless cd log 1 (s\<lparr>sy_dir := ?moved\<rparr>) (s\<lparr>sy_dir := ?moved\<rparr>\<lparr>sy_dir := dir'\<rparr>)"
        by (intro lossless_journal1) simp
      ultimately show ?thesis using lossless.R_trans [of cd log 0 s "s\<lparr>sy_dir := ?moved\<rparr>" 1] by simp
    qed
  qed
  then show ?thesis by (auto simp: lossless_def sound_def)
qed

lemma emit_local_lossless:
  assumes "ls_path sink = log" "ls_preserve_rotated sink" "valid_date (mo_date mo)"
  shows "along (lossless cd log 1) (emit_local sink mo bytes)"
  unfolding along_def
proof (intro allI impI)
  fix s r s' assume run: "emit_local sink mo bytes s = (r, s')"
  obtain r0 dir' where em: "emit_jsonl_bytes sink (mo_lock mo) (mo_date mo) (mo_fresh mo) bytes (sy_dir s) = (r0, dir')"
    by (cases "emit_jsonl_bytes sink (mo_lock mo) (mo_date mo) (mo_fresh mo) bytes (sy_dir s)")
  with run have s': "s' = s\<lparr>sy_dir := dir'\<rparr>" by (simp add: emit_local_def)
  have same: "lossless cd log 1 s s'" if "dir' = sy_dir s"
    using lossless.R_mono [OF lossless.R_refl, of 1 cd log s] that by (simp add: s')
  have "lossless cd log 1 s s'" if "bt_inv (sy_dir s)"
    using that em
  proof (cases rule: emit_jsonl_bytes_cases)
    case written
    then show ?thesis unfolding s' using assms by (intro lossless_emission) simp_all
  qed (use same in simp_all)
  then show "lossless cd log 1 s s'" by (auto simp: lossless_def sound_def)
qed

section \<open>Outbox operations\<close>

lemma along_lift: "along (lossless cd log 0) (lift r)"
  by (simp add: along_def lift_def lossless.R_refl)

lemma reconcile_log_cases:
  assumes "reconcile_log env now log_path ids s = (r, s')"
  obtains (early) e where "r = Inl e" "s' = s"
  | (ran) gs r0 db' where "discover_jsonl_generations log_path (sy_dir s) = Inr gs"
      "reconcile_jsonl (env_codec env) (env_ids env) now (env_path_hash env log_path) gs ids (sy_outbox s) = (r0, db')"
      "r = emitted r0" "s' = s\<lparr>sy_outbox := db'\<rparr>"
proof -
  let ?pre = "result_bind (emitted (validate_sink_ids ids False)) (\<lambda>_.
          result_bind (emitted (read_ingest_cursor (sy_outbox s))) (\<lambda>_.
          case discover_jsonl_generations log_path (sy_dir s) of
            Inl m \<Rightarrow> Inl (storage_failure (''outbox discover JSONL generations: '' @ m)) | Inr gs \<Rightarrow> Inr gs))"
  show thesis
  proof (cases ?pre)
    case (Inl e)
    with assms have "r = Inl e" "s' = s" by (simp_all add: reconcile_log_def)
    then show thesis by (rule early)
  next
    case (Inr gs)
    then have "discover_jsonl_generations log_path (sy_dir s) = Inr gs"
      by (auto simp: result_bind_eq_Inr_iff split: sum.splits)
    moreover obtain r0 db' where run: "reconcile_jsonl (env_codec env) (env_ids env) now (env_path_hash env log_path) gs ids (sy_outbox s) = (r0, db')"
      by (rule prod.exhaust)
    ultimately show thesis by (rule ran) (use assms Inr run in \<open>simp_all add: reconcile_log_def\<close>)
  qed
qed

lemma reconcile_log_lossless: "along (lossless (env_codec env) log 0) (reconcile_log env now log_path ids)"
  unfolding along_def
proof (intro allI impI)
  fix s :: "'a system" and r s' assume "reconcile_log env now log_path ids s = (r, s')"
  then show "lossless (env_codec env) log 0 s s'"
  proof (cases rule: reconcile_log_cases)
    case (ran gs r0 db')
    have "db_ok (env_codec env) db' \<and> keeps (sy_outbox s) db'" if "db_ok (env_codec env) (sy_outbox s)"
      using reconcile.op_ok [OF that, of "env_ids env" now "env_path_hash env log_path" gs ids]
        reconcile.op_keeps [OF that, of "env_ids env" now "env_path_hash env log_path" gs ids] ran(2) by simp
    with ran(4) show ?thesis by (intro lossless_outbox) simp_all
  qed (simp add: lossless.R_refl)
qed

definition sane_clock :: "moment \<Rightarrow> bool" where
  "sane_clock mo \<longleftrightarrow> 0 \<le> mo_dispatch mo \<and> mo_dispatch mo + 86400000 \<le> I64_MAX \<and> valid_date (mo_date mo)"

lemma dispatch_system_lossless:
  assumes "0 \<le> now" "now + 86400000 \<le> I64_MAX" "distinct (ss_durable_sink_ids sinks)"
  shows "along (lossless (env_codec env) log 0) (dispatch_system env sinks now)"
  unfolding along_def
proof (intro allI impI)
  fix s r s' assume run: "dispatch_system env sinks now s = (r, s')"
  let ?d = "dispatch_durable_with_outbox (env_transport env) (env_codec env) now (map sl_entry (ss_entries sinks))
        (ss_durable_sink_ids sinks) (sy_world s) (sy_outbox s)"
  have "s' = s\<lparr>sy_world := fst (snd ?d), sy_outbox := snd (snd ?d)\<rparr>"
    using run by (auto simp: dispatch_system_def split: prod.splits)
  moreover have "db_ok (env_codec env) (snd (snd ?d)) \<and> keeps (sy_outbox s) (snd (snd ?d))" if "db_ok (env_codec env) (sy_outbox s)"
    using dispatch.op_ok [OF that, of now "ss_durable_sink_ids sinks" "env_transport env" "map sl_entry (ss_entries sinks)" "sy_world s"]
      dispatch.op_keeps [OF that, of now "ss_durable_sink_ids sinks" "env_transport env" "map sl_entry (ss_entries sinks)" "sy_world s"]
      assms by simp
  ultimately show "lossless (env_codec env) log 0 s s'" by (intro lossless_outbox) simp_all
qed

lemma check_capacity_log_lossless: "along (lossless cd log 0) (check_capacity_log env log_path ps limits)"
  by (simp add: along_def check_capacity_log_def lossless.R_refl)

section \<open>Pruning\<close>

lemma keep_generations_get:
  assumes "bt_inv dir"
  shows "bt_get name (keep_generations log gs dir)
    = (case bt_get name dir of None \<Rightarrow> None
       | Some f \<Rightarrow> if is_generation_name log name \<longrightarrow> jf_identity f \<in> set (map jg_identity gs) then Some f else None)"
  using assms
proof (induction dir)
  case (Cons p dir)
  obtain k f where p: "p = (k, f)" by (rule prod.exhaust)
  have "bt_inv dir" "bt_get k dir = None"
    using Cons.prems by (auto simp: bt_inv_def bt_get_def p map_of_eq_None_iff)
  with Cons.IH p show ?case by (auto simp: keep_generations_def bt_get_def split: option.splits)
qed (simp add: keep_generations_def bt_get_def)

text \<open>Removing generations whose records are all stored loses nothing, whatever happens to the rows of
  generations.\<close>

lemma covered_removal_lossless:
  assumes Inr: "discover_jsonl_generations log (sy_dir s) = Inr gs" and same: "same_tables (sy_outbox s) db'"
    and cov: "\<And>g. g \<in> set gs - set gs' \<Longrightarrow> covered (sy_outbox s) g"
  shows "lossless cd log 0 s (s\<lparr>sy_dir := keep_generations log gs' (sy_dir s), sy_outbox := db'\<rparr>)"
proof -
  define t where "t = s\<lparr>sy_dir := keep_generations log gs' (sy_dir s), sy_outbox := db'\<rparr>"
  have "lossless cd log 0 s t"
    unfolding lossless_def
  proof (intro impI conjI allI)
    assume pre: "sound cd log s \<and> length (sy_dir s) + 0 \<le> USIZE_MAX"
    then have inv: "bt_inv (sy_dir s)" and ok: "db_ok cd (sy_outbox s)"
      and comp: "\<And>name f. generation_file log (sy_dir s) name f \<Longrightarrow> name \<noteq> log \<Longrightarrow> complete_tail (jf_bytes f)"
      by (auto simp: sound_def)
    note get = keep_generations_get [OF inv, of _ log gs']
    have gfile: "generation_file log (sy_dir t) name f \<longleftrightarrow> generation_file log (sy_dir s) name f \<and> jf_identity f \<in> set (map jg_identity gs')" for name f
      by (auto simp: t_def generation_file_def get split: option.splits if_splits)
    have "bt_inv (keep_generations log gs' (sy_dir s))" using inv by (simp add: keep_generations_def bt_inv_filter)
    moreover have "db_ok cd db'" using same_tables_ok [OF same] ok by simp
    ultimately show "sound cd log t" using comp gfile unfolding sound_def by (simp add: t_def) blast
    show "length (sy_dir t) \<le> length (sy_dir s) + 0" by (simp add: t_def keep_generations_def)
    show "keeps (sy_outbox s) (sy_outbox t)" using same_tables_keeps [OF same] by (simp add: t_def)
    fix l assume "recoverable log s l"
    then consider (gen) name f where "generation_file log (sy_dir s) name f" "l \<in> set (complete_lines (jf_bytes f))"
      | (outbox) e where "stored (sy_outbox s) e = Some l" by (auto simp: recoverable_def)
    then show "recoverable log t l"
    proof cases
      case (gen name f)
      let ?g = "generation_of (name = log) f"
      have g: "?g \<in> set gs" using discovered_mem [OF Inr _ inv] pre gen(1) by auto
      show ?thesis
      proof (cases "jf_identity f \<in> set (map jg_identity gs')")
        case True
        with gen gfile show ?thesis unfolding recoverable_def by blast
      next
        case False
        then have "?g \<notin> set gs'" by force
        with g cov have "covered (sy_outbox s) ?g" by simp
        with gen(2) have "\<exists>e. stored (sy_outbox s) e = Some l" by (simp add: covered_def)
        then show ?thesis using same_tables_stored [OF same] by (simp add: recoverable_def t_def)
      qed
    next
      case (outbox e)
      then show ?thesis using same_tables_stored [OF same] by (auto simp: recoverable_def t_def)
    qed
  qed
  then show ?thesis by (simp add: t_def)
qed

lemma prune_log_lossless: "lossless (env_codec env) log 0 s (prune_log env now log keep s)"
proof (cases "discover_jsonl_generations log (sy_dir s)")
  case (Inl m)
  then show ?thesis by (simp add: prune_log_def lossless.R_refl)
next
  case (Inr gs)
  obtain report gs' db' where run: "prune_eligible_rotations (env_codec env) now (env_path_hash env log) keep (gs, sy_outbox s)
      = (report, gs', db')" by (metis surj_pair)
  have "same_tables (sy_outbox s) db'" "\<And>g. g \<in> set gs - set gs' \<Longrightarrow> covered (sy_outbox s) g"
    using prune_rotations_safe [OF run] by (simp_all add: prune_safe_def)
  from covered_removal_lossless [OF Inr this] show ?thesis by (simp add: prune_log_def Inr run)
qed

lemma interrupted_prune_lossless:
  assumes "discover_jsonl_generations log (sy_dir s) = Inr gs"
    and run: "prune_eligible_rotations (env_codec env) now ph keep (gs, sy_outbox s) = (report, gs', db')"
    and "set gs' \<subseteq> set gs''" "same_tables (sy_outbox s) db''"
  shows "lossless (env_codec env) log 0 s (s\<lparr>sy_dir := keep_generations log gs'' (sy_dir s), sy_outbox := db''\<rparr>)"
proof (rule covered_removal_lossless [OF assms(1,4)])
  fix g assume "g \<in> set gs - set gs''"
  then have "g \<in> set gs - set gs'" using assms(3) by blast
  then show "covered (sy_outbox s) g" using prune_rotations_safe [OF run] by (simp add: prune_safe_def)
qed

section \<open>Whole operations\<close>

text \<open>The configuration that durable delivery runs with: one canonical journal, written by the local sink
  with rotated files preserved, and remote sinks otherwise.\<close>

definition journal_config :: "SinkSet \<Rightarrow> string \<Rightarrow> bool" where
  "journal_config sinks log \<longleftrightarrow> has_persistent_replay sinks \<and> distinct (ss_durable_sink_ids sinks) \<and> local_persistence_paths sinks = [log]
     \<and> (\<exists>slot sink. canonical_slots sinks = [slot] \<and> sl_local slot = Some sink \<and> sl_persistence_path slot = Some log
          \<and> ls_path sink = log \<and> ls_preserve_rotated sink)
     \<and> (\<forall>slot \<in> set (ss_entries sinks). sl_role slot \<noteq> CanonicalFirstWrite \<longrightarrow> sl_local slot = None)"

lemma prune_durable_rotations_lossless:
  assumes "journal_config sinks log"
  shows "along (lossless (env_codec env) log 0) (prune_durable_rotations env sinks ho now)"
proof -
  have "lossless (env_codec env) log 0 s (foldl (prune_slot env now) s (canonical_slots sinks))" for s
    using assms prune_log_lossless
    by (intro lossless.foldl_related) (auto simp: journal_config_def prune_slot_def lossless.R_refl split: option.splits)
  then show ?thesis by (auto simp: along_def prune_durable_rotations_def lossless.R_refl split: sum.splits if_splits)
qed

lemma admit_batch_lossless:
  assumes "journal_config sinks log" "sane_clock mo"
  shows "along (lossless (env_codec env) log 1) (admit_batch env sinks mo log_path batch)"
proof -
  let ?L = "lossless (env_codec env) log"
  obtain slot sink where slot: "canonical_slots sinks = [slot]" "sl_local slot = Some sink" "ls_path sink = log" "ls_preserve_rotated sink"
    using assms(1) by (auto simp: journal_config_def)
  have "along (?L 1) (emit_canonical_jsonl_bytes mo (ba_jsonl_bytes batch) slot)"
    unfolding emit_canonical_jsonl_bytes_def slot(2) option.case
    by (rule emit_local_lossless [OF slot(3,4)]) (use assms(2) in \<open>simp add: sane_clock_def\<close>)
  then have "along (?L (length (canonical_slots sinks) * 1)) (cfold (\<lambda>_. emit_canonical_jsonl_bytes mo (ba_jsonl_bytes batch)) () (canonical_slots sinks))"
    by (intro lossless.along_cfold) (simp add: slot)
  then have "along (?L (1 + 0)) (cbind (cfold (\<lambda>_. emit_canonical_jsonl_bytes mo (ba_jsonl_bytes batch)) () (canonical_slots sinks)) (\<lambda>_.
      cbind (reconcile_log env (mo_reconcile_again mo) log_path (ss_durable_sink_ids sinks)) (\<lambda>_. ret ())))"
    by (intro lossless.along_bind lossless.along_bind0 [OF reconcile_log_lossless] lossless.along_ret) (simp add: slot)
  then show ?thesis
    unfolding admit_batch_def by (intro lossless.along_bind0 [OF check_capacity_log_lossless]) simp
qed

lemma persist_lossless:
  assumes cfg: "journal_config sinks log" and mo: "sane_clock mo"
  shows "along (lossless (env_codec env) log 1) (persist_for_durable_replay_with_failures_for_platform env sinks ho mo events)"
proof -
  let ?L = "lossless (env_codec env) log"
  note intros = lossless.along_bind0 [OF along_lift] lossless.along_bind0 [OF reconcile_log_lossless] lossless.along_ret
    lossless.along_bind0 [OF prune_durable_rotations_lossless [OF cfg]]
  have d: "along (?L 0) (if configured sinks then dispatch_system env sinks (mo_dispatch mo) else ret [])"
    using cfg mo by (auto intro: dispatch_system_lossless lossless.along_ret simp: journal_config_def sane_clock_def)
  have a: "along (?L 1) (if events = [] then ret () else admit_batch env sinks mo log batch)" for batch
    by (cases "events = []") (simp_all add: admit_batch_lossless [OF cfg mo] lossless.along_mono [OF lossless.along_ret] del: One_nat_def)
  have tail: "along (?L 0) (cbind (lift (ho_verify ho)) (\<lambda>_. cbind (prune_durable_rotations env sinks ho (mo_prune mo)) (\<lambda>_. ret failures)))" for failures
    by (intro intros)
  have mid: "along (?L (1 + 0)) (cbind (if events = [] then ret () else admit_batch env sinks mo log batch) (\<lambda>_.
      cbind (lift (ho_verify ho)) (\<lambda>_. cbind (prune_durable_rotations env sinks ho (mo_prune mo)) (\<lambda>_. ret failures))))" for batch failures
    by (intro lossless.along_bind a tail)
  have replay: "has_persistent_replay sinks = True" and paths: "local_persistence_paths sinks = [log]"
    using cfg by (simp_all add: journal_config_def)
  show ?thesis
    unfolding persist_for_durable_replay_with_failures_for_platform_def replay paths list.case not_True_eq_False if_False
    by (intro intros lossless.along_bind0 [OF d] mid [unfolded add_0_right])
qed

lemma dispatch_durable_lossless:
  assumes "journal_config sinks log" "sane_clock mo"
  shows "along (lossless (env_codec env) log 0) (dispatch_durable_with_clock env sinks ho mo)"
proof -
  have "along (lossless (env_codec env) log 0) (dispatch_system env sinks (mo_dispatch mo))"
    using assms by (intro dispatch_system_lossless) (auto simp: journal_config_def sane_clock_def)
  then show ?thesis
    unfolding dispatch_durable_with_clock_def
    by (auto intro!: lossless.along_ret lossless.along_bind0 [OF along_lift] lossless.along_bind0)
qed

lemma deliver_durable_lossless:
  assumes "journal_config sinks log" "sane_clock mo"
  shows "along (lossless (env_codec env) log 0) (deliver_durable env sinks ho mo)"
  unfolding deliver_durable_def
  by (intro lossless.along_bind0 [OF along_lift] lossless.along_bind0 [OF dispatch_durable_lossless [OF assms]]
      lossless.along_bind0 [OF prune_durable_rotations_lossless [OF assms(1)]] lossless.along_ret)

lemma sink_emit_lossless: "sl_local slot = None \<Longrightarrow> along (lossless cd log 0) (sink_emit env mo slot events)"
  by (auto simp: along_def sink_emit_def intro!: lossless_outbox split: prod.splits)

lemma emit_reporting_lossless: "sl_local slot = None \<Longrightarrow> along (lossless cd log 0) (emit_reporting env mo events fs slot)"
  using sink_emit_lossless [of slot cd log env mo events]
  by (auto simp: along_def emit_reporting_def split: prod.splits sum.splits)

lemma emit_warning_lossless: "sl_local slot = None \<Longrightarrow> along (lossless cd log 0) (emit_warning env mo events b slot)"
  using sink_emit_lossless [of slot cd log env mo events]
  by (auto simp: along_def emit_warning_def split: prod.splits sum.splits)

lemma deliver_best_effort_lossless:
  assumes "journal_config sinks log"
  shows "along (lossless cd log 0) (deliver_best_effort env sinks mo events)"
proof -
  have none: "sl_local slot = None" if "slot \<in> set (ss_entries sinks)" "sl_role slot \<noteq> CanonicalFirstWrite" for slot
    using assms that by (simp add: journal_config_def)
  have 1: "filter (\<lambda>slot. sl_role slot = CanonicalFirstWrite \<and> \<not> has_persistent_replay sinks) (ss_entries sinks) = []"
    using assms by (simp add: journal_config_def)
  have "along (lossless cd log (length xs * 0)) (cfold (emit_reporting env mo events) [] xs)"
    if "\<forall>slot \<in> set xs. sl_local slot = None" for xs
    using that by (intro lossless.along_cfold emit_reporting_lossless) simp
  then show ?thesis
    unfolding deliver_best_effort_def 1 by (auto intro!: lossless.along_bind0 lossless.along_ret simp: none)
qed

lemma deliver_lossless:
  assumes cfg: "journal_config sinks log" and mo: "sane_clock mo" "sane_clock mo'"
  shows "along (lossless (env_codec env) log 1) (deliver env sinks ho mo ho' mo' events)"
proof -
  have "along (lossless (env_codec env) log (1 + 0)) (deliver env sinks ho mo ho' mo' events)"
  proof -
    have replay: "has_persistent_replay sinks" using cfg by (simp add: journal_config_def)
    show ?thesis
      unfolding deliver_def if_P [OF replay]
      by (rule lossless.along_bind [OF persist_lossless [OF cfg mo(1)]])
        (intro lossless.along_bind0 [OF deliver_durable_lossless [OF cfg mo(2)]]
          lossless.along_bind0 [OF deliver_best_effort_lossless [OF cfg]] lossless.along_ret)
  qed
  then show ?thesis by simp
qed

lemma deliver_alerts_lossless:
  assumes "journal_config sinks log"
  shows "along (lossless cd log 0) (deliver_alerts env sinks ho mo events skip)"
proof -
  have none: "sl_local slot = None" if "slot \<in> set (ss_entries sinks)" "sl_role slot \<noteq> CanonicalFirstWrite" for slot
    using assms that by (simp add: journal_config_def)
  have 1: "filter (\<lambda>slot. sl_role slot = CanonicalFirstWrite \<and> \<not> has_persistent_replay sinks) xs = []" for xs
    using assms by (simp add: journal_config_def)
  have fold: "along (lossless cd log 0) (cfold (emit_warning env mo events) b xs)"
    if "\<forall>slot \<in> set xs. sl_local slot = None" for b xs
  proof -
    have "along (lossless cd log (length xs * 0)) (cfold (emit_warning env mo events) b xs)"
      by (intro lossless.along_cfold emit_warning_lossless) (use that in simp)
    then show ?thesis by simp
  qed
  have body: "along (lossless cd log 0) (cbind (cfold f a []) (\<lambda>accepted.
          cbind (cfold (emit_warning env mo events) accepted xs) (\<lambda>accepted'. cfold (emit_warning env mo events) accepted' ys)))"
    if "\<forall>slot \<in> set xs. sl_local slot = None" "\<forall>slot \<in> set ys. sl_local slot = None" for f a xs ys
    unfolding cfold.simps by (intro lossless.along_bind0 [OF lossless.along_ret] lossless.along_bind0 fold that)
  show ?thesis
    unfolding along_def
  proof (intro allI impI)
    fix s r s' assume run: "deliver_alerts env sinks ho mo events skip s = (r, s')"
    show "lossless cd log 0 s s'"
    proof (cases "durable_alerts_admitted env sinks ho events (sy_outbox s)")
      case True
      then show ?thesis
        using run unfolding deliver_alerts_def Let_def 1
        by (intro body [unfolded along_def, rule_format]) (auto intro: none)
    next
      case False
      with run show ?thesis by (simp add: deliver_alerts_def lossless.R_refl)
    qed
  qed
qed

section \<open>Runs with crashes\<close>

text \<open>The steps of a running system. A delivery is one step; so are its durable parts, which are the points
  where a crash can leave it: a committed reconciliation, a dispatch stopped after any row (by a transport
  that reports a storage error), a rotation before the append, an append of which only the first bytes were
  written, and a prune, whole or stopped at any point: some of its files are deleted, and of the tables only
  the rows of generations, with their lifecycle, may have changed.\<close>

inductive durable_step :: "'w env \<Rightarrow> SinkSet \<Rightarrow> string \<Rightarrow> 'w system \<Rightarrow> 'w system \<Rightarrow> bool" for env sinks log where
  delivered: "\<lbrakk>deliver env sinks ho mo ho' mo' events s = (r, s'); sane_clock mo; sane_clock mo'; length (sy_dir s) < USIZE_MAX\<rbrakk>
    \<Longrightarrow> durable_step env sinks log s s'"
| alerted: "\<lbrakk>deliver_alerts env sinks ho mo events skip s = (ra, s'); length (sy_dir s) < USIZE_MAX\<rbrakk> \<Longrightarrow> durable_step env sinks log s s'"
| reconciled: "\<lbrakk>reconcile_log env now log (ss_durable_sink_ids sinks) s = (rr, s'); length (sy_dir s) < USIZE_MAX\<rbrakk>
    \<Longrightarrow> durable_step env sinks log s s'"
| dispatched: "\<lbrakk>dispatch_system (env\<lparr>env_transport := tr\<rparr>) sinks now s = (rd, s'); 0 \<le> now; now + 86400000 \<le> I64_MAX;
     length (sy_dir s) < USIZE_MAX\<rbrakk> \<Longrightarrow> durable_step env sinks log s s'"
| pruned: "\<lbrakk>s' = prune_log env now log keep s; length (sy_dir s) < USIZE_MAX\<rbrakk> \<Longrightarrow> durable_step env sinks log s s'"
| prune_interrupted: "\<lbrakk>discover_jsonl_generations log (sy_dir s) = Inr gs;
     prune_eligible_rotations (env_codec env) now (env_path_hash env log) keep (gs, sy_outbox s) = (report, gs', db');
     set gs' \<subseteq> set gs''; same_tables (sy_outbox s) db'';
     s' = s\<lparr>sy_dir := keep_generations log gs'' (sy_dir s), sy_outbox := db''\<rparr>; length (sy_dir s) < USIZE_MAX\<rbrakk>
    \<Longrightarrow> durable_step env sinks log s s'"
| released: "\<lbrakk>s' = s\<lparr>sy_outbox := snd (release_blocked_for_sink raw now (sy_outbox s))\<rparr>; length (sy_dir s) < USIZE_MAX\<rbrakk>
    \<Longrightarrow> durable_step env sinks log s s'"
| rotated: "\<lbrakk>bt_get log (sy_dir s) = Some f; complete_tail (jf_bytes f); bt_get name (sy_dir s) = None; is_generation_name log name;
     s' = s\<lparr>sy_dir := bt_put name f (bt_remove log (sy_dir s))\<rparr>; length (sy_dir s) < USIZE_MAX\<rbrakk> \<Longrightarrow> durable_step env sinks log s s'"
| appended: "\<lbrakk>bt_get log (sy_dir s) = Some f; complete_tail (jf_bytes f);
     s' = s\<lparr>sy_dir := bt_put log (f\<lparr>jf_bytes := jf_bytes f @ written\<rparr>) (sy_dir s)\<rparr>; length (sy_dir s) < USIZE_MAX\<rbrakk>
    \<Longrightarrow> durable_step env sinks log s s'"
| created: "\<lbrakk>bt_get log (sy_dir s) = None; s' = s\<lparr>sy_dir := bt_put log (new_file fresh written) (sy_dir s)\<rparr>; length (sy_dir s) < USIZE_MAX\<rbrakk>
    \<Longrightarrow> durable_step env sinks log s s'"

lemma durable_step_lossless:
  assumes "durable_step env sinks log s s'" and cfg: "journal_config sinks log"
  shows "length (sy_dir s) < USIZE_MAX \<and> lossless (env_codec env) log 1 s s'"
proof -
  have up: "lossless (env_codec env) log 1 s s'" if "lossless (env_codec env) log 0 s s'" for s'
    using that by (rule lossless.R_mono) simp
  have ids: "distinct (ss_durable_sink_ids sinks)" using cfg by (simp add: journal_config_def)
  have inv: "lossless (env_codec env) log 1 s s'" if "bt_inv (sy_dir s) \<Longrightarrow> lossless (env_codec env) log 1 s s'" for s'
    using that by (auto simp: lossless_def sound_def)
  from assms(1) show ?thesis
  proof cases
    case (delivered ho mo ho' mo' events r)
    then show ?thesis using deliver_lossless [OF cfg] unfolding along_def by blast
  next
    case (alerted ho mo events skip ra)
    then show ?thesis using deliver_alerts_lossless [OF cfg] up unfolding along_def by blast
  next
    case (reconciled now rr)
    then show ?thesis using reconcile_log_lossless up unfolding along_def by blast
  next
    case (dispatched tr now rd)
    then show ?thesis
      using dispatch_system_lossless [OF dispatched(2,3) ids, of "env\<lparr>env_transport := tr\<rparr>" log] up unfolding along_def by auto
  next
    case (pruned now keep)
    then show ?thesis using prune_log_lossless up by blast
  next
    case (prune_interrupted gs now keep report gs' db' gs'' db'')
    show ?thesis unfolding prune_interrupted(5)
      using interrupted_prune_lossless [OF prune_interrupted(1-4)] up prune_interrupted(6) by blast
  next
    case (released raw now)
    then have "lossless (env_codec env) log 0 s s'"
      using release.op_ok release.op_keeps by (intro lossless_outbox) auto
    with released up show ?thesis by blast
  next
    case (rotated f name)
    have "lossless (env_codec env) log 0 s s'" if "bt_inv (sy_dir s)"
      unfolding rotated(5) using journal_grows_move [OF that rotated(1-4)] by (intro lossless_journal) simp_all
    with inv up rotated(6) show ?thesis by blast
  next
    case (appended f written)
    have "lossless (env_codec env) log 1 s s'" if "bt_inv (sy_dir s)"
      unfolding appended(3) by (intro lossless_journal1 journal_grows_extend [OF that appended(1,2)]) simp
    with inv appended(4) show ?thesis by blast
  next
    case (created fresh written)
    have "lossless (env_codec env) log 1 s s'" if "bt_inv (sy_dir s)"
      unfolding created(2) by (intro lossless_journal1 journal_grows_create [OF that created(1)])
    with inv created(3) show ?thesis by blast
  qed
qed

lemma durable_run_lossless:
  assumes "(durable_step env sinks log)\<^sup>*\<^sup>* s s'" and cfg: "journal_config sinks log" and "sound (env_codec env) log s"
  shows "sound (env_codec env) log s' \<and> keeps (sy_outbox s) (sy_outbox s') \<and> (\<forall>l. recoverable log s l \<longrightarrow> recoverable log s' l)"
  using assms(1)
proof (induction rule: rtranclp_induct)
  case base
  with assms(3) show ?case by simp
next
  case (step t u)
  from durable_step_lossless [OF step(2) cfg] step(3) have "sound (env_codec env) log u \<and> keeps (sy_outbox t) (sy_outbox u)
      \<and> (\<forall>l. recoverable log t l \<longrightarrow> recoverable log u l)"
    by (auto simp: lossless_def)
  with step(3) keeps_trans show ?case by blast
qed

text \<open>C1. No record is lost, whatever the order of deliveries, reconciliations, dispatches, rotations, prunings
  and crashes in between, torn writes included: a record that a generation of the journal holds as a complete
  line, or that the outbox stores, stays in one of the two; stored bytes never change; and a delivery that is
  acknowledged or dead keeps its row.\<close>

theorem durable_runs_lose_nothing:
  assumes "journal_config sinks log" and "sound (env_codec env) log s" and "(durable_step env sinks log)\<^sup>*\<^sup>* s s'"
  shows "sound (env_codec env) log s'
    \<and> (\<forall>l. recoverable log s l \<longrightarrow> recoverable log s' l)
    \<and> (\<forall>e b. stored (sy_outbox s) e = Some b \<longrightarrow> stored (sy_outbox s') e = Some b)
    \<and> (\<forall>k c. bt_get k (db_deliveries (sy_outbox s)) = Some c \<and> col_state c \<in> {''acked'', ''dead''}
         \<longrightarrow> bt_get k (db_deliveries (sy_outbox s')) = Some c)"
proof -
  note run = durable_run_lossless [OF assms(3,1,2)]
  have "bt_get k (db_deliveries (sy_outbox s')) = Some c"
    if "bt_get k (db_deliveries (sy_outbox s)) = Some c" "col_state c \<in> {''acked'', ''dead''}" for k c
  proof -
    from run that(1) obtain c' where "bt_get k (db_deliveries (sy_outbox s')) = Some c'" "delivery_step\<^sup>*\<^sup>* c c'"
      unfolding keeps_def by blast
    with terminal_step that(2) show ?thesis by blast
  qed
  with run keeps_stored show ?thesis by blast
qed

section \<open>Dispatch leaves the cursor alone\<close>

lemma record_delivery_cursor: "db_cursor (snd (record_delivery_at e s u db)) = db_cursor db"
  by (auto simp: record_delivery_at_def in_transaction_def record_transaction_def Let_def split: option.splits sum.splits if_splits)

lemma record_outcome_cursor: "record_outcome e sk u new (w, db, fs) = (r, w', db', fs') \<Longrightarrow> db_cursor db' = db_cursor db"
  using record_delivery_cursor [of e sk u db] by (auto simp: record_outcome_def split: prod.splits sum.splits)

lemma dispatch_one_cursor: "dispatch_one tr cd now entry sk (w, db, fs) = (r, w', db', fs') \<Longrightarrow> db_cursor db' = db_cursor db"
  by (auto simp: dispatch_one_def Let_def dest: record_outcome_cursor split: sum.splits option.splits if_splits prod.splits)

lemma dispatch_rows_cursor:
  "dispatch_rows tr cd now entry sk started n (w, db, fs) = (r, w', db', fs') \<Longrightarrow> db_cursor db' = db_cursor db"
proof (induction n arbitrary: w db fs)
  case (Suc n)
  obtain r1 w1 db1 fs1 where one: "dispatch_one tr cd now entry sk (w, db, fs) = (r1, w1, db1, fs1)" by (metis surj_pair)
  note c = dispatch_one_cursor [OF one]
  show ?case
    using Suc.prems Suc.IH c by (auto simp: one split: if_splits sum.splits bool.splits)
qed simp

lemma dispatch_sinks_cursor:
  "dispatch_sinks tr cd now entries ids (w, db, fs) = (r, w', db', fs') \<Longrightarrow> db_cursor db' = db_cursor db"
proof (induction ids arbitrary: w db fs)
  case (Cons i ids)
  obtain r1 w1 db1 fs1 where one: "dispatch_sink tr cd now entries i (w, db, fs) = (r1, w1, db1, fs1)" by (metis surj_pair)
  then have c: "db_cursor db1 = db_cursor db"
    by (auto simp: dispatch_sink_def dest: dispatch_rows_cursor split: option.splits)
  show ?case using Cons.prems Cons.IH c by (cases r1) (auto simp: one)
qed simp

lemma dispatch_system_cursor:
  assumes "dispatch_system env sinks now s = (r, s')"
  shows "db_cursor (sy_outbox s') = db_cursor (sy_outbox s)" "sy_dir s' = sy_dir s"
  using assms dispatch_sinks_cursor
  by (auto simp: dispatch_system_def dispatch_durable_with_outbox_def split: prod.splits sum.splits)

section \<open>Batches\<close>

lemma durable_batch_Inr:
  assumes "event3_durable_batch env events = Inr batch"
  shows "\<exists>ps. list_all2 (\<lambda>e p. canonical_payload env e = Inr p) events ps \<and> ba_payloads batch = ps
    \<and> ba_jsonl_bytes batch = unlines (map pl_bytes ps)"
proof -
  have "\<exists>ps. list_all2 (\<lambda>e p. canonical_payload env e = Inr p) events ps \<and> ba_payloads b' = ba_payloads b @ ps
      \<and> ba_jsonl_bytes b' = ba_jsonl_bytes b @ unlines (map pl_bytes ps)"
    if "try_fold (\<lambda>b e. result_bind (canonical_payload env e) (\<lambda>p.
      Inr \<lparr>ba_payloads = ba_payloads b @ [p], ba_jsonl_bytes = ba_jsonl_bytes b @ pl_bytes p @ [newline]\<rparr>)) b events = Inr b'" for b b'
    using that
  proof (induction events arbitrary: b)
    case (Cons e events)
    from Cons.prems obtain p where p: "canonical_payload env e = Inr p"
      and rest: "try_fold (\<lambda>b e. result_bind (canonical_payload env e) (\<lambda>p.
        Inr \<lparr>ba_payloads = ba_payloads b @ [p], ba_jsonl_bytes = ba_jsonl_bytes b @ pl_bytes p @ [newline]\<rparr>))
        \<lparr>ba_payloads = ba_payloads b @ [p], ba_jsonl_bytes = ba_jsonl_bytes b @ pl_bytes p @ [newline]\<rparr> events = Inr b'"
      by (auto simp: result_bind_eq_Inr_iff)
    from Cons.IH [OF rest] obtain ps where "list_all2 (\<lambda>e p. canonical_payload env e = Inr p) events ps"
      "ba_payloads b' = (ba_payloads b @ [p]) @ ps" "ba_jsonl_bytes b' = (ba_jsonl_bytes b @ pl_bytes p @ [newline]) @ unlines (map pl_bytes ps)"
      by auto
    with p show ?case by (intro exI [of _ "p # ps"]) simp
  qed simp
  from this [OF assms [unfolded event3_durable_batch_def]] show ?thesis by auto
qed

lemma canonical_payload_Inr:
  assumes "canonical_payload env e = Inr p"
  shows "env_serialize env e = Inr (pl_bytes p)" "pl_event_id p = ev_event_id e" "payload_ok (env_codec env) p"
  using assms by (auto simp: canonical_payload_def payload_ok_def result_bind_eq_Inr_iff split: sum.splits)

section \<open>What is read after an append\<close>

lemma readable_last:
  assumes "\<forall>h \<in> set gs. complete_file h"
  shows "map (Pair g) (unread_records g (if gs = [] then offset else 0)) = drop (length (readable offset gs)) (readable offset (gs @ [g]))"
    "set (map (Pair g) (unread_records g (if gs = [] then offset else 0))) \<subseteq> set (readable offset (gs @ [g]))"
proof -
  have *: "readable offset (gs @ [g]) = readable offset gs @ map (Pair g) (unread_records g (if gs = [] then offset else 0))"
    using assms by (induction gs arbitrary: offset) (auto simp: complete_file_drop)
  show "map (Pair g) (unread_records g (if gs = [] then offset else 0)) = drop (length (readable offset gs)) (readable offset (gs @ [g]))"
    unfolding * by simp
  show "set (map (Pair g) (unread_records g (if gs = [] then offset else 0))) \<subseteq> set (readable offset (gs @ [g]))"
    unfolding * by simp
qed

lemma appended_lines_unread:
  assumes "complete_tail bytes" "offset \<le> length bytes" "jg_bytes g = bytes @ unlines ls" "\<forall>l \<in> set ls. newline_free l" "l \<in> set ls"
  shows "\<exists>n. (n, l) \<in> set (unread_records g offset)"
proof -
  have "drop offset (jg_bytes g) = drop offset bytes @ unlines ls" using assms(2,3) by simp
  moreover have "complete_tail (drop offset bytes)" using assms(1) by (cases "offset < length bytes") (auto simp: complete_tail_def)
  moreover have "complete_lines (unlines ls) = ls" using lines_unique(1) [OF assms(4), of "[]"] by (simp add: newline_free_def)
  ultimately have "l \<in> set (complete_lines (drop offset (jg_bytes g)))" using assms(5) by (simp add: complete_lines_append)
  then have "l \<in> set (map snd (unread_records g offset))" by (simp add: unread_records_def)
  then show ?thesis by auto
qed

text \<open>The cursor lies inside one of the generations.\<close>

definition cursor_within :: "JsonlGeneration list \<Rightarrow> outbox_db \<Rightarrow> bool" where
  "cursor_within gs db \<longleftrightarrow> (\<forall>c. db_cursor db = Some c \<longrightarrow>
    (\<exists>g \<in> set gs. jg_identity g = ic_generation_id c \<and> ic_byte_offset c \<le> length (jg_bytes g)))"

lemma reconcile_cursor_within:
  assumes r: "reconcile_jsonl cd ic now ph gs raw db = (Inr rr, db')" and ok: "db_ok cd db"
    and comp: "\<And>g. g \<in> set (butlast gs) \<Longrightarrow> complete_file g"
  shows "cursor_within gs db'"
proof (cases "gs = []")
  case True
  with reconcile_jsonl_empty(3,4) [of cd ic now ph raw db rr db'] r ok show ?thesis
    by (simp add: cursor_within_def same_tables_def)
next
  case False
  then obtain hs g where gs: "gs = hs @ [g]" by (metis rev_exhaust)
  show ?thesis
  proof (rule reconcile_jsonl_Inr [OF r ok False])
    fix ss ns i offset ps st
    assume st: "starts cd gs db i offset"
      and pl: "plan_loop cd i offset i (drop i gs) \<lparr>ps_payloads = [], ps_bytes = 0, ps_final_index = i, ps_final_offset = offset,
         ps_advance = (db_cursor db = None)\<rparr> = Inr st"
      and c: "if ps_advance st then \<exists>c. db_cursor db' = Some c \<and> make_cursor cd ns ph (gs ! ps_final_index st) (ps_final_offset st) = Inr c
         else db_cursor db' = db_cursor db"
    have i: "i \<le> length hs" using st by (simp add: starts_def gs)
    then have pl': "plan_loop cd i offset i (drop i hs @ [g]) \<lparr>ps_payloads = [], ps_bytes = 0, ps_final_index = i, ps_final_offset = offset,
         ps_advance = (db_cursor db = None)\<rparr> = Inr st" using pl by (simp add: gs)
    have comp': "\<forall>h \<in> set (drop i hs). complete_file h" using comp gs by (auto dest: in_set_dropD)
    note e = plan_loop_end [OF pl' comp' order.refl]
    show "cursor_within gs db'"
    proof (cases "ps_advance st")
      case True
      then obtain c' where c': "db_cursor db' = Some c'" "make_cursor cd ns ph (gs ! ps_final_index st) (ps_final_offset st) = Inr c'"
        using c by auto
      have "ps_final_index st = length hs" using e i by simp
      then have "ic_generation_id c' = jg_identity g" "ic_byte_offset c' = ps_final_offset st"
        using c'(2) by (auto simp: make_cursor_def bounded_cursor_text_def gs result_bind_eq_Inr_iff split: if_splits)
      moreover have "ps_final_offset st \<le> length (jg_bytes g)" using e by (simp add: end_position_def)
      ultimately show ?thesis using c'(1) by (simp add: cursor_within_def gs)
    next
      case False
      then have "db_cursor db' = db_cursor db" using c by simp
      moreover have "\<exists>g \<in> set gs. jg_identity g = ic_generation_id c' \<and> ic_byte_offset c' \<le> length (jg_bytes g)"
        if "db_cursor db = Some c'" for c'
      proof -
        have "i < length gs" "jg_identity (gs ! i) = ic_generation_id c'" "verify_cursor_against_snapshot cd c' (gs ! i) = Inr ()"
          using st that by (simp_all add: starts_def)
        moreover have "ic_byte_offset c' \<le> length (jg_bytes (gs ! i))"
          using calculation(3) by (simp add: verify_cursor_against_snapshot_def Let_def not_less split: if_splits)
        ultimately show ?thesis by (intro bexI [of _ "gs ! i"]) simp_all
      qed
      ultimately show ?thesis by (simp add: cursor_within_def)
    qed
  qed
qed

text \<open>The active file after an emission: the old one with the bytes at its end, or a new one while every
  earlier generation is now a rotated file.\<close>

lemma emission_active:
  assumes inv: "bt_inv dir" and em: "emission sink date fresh bytes dir dir'" and len: "length dir \<le> USIZE_MAX"
    and cfg: "ls_path sink = log" "ls_preserve_rotated sink" and date: "valid_date date"
  obtains (extended) f where "bt_get log dir = Some f" "bt_get log dir' = Some (f\<lparr>jf_bytes := jf_bytes f @ bytes\<rparr>)"
  | (fresh) "bt_get log dir' = Some (new_file fresh bytes)"
      "\<And>name h. generation_file log dir name h \<Longrightarrow> \<exists>name'. name' \<noteq> log \<and> generation_file log dir' name' h"
proof (cases "bt_get log dir")
  case None
  then have dir': "dir' = bt_put log (new_file fresh bytes) dir" using em cfg by (simp add: emission_def)
  show thesis
  proof (rule fresh)
    show "bt_get log dir' = Some (new_file fresh bytes)" by (simp add: dir' bt_get_put inv)
    fix name h assume g: "generation_file log dir name h"
    then have "name \<noteq> log" using None by (auto simp: generation_file_def)
    with g show "\<exists>name'. name' \<noteq> log \<and> generation_file log dir' name' h"
      by (intro exI [of _ name]) (simp add: generation_file_def dir' bt_get_put inv)
  qed
next
  case (Some f)
  show thesis
  proof (cases "is_enabled (ls_rotation sink) \<and> max_size_bytes (ls_rotation sink) \<le> length (jf_bytes f)")
    case False
    then have "dir' = bt_put log (f\<lparr>jf_bytes := jf_bytes f @ bytes\<rparr>) dir" using em cfg Some by (auto simp: emission_def)
    then show thesis using extended Some by (simp add: bt_get_put inv)
  next
    case True
    then obtain stem ext j where j: "rotation_components log = Some (stem, ext)"
        "bt_get (nth_name stem ext date j) dir = None" "j \<le> length dir"
      and dir': "dir' = bt_put log (new_file fresh bytes) (bt_put (nth_name stem ext date j) f (bt_remove log dir))"
      using em cfg Some by (auto simp: emission_def)
    let ?n = "nth_name stem ext date j"
    have gn: "is_generation_name log ?n" using j(1,3) len by (intro generation_name_nth date) simp_all
    have ne: "?n \<noteq> log" using j(2) Some by auto
    have get: "bt_get m dir' = (if m = log then Some (new_file fresh bytes) else if m = ?n then Some f else bt_get m dir)" for m
      using ne by (simp add: dir' bt_get_put bt_inv_put bt_inv_remove inv bt_get_remove)
    show thesis
    proof (rule fresh)
      show "bt_get log dir' = Some (new_file fresh bytes)" by (simp add: get)
      fix name h assume g: "generation_file log dir name h"
      show "\<exists>name'. name' \<noteq> log \<and> generation_file log dir' name' h"
      proof (cases "name = log")
        case True
        with g Some have "h = f" by (simp add: generation_file_def)
        then have "generation_file log dir' ?n h" using gn ne by (simp add: generation_file_def get)
        with ne show ?thesis by blast
      next
        case False
        moreover have "name \<noteq> ?n" using g j(2) by (auto simp: generation_file_def)
        ultimately have "generation_file log dir' name h" using g by (simp add: generation_file_def get)
        with False show ?thesis by blast
      qed
    qed
  qed
qed

lemma same_identity:
  assumes "distinct (map jg_identity gs)" "g \<in> set gs" "h \<in> set gs" "jg_identity g = jg_identity h"
  shows "g = h"
  using assms by (auto simp: distinct_map dest: inj_onD)

lemma appended_ingested:
  assumes inv: "bt_inv dir" and len: "length dir + 1 \<le> USIZE_MAX" and ap: "appendable log dir"
    and comp: "\<forall>name f. generation_file log dir name f \<and> name \<noteq> log \<longrightarrow> complete_tail (jf_bytes f)"
    and cfg: "ls_path sink = log" "ls_preserve_rotated sink" and date: "valid_date date"
    and gs: "discover_jsonl_generations log dir = Inr gs" and cu: "cursor_within gs db"
    and em: "emission sink date fresh (unlines ls) dir dir'" and ls: "\<forall>l \<in> set ls. newline_free l"
    and gs': "discover_jsonl_generations log dir' = Inr gs'"
    and r: "reconcile_jsonl cd ic now ph gs' raw db = (Inr rr, db')" and ok: "db_ok cd db"
  shows "\<exists>ss. validate_sink_ids raw False = Inr ss \<and> (\<forall>l \<in> set ls. \<exists>p. ingested cd ss db' p \<and> payload_ok cd p \<and> pl_bytes p = l)"
proof -
  let ?s = "\<lparr>sy_dir = dir, sy_outbox = db, sy_world = ()\<rparr>"
  have "lossless cd log 1 ?s (?s\<lparr>sy_dir := dir'\<rparr>)" using em ap cfg date by (intro lossless_emission) simp_all
  then have sound': "sound cd log (?s\<lparr>sy_dir := dir'\<rparr>)" and len': "length dir' \<le> USIZE_MAX"
    using inv ok comp len by (auto simp: lossless_def sound_def)
  then have inv': "bt_inv dir'" and comp': "\<And>name f. generation_file log dir' name f \<Longrightarrow> name \<noteq> log \<Longrightarrow> complete_tail (jf_bytes f)"
    by (auto simp: sound_def)
  obtain B A where A: "bt_get log dir' = Some A" "jf_bytes A = B @ unlines ls" "complete_tail B"
    and off: "\<And>c. db_cursor db = Some c \<Longrightarrow> ic_generation_id c = jf_identity A \<Longrightarrow>
      ic_byte_offset c \<le> length B"
  proof (rule emission_active [OF inv em _ cfg date])
    show "length dir \<le> USIZE_MAX" using len by simp
    fix f assume f: "bt_get log dir = Some f" and f': "bt_get log dir' = Some (f\<lparr>jf_bytes := jf_bytes f @ unlines ls\<rparr>)"
    have "ic_byte_offset c \<le> length (jf_bytes f)" if c: "db_cursor db = Some c" "ic_generation_id c = jf_identity f" for c
    proof -
      obtain g where g: "g \<in> set gs" "jg_identity g = jf_identity f" "ic_byte_offset c \<le> length (jg_bytes g)"
        using cu c by (auto simp: cursor_within_def)
      have "generation_of True f \<in> set gs"
        using discovered_mem [OF gs _ inv] len f by (auto simp: generation_file_def is_generation_name_def)
      then have "g = generation_of True f"
        using same_identity [OF discover_Inr(2) [OF gs]] g(1,2) len by simp
      with g(3) show ?thesis by simp
    qed
    then show thesis
      by (intro that [OF f', of "jf_bytes f"]) (use f ap in \<open>simp_all add: appendable_def\<close>)
  next
    assume A: "bt_get log dir' = Some (new_file fresh (unlines ls))"
      and moved: "\<And>name h. generation_file log dir name h \<Longrightarrow> \<exists>name'. name' \<noteq> log \<and> generation_file log dir' name' h"
    have "False" if c: "db_cursor db = Some c" "ic_generation_id c = fresh" for c
    proof -
      obtain g where g: "g \<in> set gs" "jg_identity g = fresh" using cu c by (auto simp: cursor_within_def)
      then obtain name h where h: "generation_file log dir name h" "jf_identity h = fresh"
        using discovered_mem [OF gs _ inv] len by auto
      then obtain name' where "name' \<noteq> log" "generation_file log dir' name' h" using moved by blast
      then have "generation_of False h \<in> set gs'"
        using discovered_mem [OF gs' len' inv', of "generation_of False h"] by (metis (full_types))
      moreover have "generation_of True (new_file fresh (unlines ls)) \<in> set gs'"
        using discovered_mem [OF gs' len' inv'] A by (auto simp: generation_file_def is_generation_name_def)
      ultimately have "generation_of False h = generation_of True (new_file fresh (unlines ls))"
        using same_identity [OF discover_Inr(2) [OF gs' len']] h(2) by (simp add: new_file_def)
      then have "jg_is_active (generation_of False h) = jg_is_active (generation_of True (new_file fresh (unlines ls)))" by simp
      then show False by simp
    qed
    then show thesis
      by (intro that [OF A, of "[]"]) (auto simp: new_file_def complete_tail_def)
  qed
  let ?g = "generation_of True A" and ?R = "rotated_generations log dir'"
  have gs'_eq: "gs' = ?R @ [?g]" using discover_Inr(1) [OF gs' len'] A(1) by (simp add: active_generations_def)
  have R: "\<forall>h \<in> set ?R. complete_file h"
  proof
    fix h assume "h \<in> set ?R"
    then obtain name f where "generation_file log dir' name f" "name \<noteq> log" "h = generation_of False f"
      using rotated_generations_mem [OF inv'] by blast
    with comp' [of name f] show "complete_file h" by (simp add: complete_file_def tail_of_empty_iff complete_tail_def)
  qed
  have ne: "gs' \<noteq> []" by (simp add: gs'_eq)
  show ?thesis
  proof (rule reconcile_jsonl_Inr [OF r ok ne])
    fix ss ns i offset ps st
    assume ss: "validate_sink_ids raw False = Inr ss" and st: "starts cd gs' db i offset"
      and ps: "try_map (journal_payload cd) (readable offset (drop i gs')) = Inr ps" and ing: "\<forall>p \<in> set ps. ingested cd ss db' p"
    have i: "i \<le> length ?R" using st by (simp add: starts_def gs'_eq)
    have "offset \<le> length B" if "drop i ?R = []"
    proof -
      have "i = length ?R" using that i by simp
      then have "jg_identity (gs' ! i) = jf_identity A" by (simp add: gs'_eq)
      then show ?thesis using st off by (auto simp: starts_def split: option.splits)
    qed
    then have o: "(if drop i ?R = [] then offset else 0) \<le> length B" by simp
    have "\<exists>p. ingested cd ss db' p \<and> payload_ok cd p \<and> pl_bytes p = l" if l: "l \<in> set ls" for l
    proof -
      obtain n where "(n, l) \<in> set (unread_records ?g (if drop i ?R = [] then offset else 0))"
        using appended_lines_unread [OF A(3) o _ ls l, of ?g] A(2) by auto
      then have "(?g, n, l) \<in> set (readable offset (drop i ?R @ [?g]))"
        using readable_last(2) [of "drop i ?R" ?g offset] R by (auto dest: in_set_dropD)
      then have "(?g, n, l) \<in> set (readable offset (drop i gs'))" using i by (simp add: gs'_eq)
      then obtain p where "p \<in> set ps" "journal_payload cd (?g, n, l) = Inr p" using try_map_covers [OF ps] by blast
      with journal_payload_Inr(1,2) ing show ?thesis by blast
    qed
    with ss show ?thesis by blast
  qed
qed


section \<open>What persistence promises\<close>

lemma lift_run: "lift r s = (Inr x, s') \<longleftrightarrow> r = Inr x \<and> s' = s"
  by (auto simp: lift_def)

lemma cbind_Inr: "cbind m f s = (Inr x, s') \<longleftrightarrow> (\<exists>y s1. m s = (Inr y, s1) \<and> f y s1 = (Inr x, s'))"
  by (auto simp: cbind_def split: prod.splits sum.splits)

lemma ret_run: "ret x s = (r, s') \<longleftrightarrow> r = Inr x \<and> s' = s"
  by (auto simp: ret_def)

lemma emitted_Inr: "emitted r = Inr x \<longleftrightarrow> r = Inr x"
  by (auto simp: emitted_def split: sum.splits)

lemma reconcile_log_Inr:
  assumes "reconcile_log env now log ids s = (Inr rr, s')"
  obtains gs db' where "discover_jsonl_generations log (sy_dir s) = Inr gs"
    "reconcile_jsonl (env_codec env) (env_ids env) now (env_path_hash env log) gs ids (sy_outbox s) = (Inr rr, db')"
    "s' = s\<lparr>sy_outbox := db'\<rparr>"
proof (rule reconcile_log_cases [OF assms])
  fix gs r0 db'
  assume "discover_jsonl_generations log (sy_dir s) = Inr gs"
    and "reconcile_jsonl (env_codec env) (env_ids env) now (env_path_hash env log) gs ids (sy_outbox s) = (r0, db')"
    and "Inr rr = emitted r0" "s' = s\<lparr>sy_outbox := db'\<rparr>"
  moreover from this(3) have "r0 = Inr rr" using emitted_Inr [of r0 rr] by simp
  ultimately show thesis using that by blast
qed simp

lemma persist_parts:
  assumes "persist_for_durable_replay_with_failures_for_platform env sinks ho mo events s = (Inr failures, s')"
    and "journal_config sinks log" and "events \<noteq> []"
  obtains batch rr s1 s2 s3 rr' s4 sink where
    "event3_durable_batch env events = Inr batch"
    "reconcile_log env (mo_reconcile mo) log (ss_durable_sink_ids sinks) s = (Inr rr, s1)"
    "db_cursor (sy_outbox s2) = db_cursor (sy_outbox s1)" "sy_dir s2 = sy_dir s1"
    "if configured sinks then dispatch_system env sinks (mo_dispatch mo) s1 = (Inr failures, s2) else s2 = s1"
    "ls_path sink = log" "ls_preserve_rotated sink" "emit_local sink mo (ba_jsonl_bytes batch) s2 = (Inr (), s3)"
    "reconcile_log env (mo_reconcile_again mo) log (ss_durable_sink_ids sinks) s3 = (Inr rr', s4)"
    "prune_durable_rotations env sinks ho (mo_prune mo) s4 = (Inr (), s')"
proof -
  obtain slot sink where slot: "canonical_slots sinks = [slot]" "sl_local slot = Some sink" "ls_path sink = log" "ls_preserve_rotated sink"
    and replay: "has_persistent_replay sinks" and paths: "local_persistence_paths sinks = [log]"
    using assms(2) by (auto simp: journal_config_def)
  from assms(1,3) obtain batch rr s1 s2 s4 where p: "event3_durable_batch env events = Inr batch"
    "reconcile_log env (mo_reconcile mo) log (ss_durable_sink_ids sinks) s = (Inr rr, s1)"
    "(if configured sinks then dispatch_system env sinks (mo_dispatch mo) else ret []) s1 = (Inr failures, s2)"
    "admit_batch env sinks mo log batch s2 = (Inr (), s4)" "prune_durable_rotations env sinks ho (mo_prune mo) s4 = (Inr (), s')"
    by (auto simp: persist_for_durable_replay_with_failures_for_platform_def replay paths cbind_Inr lift_run ret_run emitted_Inr)
  from p(4) obtain s3 rr' where a: "emit_local sink mo (ba_jsonl_bytes batch) s2 = (Inr (), s3)"
    "reconcile_log env (mo_reconcile_again mo) log (ss_durable_sink_ids sinks) s3 = (Inr rr', s4)"
    by (auto simp: admit_batch_def slot cbind_Inr ret_run check_capacity_log_def emit_canonical_jsonl_bytes_def)
  have c: "db_cursor (sy_outbox s2) = db_cursor (sy_outbox s1)" "sy_dir s2 = sy_dir s1"
    using p(3) dispatch_system_cursor [of env sinks "mo_dispatch mo" s1 "Inr failures" s2] by (auto simp: ret_run split: if_splits)
  show thesis
    by (rule that [OF p(1,2) c _ slot(3,4) a p(5)]) (use p(3) in \<open>auto simp: ret_run split: if_splits\<close>)
qed


lemma list_all2_member: "list_all2 P xs ys \<Longrightarrow> x \<in> set xs \<Longrightarrow> \<exists>y \<in> set ys. P x y"
  by (induction rule: list_all2_induct) auto

lemma rotated_butlast:
  assumes "discover_jsonl_generations log dir = Inr gs" and "length dir < USIZE_MAX" and "g \<in> set (butlast gs)"
  shows "g \<in> set (rotated_generations log dir)"
  using assms(2,3) discover_Inr(1) [OF assms(1)]
  by (cases "active_generations log dir = []")
    (auto simp: butlast_append active_generations_def split: option.splits dest: in_set_butlastD)

lemma reconcile_log_cursor_within:
  assumes run: "reconcile_log env now log ids s = (Inr rr, s1)" and sound: "sound (env_codec env) log s"
    and len: "length (sy_dir s) < USIZE_MAX"
  shows "\<exists>gs. discover_jsonl_generations log (sy_dir s) = Inr gs \<and> cursor_within gs (sy_outbox s1) \<and> sy_dir s1 = sy_dir s"
proof -
  obtain gs db1 where gs: "discover_jsonl_generations log (sy_dir s) = Inr gs"
    and rj: "reconcile_jsonl (env_codec env) (env_ids env) now (env_path_hash env log) gs ids (sy_outbox s) = (Inr rr, db1)"
    and s1: "s1 = s\<lparr>sy_outbox := db1\<rparr>" by (rule reconcile_log_Inr [OF run])
  have inv: "bt_inv (sy_dir s)" and ok: "db_ok (env_codec env) (sy_outbox s)"
    and comp: "\<And>name f. generation_file log (sy_dir s) name f \<Longrightarrow> name \<noteq> log \<Longrightarrow> complete_tail (jf_bytes f)"
    using sound by (auto simp: sound_def)
  have "complete_file g" if "g \<in> set (butlast gs)" for g
    using rotated_butlast [OF gs len that] comp rotated_generations_mem [OF inv, of g log]
    by (auto simp: complete_file_def tail_of_empty_iff complete_tail_def) blast
  then have "cursor_within gs db1" by (rule reconcile_cursor_within [OF rj ok])
  with gs s1 show ?thesis by simp
qed

lemma emitted_batch_ingested:
  assumes sound: "sound (env_codec env) log s" and len: "length (sy_dir s) < USIZE_MAX" and mo: "sane_clock mo"
    and gs: "discover_jsonl_generations log (sy_dir s) = Inr gs" and cu: "cursor_within gs (sy_outbox s)"
    and sink: "ls_path sink = log" "ls_preserve_rotated sink"
    and e: "emit_local sink mo (unlines ls) s = (Inr (), s3)" and ls: "\<forall>l \<in> set ls. newline_free l" "ls \<noteq> []"
    and r: "reconcile_log env now log ids s3 = (Inr rr, s4)"
  shows "\<exists>ss. validate_sink_ids ids False = Inr ss
    \<and> (\<forall>l \<in> set ls. \<exists>p. ingested (env_codec env) ss (sy_outbox s4) p \<and> payload_ok (env_codec env) p \<and> pl_bytes p = l)"
proof -
  have inv: "bt_inv (sy_dir s)" and ok: "db_ok (env_codec env) (sy_outbox s)"
    and comp: "\<forall>name f. generation_file log (sy_dir s) name f \<and> name \<noteq> log \<longrightarrow> complete_tail (jf_bytes f)"
    using sound by (auto simp: sound_def)
  have bne: "unlines ls \<noteq> []" using ls(2) by (cases ls) simp_all
  obtain dir' where em: "emit_jsonl_bytes sink (mo_lock mo) (mo_date mo) (mo_fresh mo) (unlines ls) (sy_dir s) = (Inr (), dir')"
    and s3: "s3 = s\<lparr>sy_dir := dir'\<rparr>" using e by (auto simp: emit_local_def others_def split: prod.splits sum.splits)
  note emi = emit_jsonl_bytes_Inr [OF inv em bne]
  obtain gs' db4 where gs': "discover_jsonl_generations log dir' = Inr gs'"
    and rj: "reconcile_jsonl (env_codec env) (env_ids env) now (env_path_hash env log) gs' ids (sy_outbox s) = (Inr rr, db4)"
    and s4: "s4 = s3\<lparr>sy_outbox := db4\<rparr>" using reconcile_log_Inr [OF r] by (auto simp: s3)
  have len1: "length (sy_dir s) + 1 \<le> USIZE_MAX" using len by simp
  have date: "valid_date (mo_date mo)" using mo by (simp add: sane_clock_def)
  show ?thesis
    using appended_ingested [OF inv len1 emi(2) [unfolded sink] comp sink date gs cu emi(3) ls(1) gs' rj ok] s4 by simp
qed

lemma persist_ingests_lemma:
  assumes run: "persist_for_durable_replay_with_failures_for_platform env sinks ho mo events s = (Inr failures, s')"
    and cfg: "journal_config sinks log" and sound: "sound (env_codec env) log s" and mo: "sane_clock mo"
    and len: "length (sy_dir s) < USIZE_MAX"
    and lines: "\<forall>e b. env_serialize env e = Inr b \<longrightarrow> newline_free b"
    and ne: "events \<noteq> []"
  shows "\<exists>ss. validate_sink_ids (ss_durable_sink_ids sinks) False = Inr ss
    \<and> (\<forall>e \<in> set events. \<exists>b. env_serialize env e = Inr b \<and> stored (sy_outbox s') (ev_event_id e) = Some b
         \<and> (is_delivery_failure_alert_payload (env_codec env) b
            \<or> (\<forall>i \<in> set ss. bt_get (ev_event_id e, i) (db_deliveries (sy_outbox s')) \<noteq> None)))"
proof (rule persist_parts [OF run cfg ne])
  let ?cd = "env_codec env" and ?L = "lossless (env_codec env) log"
  fix batch rr s1 s2 s3 rr' s4 sink
  assume batch: "event3_durable_batch env events = Inr batch"
    and r1: "reconcile_log env (mo_reconcile mo) log (ss_durable_sink_ids sinks) s = (Inr rr, s1)"
    and s2: "db_cursor (sy_outbox s2) = db_cursor (sy_outbox s1)" "sy_dir s2 = sy_dir s1"
    and d: "if configured sinks then dispatch_system env sinks (mo_dispatch mo) s1 = (Inr failures, s2) else s2 = s1"
    and sink: "ls_path sink = log" "ls_preserve_rotated sink"
    and e: "emit_local sink mo (ba_jsonl_bytes batch) s2 = (Inr (), s3)"
    and r2: "reconcile_log env (mo_reconcile_again mo) log (ss_durable_sink_ids sinks) s3 = (Inr rr', s4)"
    and pr: "prune_durable_rotations env sinks ho (mo_prune mo) s4 = (Inr (), s')"
  obtain ps where ps: "list_all2 (\<lambda>e p. canonical_payload env e = Inr p) events ps"
    and bytes: "ba_jsonl_bytes batch = unlines (map pl_bytes ps)"
    using durable_batch_Inr [OF batch] by blast
  obtain gs where gs: "discover_jsonl_generations log (sy_dir s2) = Inr gs" "cursor_within gs (sy_outbox s2)" and dir2: "sy_dir s2 = sy_dir s"
    using reconcile_log_cursor_within [OF r1 sound len] s2 by (auto simp: cursor_within_def)
  have l1: "?L 0 s s1" using reconcile_log_lossless r1 unfolding along_def by blast
  have l2: "?L 0 s1 s2"
  proof (cases "configured sinks")
    case True
    then show ?thesis using d dispatch_system_lossless [of "mo_dispatch mo" sinks env log] cfg mo
      unfolding along_def by (auto simp: journal_config_def sane_clock_def)
  qed (use d in \<open>simp add: lossless.R_refl\<close>)
  have sound2: "sound ?cd log s2" using lossless.R_trans [OF l1 l2] sound len by (simp add: lossless_def)
  have free: "\<forall>l \<in> set (map pl_bytes ps). newline_free l" "map pl_bytes ps \<noteq> []"
    using ps ne lines canonical_payload_Inr(1) by (auto simp: list_all2_conv_all_nth in_set_conv_nth) blast
  obtain ss where ss: "validate_sink_ids (ss_durable_sink_ids sinks) False = Inr ss"
    and ing: "\<forall>l \<in> set (map pl_bytes ps). \<exists>p. ingested ?cd ss (sy_outbox s4) p \<and> payload_ok ?cd p \<and> pl_bytes p = l"
    using emitted_batch_ingested [OF sound2 _ mo gs sink e [unfolded bytes] free r2] len dir2 by auto
  have keeps: "keeps (sy_outbox s4) (sy_outbox s')"
  proof -
    have "?L 0 s4 s'" using prune_durable_rotations_lossless [OF cfg] pr unfolding along_def by blast
    moreover have "?L 1 s2 s3" using emit_local_lossless [OF sink] e mo unfolding along_def sane_clock_def by blast
    moreover have "?L 0 s3 s4" using reconcile_log_lossless r2 unfolding along_def by blast
    ultimately show ?thesis using sound2 len dir2 by (auto simp: lossless_def)
  qed
  have "\<exists>b. env_serialize env e = Inr b \<and> stored (sy_outbox s') (ev_event_id e) = Some b
         \<and> (is_delivery_failure_alert_payload ?cd b \<or> (\<forall>i \<in> set ss. bt_get (ev_event_id e, i) (db_deliveries (sy_outbox s')) \<noteq> None))"
    if "e \<in> set events" for e
  proof -
    obtain p where p: "p \<in> set ps" "canonical_payload env e = Inr p"
      using list_all2_member [OF ps \<open>e \<in> set events\<close>] by blast
    note cp = canonical_payload_Inr [OF p(2)]
    from ing p(1) obtain q where q: "ingested ?cd ss (sy_outbox s4) q" "payload_ok ?cd q" "pl_bytes q = pl_bytes p" by auto
    have "pl_event_id q = ev_event_id e"
      using q(2) q(3) cp(2) cp(3) by (auto simp: payload_ok_def dest: canonical_event_unique)
    with ingested_keeps [OF keeps q(1)] q(3) cp(1) show ?thesis by (auto simp: ingested_def)
  qed
  with ss show ?thesis by blast
qed

text \<open>C2. A delivery that returns has made its events durable. When persistence succeeds, every event of the
  batch is stored in the outbox with exactly the bytes that were written to the journal, and has a delivery
  row for every configured durable sink, unless it is an alert about a failed delivery, which gets none. The
  journal may have been rotated, written and pruned in the same call.\<close>

theorem persist_ingests:
  assumes "persist_for_durable_replay_with_failures_for_platform env sinks ho mo events s = (Inr failures, s')"
    and "journal_config sinks log" and "sound (env_codec env) log s" and "sane_clock mo"
    and "length (sy_dir s) < USIZE_MAX" and "\<forall>e b. env_serialize env e = Inr b \<longrightarrow> newline_free b" and "events \<noteq> []"
  shows "\<exists>ss. validate_sink_ids (ss_durable_sink_ids sinks) False = Inr ss
    \<and> (\<forall>e \<in> set events. \<exists>b. env_serialize env e = Inr b \<and> stored (sy_outbox s') (ev_event_id e) = Some b
         \<and> (is_delivery_failure_alert_payload (env_codec env) b
            \<or> (\<forall>i \<in> set ss. bt_get (ev_event_id e, i) (db_deliveries (sy_outbox s')) \<noteq> None)))"
  by (rule persist_ingests_lemma [OF assms])

section \<open>A concrete delivery\<close>

definition sample_sinks :: SinkSet where
  "sample_sinks = enable_persistent_replay_with_capacity ''o'' [''a''] default_capacity_limits
    (add_best_effort_with_retry sample_entry None
      (add_canonical_first_write_path_with_rotation_and_keep (sample_entry\<lparr>se_name := ''log''\<rparr>) (Some (sample_sink 1)) ''e.j'' None
        empty_sink_set))"

definition sample_env :: "unit env" where
  "sample_env = \<lparr>env_codec = sample_codec, env_ids = sample_ids, env_transport = accepting, env_emit = \<lambda>name es w. (Inr (), w),
     env_serialize = \<lambda>e. if ev_event_id e = sample_event then Inr sample_event else Inl ''other'', env_path_hash = \<lambda>p. sample_hash\<rparr>"

definition sample_moment :: moment where
  "sample_moment = \<lparr>mo_reconcile = 7, mo_dispatch = 9, mo_reconcile_again = 7, mo_prune = 9, mo_date = ''2026-06-21'', mo_fresh = ''g'',
     mo_lock = free_lock\<rparr>"

definition sample_host :: host where
  "sample_host = \<lparr>ho_windows = False, ho_paths = Inr (), ho_outbox_path = Inr (), ho_lock = Inr (), ho_open = Inr (), ho_verify = Inr ()\<rparr>"

definition bound_outbox :: outbox_db where
  "bound_outbox = empty_outbox\<lparr>db_meta := [(''durable_sink_ids'', ''a''), (''journal_namespace'', ''n''), (''journal_path_hash'', sample_hash)]\<rparr>"

lemma bind_outbox:
  "reconcile_jsonl sample_codec sample_ids 7 sample_hash [] [''a''] empty_outbox
    = (Inr \<lparr>rr_ingested_events = 0, rr_ingested_bytes = 0\<rparr>, bound_outbox)"
  by (simp add: sample_reconcile_simps bound_outbox_def sample_ids_def join_def rust_simps less_char_def)

lemma sample_reconcile_bound:
  "\<exists>rr db'. reconcile_jsonl sample_codec sample_ids 7 sample_hash sample_journal [''a''] bound_outbox = (Inr rr, db')"
proof -
  have "id_decode sample_ids ''a'' = Some [''a'']" by (simp add: sample_ids_def)
  then show ?thesis by (simp add: sample_reconcile_simps bound_outbox_def)
qed

lemma sample_admitted_bound:
  "check_capacity_for_payloads sample_codec bound_outbox sample_hash [] sample_batch default_capacity_limits = Inr ()"
  by (simp add: sample_admitted_simps bound_outbox_def)

lemma dispatch_bound:
  assumes "find (\<lambda>e. se_name e = ''a'') es = Some entry"
  shows "dispatch_durable_with_outbox accepting sample_codec 9 es [''a''] () bound_outbox = (Inr [], (), bound_outbox)"
proof -
  have nr: "next_ready_delivery sample_codec bound_outbox ''a'' 9 = Inr None"
    by (simp add: next_ready_delivery_def sample_sink_valid select_ready_def bound_outbox_def empty_outbox_def)
  have "dispatch_rows accepting sample_codec 9 entry ''a'' 0 (Suc n) ((), bound_outbox, []) = (Inr (), (), bound_outbox, [])" for n
    by (simp add: dispatch_one_def nr accepting_def SINK_BUDGET_MS_def)
  from this [of 15] have "dispatch_sink accepting sample_codec 9 es ''a'' ((), bound_outbox, []) = (Inr (), (), bound_outbox, [])"
    using assms by (simp add: dispatch_sink_def MAX_ROWS_PER_SINK_def numeral_eq_Suc accepting_def)
  then show ?thesis by (simp add: dispatch_durable_with_outbox_def)
qed

definition sample_record :: Event where
  "sample_record = (projr (detection_event sample_runtime sample_detection))\<lparr>ev_event_id := sample_event\<rparr>"

definition sample_start :: "unit system" where
  "sample_start = \<lparr>sy_dir = [], sy_outbox = empty_outbox, sy_world = ()\<rparr>"

lemma sample_batch_built:
  "event3_durable_batch sample_env [sample_record] = Inr \<lparr>ba_payloads = sample_batch, ba_jsonl_bytes = sample_event @ [newline]\<rparr>"
proof -
  have "validate_canonical_event_bytes sample_codec sample_event (Some sample_event) = Inr ()" by (simp add: sample_validate)
  then show ?thesis
    by (simp add: event3_durable_batch_def canonical_payload_def sample_env_def sample_record_def sample_batch_def sample_payload)
qed

lemma sample_sinks_simps:
  "ss_durable_sink_ids sample_sinks = [''a'']" "has_persistent_replay sample_sinks" "local_persistence_paths sample_sinks = [''e.j'']"
  "canonical_slots sample_sinks = [hd (ss_entries sample_sinks)]" "sl_local (hd (ss_entries sample_sinks)) = Some (sample_sink 1)"
  "sl_rotation_keep (hd (ss_entries sample_sinks)) = None" "sl_persistence_path (hd (ss_entries sample_sinks)) = Some ''e.j''"
  "ss_capacity_limits sample_sinks = default_capacity_limits" "configured sample_sinks"
  "find (\<lambda>e. se_name e = ''a'') (map sl_entry (ss_entries sample_sinks)) = Some sample_entry"
  by (simp_all add: sample_sinks_def enable_persistent_replay_with_capacity_def add_best_effort_with_retry_def
      add_with_roles_and_retry_def add_canonical_first_write_path_with_rotation_and_keep_def empty_sink_set_def default_retry_def
      has_persistent_replay_def local_persistence_paths_def map_filter_simps canonical_slots_def make_durable_def
      sample_entry_def configured_def)

lemma sample_journal_config: "journal_config sample_sinks ''e.j''"
proof -
  have "\<forall>slot \<in> set (ss_entries sample_sinks). sl_role slot \<noteq> CanonicalFirstWrite \<longrightarrow> sl_local slot = None"
    by (simp add: sample_sinks_def enable_persistent_replay_with_capacity_def add_best_effort_with_retry_def
      add_with_roles_and_retry_def add_canonical_first_write_path_with_rotation_and_keep_def empty_sink_set_def default_retry_def make_durable_def sample_entry_def)
  then show ?thesis
    by (simp add: journal_config_def sample_sinks_simps) (simp add: sample_sink_def)
qed

lemma sample_clock: "sane_clock sample_moment"
  using valid_date_civil [of 2026 6 21]
  by (simp add: sane_clock_def sample_moment_def I64_MAX_def padded_def show_nat.simps digit_char_numerals)

lemma sample_sound: "sound sample_codec ''e.j'' sample_start"
  by (simp add: sound_def sample_start_def empty_outbox_ok generation_file_def)

lemma sample_components: "rotation_components ''e.j'' = Some (''e'', ''j'')"
  by (simp add: rotation_components_def rsplit_once_def)

lemma sample_persist:
  "\<exists>failures s'. persist_for_durable_replay_with_failures_for_platform sample_env sample_sinks sample_host sample_moment
     [sample_record] sample_start = (Inr failures, s')"
proof -
  have d0: "discover_jsonl_generations ''e.j'' [] = Inr []"
    by (simp add: discover_jsonl_generations_def discover_generations_def active_file_generation_def sample_components
        map_filter_simps USIZE_MAX_def)
  let ?dir = "[(''e.j'', new_file ''g'' (sample_event @ [newline]))]"
  have "parse_rotated_name ''e.j'' ''e'' ''j'' = None"
    by (simp add: parse_rotated_name_def strip_prefix_def)
  then have d1: "discover_jsonl_generations ''e.j'' ?dir = Inr sample_journal"
    by (simp add: discover_jsonl_generations_def discover_generations_def active_file_generation_def sample_components
        map_filter_simps USIZE_MAX_def rotated_entry_def new_file_def generation_of_def sample_journal_def)
  have em: "emit_jsonl_bytes (sample_sink 1) free_lock ''2026-06-21'' ''g'' (sample_event @ [newline]) [] = (Inr (), ?dir)"
    by (simp add: emit_jsonl_bytes_def acquire_lock_only_def open_lock_def safe_lock_info_def verify_lock_def free_lock_def
        write_jsonl_bytes_def sample_sink_def is_enabled_def sample_components safe_path_info_def ensure_jsonl_tail_def
        maybe_rotate_with_mode_def append_jsonl_bytes_def new_file_def)
  obtain rr db' where rec: "reconcile_jsonl sample_codec sample_ids 7 sample_hash sample_journal [''a''] bound_outbox = (Inr rr, db')"
    using sample_reconcile_bound by blast
  have env: "env_codec sample_env = sample_codec" "env_ids sample_env = sample_ids" "env_path_hash sample_env p = sample_hash"
    "env_transport sample_env = accepting" for p by (simp_all add: sample_env_def)
  have mo: "mo_reconcile sample_moment = 7" "mo_dispatch sample_moment = 9" "mo_reconcile_again sample_moment = 7"
    "mo_date sample_moment = ''2026-06-21''" "mo_fresh sample_moment = ''g''" "mo_lock sample_moment = free_lock" by (simp_all add: sample_moment_def)
  have cur: "read_ingest_cursor empty_outbox = Inr None" "read_ingest_cursor bound_outbox = Inr None"
    by (simp_all add: read_ingest_cursor_def empty_outbox_def bound_outbox_def)
  have lim: "validate_capacity_limits default_capacity_limits = Inr ()"
    by (simp add: validate_capacity_limits_def default_capacity_limits_def)
  show ?thesis
    by (simp add: persist_for_durable_replay_with_failures_for_platform_def sample_sinks_simps sample_batch_built emitted_def
        cbind_def lift_def ret_def sample_host_def validate_persistent_replay_paths_def ensure_durable_storage_supported_for_platform_def sample_start_def
        reconcile_log_def env mo sample_sink_valid cur d0 bind_outbox dispatch_system_def
        dispatch_bound [OF sample_sinks_simps(10)] admit_batch_def check_capacity_log_def lim sample_admitted_bound
        emit_canonical_jsonl_bytes_def emit_local_def others_def em [unfolded One_nat_def] d1 [unfolded One_nat_def] rec prune_durable_rotations_def prune_slot_def)
qed

theorem persist_ingests_witness:
  "\<exists>failures s'. persist_for_durable_replay_with_failures_for_platform sample_env sample_sinks sample_host sample_moment
      [sample_record] sample_start = (Inr failures, s')
    \<and> stored (sy_outbox s') sample_event = Some sample_event
    \<and> bt_get (sample_event, ''a'') (db_deliveries (sy_outbox s')) \<noteq> None"
proof -
  obtain failures s' where run: "persist_for_durable_replay_with_failures_for_platform sample_env sample_sinks sample_host sample_moment
      [sample_record] sample_start = (Inr failures, s')" using sample_persist by blast
  have alert: "\<not> is_delivery_failure_alert_payload sample_codec sample_event"
    by (simp add: is_delivery_failure_alert_payload_def sample_codec_def sample_json_def)
  have free: "newline_free sample_event" by (simp add: newline_free_def sample_event_def)
  have "\<exists>ss. validate_sink_ids (ss_durable_sink_ids sample_sinks) False = Inr ss
    \<and> (\<forall>e \<in> set [sample_record]. \<exists>b. env_serialize sample_env e = Inr b \<and> stored (sy_outbox s') (ev_event_id e) = Some b
         \<and> (is_delivery_failure_alert_payload (env_codec sample_env) b
            \<or> (\<forall>i \<in> set ss. bt_get (ev_event_id e, i) (db_deliveries (sy_outbox s')) \<noteq> None)))"
    by (rule persist_ingests [OF run sample_journal_config _ sample_clock])
      (use sample_sound free in \<open>simp_all add: sample_env_def sample_start_def USIZE_MAX_def\<close>)
  with run alert show ?thesis by (auto simp: sample_sinks_simps sample_sink_valid sample_env_def sample_record_def)
qed

theorem durable_runs_lose_nothing_witness:
  "recoverable ''e.j'' (sample_start\<lparr>sy_dir := [(''e.j'', new_file ''g'' (sample_event @ newline # ''torn''))]\<rparr>) sample_event"
proof -
  let ?t = "sample_start\<lparr>sy_dir := [(''e.j'', new_file ''g'' (sample_event @ [newline]))]\<rparr>"
  let ?u = "sample_start\<lparr>sy_dir := [(''e.j'', new_file ''g'' (sample_event @ newline # ''torn''))]\<rparr>"
  have "durable_step sample_env sample_sinks ''e.j'' ?t ?u"
    by (rule durable_step.appended [where written = "''torn''" and f = "new_file ''g'' (sample_event @ [newline])"])
      (simp_all add: bt_get_def complete_tail_def new_file_def USIZE_MAX_def)
  moreover have "sound (env_codec sample_env) ''e.j'' ?t"
    by (auto simp: sound_def sample_start_def sample_env_def empty_outbox_ok generation_file_def bt_get_def bt_inv_def)
  moreover have "recoverable ''e.j'' ?t sample_event"
    by (auto simp: recoverable_def generation_file_def is_generation_name_def bt_get_def new_file_def sample_lines)
  ultimately show ?thesis
    using durable_runs_lose_nothing [OF sample_journal_config, of sample_env ?t ?u] by blast
qed

end
