(* ===== verification/Values.thy ===== *)
theory Values
  imports Telltale_Prelude
begin

text \<open>
  Bounded structured values of observations, \<open>crates/telltale-schema/src/observation/value.rs\<close>: admission of
  source JSON, canonical form, the bounds on arguments and text, and local evidence. The admission functions
  convert a source value and check its bounds; the builder checks the bounds of the converted value again,
  with functions of their own. The lemmas show that what the former admit the latter accept.

  Parameters are Unicode normalisation (\<open>tx_nfc\<close>) and the decimal spelling of a float (\<open>tx_float_display\<close>,
  \<open>tx_float_json\<close>).
\<close>

section \<open>Numbers\<close>

text \<open>An IEEE double: a finite one is its sign, its mantissa and the exponent of two.\<close>

datatype f64 = NaN | Infinite bool | Finite bool nat int

fun is_finite :: "f64 \<Rightarrow> bool" where
  "is_finite (Finite s m e) = True"
| "is_finite _ = False"

text \<open>Conversion of an integer, rounding to nearest with ties to even.\<close>

fun excess_bits :: "nat \<Rightarrow> nat" where
  "excess_bits n = (if n < 2 ^ 53 then 0 else Suc (excess_bits (n div 2)))"

declare excess_bits.simps [simp del]

definition round_half_even :: "nat \<Rightarrow> nat \<Rightarrow> nat" where
  "round_half_even n k =
    (let q = n div 2 ^ k; r = n mod 2 ^ k in
     if 2 ^ k < 2 * r \<or> (2 ^ k = 2 * r \<and> odd q) then q + 1 else q)"

definition f64_of_int :: "int \<Rightarrow> f64" where
  "f64_of_int i = (let n = nat \<bar>i\<bar>; k = excess_bits n in Finite (i < 0) (round_half_even n k) (int k))"

definition show_int :: "int \<Rightarrow> string" where
  "show_int i = (if i < 0 then CHR ''-'' # show_nat (nat (- i)) else show_nat (nat i))"

section \<open>Values and errors\<close>

datatype JsonValue = Null | Bool bool | Integer int | Unsigned u64 | Number f64 | String string
  | Array "JsonValue list" | Object "(string \<times> JsonValue) list"

text \<open>\<open>serde_json::Value\<close>; a number is an unsigned, a negative or a floating one.\<close>

datatype source_number = PosInt u64 | NegInt int | FloatNumber f64

datatype source_value = SNull | SBool bool | SNumber source_number | SString string
  | SArray "source_value list" | SObject "(string \<times> source_value) list"

fun as_i64 :: "source_number \<Rightarrow> int option" where
  "as_i64 (PosInt n) = (if unat n < 2 ^ 63 then Some (int (unat n)) else None)"
| "as_i64 (NegInt i) = Some i"
| "as_i64 (FloatNumber f) = None"

fun as_u64 :: "source_number \<Rightarrow> u64 option" where
  "as_u64 (PosInt n) = Some n"
| "as_u64 _ = None"

fun as_f64 :: "source_number \<Rightarrow> f64 option" where
  "as_f64 (PosInt n) = Some (f64_of_int (int (unat n)))"
| "as_f64 (NegInt i) = Some (f64_of_int i)"
| "as_f64 (FloatNumber f) = Some f"

datatype ValidationCode = InvalidId | InvalidStage | InvalidTime | InvalidSource | InvalidBody | FamilyMinimum
  | MetadataCoverage | InvalidMetadata | InvalidFacet | InvalidCorrelation | PathDerivedId | UnboundedValue
  | NonFiniteNumber | DuplicateObjectKey | InvalidLocalKey | InvalidReference | ExportableReference
  | ReferenceSensitivity | ProhibitedSensitivity | FingerprintSensitivity | InvalidFingerprint
  | InvalidIdentityBasis | UnsupportedOther | ReplayUnverifiable | ReplayCollision | InvalidAssignment

datatype BoundDimension = StringBytes | EncodedBytes | Depth | ArrayItems | ObjectMembers | KeyBytes

datatype CanonicalFieldCategory = CatMessageContent | CatMessageContentParts | CatToolName | CatToolArguments
  | CatToolResult | CatCommandText | CatResourcePath | CatSemanticField | CatSemanticFacet

record ObservationError =
  oe_code :: ValidationCode
  oe_bound_dimension :: "BoundDimension option"
  oe_bound_category :: "CanonicalFieldCategory option"

definition obs_error :: "ValidationCode \<Rightarrow> ObservationError" where
  "obs_error code = \<lparr>oe_code = code, oe_bound_dimension = None, oe_bound_category = None\<rparr>"

definition bound :: "BoundDimension \<Rightarrow> ObservationError" where
  "bound dimension = (obs_error UnboundedValue)\<lparr>oe_bound_dimension := Some dimension\<rparr>"

definition with_bound_category :: "CanonicalFieldCategory \<Rightarrow> ObservationError \<Rightarrow> ObservationError" where
  "with_bound_category category e = (if oe_bound_dimension e \<noteq> None then e\<lparr>oe_bound_category := Some category\<rparr> else e)"

record text_env =
  tx_nfc :: "string \<Rightarrow> string"
  tx_float_display :: "f64 \<Rightarrow> string"
  tx_float_json :: "f64 \<Rightarrow> string"

section \<open>Limits\<close>

definition LOCAL_MAX_ENTRIES :: nat where "LOCAL_MAX_ENTRIES = 16"
definition LOCAL_MAX_KEY_BYTES :: nat where "LOCAL_MAX_KEY_BYTES = 64"
definition LOCAL_MAX_TOTAL_BYTES :: nat where "LOCAL_MAX_TOTAL_BYTES = 65536"
definition LOCAL_MAX_VALUE_BYTES :: nat where "LOCAL_MAX_VALUE_BYTES = 16384"
definition LOCAL_MAX_DEPTH :: nat where "LOCAL_MAX_DEPTH = 6"
definition LOCAL_MAX_STRING_BYTES :: nat where "LOCAL_MAX_STRING_BYTES = 4096"
definition LOCAL_MAX_ARRAY_ITEMS :: nat where "LOCAL_MAX_ARRAY_ITEMS = 64"
definition LOCAL_MAX_OBJECT_MEMBERS :: nat where "LOCAL_MAX_OBJECT_MEMBERS = 32"
definition LOCAL_MAX_SEARCHABLE_BYTES :: nat where "LOCAL_MAX_SEARCHABLE_BYTES = 1024"
definition MESSAGE_MAX_TEXT_BYTES :: nat where "MESSAGE_MAX_TEXT_BYTES = 65536"

definition escaped_char_bytes :: "char \<Rightarrow> nat" where
  "escaped_char_bytes c =
    (if byte c = 34 \<or> byte c = 92 then 2
     else if byte c \<in> {8, 12, 10, 13, 9} then 2
     else if byte c \<le> 31 then 6
     else 1)"

definition escaped_string_bytes :: "string \<Rightarrow> nat" where
  "escaped_string_bytes s = 2 + sum_list (map escaped_char_bytes s)"

section \<open>Encoded sizes\<close>

text \<open>Loops over the elements of a container; the recursion needs to know that they are elements.\<close>

lemma try_fold_cong [fundef_cong]:
  "xs = ys \<Longrightarrow> acc = acc' \<Longrightarrow> (\<And>a x. x \<in> set ys \<Longrightarrow> f a x = g a x) \<Longrightarrow> try_fold f acc xs = try_fold g acc' ys"
  by (induction xs arbitrary: acc acc' ys) (auto simp: result_bind_def split: sum.splits)

lemma try_map_cong [fundef_cong]:
  "xs = ys \<Longrightarrow> (\<And>x. x \<in> set ys \<Longrightarrow> f x = g x) \<Longrightarrow> try_map f xs = try_map g ys"
  by (induction xs arbitrary: ys) (auto simp: result_bind_def split: sum.splits)

lemma enumerate_item_size [termination_simp]: "(i, x) \<in> set (List.enumerate n xs) \<Longrightarrow> f x \<le> size_list f xs"
  by (auto simp: in_set_enumerate_eq intro!: size_list_estimation' [of "xs ! (i - n)"])

lemma enumerate_member_size [termination_simp]:
  "(i, k, v) \<in> set (List.enumerate n ms) \<Longrightarrow> f v \<le> size_list (size_prod g f) ms"
proof -
  assume "(i, k, v) \<in> set (List.enumerate n ms)"
  then have "size_prod g f (k, v) \<le> size_list (size_prod g f) ms" by (rule enumerate_item_size)
  then show ?thesis by simp
qed

lemma member_size [termination_simp]: "(k, v) \<in> set ms \<Longrightarrow> f v \<le> size_list (size_prod g f) ms"
  using size_list_estimation' [of "(k, v)" ms "Suc (f v)" "size_prod g f"] by simp

function bounded_json_bytes :: "text_env \<Rightarrow> JsonValue \<Rightarrow> nat \<Rightarrow> (ObservationError, nat) result" where
  "bounded_json_bytes tx v depth =
    (if LOCAL_MAX_DEPTH < depth then Inl (bound Depth)
     else case v of
       Null \<Rightarrow> Inr 4
     | Bool True \<Rightarrow> Inr 4
     | Bool False \<Rightarrow> Inr 5
     | Integer i \<Rightarrow> Inr (length (show_int i))
     | Unsigned n \<Rightarrow> Inr (length (show_nat (unat n)))
     | Number f \<Rightarrow> if is_finite f then Inr (length (tx_float_display tx f)) else Inl (obs_error NonFiniteNumber)
     | String s \<Rightarrow> if LOCAL_MAX_STRING_BYTES < length s then Inl (bound StringBytes) else Inr (escaped_string_bytes s)
     | Array items \<Rightarrow>
         if LOCAL_MAX_ARRAY_ITEMS < length items then Inl (bound ArrayItems)
         else try_fold (\<lambda>total (index, item).
           result_bind (bounded_json_bytes tx item (depth + 1)) (\<lambda>bytes.
             ok_or (usize_checked_add total (bytes + of_bool (index \<noteq> 0))) (bound EncodedBytes)))
           2 (List.enumerate 0 items)
     | Object members \<Rightarrow>
         if LOCAL_MAX_OBJECT_MEMBERS < length members then Inl (bound ObjectMembers)
         else try_fold (\<lambda>total (index, key, item).
           if LOCAL_MAX_KEY_BYTES < length key then Inl (bound KeyBytes)
           else result_bind (bounded_json_bytes tx item (depth + 1)) (\<lambda>bytes.
             ok_or (usize_checked_add total (escaped_string_bytes key + 1 + bytes + of_bool (index \<noteq> 0))) (bound EncodedBytes)))
           2 (List.enumerate 0 members))"
  by pat_completeness auto
termination
  by (relation "measure (\<lambda>(tx, v, depth). size v)") (auto simp: less_Suc_eq_le intro: enumerate_item_size enumerate_member_size)

declare bounded_json_bytes.simps [simp del]

function encoded_byte_len :: "text_env \<Rightarrow> JsonValue \<Rightarrow> (ObservationError, nat) result" where
  "encoded_byte_len tx v =
    (case v of
       Integer i \<Rightarrow> Inr (length (show_int i))
     | Unsigned n \<Rightarrow> Inr (length (show_nat (unat n)))
     | Number f \<Rightarrow> if is_finite f then Inr (length (tx_float_json tx f)) else Inl (obs_error NonFiniteNumber)
     | String s \<Rightarrow> Inr (escaped_string_bytes s)
     | Array items \<Rightarrow>
         try_fold (\<lambda>total (index, item).
           result_bind (encoded_byte_len tx item) (\<lambda>bytes.
             ok_or (usize_checked_add total (bytes + of_bool (index \<noteq> 0))) (bound EncodedBytes)))
           2 (List.enumerate 0 items)
     | Object members \<Rightarrow>
         try_fold (\<lambda>total (index, key, item).
           result_bind (encoded_byte_len tx item) (\<lambda>bytes.
             ok_or (usize_checked_add total (escaped_string_bytes key + 1 + bytes + of_bool (index \<noteq> 0))) (bound EncodedBytes)))
           2 (List.enumerate 0 members)
     | _ \<Rightarrow> bounded_json_bytes tx v 1)"
  by pat_completeness auto
termination
  by (relation "measure (\<lambda>(tx, v). size v)") (auto simp: less_Suc_eq_le intro: enumerate_item_size enumerate_member_size)

declare encoded_byte_len.simps [simp del]

section \<open>Admission of source values\<close>

definition json_string :: "text_env \<Rightarrow> string \<Rightarrow> JsonValue" where
  "json_string tx s = String (tx_nfc tx s)"

definition json_number :: "f64 \<Rightarrow> (ObservationError, JsonValue) result" where
  "json_number f = (if is_finite f then Inr (Number f) else Inl (obs_error NonFiniteNumber))"

definition json_object :: "text_env \<Rightarrow> (string \<times> JsonValue) list \<Rightarrow> (ObservationError, JsonValue) result" where
  "json_object tx values =
    result_bind (try_fold (\<lambda>object (key, v).
        let key = tx_nfc tx key in
        if bt_get key object \<noteq> None then Inl (obs_error DuplicateObjectKey) else Inr (bt_put key v object)) [] values)
      (\<lambda>object. Inr (Object object))"

function convert_source_value :: "text_env \<Rightarrow> source_value \<Rightarrow> nat \<Rightarrow> (ObservationError, JsonValue) result" where
  "convert_source_value tx v depth =
    (if LOCAL_MAX_DEPTH < depth then Inl (bound Depth)
     else case v of
       SNull \<Rightarrow> Inr Null
     | SBool b \<Rightarrow> Inr (Bool b)
     | SNumber n \<Rightarrow>
         (case as_i64 n of
            Some i \<Rightarrow> Inr (Integer i)
          | None \<Rightarrow> (case as_u64 n of
              Some u \<Rightarrow> Inr (Unsigned u)
            | None \<Rightarrow> result_bind (ok_or (as_f64 n) (obs_error NonFiniteNumber)) json_number))
     | SString s \<Rightarrow> if LOCAL_MAX_STRING_BYTES < length s then Inl (bound StringBytes) else Inr (json_string tx s)
     | SArray values \<Rightarrow>
         if LOCAL_MAX_ARRAY_ITEMS < length values then Inl (bound ArrayItems)
         else result_bind (try_map (\<lambda>v. convert_source_value tx v (depth + 1)) values) (\<lambda>xs. Inr (Array xs))
     | SObject values \<Rightarrow>
         if LOCAL_MAX_OBJECT_MEMBERS < length values then Inl (bound ObjectMembers)
         else if list_ex (\<lambda>(key, v). LOCAL_MAX_KEY_BYTES < length key) values then Inl (bound KeyBytes)
         else result_bind (try_map (\<lambda>(key, v). result_bind (convert_source_value tx v (depth + 1)) (\<lambda>c. Inr (key, c))) values)
           (json_object tx))"
  by pat_completeness auto
termination
  by (relation "measure (\<lambda>(tx, v, depth). size v)") (auto simp: less_Suc_eq_le intro: size_list_estimation' member_size)

declare convert_source_value.simps [simp del]

definition try_from_source_value :: "text_env \<Rightarrow> source_value \<Rightarrow> (ObservationError, JsonValue) result" where
  "try_from_source_value tx v =
    result_bind (convert_source_value tx v 1) (\<lambda>converted.
    result_bind (bounded_json_bytes tx converted 1) (\<lambda>bytes.
      if LOCAL_MAX_VALUE_BYTES < bytes then Inl (bound EncodedBytes) else Inr converted))"

definition bounded_message_text_bytes :: "string \<Rightarrow> (ObservationError, nat) result" where
  "bounded_message_text_bytes text =
    (if MESSAGE_MAX_TEXT_BYTES < length text then Inl (bound StringBytes) else Inr (escaped_string_bytes text))"

definition try_from_source_message_text :: "text_env \<Rightarrow> string \<Rightarrow> (ObservationError, JsonValue) result" where
  "try_from_source_message_text tx text =
    result_bind (bounded_message_text_bytes text) (\<lambda>_.
    result_bind (bounded_message_text_bytes (tx_nfc tx text)) (\<lambda>_. Inr (String (tx_nfc tx text))))"

definition try_from_source_message_content :: "text_env \<Rightarrow> source_value \<Rightarrow> (ObservationError, JsonValue) result" where
  "try_from_source_message_content tx v =
    (case v of SString text \<Rightarrow> try_from_source_message_text tx text | _ \<Rightarrow> try_from_source_value tx v)"

definition try_from_source_tool_result :: "text_env \<Rightarrow> source_value \<Rightarrow> (ObservationError, JsonValue) result" where
  "try_from_source_tool_result tx v =
    (case v of SString text \<Rightarrow> try_from_source_message_text tx text | _ \<Rightarrow> try_from_source_value tx v)"

section \<open>Authored text\<close>

definition AUTHORED_TEXT_ARGUMENTS :: "(string \<times> string list) list" where
  "AUTHORED_TEXT_ARGUMENTS =
    [(''apply_patch'', [''patchText'']),
     (''patch'', [''patchText'']),
     (''shell'', [''command'']),
     (''bash'', [''command'']),
     (''write'', [''content'']),
     (''edit'', [''oldString'', ''newString'']),
     (''execute'', [''code'']),
     (''subagent'', [''prompt'']),
     (''task'', [''prompt'']),
     (''Bash'', [''command'']),
     (''PowerShell'', [''command'']),
     (''Write'', [''content'']),
     (''Edit'', [''old_string'', ''new_string'']),
     (''NotebookEdit'', [''new_source'']),
     (''Task'', [''prompt'']),
     (''Agent'', [''prompt''])]"

definition is_bare_command_tool :: "string option \<Rightarrow> bool" where
  "is_bare_command_tool name \<longleftrightarrow> name = Some ''shell''"

definition is_bare_text_tool :: "string option \<Rightarrow> bool" where
  "is_bare_text_tool name \<longleftrightarrow> is_bare_command_tool name \<or> name = Some ''exec'' \<or> name = Some ''apply_patch''"

definition is_authored_text_argument :: "string option \<Rightarrow> string \<Rightarrow> bool" where
  "is_authored_text_argument name fld \<longleftrightarrow>
    list_ex (\<lambda>(tool, names). Some tool = name \<and> fld \<in> List.set names) AUTHORED_TEXT_ARGUMENTS"

text \<open>\<open>field_text f\<close> is \<open>None\<close> when the field is absent and \<open>Some None\<close> when it is not a string.\<close>

definition authored_text_fields ::
  "string option \<Rightarrow> (string \<Rightarrow> string option option) \<Rightarrow> (ObservationError, string list option) result" where
  "authored_text_fields name field_text =
    (case find (\<lambda>(tool, names). Some tool = name) AUTHORED_TEXT_ARGUMENTS of
       None \<Rightarrow> Inr None
     | Some (tool, names) \<Rightarrow>
         result_bind (try_fold (\<lambda>present fld.
             case field_text fld of
               Some (Some _) \<Rightarrow> Inr (present @ [fld])
             | Some None \<Rightarrow> if tool = ''apply_patch'' then Inl (obs_error InvalidBody) else Inr present
             | None \<Rightarrow> Inr present) [] names)
           (\<lambda>present. Inr (if present = [] then None else Some present)))"

definition authored_command :: "string option \<Rightarrow> JsonValue \<Rightarrow> string option" where
  "authored_command name arguments =
    (case arguments of
       String text \<Rightarrow> if is_bare_command_tool name then Some text else None
     | Object members \<Rightarrow>
         if is_authored_text_argument name ''command''
         then (case bt_get ''command'' members of Some (String text) \<Rightarrow> Some text | _ \<Rightarrow> None) else None
     | _ \<Rightarrow> None)"

definition source_text :: "source_value \<Rightarrow> string option" where
  "source_text v = (case v of SString s \<Rightarrow> Some s | _ \<Rightarrow> None)"

definition json_text :: "JsonValue \<Rightarrow> string option" where
  "json_text v = (case v of String s \<Rightarrow> Some s | _ \<Rightarrow> None)"

text \<open>The branch of \<open>try_from_source_tool_arguments\<close> for arguments with authored text.\<close>

definition admit_authored ::
  "text_env \<Rightarrow> (string \<times> source_value) list \<Rightarrow> string list \<Rightarrow> (ObservationError, JsonValue) result" where
  "admit_authored tx members names =
    (if LOCAL_MAX_OBJECT_MEMBERS < length members then Inl (bound ObjectMembers)
     else if list_ex (\<lambda>(key, v). LOCAL_MAX_KEY_BYTES < length key) members then Inl (bound KeyBytes)
     else
       result_bind (try_map (\<lambda>(key, v).
           if key \<in> List.set names then Inr (key, Null)
           else result_bind (convert_source_value tx v 2) (\<lambda>c. Inr (key, c))) members) (\<lambda>skeleton.
       result_bind (json_object tx skeleton) (\<lambda>skeleton.
       result_bind (bounded_json_bytes tx skeleton 1) (\<lambda>bytes.
       if LOCAL_MAX_VALUE_BYTES < bytes then Inl (bound EncodedBytes)
       else case skeleton of
         Object converted \<Rightarrow>
           result_bind (try_fold (\<lambda>converted fld.
               result_bind (try_from_source_message_text tx (the (Option.bind (bt_get fld members) source_text))) (\<lambda>text.
                 Inr (bt_put fld text converted))) converted names)
             (\<lambda>converted. Inr (Object converted))
       | _ \<Rightarrow> Inr skeleton))))"

definition try_from_source_tool_arguments ::
  "text_env \<Rightarrow> string option \<Rightarrow> source_value \<Rightarrow> (ObservationError, JsonValue) result" where
  "try_from_source_tool_arguments tx name v =
    (case v of
       SObject members \<Rightarrow>
         result_bind (authored_text_fields name (\<lambda>fld. map_option source_text (bt_get fld members))) (\<lambda>authored.
           case authored of
             Some names \<Rightarrow> admit_authored tx members names
           | None \<Rightarrow> try_from_source_value tx v)
     | SString text \<Rightarrow>
         if is_bare_text_tool name then try_from_source_message_text tx text else try_from_source_value tx v
     | _ \<Rightarrow> try_from_source_value tx v)"

text \<open>The sizes of a skeleton with each text replaced by \<open>null\<close>, and of the texts.\<close>

definition authored_bytes ::
  "text_env \<Rightarrow> (string \<times> JsonValue) list \<Rightarrow> string list \<Rightarrow> (ObservationError, nat) result" where
  "authored_bytes tx members names =
    (if LOCAL_MAX_OBJECT_MEMBERS < length members then Inl (bound ObjectMembers)
     else
       result_bind (try_fold (\<lambda>(bytes, text_bytes) (index, key, item).
           if LOCAL_MAX_KEY_BYTES < length key then Inl (bound KeyBytes)
           else
             result_bind (case item of
                 String text \<Rightarrow>
                   if key \<in> List.set names
                   then result_bind (bounded_message_text_bytes text) (\<lambda>n.
                     result_bind (ok_or (usize_checked_add text_bytes n) (bound EncodedBytes)) (\<lambda>text_bytes. Inr (4, text_bytes)))
                   else result_bind (bounded_json_bytes tx item 2) (\<lambda>n. Inr (n, text_bytes))
               | _ \<Rightarrow> result_bind (bounded_json_bytes tx item 2) (\<lambda>n. Inr (n, text_bytes))) (\<lambda>(item_bytes, text_bytes).
             result_bind (ok_or (usize_checked_add bytes (escaped_string_bytes key + 1 + item_bytes + of_bool (index \<noteq> 0)))
                 (bound EncodedBytes)) (\<lambda>bytes. Inr (bytes, text_bytes))))
           (2, 0) (List.enumerate (0 :: nat) members)) (\<lambda>(bytes, text_bytes).
       if LOCAL_MAX_VALUE_BYTES < bytes then Inl (bound EncodedBytes)
       else ok_or (usize_checked_add (bytes - 4 * length names) text_bytes) (bound EncodedBytes)))"

definition bounded_tool_arguments_bytes ::
  "text_env \<Rightarrow> string option \<Rightarrow> JsonValue \<Rightarrow> (ObservationError, nat) result" where
  "bounded_tool_arguments_bytes tx name v =
    (let ordinary = result_bind (bounded_json_bytes tx v 1) (\<lambda>bytes.
       if LOCAL_MAX_VALUE_BYTES < bytes then Inl (bound EncodedBytes) else Inr bytes)
     in case v of
       Object members \<Rightarrow>
         result_bind (authored_text_fields name (\<lambda>fld. map_option json_text (bt_get fld members))) (\<lambda>authored.
           case authored of
             Some names \<Rightarrow> authored_bytes tx members names
           | None \<Rightarrow> ordinary)
     | String text \<Rightarrow> if is_bare_text_tool name then bounded_message_text_bytes text else ordinary
     | _ \<Rightarrow> ordinary)"

section \<open>Canonical form\<close>

function canonicalize_value :: "text_env \<Rightarrow> JsonValue \<Rightarrow> (ObservationError, JsonValue) result" where
  "canonicalize_value tx v =
    (case v of
       Number f \<Rightarrow> if is_finite f then Inr v else Inl (obs_error NonFiniteNumber)
     | String s \<Rightarrow> Inr (String (tx_nfc tx s))
     | Array values \<Rightarrow> result_bind (try_map (canonicalize_value tx) values) (\<lambda>xs. Inr (Array xs))
     | Object values \<Rightarrow>
         result_bind (try_fold (\<lambda>object (key, v).
             let key = tx_nfc tx key in
             if bt_get key object \<noteq> None then Inl (obs_error DuplicateObjectKey)
             else result_bind (canonicalize_value tx v) (\<lambda>c. Inr (bt_put key c object))) [] values)
           (\<lambda>object. Inr (Object object))
     | _ \<Rightarrow> Inr v)"
  by pat_completeness auto
termination
  by (relation "measure (\<lambda>(tx, v). size v)") (auto simp: less_Suc_eq_le intro: size_list_estimation' member_size)

declare canonicalize_value.simps [simp del]

section \<open>Local evidence\<close>

datatype Sensitivity = Normal | Sensitive | Secret | ReferenceOnly | Prohibited

datatype FactProvenance = Reported | Parsed | Derived | Inferred | Observed

definition non_empty :: "text_env \<Rightarrow> string \<Rightarrow> ValidationCode \<Rightarrow> (ObservationError, string) result" where
  "non_empty tx s code =
    (let s = tx_nfc tx s in
     if s = [] \<or> list_ex (\<lambda>c. byte c = 10) s \<or> list_ex (\<lambda>c. byte c = 13) s then Inl (obs_error code) else Inr s)"

definition opaque_text :: "text_env \<Rightarrow> string \<Rightarrow> ValidationCode \<Rightarrow> (ObservationError, string) result" where
  "opaque_text tx s code =
    result_bind (non_empty tx s code) (\<lambda>s.
      if CHR ''/'' \<in> List.set s \<or> CHR 0x5C \<in> List.set s \<or> sublist ''..'' s then Inl (obs_error PathDerivedId) else Inr s)"

record LocalReference =
  lr_handle :: string
  lr_retention_class :: string

definition local_reference :: "text_env \<Rightarrow> string \<Rightarrow> string \<Rightarrow> (ObservationError, LocalReference) result" where
  "local_reference tx handle retention_class =
    result_bind (opaque_text tx handle InvalidReference) (\<lambda>handle.
    result_bind (non_empty tx retention_class InvalidReference) (\<lambda>retention_class.
      if retention_class \<in> {''external'', ''exportable'', ''telemetry''} then Inl (obs_error ExportableReference)
      else Inr \<lparr>lr_handle = handle, lr_retention_class = retention_class\<rparr>))"

record KeyedFingerprint =
  kf_location :: string
  kf_key_epoch_ref :: string
  kf_algorithm :: string
  kf_digest :: string

record LocalValue =
  lv_value :: JsonValue
  lv_searchable :: "string option"
  lv_provenance :: FactProvenance
  lv_sensitivity :: Sensitivity
  lv_raw_ref :: "LocalReference option"
  lv_keyed_fingerprint :: "KeyedFingerprint option"

definition searchable_too_long :: "string option \<Rightarrow> bool" where
  "searchable_too_long s \<longleftrightarrow> (case s of None \<Rightarrow> False | Some t \<Rightarrow> LOCAL_MAX_SEARCHABLE_BYTES < length t)"

definition validate_value_bounds :: "text_env \<Rightarrow> LocalValue \<Rightarrow> (ObservationError, nat) result" where
  "validate_value_bounds tx l =
    result_bind (bounded_json_bytes tx (lv_value l) 1) (\<lambda>bytes.
      if LOCAL_MAX_VALUE_BYTES < bytes then Inl (obs_error UnboundedValue)
      else if searchable_too_long (lv_searchable l) then Inl (obs_error UnboundedValue)
      else if lv_raw_ref l \<noteq> None \<and> lv_sensitivity l = Normal then Inl (obs_error ReferenceSensitivity)
      else if lv_sensitivity l = Normal \<and> lv_keyed_fingerprint l \<noteq> None then Inl (obs_error FingerprintSensitivity)
      else Inr (bytes + (case lv_searchable l of None \<Rightarrow> 0 | Some t \<Rightarrow> length t)))"

definition local_value ::
  "text_env \<Rightarrow> JsonValue \<Rightarrow> string option \<Rightarrow> FactProvenance \<Rightarrow> Sensitivity \<Rightarrow> (ObservationError, LocalValue) result" where
  "local_value tx v searchable provenance sensitivity =
    (if sensitivity = Prohibited then Inl (obs_error ProhibitedSensitivity)
     else result_bind (canonicalize_value tx v) (\<lambda>v.
       let searchable = map_option (tx_nfc tx) searchable in
       if searchable_too_long searchable then Inl (obs_error UnboundedValue)
       else
         let l = \<lparr>lv_value = v, lv_searchable = searchable, lv_provenance = provenance, lv_sensitivity = sensitivity,
           lv_raw_ref = None, lv_keyed_fingerprint = None\<rparr>
         in result_bind (validate_value_bounds tx l) (\<lambda>_. Inr l)))"

definition with_raw_ref :: "LocalReference \<Rightarrow> LocalValue \<Rightarrow> (ObservationError, LocalValue) result" where
  "with_raw_ref r l =
    (if lv_sensitivity l = Normal then Inl (obs_error ReferenceSensitivity) else Inr (l\<lparr>lv_raw_ref := Some r\<rparr>))"

definition with_keyed_fingerprint :: "KeyedFingerprint \<Rightarrow> LocalValue \<Rightarrow> (ObservationError, LocalValue) result" where
  "with_keyed_fingerprint fp l =
    (if lv_sensitivity l = Normal then Inl (obs_error FingerprintSensitivity) else Inr (l\<lparr>lv_keyed_fingerprint := Some fp\<rparr>))"

record LocalEvidence =
  le_structured_values :: "(string, LocalValue) btree_map"
  le_raw_ref :: "LocalReference option"

definition empty_evidence :: LocalEvidence where
  "empty_evidence = \<lparr>le_structured_values = [], le_raw_ref = None\<rparr>"

definition REGISTERED_LOCAL_KEYS :: "string list" where
  "REGISTERED_LOCAL_KEYS =
    [''tool.arguments'', ''tool.result'', ''tool.definition'', ''tool.raw_result'', ''message.content'', ''message.content_parts'',
     ''message.raw_content'', ''inference.request'', ''inference.response'', ''inference.raw_response'', ''tool_definition.definition'',
     ''tool_definition.schema'', ''mcp.instruction'', ''mcp.inventory'', ''browser.page'', ''browser.navigation'']"

definition validate_local_key :: "string \<Rightarrow> (ObservationError, unit) result" where
  "validate_local_key key =
    (if LOCAL_MAX_KEY_BYTES < length key \<or> key \<notin> List.set REGISTERED_LOCAL_KEYS then Inl (obs_error InvalidLocalKey) else Inr ())"

definition validate_evidence_bounds :: "text_env \<Rightarrow> LocalEvidence \<Rightarrow> (ObservationError, unit) result" where
  "validate_evidence_bounds tx ev =
    (if LOCAL_MAX_ENTRIES < length (le_structured_values ev) then Inl (obs_error UnboundedValue)
     else result_bind (try_fold (\<lambda>total (key, l).
         if LOCAL_MAX_KEY_BYTES < length key then Inl (obs_error UnboundedValue)
         else result_bind (validate_local_key key) (\<lambda>_.
           result_bind (validate_value_bounds tx l) (\<lambda>bytes.
             ok_or (usize_checked_add total bytes) (obs_error UnboundedValue)))) 0 (le_structured_values ev)) (\<lambda>total.
       if LOCAL_MAX_TOTAL_BYTES < total then Inl (obs_error UnboundedValue) else Inr ()))"

definition evidence_insert :: "text_env \<Rightarrow> string \<Rightarrow> LocalValue \<Rightarrow> LocalEvidence \<Rightarrow> (ObservationError, LocalEvidence) result" where
  "evidence_insert tx key l ev =
    (let key = tx_nfc tx key in
     result_bind (validate_local_key key) (\<lambda>_.
       if LOCAL_MAX_ENTRIES \<le> length (le_structured_values ev) \<and> bt_get key (le_structured_values ev) = None
       then Inl (obs_error UnboundedValue)
       else
         let ev' = ev\<lparr>le_structured_values := bt_put key l (le_structured_values ev)\<rparr>
         in result_bind (validate_evidence_bounds tx ev') (\<lambda>_. Inr ev')))"

definition evidence_with_raw_ref :: "LocalReference \<Rightarrow> LocalEvidence \<Rightarrow> LocalEvidence" where
  "evidence_with_raw_ref r ev = ev\<lparr>le_raw_ref := Some r\<rparr>"

section \<open>Reference definitions\<close>

text \<open>The size of a value for a spelling of its floats, the structural bounds and the canonical form,
  without errors. The bound checks spell a float as \<open>Display\<close> does and the encoding as JSON does, so
  \<open>100.0\<close> counts three bytes for the bounds and five in the encoding.\<close>

fun spelled_size :: "(f64 \<Rightarrow> string) \<Rightarrow> JsonValue \<Rightarrow> nat" where
  "spelled_size fl Null = 4"
| "spelled_size fl (Bool b) = (if b then 4 else 5)"
| "spelled_size fl (Integer i) = length (show_int i)"
| "spelled_size fl (Unsigned n) = length (show_nat (unat n))"
| "spelled_size fl (Number f) = length (fl f)"
| "spelled_size fl (String s) = escaped_string_bytes s"
| "spelled_size fl (Array xs) = 2 + sum_list (map (spelled_size fl) xs) + (length xs - 1)"
| "spelled_size fl (Object ms) =
    2 + sum_list (map (\<lambda>(k, v). escaped_string_bytes k + 1 + spelled_size fl v) ms) + (length ms - 1)"

fun finite_numbers :: "JsonValue \<Rightarrow> bool" where
  "finite_numbers (Number f) \<longleftrightarrow> is_finite f"
| "finite_numbers (Array xs) \<longleftrightarrow> list_all finite_numbers xs"
| "finite_numbers (Object ms) \<longleftrightarrow> list_all (\<lambda>(k, v). finite_numbers v) ms"
| "finite_numbers v \<longleftrightarrow> True"

fun within :: "nat \<Rightarrow> JsonValue \<Rightarrow> bool" where
  "within d (Number f) \<longleftrightarrow> d \<le> LOCAL_MAX_DEPTH \<and> is_finite f"
| "within d (String s) \<longleftrightarrow> d \<le> LOCAL_MAX_DEPTH \<and> length s \<le> LOCAL_MAX_STRING_BYTES"
| "within d (Array xs) \<longleftrightarrow> d \<le> LOCAL_MAX_DEPTH \<and> length xs \<le> LOCAL_MAX_ARRAY_ITEMS \<and> list_all (within (d + 1)) xs"
| "within d (Object ms) \<longleftrightarrow> d \<le> LOCAL_MAX_DEPTH \<and> length ms \<le> LOCAL_MAX_OBJECT_MEMBERS
     \<and> list_all (\<lambda>(k, v). length k \<le> LOCAL_MAX_KEY_BYTES \<and> within (d + 1) v) ms"
| "within d v \<longleftrightarrow> d \<le> LOCAL_MAX_DEPTH"

fun canonical_form :: "text_env \<Rightarrow> JsonValue \<Rightarrow> bool" where
  "canonical_form tx (Number f) \<longleftrightarrow> is_finite f"
| "canonical_form tx (String s) \<longleftrightarrow> tx_nfc tx s = s"
| "canonical_form tx (Array xs) \<longleftrightarrow> list_all (canonical_form tx) xs"
| "canonical_form tx (Object ms) \<longleftrightarrow> bt_inv ms \<and> list_all (\<lambda>(k, v). tx_nfc tx k = k \<and> canonical_form tx v) ms"
| "canonical_form tx v \<longleftrightarrow> True"

section \<open>Sizes\<close>

lemma usize_checked_add_Some [simp]: "usize_checked_add a b = Some c \<longleftrightarrow> c = a + b \<and> a + b \<le> USIZE_MAX"
  by (auto simp: usize_checked_add_def)

text \<open>The loop that adds up the sizes of the elements.\<close>

definition size_loop :: "('a \<Rightarrow> (ObservationError, nat) result) \<Rightarrow> nat \<Rightarrow> nat \<Rightarrow> 'a list \<Rightarrow> (ObservationError, nat) result" where
  "size_loop F acc n xs = try_fold (\<lambda>total (index, x). result_bind (F x) (\<lambda>bytes.
     ok_or (usize_checked_add total (bytes + of_bool (index \<noteq> 0))) (bound EncodedBytes))) acc (List.enumerate n xs)"

lemma size_loop_Nil [simp]: "size_loop F acc n [] = Inr acc"
  by (simp add: size_loop_def)

lemma size_loop_Cons [simp]:
  "size_loop F acc n (x # xs) = result_bind (F x) (\<lambda>bytes.
     result_bind (ok_or (usize_checked_add acc (bytes + of_bool (n \<noteq> 0))) (bound EncodedBytes)) (\<lambda>acc'. size_loop F acc' (Suc n) xs))"
  unfolding size_loop_def enumerate_simps try_fold.simps prod.case by (cases "F x") (simp_all only: result_bind_simps)

lemma size_loop_Inr:
  assumes "size_loop F acc n xs = Inr t" and "\<And>x b. x \<in> set xs \<Longrightarrow> F x = Inr b \<Longrightarrow> b = S x"
  shows "t = acc + sum_list (map S xs) + (if n = 0 then length xs - 1 else length xs) \<and> (\<forall>x \<in> set xs. F x = Inr (S x))"
  using assms
proof (induction xs arbitrary: acc n)
  case (Cons x xs)
  from Cons.prems(1) obtain b where F: "F x = Inr b" and rest: "size_loop F (acc + (b + of_bool (n \<noteq> 0))) (Suc n) xs = Inr t"
    by (auto simp: result_bind_eq_Inr_iff ok_or_eq_Inr_iff)
  have b: "b = S x" by (rule Cons.prems(2) [OF _ F]) simp
  have "t = acc + (b + of_bool (n \<noteq> 0)) + sum_list (map S xs) + length xs \<and> (\<forall>x \<in> set xs. F x = Inr (S x))"
    using Cons.IH [OF rest Cons.prems(2)] by simp
  with F b show ?case by (cases xs) simp_all
qed simp

definition member_bytes :: "text_env \<Rightarrow> nat \<Rightarrow> string \<times> JsonValue \<Rightarrow> (ObservationError, nat) result" where
  "member_bytes tx depth m =
    (if LOCAL_MAX_KEY_BYTES < length (fst m) then Inl (bound KeyBytes)
     else result_bind (bounded_json_bytes tx (snd m) depth) (\<lambda>bytes. Inr (escaped_string_bytes (fst m) + 1 + bytes)))"

lemma bounded_json_bytes_array:
  "bounded_json_bytes tx (Array xs) d =
    (if LOCAL_MAX_DEPTH < d then Inl (bound Depth) else if LOCAL_MAX_ARRAY_ITEMS < length xs then Inl (bound ArrayItems)
     else size_loop (\<lambda>x. bounded_json_bytes tx x (d + 1)) 2 0 xs)"
  by (subst bounded_json_bytes.simps) (simp add: size_loop_def)

lemma bounded_json_bytes_object:
  "bounded_json_bytes tx (Object ms) d =
    (if LOCAL_MAX_DEPTH < d then Inl (bound Depth) else if LOCAL_MAX_OBJECT_MEMBERS < length ms then Inl (bound ObjectMembers)
     else size_loop (member_bytes tx (d + 1)) 2 0 ms)"
proof -
  have "(\<lambda>total (index, key, item). if LOCAL_MAX_KEY_BYTES < length key then Inl (bound KeyBytes)
           else result_bind (bounded_json_bytes tx item (d + 1)) (\<lambda>bytes.
             ok_or (usize_checked_add total (escaped_string_bytes key + 1 + bytes + of_bool (index \<noteq> 0))) (bound EncodedBytes)))
      = (\<lambda>total (index, x). result_bind (member_bytes tx (d + 1) x) (\<lambda>bytes.
     ok_or (usize_checked_add total (bytes + of_bool (index \<noteq> (0 :: nat)))) (bound EncodedBytes)))"
    by (auto simp: fun_eq_iff member_bytes_def result_bind_def split: sum.splits)
  then show ?thesis by (subst bounded_json_bytes.simps) (simp add: size_loop_def)
qed

lemma bounded_json_bytes_Inr:
  "bounded_json_bytes tx v d = Inr n \<Longrightarrow> within d v \<and> n = spelled_size (tx_float_display tx) v"
proof (induction v arbitrary: d n)
  case (Array xs)
  then have loop: "size_loop (\<lambda>x. bounded_json_bytes tx x (d + 1)) 2 0 xs = Inr n"
    and len: "d \<le> LOCAL_MAX_DEPTH" "length xs \<le> LOCAL_MAX_ARRAY_ITEMS"
    by (auto simp: bounded_json_bytes_array split: if_splits)
  from size_loop_Inr [OF loop, of "spelled_size (tx_float_display tx)"] Array.IH len show ?case by (auto simp: list_all_iff)
next
  case (Object ms)
  then have loop: "size_loop (member_bytes tx (d + 1)) 2 0 ms = Inr n"
    and len: "d \<le> LOCAL_MAX_DEPTH" "length ms \<le> LOCAL_MAX_OBJECT_MEMBERS"
    by (auto simp: bounded_json_bytes_object split: if_splits)
  have step: "b = (case x of (k, v) \<Rightarrow> escaped_string_bytes k + 1 + spelled_size (tx_float_display tx) v)
      \<and> length (fst x) \<le> LOCAL_MAX_KEY_BYTES \<and> within (d + 1) (snd x)"
    if "x \<in> set ms" "member_bytes tx (d + 1) x = Inr b" for x b
  proof -
    obtain k v where x: "x = (k, v)" by (cases x)
    from that obtain n' where "bounded_json_bytes tx v (d + 1) = Inr n'" "b = escaped_string_bytes k + 1 + n'" "length k \<le> LOCAL_MAX_KEY_BYTES"
      by (auto simp: x member_bytes_def result_bind_eq_Inr_iff split: if_splits)
    with Object.IH [of x v "d + 1" n'] that(1) show ?thesis by (simp add: x)
  qed
  have "n = spelled_size (tx_float_display tx) (Object ms) \<and> (\<forall>x \<in> set ms. \<exists>b. member_bytes tx (d + 1) x = Inr b)"
    using size_loop_Inr [OF loop, of "\<lambda>(k, v). escaped_string_bytes k + 1 + spelled_size (tx_float_display tx) v"] step by simp
  with step len show ?case by (fastforce simp: list_all_iff)
qed (auto simp: bounded_json_bytes.simps split: if_splits bool.splits)

lemma within_finite: "within d v \<Longrightarrow> finite_numbers v"
proof (induction v arbitrary: d)
  case (Object ms)
  then show ?case by (fastforce simp: list_all_iff)
qed (auto simp: list_all_iff)

lemma size_loop_fits:
  assumes "\<forall>x \<in> set xs. F x = Inr (S x)"
    and "acc + sum_list (map S xs) + (if n = 0 then length xs - 1 else length xs) \<le> USIZE_MAX"
  shows "size_loop F acc n xs = Inr (acc + sum_list (map S xs) + (if n = 0 then length xs - 1 else length xs))"
  using assms
proof (induction xs arbitrary: acc n)
  case (Cons x xs)
  have "size_loop F (acc + (S x + of_bool (n \<noteq> 0))) (Suc n) xs
      = Inr (acc + (S x + of_bool (n \<noteq> 0)) + sum_list (map S xs) + length xs)"
    using Cons.IH [of "acc + (S x + of_bool (n \<noteq> 0))" "Suc n"] Cons.prems by (cases "n = 0") auto
  then show ?case using Cons.prems by (cases "n = 0") (simp_all add: usize_checked_add_def)
qed simp

text \<open>The encoded size is the same sum with the JSON spelling of floats.\<close>

lemma encoded_byte_len_exact:
  "finite_numbers v \<Longrightarrow> spelled_size (tx_float_json tx) v \<le> USIZE_MAX
    \<Longrightarrow> encoded_byte_len tx v = Inr (spelled_size (tx_float_json tx) v)"
proof (induction v)
  case (Array xs)
  have items: "\<forall>x \<in> set xs. encoded_byte_len tx x = Inr (spelled_size (tx_float_json tx) x)"
    using Array member_le_sum_list [of _ "map (spelled_size (tx_float_json tx)) xs"] by (fastforce simp: list_all_iff)
  have "encoded_byte_len tx (Array xs) = size_loop (encoded_byte_len tx) 2 0 xs"
    by (subst encoded_byte_len.simps) (simp add: size_loop_def)
  then show ?case using size_loop_fits [OF items, of 2 0] Array.prems(2) by simp
next
  case (Object ms)
  let ?S = "\<lambda>(k, v). escaped_string_bytes k + 1 + spelled_size (tx_float_json tx) v"
  let ?F = "\<lambda>(k, v). result_bind (encoded_byte_len tx v) (\<lambda>bytes. Inr (escaped_string_bytes k + 1 + bytes))"
  have items: "\<forall>x \<in> set ms. ?F x = Inr (?S x)"
  proof
    fix x assume x: "x \<in> set ms"
    obtain k v where kv: "x = (k, v)" by (cases x)
    have "?S x \<le> sum_list (map ?S ms)" using x by (intro member_le_sum_list) auto
    then have "spelled_size (tx_float_json tx) v \<le> USIZE_MAX" using Object.prems(2) kv by simp
    moreover have "finite_numbers v" using Object.prems(1) x kv by (auto simp: list_all_iff)
    ultimately have "encoded_byte_len tx v = Inr (spelled_size (tx_float_json tx) v)"
      using Object.IH [OF x, of v] kv by simp
    then show "?F x = Inr (?S x)" by (simp add: kv)
  qed
  have "(\<lambda>total (index, key, item). result_bind (encoded_byte_len tx item) (\<lambda>bytes.
             ok_or (usize_checked_add total (escaped_string_bytes key + 1 + bytes + of_bool (index \<noteq> 0))) (bound EncodedBytes)))
      = (\<lambda>total (index, x). result_bind (?F x) (\<lambda>bytes.
     ok_or (usize_checked_add total (bytes + of_bool (index \<noteq> (0 :: nat)))) (bound EncodedBytes)))"
    by (auto simp: fun_eq_iff result_bind_def split: sum.splits)
  then have "encoded_byte_len tx (Object ms) = size_loop ?F 2 0 ms"
    by (subst encoded_byte_len.simps) (simp add: size_loop_def)
  then show ?case using size_loop_fits [OF items, of 2 0] Object.prems(2) by simp
qed (auto simp: encoded_byte_len.simps bounded_json_bytes.simps LOCAL_MAX_DEPTH_def split: bool.splits)

section \<open>Objects\<close>

text \<open>The loop that inserts members under normalised keys and refuses a second member of a key.\<close>

definition object_loop ::
  "(string \<Rightarrow> string) \<Rightarrow> ('a \<Rightarrow> (ObservationError, 'b) result) \<Rightarrow> (string, 'b) btree_map \<Rightarrow> (string \<times> 'a) list
    \<Rightarrow> (ObservationError, (string, 'b) btree_map) result" where
  "object_loop N F acc vs = try_fold (\<lambda>object (key, v). let key = N key in
     if bt_get key object \<noteq> None then Inl (obs_error DuplicateObjectKey)
     else result_bind (F v) (\<lambda>c. Inr (bt_put key c object))) acc vs"

lemma object_loop_Nil [simp]: "object_loop N F acc [] = Inr acc"
  by (simp add: object_loop_def)

lemma object_loop_Cons [simp]:
  "object_loop N F acc ((k, v) # vs) = (if bt_get (N k) acc \<noteq> None then Inl (obs_error DuplicateObjectKey)
     else result_bind (F v) (\<lambda>c. object_loop N F (bt_put (N k) c acc) vs))"
  by (cases "F v") (simp_all add: object_loop_def Let_def)

lemma json_object_loop: "json_object tx vs = result_bind (object_loop (tx_nfc tx) Inr [] vs) (\<lambda>object. Inr (Object object))"
  unfolding json_object_def object_loop_def result_bind_simps ..

lemma canonicalize_value_simps:
  "canonicalize_value tx Null = Inr Null" "canonicalize_value tx (Bool b) = Inr (Bool b)"
  "canonicalize_value tx (Integer i) = Inr (Integer i)" "canonicalize_value tx (Unsigned n) = Inr (Unsigned n)"
  "canonicalize_value tx (Number f) = (if is_finite f then Inr (Number f) else Inl (obs_error NonFiniteNumber))"
  "canonicalize_value tx (String s) = Inr (String (tx_nfc tx s))"
  "canonicalize_value tx (Array xs) = result_bind (try_map (canonicalize_value tx) xs) (\<lambda>xs. Inr (Array xs))"
  "canonicalize_value tx (Object ms) = result_bind (object_loop (tx_nfc tx) (canonicalize_value tx) [] ms) (\<lambda>object. Inr (Object object))"
  by (subst canonicalize_value.simps, simp add: object_loop_def)+

lemma bt_get_member: "bt_inv m \<Longrightarrow> (k, v) \<in> set m \<Longrightarrow> bt_get k m = Some v"
  by (simp add: bt_get_def bt_inv_def strict_sorted_iff)

lemma length_bt_put_new: "bt_get k m = None \<Longrightarrow> length (bt_put k v m) = Suc (length m)"
  by (induction m) (auto simp: bt_get_def split: if_splits)

lemma object_loop_Inr:
  assumes "object_loop N F acc vs = Inr m" and "bt_inv acc"
  shows "bt_inv m \<and> length m = length acc + length vs
    \<and> (\<forall>k c. bt_get k m = Some c \<longleftrightarrow> bt_get k acc = Some c \<or> (\<exists>k0 v. (k0, v) \<in> set vs \<and> N k0 = k \<and> F v = Inr c))
    \<and> (\<forall>k v. (k, v) \<in> set vs \<longrightarrow> (\<exists>c. F v = Inr c) \<and> bt_get (N k) acc = None)"
  using assms
proof (induction vs arbitrary: acc)
  case (Cons p vs)
  obtain k v where p: "p = (k, v)" by (cases p)
  from Cons.prems(1) obtain c where new: "bt_get (N k) acc = None" and c: "F v = Inr c"
    and rest: "object_loop N F (bt_put (N k) c acc) vs = Inr m"
    by (auto simp: p result_bind_eq_Inr_iff split: if_splits)
  have inv: "bt_inv (bt_put (N k) c acc)" using Cons.prems(2) by (rule bt_inv_put)
  note IH = Cons.IH [OF rest inv]
  have get: "bt_get k' (bt_put (N k) c acc) = (if k' = N k then Some c else bt_get k' acc)" for k'
    by (rule bt_get_put [OF Cons.prems(2)])
  have len: "length (bt_put (N k) c acc) = Suc (length acc)" using new by (rule length_bt_put_new)
  have a: "bt_get k' m = Some c' \<longleftrightarrow> bt_get k' acc = Some c' \<or> (\<exists>k0 v. (k0, v) \<in> set (p # vs) \<and> N k0 = k' \<and> F v = Inr c')" for k' c'
    using IH new c by (auto simp: get p split: if_splits)
  have b: "(\<exists>c. F w = Inr c) \<and> bt_get (N k') acc = None" if "(k', w) \<in> set (p # vs)" for k' w
    using IH that new c by (auto simp: get p split: if_splits)
  from IH a b len show ?case by simp
qed simp

lemma canonical_Inr:
  assumes idem: "\<forall>s. tx_nfc tx (tx_nfc tx s) = tx_nfc tx s"
  shows "canonicalize_value tx v = Inr c \<Longrightarrow> canonical_form tx c"
proof (induction v arbitrary: c)
  case (Array xs)
  then obtain ys where "try_map (canonicalize_value tx) xs = Inr ys" "c = Array ys"
    by (auto simp: canonicalize_value_simps result_bind_eq_Inr_iff)
  with Array.IH show ?case by (auto simp: list_all_iff dest!: try_map_mem)
next
  case (Object ms)
  then obtain m where m: "object_loop (tx_nfc tx) (canonicalize_value tx) [] ms = Inr m" and c: "c = Object m"
    by (auto simp: canonicalize_value_simps result_bind_eq_Inr_iff)
  have inv: "bt_inv m" and get: "\<And>k c. bt_get k m = Some c \<longleftrightarrow> (\<exists>k0 v. (k0, v) \<in> set ms \<and> tx_nfc tx k0 = k \<and> canonicalize_value tx v = Inr c)"
    using object_loop_Inr [OF m] by simp_all
  have "tx_nfc tx k = k \<and> canonical_form tx x" if "(k, x) \<in> set m" for k x
  proof -
    have "bt_get k m = Some x" using inv that by (rule bt_get_member)
    then obtain k0 v where "(k0, v) \<in> set ms" "tx_nfc tx k0 = k" "canonicalize_value tx v = Inr x" unfolding get by blast
    with Object.IH [of "(k0, v)" v x] idem show ?thesis by auto
  qed
  with inv show ?case by (auto simp: c list_all_iff)
qed (auto simp: canonicalize_value_simps idem split: if_splits)


lemma bt_put_greatest: "\<forall>p \<in> set m. fst p < k \<Longrightarrow> bt_put k v m = m @ [(k, v)]"
  by (induction m) auto

lemma object_loop_sorted:
  assumes "bt_inv (acc @ vs)" and "\<forall>(k, v) \<in> set vs. N k = k \<and> F v = Inr v"
  shows "object_loop N F acc vs = Inr (acc @ vs)"
  using assms
proof (induction vs arbitrary: acc)
  case (Cons p vs)
  obtain k v where p: "p = (k, v)" by (cases p)
  have less: "\<forall>q \<in> set acc. fst q < k" using Cons.prems(1) by (auto simp: p bt_inv_def sorted_wrt_append)
  then have "bt_get k acc = None" by (auto simp: bt_get_def map_of_eq_None_iff)
  with Cons.prems Cons.IH [of "acc @ [(k, v)]"] less show ?case by (auto simp: p bt_put_greatest)
qed simp

lemma canonical_fixed: "canonical_form tx v \<Longrightarrow> canonicalize_value tx v = Inr v"
proof (induction v)
  case (Array xs)
  then have "try_map (canonicalize_value tx) xs = Inr xs"
    by (induction xs) (auto simp: list_all_iff)
  then show ?case by (simp add: canonicalize_value_simps)
next
  case (Object ms)
  have "canonicalize_value tx v = Inr v" if "(k, v) \<in> set ms" for k v
    using that Object.prems by (intro Object.IH [of "(k, v)"]) (auto simp: list_all_iff)
  then have "object_loop (tx_nfc tx) (canonicalize_value tx) [] ms = Inr ([] @ ms)"
    using Object.prems by (intro object_loop_sorted) (auto simp: list_all_iff)
  then show ?case by (simp add: canonicalize_value_simps)
qed (simp_all add: canonicalize_value_simps)

text \<open>What is converted from a source is canonical.\<close>

lemma convert_canonical:
  assumes idem: "\<forall>s. tx_nfc tx (tx_nfc tx s) = tx_nfc tx s"
  shows "convert_source_value tx v d = Inr c \<Longrightarrow> canonical_form tx c"
proof (induction v arbitrary: d c)
  case (SNumber n)
  then show ?case
    by (auto simp: convert_source_value.simps [of tx "SNumber n"] result_bind_eq_Inr_iff ok_or_eq_Inr_iff json_number_def
        split: if_splits option.splits)
next
  case (SArray xs)
  then obtain ys where "try_map (\<lambda>v. convert_source_value tx v (d + 1)) xs = Inr ys" "c = Array ys"
    by (auto simp: convert_source_value.simps [of tx "SArray xs"] result_bind_eq_Inr_iff split: if_splits)
  with SArray.IH show ?case by (auto simp: list_all_iff dest!: try_map_mem)
next
  case (SObject ms)
  then obtain vs m where vs: "try_map (\<lambda>(key, v). result_bind (convert_source_value tx v (d + 1)) (\<lambda>c. Inr (key, c))) ms = Inr vs"
    and m: "object_loop (tx_nfc tx) Inr [] vs = Inr m" and c: "c = Object m"
    by (auto simp: convert_source_value.simps [of tx "SObject ms"] result_bind_eq_Inr_iff json_object_loop split: if_splits)
  have inv: "bt_inv m" and get: "\<And>k c. bt_get k m = Some c \<longleftrightarrow> (\<exists>k0. (k0, c) \<in> set vs \<and> tx_nfc tx k0 = k)"
    using object_loop_Inr [OF m] by auto
  have "tx_nfc tx k = k \<and> canonical_form tx x" if "(k, x) \<in> set m" for k x
  proof -
    obtain k0 where "(k0, x) \<in> set vs" "tx_nfc tx k0 = k" using bt_get_member [OF inv \<open>(k, x) \<in> set m\<close>] get by blast
    moreover from try_map_mem [OF vs this(1)] obtain v where "(k0, v) \<in> set ms" "convert_source_value tx v (d + 1) = Inr x"
      by (auto simp: result_bind_eq_Inr_iff)
    ultimately show ?thesis using SObject.IH [of "(k0, v)" v] idem by auto
  qed
  with inv show ?case by (auto simp: c list_all_iff)
qed (auto simp: convert_source_value.simps json_string_def idem split: if_splits)

section \<open>Authored text is the same before and after conversion\<close>

definition authored_names :: "string list" where
  "authored_names = concat (map snd AUTHORED_TEXT_ARGUMENTS)"

text \<open>What normalisation does to the names of authored fields: no other string becomes one of them.\<close>

definition names_stable :: "text_env \<Rightarrow> bool" where
  "names_stable tx \<longleftrightarrow> (\<forall>f \<in> set authored_names. \<forall>k. tx_nfc tx k = f \<longleftrightarrow> k = f)"

lemma find_authored:
  assumes "find (\<lambda>(tool, names). Some tool = name) AUTHORED_TEXT_ARGUMENTS = Some (tool, names)"
  shows "set names \<subseteq> set authored_names" "distinct names"
proof -
  have mem: "(tool, names) \<in> set AUTHORED_TEXT_ARGUMENTS" using assms by (auto simp: find_Some_iff in_set_conv_nth)
  then show "set names \<subseteq> set authored_names" by (force simp: authored_names_def)
  show "distinct names" using mem by (auto simp: AUTHORED_TEXT_ARGUMENTS_def)
qed

lemma authored_fold:
  assumes "try_fold (\<lambda>present fld. case g fld of Some (Some _) \<Rightarrow> Inr (present @ [fld])
     | Some None \<Rightarrow> if b then Inl (obs_error InvalidBody) else Inr present | None \<Rightarrow> Inr present) acc names = Inr found"
  shows "found = acc @ filter (\<lambda>f. \<exists>t. g f = Some (Some t)) names"
  using assms
proof (induction names arbitrary: acc)
  case (Cons a names)
  from Cons.prems show ?case by (auto dest!: Cons.IH split: option.splits if_splits)
qed simp

lemma authored_text_fields_Inr:
  assumes "authored_text_fields name g = Inr (Some found)"
  shows "set found \<subseteq> set authored_names" "distinct found" "\<forall>f \<in> set found. \<exists>t. g f = Some (Some t)"
proof -
  obtain tool names where f: "find (\<lambda>(tool, names). Some tool = name) AUTHORED_TEXT_ARGUMENTS = Some (tool, names)"
    and r: "found = filter (\<lambda>f. \<exists>t. g f = Some (Some t)) names"
    using assms by (auto simp: authored_text_fields_def result_bind_eq_Inr_iff dest!: authored_fold split: option.splits if_splits)
  then show "set found \<subseteq> set authored_names" "distinct found" "\<forall>f \<in> set found. \<exists>t. g f = Some (Some t)"
    using find_authored [OF f] by auto
qed

lemma authored_text_fields_cong:
  assumes "\<forall>f \<in> set authored_names. map_option (\<lambda>x. x \<noteq> None) (g f) = map_option (\<lambda>x. x \<noteq> None) (g' f)"
  shows "authored_text_fields name g = authored_text_fields name g'"
proof -
  have "try_fold (\<lambda>present fld. case g fld of Some (Some _) \<Rightarrow> Inr (present @ [fld])
       | Some None \<Rightarrow> if b then Inl (obs_error InvalidBody) else Inr present | None \<Rightarrow> Inr present) acc names
     = try_fold (\<lambda>present fld. case g' fld of Some (Some _) \<Rightarrow> Inr (present @ [fld])
       | Some None \<Rightarrow> if b then Inl (obs_error InvalidBody) else Inr present | None \<Rightarrow> Inr present) acc names"
    if "set names \<subseteq> set authored_names" for b acc names
  proof (rule try_fold_cong)
    fix a x assume "x \<in> set names"
    with that assms have "map_option (\<lambda>x. x \<noteq> None) (g x) = map_option (\<lambda>x. x \<noteq> None) (g' x)" by blast
    then show "(case g x of Some (Some _) \<Rightarrow> Inr (a @ [x]) | Some None \<Rightarrow> if b then Inl (obs_error InvalidBody) else Inr a | None \<Rightarrow> Inr a)
      = (case g' x of Some (Some _) \<Rightarrow> Inr (a @ [x]) | Some None \<Rightarrow> if b then Inl (obs_error InvalidBody) else Inr a | None \<Rightarrow> Inr a)"
      by (cases "g x"; cases "g' x") (auto split: option.splits)
  qed simp_all
  with find_authored show ?thesis
    by (auto simp: authored_text_fields_def split: option.splits)
qed

lemma convert_text:
  assumes "convert_source_value tx v d = Inr c"
  shows "json_text c \<noteq> None \<longleftrightarrow> source_text v \<noteq> None"
  using assms
  by (cases v) (auto simp: convert_source_value.simps result_bind_eq_Inr_iff ok_or_eq_Inr_iff json_number_def json_string_def
      json_object_loop json_text_def source_text_def split: if_splits option.splits)

text \<open>The members of a skeleton, with \<open>null\<close> in place of authored text.\<close>

definition skeleton_members :: "text_env \<Rightarrow> string list \<Rightarrow> (string \<times> source_value) list \<Rightarrow> (ObservationError, (string \<times> JsonValue) list) result" where
  "skeleton_members tx names members = try_map (\<lambda>(key, v).
     if key \<in> List.set names then Inr (key, Null)
     else result_bind (convert_source_value tx v 2) (\<lambda>c. Inr (key, c))) members"

lemma skeleton_get:
  assumes sk: "skeleton_members tx names members = Inr vs" and loop: "object_loop (tx_nfc tx) Inr [] vs = Inr m"
    and inv: "bt_inv members" and st: "names_stable tx" and f: "f \<in> set authored_names"
  shows "case bt_get f members of None \<Rightarrow> bt_get f m = None
    | Some v \<Rightarrow> if f \<in> set names then bt_get f m = Some Null else (\<exists>c. convert_source_value tx v 2 = Inr c \<and> bt_get f m = Some c)"
proof -
  have get: "bt_get f m = Some c \<longleftrightarrow> (f, c) \<in> set vs" for c
    using object_loop_Inr [OF loop] st f by (auto simp: names_stable_def)
  have vs: "(f, c) \<in> set vs \<Longrightarrow> \<exists>v. bt_get f members = Some v \<and> (if f \<in> set names then c = Null else convert_source_value tx v 2 = Inr c)" for c
  proof -
    assume "(f, c) \<in> set vs"
    from try_map_mem [OF sk [unfolded skeleton_members_def] this] obtain v where "(f, v) \<in> set members"
      "if f \<in> set names then c = Null else convert_source_value tx v 2 = Inr c"
      by (auto simp: result_bind_eq_Inr_iff split: if_splits)
    with bt_get_member [OF inv] show ?thesis by blast
  qed
  have sv: "bt_get f members = Some v \<Longrightarrow> \<exists>c. (f, c) \<in> set vs \<and> (if f \<in> set names then c = Null else convert_source_value tx v 2 = Inr c)" for v
  proof -
    assume "bt_get f members = Some v"
    then have "(f, v) \<in> set members" by (simp add: bt_get_def map_of_SomeD)
    from try_map_covers [OF sk [unfolded skeleton_members_def] this] obtain y where "y \<in> set vs"
      "(if f \<in> set names then Inr (f, Null) else result_bind (convert_source_value tx v 2) (\<lambda>c. Inr (f, c))) = Inr y" by auto
    then show ?thesis by (auto simp: result_bind_eq_Inr_iff split: if_splits)
  qed
  show ?thesis
  proof (cases "bt_get f members")
    case None
    have "\<forall>c. bt_get f m \<noteq> Some c" using vs None get by auto
    with None show ?thesis by simp
  next
    case (Some v)
    from sv [OF Some] obtain c where "bt_get f m = Some c" "if f \<in> set names then c = Null else convert_source_value tx v 2 = Inr c"
      using get by blast
    with Some show ?thesis by (simp split: if_splits)
  qed
qed


section \<open>Both size checks agree\<close>

definition with_text :: "string list \<Rightarrow> (string \<Rightarrow> string) \<Rightarrow> string \<times> JsonValue \<Rightarrow> string \<times> JsonValue" where
  "with_text names T m = (fst m, if fst m \<in> set names then String (T (fst m)) else snd m)"

lemma text_fold:
  assumes "try_fold (\<lambda>converted fld. result_bind (try_from_source_message_text tx (T fld)) (\<lambda>text. Inr (bt_put fld text converted))) m names = Inr m'"
    and "bt_inv m"
  shows "bt_inv m' \<and> (\<forall>k. bt_get k m' = (if k \<in> set names then Some (String (tx_nfc tx (T k))) else bt_get k m))
    \<and> (\<forall>f \<in> set names. length (tx_nfc tx (T f)) \<le> MESSAGE_MAX_TEXT_BYTES)"
  using assms
proof (induction names arbitrary: m)
  case (Cons f names)
  from Cons.prems(1) have rest: "try_fold (\<lambda>converted fld. result_bind (try_from_source_message_text tx (T fld)) (\<lambda>text. Inr (bt_put fld text converted)))
      (bt_put f (String (tx_nfc tx (T f))) m) names = Inr m'" and len: "length (tx_nfc tx (T f)) \<le> MESSAGE_MAX_TEXT_BYTES"
    by (auto simp: try_from_source_message_text_def bounded_message_text_bytes_def result_bind_eq_Inr_iff split: if_splits)
  from Cons.IH [OF rest bt_inv_put [OF Cons.prems(2)]] len show ?case by (auto simp: bt_get_put [OF Cons.prems(2)])
qed simp

lemma text_fold_members:
  assumes "bt_inv m" "bt_inv m'" and "\<forall>k. bt_get k m' = (if k \<in> set names then Some (String (T k)) else bt_get k m)"
    and "\<forall>f \<in> set names. bt_get f m \<noteq> None"
  shows "m' = map (with_text names T) m"
proof (rule bt_eqI)
  have keys: "map fst (map (with_text names T) m) = map fst m" by (simp add: with_text_def comp_def)
  show "bt_inv (map (with_text names T) m)" using assms(1) unfolding bt_inv_def keys .
  have "bt_get k (map (with_text names T) m) = map_option (\<lambda>v. if k \<in> set names then String (T k) else v) (bt_get k m)" for k
    by (induction m) (auto simp: with_text_def bt_get_def)
  with assms(3,4) show "bt_get k m' = bt_get k (map (with_text names T) m)" for k
    by (cases "bt_get k m") auto
qed (rule assms(2))

lemma escaped_bound: "escaped_string_bytes s \<le> 2 + 6 * length s"
proof -
  have "sum_list (map escaped_char_bytes s) \<le> sum_list (map (\<lambda>_. 6) s)"
    by (rule sum_list_mono) (simp add: escaped_char_bytes_def)
  then show ?thesis by (simp add: escaped_string_bytes_def sum_list_triv)
qed

definition text_bytes :: "string list \<Rightarrow> (string \<Rightarrow> string) \<Rightarrow> (string \<times> JsonValue) list \<Rightarrow> nat" where
  "text_bytes names T ms = sum_list (map (\<lambda>m. if fst m \<in> set names then escaped_string_bytes (T (fst m)) else 0) ms)"

definition authored_step ::
  "text_env \<Rightarrow> string list \<Rightarrow> nat \<times> nat \<Rightarrow> nat \<times> string \<times> JsonValue \<Rightarrow> (ObservationError, nat \<times> nat) result" where
  "authored_step tx names = (\<lambda>(bytes, text_bytes) (index, key, item).
           if LOCAL_MAX_KEY_BYTES < length key then Inl (bound KeyBytes)
           else
             result_bind (case item of
                 String text \<Rightarrow>
                   if key \<in> List.set names
                   then result_bind (bounded_message_text_bytes text) (\<lambda>n.
                     result_bind (ok_or (usize_checked_add text_bytes n) (bound EncodedBytes)) (\<lambda>text_bytes. Inr (4, text_bytes)))
                   else result_bind (bounded_json_bytes tx item 2) (\<lambda>n. Inr (n, text_bytes))
               | _ \<Rightarrow> result_bind (bounded_json_bytes tx item 2) (\<lambda>n. Inr (n, text_bytes))) (\<lambda>(item_bytes, text_bytes).
             result_bind (ok_or (usize_checked_add bytes (escaped_string_bytes key + 1 + item_bytes + of_bool (index \<noteq> 0)))
                 (bound EncodedBytes)) (\<lambda>bytes. Inr (bytes, text_bytes))))"

lemma authored_bytes_loop:
  "authored_bytes tx members names =
    (if LOCAL_MAX_OBJECT_MEMBERS < length members then Inl (bound ObjectMembers)
     else result_bind (try_fold (authored_step tx names) (2, 0) (List.enumerate 0 members)) (\<lambda>(bytes, text_bytes).
       if LOCAL_MAX_VALUE_BYTES < bytes then Inl (bound EncodedBytes)
       else ok_or (usize_checked_add (bytes - 4 * length names) text_bytes) (bound EncodedBytes)))"
  unfolding authored_bytes_def authored_step_def ..

lemma authored_step_text:
  assumes "member_bytes tx 2 (k, Null) = Inr n" and "k \<in> set names" and "length text \<le> MESSAGE_MAX_TEXT_BYTES"
    and "acc + (n + of_bool (i \<noteq> 0)) \<le> USIZE_MAX" and "ta + escaped_string_bytes text \<le> USIZE_MAX"
  shows "authored_step tx names (acc, ta) (i, k, String text) = Inr (acc + (n + of_bool (i \<noteq> 0)), ta + escaped_string_bytes text)"
  using assms
  by (auto simp: authored_step_def member_bytes_def bounded_message_text_bytes_def bounded_json_bytes.simps usize_checked_add_def
      LOCAL_MAX_DEPTH_def result_bind_eq_Inr_iff split: if_splits)

lemma authored_step_other:
  assumes "member_bytes tx 2 (k, v) = Inr n" and "k \<notin> set names" and "acc + (n + of_bool (i \<noteq> 0)) \<le> USIZE_MAX"
  shows "authored_step tx names (acc, ta) (i, k, v) = Inr (acc + (n + of_bool (i \<noteq> 0)), ta)"
proof -
  from assms(1) obtain b where b: "bounded_json_bytes tx v 2 = Inr b" and n: "n = escaped_string_bytes k + 1 + b"
    and k: "\<not> LOCAL_MAX_KEY_BYTES < length k"
    by (auto simp: member_bytes_def result_bind_eq_Inr_iff split: if_splits)
  have "(case v of String text \<Rightarrow> if k \<in> set names
       then result_bind (bounded_message_text_bytes text) (\<lambda>n.
         result_bind (ok_or (usize_checked_add ta n) (bound EncodedBytes)) (\<lambda>text_bytes. Inr (4, text_bytes)))
       else result_bind (bounded_json_bytes tx v 2) (\<lambda>n. Inr (n, ta))
     | _ \<Rightarrow> result_bind (bounded_json_bytes tx v 2) (\<lambda>n. Inr (n, ta))) = Inr (b, ta)"
    using assms(2) b by (cases v) simp_all
  then show ?thesis using assms(3) k by (simp add: authored_step_def n usize_checked_add_def)
qed

lemma authored_loop:
  assumes "size_loop (member_bytes tx 2) acc n ms = Inr t" and "\<forall>(k, v) \<in> set ms. k \<in> set names \<longrightarrow> v = Null"
    and "\<forall>(k, v) \<in> set ms. k \<in> set names \<longrightarrow> length (T k) \<le> MESSAGE_MAX_TEXT_BYTES"
    and "ta + text_bytes names T ms \<le> USIZE_MAX"
  shows "try_fold (authored_step tx names) (acc, ta) (List.enumerate n (map (with_text names T) ms)) = Inr (t, ta + text_bytes names T ms)"
  using assms
proof (induction ms arbitrary: acc n ta)
  case (Cons m ms)
  obtain k v where m: "m = (k, v)" by (cases m)
  from Cons.prems(1) obtain b where b: "member_bytes tx 2 (k, v) = Inr b" "acc + (b + of_bool (n \<noteq> 0)) \<le> USIZE_MAX"
    and rest: "size_loop (member_bytes tx 2) (acc + (b + of_bool (n \<noteq> 0))) (Suc n) ms = Inr t"
    by (auto simp: m result_bind_eq_Inr_iff ok_or_eq_Inr_iff)
  let ?u = "if k \<in> set names then escaped_string_bytes (T k) else 0"
  have tot: "ta + text_bytes names T (m # ms) = (ta + ?u) + text_bytes names T ms" by (simp add: text_bytes_def m)
  have "authored_step tx names (acc, ta) (n, with_text names T m) = Inr (acc + (b + of_bool (n \<noteq> 0)), ta + ?u)"
  proof (cases "k \<in> set names")
    case True
    then have "v = Null" "length (T k) \<le> MESSAGE_MAX_TEXT_BYTES" using Cons.prems(2,3) by (auto simp: m)
    with True b tot Cons.prems(4) show ?thesis
      using authored_step_text [of tx k b names "T k" acc n ta] by (simp add: with_text_def m)
  next
    case False
    with b show ?thesis using authored_step_other [of tx k v b names acc n ta] by (simp add: with_text_def m)
  qed
  moreover have "try_fold (authored_step tx names) (acc + (b + of_bool (n \<noteq> 0)), ta + ?u) (List.enumerate (Suc n) (map (with_text names T) ms))
      = Inr (t, ta + ?u + text_bytes names T ms)"
    using Cons.prems(2-4) tot by (intro Cons.IH [OF rest]) auto
  ultimately show ?case unfolding tot list.map enumerate_simps try_fold.simps by simp
qed (simp add: text_bytes_def)

lemma text_bytes_bound:
  assumes "length ms \<le> LOCAL_MAX_OBJECT_MEMBERS" and "\<forall>(k, v) \<in> set ms. k \<in> set names \<longrightarrow> length (T k) \<le> MESSAGE_MAX_TEXT_BYTES"
  shows "text_bytes names T ms \<le> 12583040"
proof -
  have "text_bytes names T ms \<le> sum_list (map (\<lambda>_. 393220) ms)" unfolding text_bytes_def
  proof (rule sum_list_mono)
    fix m assume "m \<in> set ms"
    with assms(2) have "fst m \<in> set names \<longrightarrow> length (T (fst m)) \<le> 65536" by (cases m) (auto simp: MESSAGE_MAX_TEXT_BYTES_def)
    then show "(if fst m \<in> set names then escaped_string_bytes (T (fst m)) else 0) \<le> 393220"
      using escaped_bound [of "T (fst m)"] by auto
  qed
  with assms(1) show ?thesis by (simp add: sum_list_triv LOCAL_MAX_OBJECT_MEMBERS_def)
qed

lemma size_with_text:
  assumes "\<forall>(k, v) \<in> set ms. k \<in> set names \<longrightarrow> v = Null"
  shows "spelled_size (tx_float_display tx) (Object (map (with_text names T) ms)) + 4 * length (filter (\<lambda>m. fst m \<in> set names) ms)
    = spelled_size (tx_float_display tx) (Object ms) + text_bytes names T ms"
proof -
  have "sum_list (map (\<lambda>(k, v). escaped_string_bytes k + 1 + spelled_size (tx_float_display tx) v) (map (with_text names T) ms))
      + 4 * length (filter (\<lambda>m. fst m \<in> set names) ms)
    = sum_list (map (\<lambda>(k, v). escaped_string_bytes k + 1 + spelled_size (tx_float_display tx) v) ms) + text_bytes names T ms"
    using assms by (induction ms) (auto simp: with_text_def text_bytes_def)
  then show ?thesis by simp
qed

lemma null_size:
  assumes "\<forall>(k, v) \<in> set ms. k \<in> set names \<longrightarrow> v = Null"
  shows "4 * length (filter (\<lambda>m. fst m \<in> set names) ms) \<le> spelled_size (tx_float_display tx) (Object ms)"
proof -
  have "4 * length (filter (\<lambda>m. fst m \<in> set names) ms) \<le> sum_list (map (\<lambda>(k, v). escaped_string_bytes k + 1 + spelled_size (tx_float_display tx) v) ms)"
    using assms by (induction ms) auto
  then show ?thesis by simp
qed

lemma count_names:
  assumes "bt_inv ms" and "distinct names" and "\<forall>f \<in> set names. bt_get f ms \<noteq> None"
  shows "length (filter (\<lambda>m. fst m \<in> set names) ms) = length names"
proof -
  have d: "distinct (map fst ms)" using assms(1) by (simp add: bt_inv_def strict_sorted_iff)
  have "length (filter (\<lambda>m. fst m \<in> set names) ms) = card (fst ` set (filter (\<lambda>m. fst m \<in> set names) ms))"
    using distinct_card [of "map fst (filter (\<lambda>m. fst m \<in> set names) ms)"] distinct_map_filter [OF d] by simp
  also have "fst ` set (filter (\<lambda>m. fst m \<in> set names) ms) = set names"
    using assms(3) by (force simp: bt_get_def map_of_eq_None_iff image_iff)
  finally show ?thesis using assms(2) by (simp add: distinct_card)
qed

lemma admit_authored_sized:
  assumes adm: "admit_authored tx members names = Inr c" and inv: "bt_inv members" and st: "names_stable tx"
    and names: "set names \<subseteq> set authored_names" "distinct names" and strs: "\<forall>f \<in> set names. \<exists>t. bt_get f members = Some (SString t)"
  shows "\<exists>m m' vs. c = Object m' \<and> skeleton_members tx names members = Inr vs \<and> object_loop (tx_nfc tx) Inr [] vs = Inr m
    \<and> (\<forall>k. bt_get k m' = (if k \<in> set names then Some (String (tx_nfc tx (the (Option.bind (bt_get k members) source_text)))) else bt_get k m))
    \<and> authored_bytes tx m' names = Inr (spelled_size (tx_float_display tx) c) \<and> finite_numbers c"
proof -
  let ?T = "\<lambda>f. the (Option.bind (bt_get f members) source_text)"
  let ?fold = "\<lambda>m. try_fold (\<lambda>converted fld. result_bind (try_from_source_message_text tx (?T fld)) (\<lambda>text. Inr (bt_put fld text converted))) m names"
  have "result_bind (skeleton_members tx names members) (\<lambda>vs. result_bind (json_object tx vs) (\<lambda>skeleton.
       result_bind (bounded_json_bytes tx skeleton 1) (\<lambda>bytes.
       if LOCAL_MAX_VALUE_BYTES < bytes then Inl (bound EncodedBytes)
       else case skeleton of Object converted \<Rightarrow> result_bind (?fold converted) (\<lambda>converted. Inr (Object converted)) | _ \<Rightarrow> Inr skeleton))) = Inr c"
    using adm unfolding admit_authored_def skeleton_members_def by (simp only: split: if_splits) simp_all
  then obtain vs sk where vs: "skeleton_members tx names members = Inr vs" and sk: "json_object tx vs = Inr sk"
    and step: "result_bind (bounded_json_bytes tx sk 1) (\<lambda>bytes. if LOCAL_MAX_VALUE_BYTES < bytes then Inl (bound EncodedBytes)
       else case sk of Object converted \<Rightarrow> result_bind (?fold converted) (\<lambda>converted. Inr (Object converted)) | _ \<Rightarrow> Inr sk) = Inr c"
    unfolding result_bind_eq_Inr_iff by blast
  from sk obtain m where m: "object_loop (tx_nfc tx) Inr [] vs = Inr m" and obj: "sk = Object m"
    unfolding json_object_loop result_bind_eq_Inr_iff by blast
  from step have rest: "result_bind (bounded_json_bytes tx (Object m) 1) (\<lambda>bytes. if LOCAL_MAX_VALUE_BYTES < bytes then Inl (bound EncodedBytes)
       else result_bind (?fold m) (\<lambda>converted. Inr (Object converted))) = Inr c"
    unfolding obj JsonValue.case .
  from rest obtain n m' where n: "bounded_json_bytes tx (Object m) 1 = Inr n" "n \<le> LOCAL_MAX_VALUE_BYTES" and c: "c = Object m'"
    and fold: "?fold m = Inr m'"
    by (cases "bounded_json_bytes tx (Object m) 1"; cases "?fold m") (simp_all split: if_splits, blast)
  have im: "bt_inv m" using object_loop_Inr [OF m] by simp
  have null: "bt_get f m = Some Null" if "f \<in> set names" for f
  proof -
    have "f \<in> set authored_names" using that names(1) by blast
    moreover obtain t where "bt_get f members = Some (SString t)" using strs \<open>f \<in> set names\<close> by blast
    ultimately show ?thesis using skeleton_get [OF vs m inv st, of f] that by simp
  qed
  note tf = text_fold [OF fold im]
  have m': "m' = map (with_text names (\<lambda>f. tx_nfc tx (?T f))) m"
    using text_fold_members [of m m' names "\<lambda>f. tx_nfc tx (?T f)"] tf im null by simp
  have nulls: "\<forall>(k, v) \<in> set m. k \<in> set names \<longrightarrow> v = Null" using null bt_get_member [OF im] by fastforce
  have lens: "\<forall>(k, v) \<in> set m. k \<in> set names \<longrightarrow> length (tx_nfc tx (?T k)) \<le> MESSAGE_MAX_TEXT_BYTES" using tf by blast
  have loop: "size_loop (member_bytes tx 2) 2 0 m = Inr n" and len: "length m \<le> LOCAL_MAX_OBJECT_MEMBERS"
    using n(1) by (auto simp: bounded_json_bytes_object numeral_2_eq_2 split: if_splits)
  have small: "text_bytes names (\<lambda>f. tx_nfc tx (?T f)) m \<le> 12583040" by (rule text_bytes_bound [OF len lens])
  have size: "n = spelled_size (tx_float_display tx) (Object m)" using bounded_json_bytes_Inr [OF n(1)] by simp
  have cnt: "length (filter (\<lambda>m. fst m \<in> set names) m) = length names" using count_names [OF im names(2)] null by simp
  have "n - 4 * length names + text_bytes names (\<lambda>f. tx_nfc tx (?T f)) m = spelled_size (tx_float_display tx) c"
    using size_with_text [OF nulls, of tx "\<lambda>f. tx_nfc tx (?T f)"] null_size [OF nulls, of tx] cnt size unfolding c m' by linarith
  moreover have "try_fold (authored_step tx names) (2, 0) (List.enumerate 0 m') = Inr (n, 0 + text_bytes names (\<lambda>f. tx_nfc tx (?T f)) m)"
    unfolding m' using small by (intro authored_loop [OF loop nulls lens]) (simp add: USIZE_MAX_def)
  ultimately have "authored_bytes tx m' names = Inr (spelled_size (tx_float_display tx) c)"
    using small n(2) len by (simp add: authored_bytes_loop m' usize_checked_add_def USIZE_MAX_def LOCAL_MAX_VALUE_BYTES_def)
  moreover have "finite_numbers c"
    using within_finite [OF conjunct1 [OF bounded_json_bytes_Inr [OF n(1)]]]
    by (auto simp: c m' list_all_iff with_text_def)
  ultimately show ?thesis using vs m c tf by blast
qed

lemma try_from_source_value_Inr:
  assumes "try_from_source_value tx v = Inr c"
  shows "convert_source_value tx v 1 = Inr c" "bounded_json_bytes tx c 1 = Inr (spelled_size (tx_float_display tx) c)" "spelled_size (tx_float_display tx) c \<le> LOCAL_MAX_VALUE_BYTES"
    "within 1 c"
proof -
  obtain n where "convert_source_value tx v 1 = Inr c" "bounded_json_bytes tx c 1 = Inr n" "n \<le> LOCAL_MAX_VALUE_BYTES"
    using assms by (auto simp: try_from_source_value_def result_bind_eq_Inr_iff not_less split: if_splits)
  with bounded_json_bytes_Inr show "convert_source_value tx v 1 = Inr c" "bounded_json_bytes tx c 1 = Inr (spelled_size (tx_float_display tx) c)"
    "spelled_size (tx_float_display tx) c \<le> LOCAL_MAX_VALUE_BYTES" "within 1 c" by blast+
qed

lemma convert_object:
  assumes "convert_source_value tx (SObject members) 1 = Inr c"
  shows "\<exists>vs m. c = Object m \<and> skeleton_members tx [] members = Inr vs \<and> object_loop (tx_nfc tx) Inr [] vs = Inr m"
proof -
  have "(\<lambda>(key, v). if key \<in> set [] then Inr (key, Null) else result_bind (convert_source_value tx v 2) (\<lambda>c. Inr (key, c)))
      = (\<lambda>(key, v). result_bind (convert_source_value tx v (1 + 1)) (\<lambda>c. Inr (key, c)))"
    by (simp add: fun_eq_iff numeral_2_eq_2)
  from arg_cong [OF this, of "\<lambda>f. try_map f members"]
  have "skeleton_members tx [] members = try_map (\<lambda>(key, v). result_bind (convert_source_value tx v (1 + 1)) (\<lambda>c. Inr (key, c))) members"
    unfolding skeleton_members_def .
  moreover have "result_bind (try_map (\<lambda>(key, v). result_bind (convert_source_value tx v (1 + 1)) (\<lambda>c. Inr (key, c))) members) (json_object tx) = Inr c"
    using assms by (subst (asm) convert_source_value.simps) (simp split: if_splits)
  ultimately show ?thesis unfolding result_bind_eq_Inr_iff json_object_loop by auto
qed

text \<open>The authored fields of the converted arguments are those of the source.\<close>

lemma authored_after_conversion:
  assumes vs: "skeleton_members tx names members = Inr vs" and m: "object_loop (tx_nfc tx) Inr [] vs = Inr m"
    and inv: "bt_inv members" and st: "names_stable tx"
    and strs: "\<forall>f \<in> set names. (\<exists>t. bt_get f members = Some (SString t)) \<and> (\<exists>t. bt_get f m' = Some (String t))"
    and rest: "\<forall>f. f \<notin> set names \<longrightarrow> bt_get f m' = bt_get f m"
  shows "authored_text_fields name (\<lambda>f. map_option json_text (bt_get f m')) = authored_text_fields name (\<lambda>f. map_option source_text (bt_get f members))"
proof (rule authored_text_fields_cong, rule ballI)
  fix f assume f: "f \<in> set authored_names"
  show "map_option (\<lambda>x. x \<noteq> None) (map_option json_text (bt_get f m')) = map_option (\<lambda>x. x \<noteq> None) (map_option source_text (bt_get f members))"
  proof (cases "f \<in> set names")
    case True
    with strs obtain t t' where "bt_get f members = Some (SString t)" "bt_get f m' = Some (String t')" by blast
    then show ?thesis by (simp add: json_text_def source_text_def)
  next
    case False
    note sk = skeleton_get [OF vs m inv st f]
    show ?thesis
    proof (cases "bt_get f members")
      case None
      with sk False rest show ?thesis by simp
    next
      case (Some v)
      with sk False rest obtain c where "convert_source_value tx v 2 = Inr c" "bt_get f m' = Some c" by auto
      with Some convert_text show ?thesis by (simp del: not_None_eq)
    qed
  qed
qed

lemma admitted_ordinary:
  assumes "try_from_source_value tx v = Inr c" and "\<And>t. v = SString t \<Longrightarrow> \<not> is_bare_text_tool name"
    and "\<And>m. c = Object m \<Longrightarrow> authored_text_fields name (\<lambda>f. map_option json_text (bt_get f m)) = Inr None"
  shows "bounded_tool_arguments_bytes tx name c = Inr (spelled_size (tx_float_display tx) c)"
proof -
  note r = try_from_source_value_Inr [OF assms(1)]
  have bare: "\<not> is_bare_text_tool name" if "c = String t" for t
    using convert_text [OF r(1)] that assms(2) by (cases v) (simp_all add: json_text_def source_text_def)
  show ?thesis using r(2,3) bare assms(3) by (cases c) (simp_all add: bounded_tool_arguments_bytes_def Let_def)
qed

lemma message_text_Inr:
  "try_from_source_message_text tx text = Inr c \<Longrightarrow> c = String (tx_nfc tx text) \<and> length (tx_nfc tx text) \<le> MESSAGE_MAX_TEXT_BYTES"
  by (auto simp: try_from_source_message_text_def bounded_message_text_bytes_def split: if_splits)

lemma admitted_arguments:
  assumes adm: "try_from_source_tool_arguments tx name v = Inr c" and st: "names_stable tx" and inv: "\<forall>ms. v = SObject ms \<longrightarrow> bt_inv ms"
  shows "bounded_tool_arguments_bytes tx name c = Inr (spelled_size (tx_float_display tx) c) \<and> finite_numbers c"
proof (cases "\<exists>ms. v = SObject ms")
  case True
  then obtain ms where v: "v = SObject ms" and i: "bt_inv ms" using inv by blast
  let ?g = "\<lambda>f. map_option source_text (bt_get f ms)"
  from adm obtain a where a: "authored_text_fields name ?g = Inr a"
    and rest: "(case a of Some names \<Rightarrow> admit_authored tx ms names | None \<Rightarrow> try_from_source_value tx (SObject ms)) = Inr c"
    by (auto simp: v try_from_source_tool_arguments_def result_bind_eq_Inr_iff)
  show ?thesis
  proof (cases a)
    case None
    have ord: "try_from_source_value tx v = Inr c" using rest None by (simp add: v)
    obtain vs m where c: "c = Object m" and s: "skeleton_members tx [] ms = Inr vs" "object_loop (tx_nfc tx) Inr [] vs = Inr m"
      using convert_object try_from_source_value_Inr(1) [OF ord] unfolding v by blast
    have "authored_text_fields name (\<lambda>f. map_option json_text (bt_get f m)) = Inr None"
      using authored_after_conversion [OF s i st, of m name] a None by simp
    then have "bounded_tool_arguments_bytes tx name c = Inr (spelled_size (tx_float_display tx) c)"
      by (intro admitted_ordinary [OF ord]) (simp_all add: v c)
    then show ?thesis using within_finite [OF try_from_source_value_Inr(4) [OF ord]] by blast
  next
    case (Some names)
    note n = authored_text_fields_Inr [OF a [unfolded Some]]
    have strs: "\<forall>f \<in> set names. \<exists>t. bt_get f ms = Some (SString t)"
    proof
      fix f assume "f \<in> set names"
      with n(3) obtain x t where "bt_get f ms = Some x" "source_text x = Some t" by (metis map_option_eq_Some)
      then show "\<exists>t. bt_get f ms = Some (SString t)" by (cases x) (simp_all add: source_text_def)
    qed
    obtain m m' vs where c: "c = Object m'" and s: "skeleton_members tx names ms = Inr vs" "object_loop (tx_nfc tx) Inr [] vs = Inr m"
      and get: "\<forall>k. bt_get k m' = (if k \<in> set names then Some (String (tx_nfc tx (the (Option.bind (bt_get k ms) source_text)))) else bt_get k m)"
      and size: "authored_bytes tx m' names = Inr (spelled_size (tx_float_display tx) c)" and fin: "finite_numbers c"
      using admit_authored_sized [of tx ms names c] rest Some i st n(1,2) strs by auto
    have "authored_text_fields name (\<lambda>f. map_option json_text (bt_get f m')) = Inr (Some names)"
      using authored_after_conversion [OF s i st, of m' name] a Some strs get by simp
    then have "bounded_tool_arguments_bytes tx name c = Inr (spelled_size (tx_float_display tx) c)"
      using size by (simp add: bounded_tool_arguments_bytes_def c)
    with fin show ?thesis by blast
  qed
next
  case False
  show ?thesis
  proof (cases "\<exists>text. v = SString text \<and> is_bare_text_tool name")
    case True
    then show ?thesis using adm
      by (auto simp: try_from_source_tool_arguments_def bounded_tool_arguments_bytes_def Let_def bounded_message_text_bytes_def dest!: message_text_Inr)
  next
    case bare: False
    then have ord: "try_from_source_value tx v = Inr c" using adm False by (cases v) (auto simp: try_from_source_tool_arguments_def)
    have "c \<noteq> Object m" for m
      using try_from_source_value_Inr(1) [OF ord] False
      by (cases v) (auto simp: convert_source_value.simps result_bind_eq_Inr_iff ok_or_eq_Inr_iff json_number_def json_string_def split: if_splits option.splits)
    then have "bounded_tool_arguments_bytes tx name c = Inr (spelled_size (tx_float_display tx) c)"
      using bare by (intro admitted_ordinary [OF ord]) auto
    then show ?thesis using within_finite [OF try_from_source_value_Inr(4) [OF ord]] by blast
  qed
qed

section \<open>Properties\<close>

text \<open>C9. Admission and validation of tool arguments agree. Arguments that the source adapter admits, ordinary
  ones, bare text, or an object with authored text that gets the larger text budget, are accepted by the bound
  check that the builder makes on the converted value. The size the check reports is the sum over the whole
  value of the escaped bytes, with floats counted as \<open>Display\<close> spells them; the size of the encoding is the
  same sum with floats as JSON spells them, and is reported whenever it fits a \<open>usize\<close>. The two sizes hence
  agree on every value without floats. The condition on Unicode normalisation is that no other string
  normalises to the name of an authored field.\<close>

theorem admitted_arguments_validate:
  assumes "try_from_source_tool_arguments tx name v = Inr c" and "names_stable tx" and "\<forall>ms. v = SObject ms \<longrightarrow> bt_inv ms"
  shows "bounded_tool_arguments_bytes tx name c = Inr (spelled_size (tx_float_display tx) c)
    \<and> (spelled_size (tx_float_json tx) c \<le> USIZE_MAX
        \<longrightarrow> encoded_byte_len tx c = Inr (spelled_size (tx_float_json tx) c))"
  using admitted_arguments [OF assms] encoded_byte_len_exact by blast

text \<open>C36. An admitted source value is canonical and bounded: every string and key is normalised, keys are unique
  and in order, numbers are finite, and depth, lengths and the size the bound check counts are within the limits, whatever
  normalisation did to the lengths. It is a fixed point of canonicalisation, which is idempotent.\<close>

theorem admitted_values_canonical:
  assumes "\<forall>s. tx_nfc tx (tx_nfc tx s) = tx_nfc tx s" and "try_from_source_value tx v = Inr c"
  shows "canonical_form tx c \<and> within 1 c \<and> spelled_size (tx_float_display tx) c \<le> LOCAL_MAX_VALUE_BYTES \<and> canonicalize_value tx c = Inr c
    \<and> (\<forall>x y. canonicalize_value tx x = Inr y \<longrightarrow> canonicalize_value tx y = Inr y)"
  using try_from_source_value_Inr [OF assms(2)] convert_canonical [OF assms(1)] canonical_Inr [OF assms(1)] canonical_fixed by blast

definition sample_text :: text_env where
  "sample_text = \<lparr>tx_nfc = \<lambda>s. s, tx_float_display = \<lambda>f. ''0'', tx_float_json = \<lambda>f. ''0.0''\<rparr>"

definition sample_arguments :: source_value where
  "sample_arguments = SObject [(''file'', SString ''a''), (''new_string'', SString ''x''), (''old_string'', SNumber (PosInt 1))]"

lemma sample_admitted_arguments:
  "try_from_source_tool_arguments sample_text (Some ''Edit'') sample_arguments
    = Inr (Object [(''file'', String ''a''), (''new_string'', String ''x''), (''old_string'', Integer 1)])"
  by (simp add: try_from_source_tool_arguments_def sample_arguments_def authored_text_fields_def AUTHORED_TEXT_ARGUMENTS_def
      admit_authored_def bt_get_def source_text_def sample_text_def LOCAL_MAX_OBJECT_MEMBERS_def LOCAL_MAX_KEY_BYTES_def
      convert_source_value.simps bounded_json_bytes.simps LOCAL_MAX_DEPTH_def LOCAL_MAX_STRING_BYTES_def json_string_def json_object_def
      usize_checked_add_def USIZE_MAX_def LOCAL_MAX_VALUE_BYTES_def try_from_source_message_text_def bounded_message_text_bytes_def
      MESSAGE_MAX_TEXT_BYTES_def escaped_string_bytes_def escaped_char_bytes_def show_int_def show_nat.simps rust_simps less_char_def)

theorem admitted_arguments_validate_witness:
  "bounded_tool_arguments_bytes sample_text (Some ''Edit'')
     (Object [(''file'', String ''a''), (''new_string'', String ''x''), (''old_string'', Integer 1)]) = Inr 44"
proof -
  have "spelled_size (tx_float_display sample_text) (Object [(''file'', String ''a''), (''new_string'', String ''x''), (''old_string'', Integer 1)]) = 44"
    by (simp add: escaped_string_bytes_def escaped_char_bytes_def show_int_def show_nat.simps rust_simps)
  moreover have "names_stable sample_text" by (simp add: names_stable_def sample_text_def)
  moreover have "\<forall>ms. sample_arguments = SObject ms \<longrightarrow> bt_inv ms" by (simp add: sample_arguments_def bt_inv_def less_char_def rust_simps)
  ultimately show ?thesis using admitted_arguments_validate [OF sample_admitted_arguments] by simp
qed

theorem admitted_values_canonical_witness:
  "canonicalize_value sample_text (Array [String ''a'', Bool True]) = Inr (Array [String ''a'', Bool True])"
proof -
  have "try_from_source_value sample_text (SArray [SString ''a'', SBool True]) = Inr (Array [String ''a'', Bool True])"
    by (simp add: try_from_source_value_def convert_source_value.simps bounded_json_bytes.simps LOCAL_MAX_DEPTH_def LOCAL_MAX_ARRAY_ITEMS_def
        LOCAL_MAX_STRING_BYTES_def json_string_def usize_checked_add_def USIZE_MAX_def LOCAL_MAX_VALUE_BYTES_def escaped_string_bytes_def
        escaped_char_bytes_def sample_text_def rust_simps)
  moreover have "\<forall>s. tx_nfc sample_text (tx_nfc sample_text s) = tx_nfc sample_text s" by (simp add: sample_text_def)
  ultimately show ?thesis using admitted_values_canonical by blast
qed

end
