(* ===== verification/Selector.thy ===== *)
theory Selector
  imports Values
begin

text \<open>
  Observations and their selectors: the fields of \<open>CanonicalObservationV2\<close> that detection reads
  (\<open>crates/telltale-schema/src/observation/mod.rs\<close> and \<open>body.rs\<close>), the work budget of
  \<open>crates/telltale-detect/src/v2/session.rs\<close>, and the selector registry of
  \<open>crates/telltale-detect/src/v2/selector.rs\<close>. Fields that no selector reads are left out of the bodies.
  Parsing of JSON text is a parameter.
\<close>

section \<open>Observations\<close>

datatype MessageRole = RoleSystem | RoleDeveloper | RoleUser | RoleAssistant | RoleTool | RoleOther

fun role_as_str :: "MessageRole \<Rightarrow> string" where
  "role_as_str RoleSystem = ''system''"
| "role_as_str RoleDeveloper = ''developer''"
| "role_as_str RoleUser = ''user''"
| "role_as_str RoleAssistant = ''assistant''"
| "role_as_str RoleTool = ''tool''"
| "role_as_str RoleOther = ''other''"

datatype ContentPartKind = PartText | PartImageReference | PartToolUse | PartToolResult | PartOther

datatype ToolStatus = StatusSucceeded | StatusFailed | StatusCancelled | StatusDenied | StatusUnknown

fun tool_status_as_str :: "ToolStatus \<Rightarrow> string" where
  "tool_status_as_str StatusSucceeded = ''succeeded''"
| "tool_status_as_str StatusFailed = ''failed''"
| "tool_status_as_str StatusCancelled = ''cancelled''"
| "tool_status_as_str StatusDenied = ''denied''"
| "tool_status_as_str StatusUnknown = ''unknown''"

datatype ObservationStage = MessageObserved | InferenceRequested | InferenceStarted | InferenceCompleted | InferenceFailed
  | ToolProposed | ToolRequested | ToolExecutionStarted | ToolExecutionCompleted | ToolResultReturned | DefinitionChanged
  | McpInventoryChanged | ProcessObserved | FileObserved | NetworkObserved | BrowserObserved | RuntimeObserved | RuntimeChanged
  | SessionOpened | SessionUpdated | SessionClosed | OtherObserved

fun stage_as_str :: "ObservationStage \<Rightarrow> string" where
  "stage_as_str MessageObserved = ''observed''"
| "stage_as_str InferenceRequested = ''requested''"
| "stage_as_str InferenceStarted = ''started''"
| "stage_as_str InferenceCompleted = ''completed''"
| "stage_as_str InferenceFailed = ''failed''"
| "stage_as_str ToolProposed = ''proposed''"
| "stage_as_str ToolRequested = ''requested''"
| "stage_as_str ToolExecutionStarted = ''execution_started''"
| "stage_as_str ToolExecutionCompleted = ''execution_completed''"
| "stage_as_str ToolResultReturned = ''result_returned''"
| "stage_as_str DefinitionChanged = ''changed''"
| "stage_as_str McpInventoryChanged = ''inventory_changed''"
| "stage_as_str RuntimeChanged = ''changed''"
| "stage_as_str SessionOpened = ''opened''"
| "stage_as_str SessionUpdated = ''updated''"
| "stage_as_str SessionClosed = ''closed''"
| "stage_as_str _ = ''observed''"

record ContentPart =
  cp_kind :: ContentPartKind
  cp_value :: JsonValue

record MessageObservation =
  mo_role :: "MessageRole option"
  mo_content :: "JsonValue option"
  mo_content_parts :: "ContentPart list"

record InferenceObservation =
  io_provider :: "string option"
  io_requested_model :: "string option"
  io_resolved_model :: "string option"
  io_streaming :: "bool option"
  io_stop_reason :: "string option"

record ToolObservation =
  to_name :: "string option"
  to_arguments :: "JsonValue option"
  to_searchable_arguments :: "string option"
  to_result :: "JsonValue option"
  to_searchable_result :: "string option"
  to_reported_status :: "ToolStatus option"
  to_is_error :: "bool option"
  to_exit_code :: "int option"

record McpObservation =
  mc_server_id :: "string option"
  mc_tool_name :: "string option"
  mc_transport :: "string option"
  mc_location_class :: "string option"

record ProcessObservation =
  po_name :: "string option"
  po_pid :: "u64 option"
  po_instance_id :: "string option"
  po_privilege :: "string option"

record FileObservation =
  fo_operation :: "string option"
  fo_path_class :: "string option"

record NetworkObservation =
  no_operation :: "string option"
  no_destination_class :: "string option"
  no_domain :: "string option"
  no_protocol :: "string option"
  no_port :: "16 word option"

record BrowserObservation =
  bo_surface :: "string option"
  bo_origin_class :: "string option"
  bo_navigation_id :: "string option"

record RuntimeObservation =
  ro_execution_mode :: "string option"
  ro_isolation_state :: "string option"
  ro_workspace_class :: "string option"
  ro_privilege :: "string option"

datatype ObservationBody = MessageBody MessageObservation | InferenceBody InferenceObservation | ToolBody ToolObservation
  | ToolDefinitionBody | McpBody McpObservation | ProcessBody ProcessObservation | FileBody FileObservation
  | NetworkBody NetworkObservation | BrowserBody BrowserObservation | RuntimeBody RuntimeObservation | SessionBody | OtherBody

datatype Fidelity = FullNative | PartialStructured | FlattenedLossy | DerivedOnly | UnknownFidelity

record FactMetadata =
  fm_provenance :: FactProvenance
  fm_fidelity_override :: "Fidelity option"
  fm_sensitivity :: Sensitivity
  fm_keyed_fingerprints :: "KeyedFingerprint list"

definition fact_metadata_new :: "FactProvenance \<Rightarrow> Sensitivity \<Rightarrow> (ObservationError, FactMetadata) result" where
  "fact_metadata_new provenance sensitivity =
    (if sensitivity = Prohibited then Inl (obs_error ProhibitedSensitivity)
     else Inr \<lparr>fm_provenance = provenance, fm_fidelity_override = None, fm_sensitivity = sensitivity, fm_keyed_fingerprints = []\<rparr>)"

datatype CorrelationOrigin = SourceReported | TelltaleOriginated

record CorrelationId =
  co_value :: string
  co_origin :: CorrelationOrigin

datatype CapabilityAvailability = Supported | Unsupported | UnknownAvailability

datatype CapabilityId = ToolCall | ToolExecution | UserContext

type_synonym CapabilityContext = "(CapabilityId \<times> CapabilityAvailability) list"

definition resolve_capability :: "CapabilityContext \<Rightarrow> CapabilityId \<Rightarrow> CapabilityAvailability" where
  "resolve_capability overrides capability = (case map_of overrides capability of Some a \<Rightarrow> a | None \<Rightarrow> UnknownAvailability)"

record observation =
  ob_retained_bytes :: nat
  ob_body :: ObservationBody
  ob_stage :: ObservationStage
  ob_session_id :: "CorrelationId option"
  ob_call_id :: "CorrelationId option"
  ob_capability_context :: "CapabilityContext option"
  ob_facets :: "(string, JsonValue) btree_map"
  ob_fact_metadata :: "(string, FactMetadata) btree_map"

section \<open>Work budget\<close>

datatype ProcessingError = InvalidSourceError | DuplicateObservation | Bounds | Evaluation | Projection

definition SOURCE_SCALE_UNIT_BYTES :: nat where "SOURCE_SCALE_UNIT_BYTES = 1024 * 1024"
definition MAX_SCALED_SOURCE_BYTES :: nat where "MAX_SCALED_SOURCE_BYTES = 64 * 1024 * 1024"
definition MAX_EVALUATION_BYTE_VISITS :: nat where "MAX_EVALUATION_BYTE_VISITS = 256 * 1024 * 1024"
definition MAX_SOURCE_OBSERVATIONS :: nat where "MAX_SOURCE_OBSERVATIONS = 65536"
definition MAX_CANONICAL_RETAINED_BYTES :: nat where "MAX_CANONICAL_RETAINED_BYTES = 8 * 1024 * 1024"
definition MAX_PROJECTION_ITEMS :: nat where "MAX_PROJECTION_ITEMS = 4096"
definition MAX_COMPATIBILITY_STRING_BYTES :: nat where "MAX_COMPATIBILITY_STRING_BYTES = LOCAL_MAX_STRING_BYTES"
definition MAX_COMPATIBILITY_RETAINED_BYTES :: nat where "MAX_COMPATIBILITY_RETAINED_BYTES = 4 * 1024 * 1024"

definition scale_for_source_bytes :: "nat \<Rightarrow> nat" where
  "scale_for_source_bytes bytes = min bytes MAX_SCALED_SOURCE_BYTES"

definition scale_apply :: "nat \<Rightarrow> nat \<Rightarrow> nat" where
  "scale_apply scale flr =
    (let n = flr * max scale SOURCE_SCALE_UNIT_BYTES div SOURCE_SCALE_UNIT_BYTES in if n \<le> USIZE_MAX then n else USIZE_MAX)"

record SourceBounds =
  sb_work :: nat
  sb_observations :: nat
  sb_canonical_retained :: nat
  sb_projection_items :: nat
  sb_compatibility_bytes :: nat

definition source_bounds :: "nat \<Rightarrow> SourceBounds" where
  "source_bounds scale =
    \<lparr>sb_work = scale_apply scale MAX_EVALUATION_BYTE_VISITS, sb_observations = scale_apply scale MAX_SOURCE_OBSERVATIONS,
     sb_canonical_retained = scale_apply scale MAX_CANONICAL_RETAINED_BYTES, sb_projection_items = scale_apply scale MAX_PROJECTION_ITEMS,
     sb_compatibility_bytes = scale_apply scale MAX_COMPATIBILITY_RETAINED_BYTES\<rparr>"

record RetentionBudget =
  rb_items :: nat
  rb_bytes :: nat
  rb_work_bytes :: nat
  rb_bounds :: SourceBounds

definition retention_budget :: "nat \<Rightarrow> nat \<Rightarrow> RetentionBudget" where
  "retention_budget work_bytes scale = \<lparr>rb_items = 0, rb_bytes = 0, rb_work_bytes = work_bytes, rb_bounds = source_bounds scale\<rparr>"

type_synonym 'a charged = "(RetentionBudget, ProcessingError, 'a) comp"

definition charge :: "nat \<Rightarrow> unit charged" where
  "charge bytes b =
    (case usize_checked_add (rb_work_bytes b) (max bytes 1) of
       Some used \<Rightarrow>
         if used \<le> sb_work (rb_bounds b) then (Inr (), b\<lparr>rb_work_bytes := used\<rparr>)
         else (Inl Bounds, b\<lparr>rb_work_bytes := usize_saturating_add (sb_work (rb_bounds b)) 1\<rparr>)
     | None \<Rightarrow> (Inl Bounds, b\<lparr>rb_work_bytes := usize_saturating_add (sb_work (rb_bounds b)) 1\<rparr>))"

definition is_exhausted :: "RetentionBudget \<Rightarrow> bool" where
  "is_exhausted b \<longleftrightarrow> sb_work (rb_bounds b) < rb_work_bytes b"

definition consume :: "nat \<Rightarrow> nat \<Rightarrow> unit charged" where
  "consume items bytes = cbind (charge bytes) (\<lambda>_ b.
    case (usize_checked_add (rb_items b) items, usize_checked_add (rb_bytes b) bytes) of
      (Some next_items, Some next_bytes) \<Rightarrow>
        if sb_projection_items (rb_bounds b) < next_items \<or> sb_compatibility_bytes (rb_bounds b) < next_bytes then (Inl Bounds, b)
        else (Inr (), b\<lparr>rb_items := next_items, rb_bytes := next_bytes\<rparr>)
    | _ \<Rightarrow> (Inl Bounds, b))"

definition validate_text :: "string \<Rightarrow> (ProcessingError, unit) result" where
  "validate_text s = (if MAX_COMPATIBILITY_STRING_BYTES < length s then Inl Bounds else Inr ())"

definition retain_text :: "string \<Rightarrow> unit charged" where
  "retain_text s = cbind (\<lambda>b. (validate_text s, b)) (\<lambda>_. consume 0 (length s))"

section \<open>Selectors\<close>

datatype DetectionError = DetInvalidId | DetInvalidText | DetInvalidStatus | DetInvalidReason | DetInvalidMetadata | DetInvalidBounds
  | InvalidSelector | InvalidOperator | InvalidValue | InvalidCapability | InvalidPattern | InvalidEvidenceReference
  | MissingObservationId | PatternTooLong | EmptyBooleanGroup | BooleanDepthExceeded | BooleanBranchLimit
  | UnsupportedDetectorKind | UnmappableRuleClass | ScoreOutOfRange | RuntimeEvaluation

definition SELECTORS :: "string list" where
  "SELECTORS =
    [''session.id'', ''message.role'', ''message.content'', ''tool.name'', ''tool.arguments'',
     ''tool.searchable_arguments'', ''tool.result'', ''tool.searchable_result'', ''tool.reported_status'',
     ''tool.is_error'', ''tool.exit_code'', ''command.text'', ''resource.path'', ''compat.v1.arguments'',
     ''compat.v1.assistant_context'', ''compat.v1.command'', ''compat.v1.file_path'', ''compat.v1.tool_name'',
     ''compat.v1.tool_result'', ''compat.v1.url'', ''compat.v1.user_context'', ''compat.v1.written_path'',
     ''message.text'', ''tool.call_id'', ''tool.stage'', ''tool.arguments.text'', ''tool.arguments.keys'',
     ''tool.result.text'', ''tool.result.is_error'', ''tool.result.exit_code'', ''resource.operation'',
     ''resource.path_class'', ''network.domain'', ''network.destination_class'', ''network.operation'',
     ''network.port'', ''network.protocol'', ''process.name'', ''process.pid'', ''process.instance_id'',
     ''process.privilege'', ''inference.provider'', ''inference.requested_model'', ''inference.resolved_model'',
     ''inference.streaming'', ''inference.stop_reason'', ''mcp.server.id'', ''mcp.server.transport'',
     ''mcp.server.location_class'', ''mcp.tool.name'', ''runtime.execution_mode'', ''runtime.isolation.state'',
     ''runtime.privilege'', ''runtime.workspace.class'', ''browser.surface'', ''browser.origin_class'',
     ''browser.navigation_id'']"

datatype SelectorBacking = Direct | Typed | DerivedBacking | GovernedFacetBacking | Compatibility

definition SELECTOR_BACKING :: "(string \<times> SelectorBacking) list" where
  "SELECTOR_BACKING =
    [(''session.id'', Direct), (''message.role'', Typed), (''message.content'', Typed), (''tool.name'', Typed),
     (''tool.arguments'', Typed), (''tool.searchable_arguments'', Typed), (''tool.result'', Typed),
     (''tool.searchable_result'', Typed), (''tool.reported_status'', Typed), (''tool.is_error'', Typed),
     (''tool.exit_code'', Typed), (''command.text'', GovernedFacetBacking), (''resource.path'', GovernedFacetBacking),
     (''compat.v1.arguments'', Compatibility), (''compat.v1.assistant_context'', Compatibility),
     (''compat.v1.command'', Compatibility), (''compat.v1.file_path'', Compatibility),
     (''compat.v1.tool_name'', Compatibility), (''compat.v1.tool_result'', Compatibility),
     (''compat.v1.url'', Compatibility), (''compat.v1.user_context'', Compatibility),
     (''compat.v1.written_path'', Compatibility), (''message.text'', DerivedBacking), (''tool.call_id'', Direct),
     (''tool.stage'', DerivedBacking), (''tool.arguments.text'', DerivedBacking),
     (''tool.arguments.keys'', DerivedBacking), (''tool.result.text'', DerivedBacking),
     (''tool.result.is_error'', DerivedBacking), (''tool.result.exit_code'', DerivedBacking),
     (''resource.operation'', Typed), (''resource.path_class'', Typed), (''network.domain'', Typed),
     (''network.destination_class'', Typed), (''network.operation'', Typed), (''network.port'', Typed),
     (''network.protocol'', Typed), (''process.name'', Typed), (''process.pid'', Typed),
     (''process.instance_id'', Typed), (''process.privilege'', Typed), (''inference.provider'', Typed),
     (''inference.requested_model'', Typed), (''inference.resolved_model'', Typed), (''inference.streaming'', Typed),
     (''inference.stop_reason'', Typed), (''mcp.server.id'', Typed), (''mcp.server.transport'', Typed),
     (''mcp.server.location_class'', Typed), (''mcp.tool.name'', Typed), (''runtime.execution_mode'', Typed),
     (''runtime.isolation.state'', Typed), (''runtime.privilege'', Typed), (''runtime.workspace.class'', Typed),
     (''browser.surface'', Typed), (''browser.origin_class'', Typed), (''browser.navigation_id'', Typed)]"

datatype SelectorId = SessionId | MessageRole | MessageContent | ToolName | ToolArguments | ToolSearchableArguments | ToolResult |
  ToolSearchableResult | ToolReportedStatus | ToolIsError | ToolExitCode | CommandText | ResourcePath |
  CompatArguments | CompatAssistantContext | CompatCommand | CompatFilePath | CompatToolName | CompatToolResult |
  CompatUrl | CompatUserContext | CompatWrittenPath
  | GovernedFacet string

text \<open>The arms of \<open>SelectorId::parse\<close> with a name of their own.\<close>

definition NAMED_SELECTORS :: "(string \<times> SelectorId) list" where
  "NAMED_SELECTORS =
    [(''session.id'', SessionId), (''message.role'', MessageRole), (''message.content'', MessageContent),
     (''tool.name'', ToolName), (''tool.arguments'', ToolArguments),
     (''tool.searchable_arguments'', ToolSearchableArguments), (''tool.result'', ToolResult),
     (''tool.searchable_result'', ToolSearchableResult), (''tool.reported_status'', ToolReportedStatus),
     (''tool.is_error'', ToolIsError), (''tool.exit_code'', ToolExitCode), (''command.text'', CommandText),
     (''resource.path'', ResourcePath), (''compat.v1.arguments'', CompatArguments),
     (''compat.v1.assistant_context'', CompatAssistantContext), (''compat.v1.command'', CompatCommand),
     (''compat.v1.file_path'', CompatFilePath), (''compat.v1.tool_name'', CompatToolName),
     (''compat.v1.tool_result'', CompatToolResult), (''compat.v1.url'', CompatUrl),
     (''compat.v1.user_context'', CompatUserContext), (''compat.v1.written_path'', CompatWrittenPath)]"

definition parse_selector :: "string \<Rightarrow> (DetectionError, SelectorId) result" where
  "parse_selector s =
    (case map_of NAMED_SELECTORS s of
       Some selector \<Rightarrow> Inr selector
     | None \<Rightarrow> if s \<in> List.set SELECTORS then Inr (GovernedFacet s) else Inl InvalidSelector)"

fun selector_as_str :: "SelectorId \<Rightarrow> string" where
  "selector_as_str SessionId = ''session.id''"
| "selector_as_str MessageRole = ''message.role''"
| "selector_as_str MessageContent = ''message.content''"
| "selector_as_str ToolName = ''tool.name''"
| "selector_as_str ToolArguments = ''tool.arguments''"
| "selector_as_str ToolSearchableArguments = ''tool.searchable_arguments''"
| "selector_as_str ToolResult = ''tool.result''"
| "selector_as_str ToolSearchableResult = ''tool.searchable_result''"
| "selector_as_str ToolReportedStatus = ''tool.reported_status''"
| "selector_as_str ToolIsError = ''tool.is_error''"
| "selector_as_str ToolExitCode = ''tool.exit_code''"
| "selector_as_str CommandText = ''command.text''"
| "selector_as_str ResourcePath = ''resource.path''"
| "selector_as_str CompatArguments = ''compat.v1.arguments''"
| "selector_as_str CompatAssistantContext = ''compat.v1.assistant_context''"
| "selector_as_str CompatCommand = ''compat.v1.command''"
| "selector_as_str CompatFilePath = ''compat.v1.file_path''"
| "selector_as_str CompatToolName = ''compat.v1.tool_name''"
| "selector_as_str CompatToolResult = ''compat.v1.tool_result''"
| "selector_as_str CompatUrl = ''compat.v1.url''"
| "selector_as_str CompatUserContext = ''compat.v1.user_context''"
| "selector_as_str CompatWrittenPath = ''compat.v1.written_path''"
| "selector_as_str (GovernedFacet s) = s"

text \<open>\<open>None\<close> is the panic of \<open>expect\<close>.\<close>

definition backing :: "SelectorId \<Rightarrow> SelectorBacking option" where
  "backing selector = map_of SELECTOR_BACKING (selector_as_str selector)"

fun required_capability :: "SelectorId \<Rightarrow> CapabilityId option" where
  "required_capability CompatAssistantContext = Some UserContext"
| "required_capability CompatUserContext = Some UserContext"
| "required_capability CompatArguments = Some ToolCall"
| "required_capability CompatCommand = Some ToolCall"
| "required_capability CompatFilePath = Some ToolCall"
| "required_capability CompatToolName = Some ToolCall"
| "required_capability CompatToolResult = Some ToolCall"
| "required_capability CompatUrl = Some ToolCall"
| "required_capability CompatWrittenPath = Some ToolCall"
| "required_capability ToolName = Some ToolCall"
| "required_capability ToolArguments = Some ToolCall"
| "required_capability ToolSearchableArguments = Some ToolCall"
| "required_capability ToolResult = Some ToolCall"
| "required_capability ToolSearchableResult = Some ToolCall"
| "required_capability ToolReportedStatus = Some ToolCall"
| "required_capability ToolIsError = Some ToolCall"
| "required_capability ToolExitCode = Some ToolCall"
| "required_capability (GovernedFacet s) = (if prefix ''tool.'' s then Some ToolCall else None)"
| "required_capability _ = None"

section \<open>Resolution\<close>

text \<open>The JSON parser: the raw members of an encoded object, in key order with the last of equal keys, and a value.\<close>

record json_env =
  jx_text :: text_env
  jx_raw_members :: "string \<Rightarrow> (string, string) btree_map option"
  jx_from_str :: "string \<Rightarrow> source_value option"

datatype SelectorPresence = Present | Absent | UnavailableVisibility | MetadataMissing

record SelectorResolution =
  sr_selector :: SelectorId
  sr_presence :: SelectorPresence
  sr_value :: "JsonValue option"
  sr_metadata :: "FactMetadata option"
  sr_required_capability :: "CapabilityId option"

definition is_present :: "SelectorResolution \<Rightarrow> bool" where
  "is_present r \<longleftrightarrow> sr_presence r = Present"

definition absent :: "SelectorId \<Rightarrow> CapabilityId option \<Rightarrow> SelectorResolution" where
  "absent selector capability = \<lparr>sr_selector = selector, sr_presence = Absent, sr_value = None, sr_metadata = None,
     sr_required_capability = capability\<rparr>"

definition metadata_for_path :: "observation \<Rightarrow> string \<Rightarrow> (DetectionError, FactMetadata option) result" where
  "metadata_for_path ob path = (case bt_get path (ob_fact_metadata ob) of Some m \<Rightarrow> Inr (Some m) | None \<Rightarrow> Inl DetInvalidMetadata)"

definition field_of :: "SelectorId \<Rightarrow> observation \<Rightarrow> string \<Rightarrow> JsonValue \<Rightarrow> CapabilityId option \<Rightarrow> SelectorResolution" where
  "field_of selector ob path v capability =
    (case metadata_for_path ob path of
       Inr (Some metadata) \<Rightarrow> \<lparr>sr_selector = selector, sr_presence = Present, sr_value = Some v, sr_metadata = Some metadata,
         sr_required_capability = capability\<rparr>
     | _ \<Rightarrow> \<lparr>sr_selector = selector, sr_presence = MetadataMissing, sr_value = Some v, sr_metadata = None,
         sr_required_capability = capability\<rparr>)"

definition derived_field :: "SelectorId \<Rightarrow> JsonValue \<Rightarrow> CapabilityId option \<Rightarrow> SelectorResolution" where
  "derived_field selector v capability =
    (case fact_metadata_new Derived Normal of
       Inr metadata \<Rightarrow> \<lparr>sr_selector = selector, sr_presence = Present, sr_value = Some v, sr_metadata = Some metadata,
         sr_required_capability = capability\<rparr>
     | Inl _ \<Rightarrow> \<lparr>sr_selector = selector, sr_presence = MetadataMissing, sr_value = None, sr_metadata = None,
         sr_required_capability = capability\<rparr>)"

fun origin_provenance :: "CorrelationOrigin \<Rightarrow> FactProvenance" where
  "origin_provenance SourceReported = Reported"
| "origin_provenance TelltaleOriginated = Derived"

definition correlation_field :: "text_env \<Rightarrow> SelectorId \<Rightarrow> CorrelationId \<Rightarrow> CapabilityId option \<Rightarrow> SelectorResolution" where
  "correlation_field tx selector v capability =
    (case fact_metadata_new (origin_provenance (co_origin v)) Normal of
       Inr metadata \<Rightarrow> \<lparr>sr_selector = selector, sr_presence = Present, sr_value = Some (json_string tx (co_value v)),
         sr_metadata = Some metadata, sr_required_capability = capability\<rparr>
     | Inl _ \<Rightarrow> \<lparr>sr_selector = selector, sr_presence = MetadataMissing, sr_value = None, sr_metadata = None,
         sr_required_capability = capability\<rparr>)"

definition facet :: "SelectorId \<Rightarrow> observation \<Rightarrow> string \<Rightarrow> CapabilityId option \<Rightarrow> SelectorResolution" where
  "facet selector ob path capability =
    (case bt_get path (ob_facets ob) of None \<Rightarrow> absent selector capability | Some v \<Rightarrow> field_of selector ob path v capability)"

definition text_or_string :: "text_env \<Rightarrow> string \<Rightarrow> string option \<Rightarrow> string \<Rightarrow> JsonValue option \<Rightarrow> (string \<times> JsonValue) option" where
  "text_or_string tx search_path search value_path v =
    (case search of
       Some s \<Rightarrow> Some (search_path, json_string tx s)
     | None \<Rightarrow> (case v of Some (String s) \<Rightarrow> Some (value_path, json_string tx s) | _ \<Rightarrow> None))"

definition typed_body_value :: "text_env \<Rightarrow> SelectorId \<Rightarrow> observation \<Rightarrow> (string \<times> JsonValue) option" where
  "typed_body_value tx selector ob =
    (case (selector, ob_body ob) of
        (GovernedFacet s, ToolBody b) \<Rightarrow>
         if s = ''tool.arguments.text''
         then text_or_string tx ''tool.searchable_arguments'' (to_searchable_arguments b) ''tool.arguments'' (to_arguments b)
         else if s = ''tool.result.text''
         then text_or_string tx ''tool.searchable_result'' (to_searchable_result b) ''tool.result'' (to_result b)
         else if s = ''tool.result.is_error'' then map_option (\<lambda>v. (''tool.is_error'', Bool v)) (to_is_error b)
         else if s = ''tool.result.exit_code'' then map_option (\<lambda>v. (''tool.exit_code'', Integer v)) (to_exit_code b)
         else None
     | (GovernedFacet s, NetworkBody b) \<Rightarrow>
         if s = ''network.domain'' then map_option (\<lambda>v. (''network.domain'', json_string tx v)) (no_domain b)
         else if s = ''network.destination_class'' then map_option (\<lambda>v. (''network.destination_class'', json_string tx v)) (no_destination_class b)
         else if s = ''network.operation'' then map_option (\<lambda>v. (''network.operation'', json_string tx v)) (no_operation b)
         else if s = ''network.port'' then map_option (\<lambda>v. (''network.port'', Unsigned (ucast v))) (no_port b)
         else if s = ''network.protocol'' then map_option (\<lambda>v. (''network.protocol'', json_string tx v)) (no_protocol b)
         else None
     | (GovernedFacet s, ProcessBody b) \<Rightarrow>
         if s = ''process.name'' then map_option (\<lambda>v. (''process.name'', json_string tx v)) (po_name b)
         else if s = ''process.pid'' then map_option (\<lambda>v. (''process.pid'', Unsigned v)) (po_pid b)
         else if s = ''process.instance_id'' then map_option (\<lambda>v. (''process.instance_id'', json_string tx v)) (po_instance_id b)
         else if s = ''process.privilege'' then map_option (\<lambda>v. (''process.privilege'', json_string tx v)) (po_privilege b)
         else None
     | (GovernedFacet s, InferenceBody b) \<Rightarrow>
         if s = ''inference.provider'' then map_option (\<lambda>v. (''inference.provider'', json_string tx v)) (io_provider b)
         else if s = ''inference.requested_model'' then map_option (\<lambda>v. (''inference.requested_model'', json_string tx v)) (io_requested_model b)
         else if s = ''inference.resolved_model'' then map_option (\<lambda>v. (''inference.resolved_model'', json_string tx v)) (io_resolved_model b)
         else if s = ''inference.streaming'' then map_option (\<lambda>v. (''inference.streaming'', Bool v)) (io_streaming b)
         else if s = ''inference.stop_reason'' then map_option (\<lambda>v. (''inference.stop_reason'', json_string tx v)) (io_stop_reason b)
         else None
     | (GovernedFacet s, McpBody b) \<Rightarrow>
         if s = ''mcp.server.id'' then map_option (\<lambda>v. (''mcp.server_id'', json_string tx v)) (mc_server_id b)
         else if s = ''mcp.server.transport'' then map_option (\<lambda>v. (''mcp.transport'', json_string tx v)) (mc_transport b)
         else if s = ''mcp.server.location_class'' then map_option (\<lambda>v. (''mcp.location_class'', json_string tx v)) (mc_location_class b)
         else if s = ''mcp.tool.name'' then map_option (\<lambda>v. (''mcp.tool_name'', json_string tx v)) (mc_tool_name b)
         else None
     | (GovernedFacet s, RuntimeBody b) \<Rightarrow>
         if s = ''runtime.execution_mode'' then map_option (\<lambda>v. (''runtime.execution_mode'', json_string tx v)) (ro_execution_mode b)
         else if s = ''runtime.isolation.state'' then map_option (\<lambda>v. (''runtime.isolation_state'', json_string tx v)) (ro_isolation_state b)
         else if s = ''runtime.workspace.class'' then map_option (\<lambda>v. (''runtime.workspace_class'', json_string tx v)) (ro_workspace_class b)
         else if s = ''runtime.privilege'' then map_option (\<lambda>v. (''runtime.privilege'', json_string tx v)) (ro_privilege b)
         else None
     | (GovernedFacet s, BrowserBody b) \<Rightarrow>
         if s = ''browser.surface'' then map_option (\<lambda>v. (''browser.surface'', json_string tx v)) (bo_surface b)
         else if s = ''browser.origin_class'' then map_option (\<lambda>v. (''browser.origin_class'', json_string tx v)) (bo_origin_class b)
         else if s = ''browser.navigation_id'' then map_option (\<lambda>v. (''browser.navigation_id'', json_string tx v)) (bo_navigation_id b)
         else None
     | (GovernedFacet s, FileBody b) \<Rightarrow>
         if s = ''resource.operation'' then map_option (\<lambda>v. (''file.operation'', json_string tx v)) (fo_operation b)
         else if s = ''resource.path_class'' then map_option (\<lambda>v. (''file.path_class'', json_string tx v)) (fo_path_class b)
         else None
     | _ \<Rightarrow> None)"

definition tool_value :: "SelectorId \<Rightarrow> observation \<Rightarrow> bool \<Rightarrow> CapabilityId option \<Rightarrow> SelectorResolution" where
  "tool_value selector ob arguments capability =
    (case ob_body ob of
       ToolBody b \<Rightarrow>
         (case (if arguments then to_arguments b else to_result b) of
            None \<Rightarrow> absent selector capability
          | Some v \<Rightarrow> field_of selector ob (if arguments then ''tool.arguments'' else ''tool.result'') v capability)
     | _ \<Rightarrow> absent selector capability)"

definition tool_string :: "text_env \<Rightarrow> SelectorId \<Rightarrow> observation \<Rightarrow> bool \<Rightarrow> CapabilityId option \<Rightarrow> SelectorResolution" where
  "tool_string tx selector ob arguments capability =
    (case ob_body ob of
       ToolBody b \<Rightarrow>
         (case (if arguments then to_searchable_arguments b else to_searchable_result b) of
            None \<Rightarrow> absent selector capability
          | Some s \<Rightarrow> field_of selector ob (if arguments then ''tool.searchable_arguments'' else ''tool.searchable_result'')
              (json_string tx s) capability)
     | _ \<Rightarrow> absent selector capability)"

definition tool_text :: "text_env \<Rightarrow> SelectorId \<Rightarrow> observation \<Rightarrow> bool \<Rightarrow> CapabilityId option \<Rightarrow> SelectorResolution" where
  "tool_text tx selector ob arguments capability =
    (case ob_body ob of
       ToolBody b \<Rightarrow>
         (case (if arguments
                then text_or_string tx ''tool.searchable_arguments'' (to_searchable_arguments b) ''tool.arguments'' (to_arguments b)
                else text_or_string tx ''tool.searchable_result'' (to_searchable_result b) ''tool.result'' (to_result b)) of
            Some (path, v) \<Rightarrow> field_of selector ob path v capability
          | None \<Rightarrow> absent selector capability)
     | _ \<Rightarrow> absent selector capability)"

definition tool_argument_keys :: "text_env \<Rightarrow> SelectorId \<Rightarrow> observation \<Rightarrow> CapabilityId option \<Rightarrow> SelectorResolution" where
  "tool_argument_keys tx selector ob capability =
    (case ob_body ob of
       ToolBody b \<Rightarrow>
         (case to_arguments b of
            Some (Object members) \<Rightarrow> derived_field selector (Array (map (json_string tx \<circ> fst) members)) capability
          | _ \<Rightarrow> absent selector capability)
     | _ \<Rightarrow> absent selector capability)"

definition body_field ::
  "SelectorId \<Rightarrow> observation \<Rightarrow> string \<Rightarrow> JsonValue option \<Rightarrow> CapabilityId option \<Rightarrow> SelectorResolution" where
  "body_field selector ob path v capability =
    (case v of None \<Rightarrow> absent selector capability | Some x \<Rightarrow> field_of selector ob path x capability)"

definition on_tool :: "observation \<Rightarrow> (ToolObservation \<Rightarrow> 'a option) \<Rightarrow> 'a option" where
  "on_tool ob f = (case ob_body ob of ToolBody b \<Rightarrow> f b | _ \<Rightarrow> None)"

definition on_message :: "observation \<Rightarrow> (MessageObservation \<Rightarrow> 'a option) \<Rightarrow> 'a option" where
  "on_message ob f = (case ob_body ob of MessageBody b \<Rightarrow> f b | _ \<Rightarrow> None)"

definition resolve_native :: "text_env \<Rightarrow> SelectorId \<Rightarrow> observation \<Rightarrow> CapabilityId option \<Rightarrow> SelectorResolution" where
  "resolve_native tx selector ob capability =
    (case typed_body_value tx selector ob of
       Some (path, v) \<Rightarrow> field_of selector ob path v capability
     | None \<Rightarrow>
         (case selector of
            SessionId \<Rightarrow>
              (case ob_session_id ob of
                 None \<Rightarrow> absent selector capability
               | Some v \<Rightarrow>
                   let metadata = (case fact_metadata_new (origin_provenance (co_origin v)) Normal of Inr m \<Rightarrow> Some m | Inl _ \<Rightarrow> None)
                   in \<lparr>sr_selector = selector, sr_presence = (if metadata = None then MetadataMissing else Present),
                      sr_value = Some (json_string tx (co_value v)), sr_metadata = metadata, sr_required_capability = capability\<rparr>)
          | SelectorId.MessageRole \<Rightarrow> body_field selector ob ''message.role'' (on_message ob (map_option (json_string tx \<circ> role_as_str) \<circ> mo_role)) capability
          | MessageContent \<Rightarrow> body_field selector ob ''message.content'' (on_message ob mo_content) capability
          | ToolName \<Rightarrow> body_field selector ob ''tool.name'' (on_tool ob (map_option (json_string tx) \<circ> to_name)) capability
          | ToolArguments \<Rightarrow> tool_value selector ob True capability
          | ToolSearchableArguments \<Rightarrow> tool_string tx selector ob True capability
          | ToolResult \<Rightarrow> tool_value selector ob False capability
          | ToolSearchableResult \<Rightarrow> tool_string tx selector ob False capability
          | ToolReportedStatus \<Rightarrow>
              body_field selector ob ''tool.reported_status'' (on_tool ob (map_option (json_string tx \<circ> tool_status_as_str) \<circ> to_reported_status)) capability
          | ToolIsError \<Rightarrow> body_field selector ob ''tool.is_error'' (on_tool ob (map_option Bool \<circ> to_is_error)) capability
          | ToolExitCode \<Rightarrow> body_field selector ob ''tool.exit_code'' (on_tool ob (map_option Integer \<circ> to_exit_code)) capability
          | CommandText \<Rightarrow> facet selector ob ''command.text'' capability
          | ResourcePath \<Rightarrow> facet selector ob ''resource.path'' capability
          | GovernedFacet s \<Rightarrow>
              if s = ''tool.arguments.text'' then tool_text tx selector ob True capability
              else if s = ''tool.arguments.keys'' then tool_argument_keys tx selector ob capability
              else if s = ''tool.result.text'' then tool_text tx selector ob False capability
              else if s = ''tool.result.is_error'' then body_field selector ob ''tool.is_error'' (on_tool ob (map_option Bool \<circ> to_is_error)) capability
              else if s = ''tool.result.exit_code'' then body_field selector ob ''tool.exit_code'' (on_tool ob (map_option Integer \<circ> to_exit_code)) capability
              else if s = ''tool.call_id''
              then (case ob_call_id ob of None \<Rightarrow> absent selector capability | Some v \<Rightarrow> correlation_field tx selector v capability)
              else if s = ''tool.stage''
              then (case ob_body ob of ToolBody _ \<Rightarrow> derived_field selector (json_string tx (stage_as_str (ob_stage ob))) capability
                    | _ \<Rightarrow> absent selector capability)
              else if s = ''command.text'' \<or> s = ''resource.path'' then facet selector ob s capability
              else absent selector capability
          | _ \<Rightarrow> absent selector capability))"

section \<open>Tool arguments\<close>

definition is_url_argument_key :: "string \<Rightarrow> bool" where
  "is_url_argument_key key \<longleftrightarrow> key \<in> {''url'', ''uri'', ''href'', ''endpoint''}"

definition is_file_write_tool :: "string \<Rightarrow> bool" where
  "is_file_write_tool name \<longleftrightarrow> to_ascii_lowercase name \<in> {''write'', ''write_file'', ''writefile'', ''create'', ''create_file'', ''edit'',
     ''edit_file'', ''multiedit'', ''multi_edit'', ''notebookedit'', ''replace''}"

definition is_file_argument_key :: "string \<Rightarrow> bool" where
  "is_file_argument_key key \<longleftrightarrow> key \<in> {''file_path'', ''filePath'', ''path'', ''notebook_path'', ''absolute_path'', ''target_file'',
     ''file'', ''filename''}"

definition is_written_content_argument_key :: "string \<Rightarrow> bool" where
  "is_written_content_argument_key key \<longleftrightarrow> key \<in> {''content'', ''contents'', ''new_string'', ''newString'', ''new_str'', ''newText'',
     ''file_text'', ''new_source'', ''edits'', ''code_edit''}"

text \<open>One member: its value wrapped in an object of its own, admitted under the bounds of a source value.\<close>

definition admitted_member :: "json_env \<Rightarrow> string \<Rightarrow> string \<Rightarrow> (string \<times> JsonValue) list option" where
  "admitted_member jx key raw =
    (case jx_from_str jx raw of
       None \<Rightarrow> None
     | Some v \<Rightarrow> (case try_from_source_value (jx_text jx) (SObject [(key, v)]) of Inr (Object member) \<Rightarrow> Some member | _ \<Rightarrow> None))"

definition decode_member ::
  "json_env \<Rightarrow> (string, JsonValue) btree_map \<times> (string \<times> string) list \<Rightarrow> string \<times> string
    \<Rightarrow> (string, JsonValue) btree_map \<times> (string \<times> string) list" where
  "decode_member jx acc m =
    (case (acc, m) of ((admitted, skipped), key, raw) \<Rightarrow>
       (case admitted_member jx key raw of
          None \<Rightarrow> (admitted, skipped @ [(key, raw)])
        | Some member \<Rightarrow> foldl (\<lambda>(admitted, skipped) (admitted_key, v).
            if bt_get admitted_key admitted = None then (bt_put admitted_key v admitted, skipped)
            else (admitted, skipped @ [(key, raw)])) (admitted, skipped) member))"

definition decoded_argument_object :: "json_env \<Rightarrow> string \<Rightarrow> ((string, JsonValue) btree_map \<times> (string \<times> string) list) option" where
  "decoded_argument_object jx s =
    (case jx_raw_members jx s of None \<Rightarrow> None | Some members \<Rightarrow> Some (foldl (decode_member jx) ([], []) members))"

definition argument_object :: "json_env \<Rightarrow> JsonValue option \<Rightarrow> (string, JsonValue) btree_map option" where
  "argument_object jx arguments =
    (case arguments of
       Some (Object object) \<Rightarrow> Some object
     | Some (String s) \<Rightarrow> map_option fst (decoded_argument_object jx s)
     | _ \<Rightarrow> None)"

definition string_arguments :: "(string, JsonValue) btree_map \<Rightarrow> (string \<Rightarrow> bool) \<Rightarrow> string list" where
  "string_arguments object selected =
    List.map_filter (\<lambda>(key, v). case v of String s \<Rightarrow> if s \<noteq> [] then Some s else None | _ \<Rightarrow> None) (filter (selected \<circ> fst) object)"

definition tool_argument_urls :: "json_env \<Rightarrow> JsonValue option \<Rightarrow> string list" where
  "tool_argument_urls jx arguments =
    (case argument_object jx arguments of None \<Rightarrow> [] | Some object \<Rightarrow> string_arguments object is_url_argument_key)"

definition tool_written_paths :: "json_env \<Rightarrow> string option \<Rightarrow> JsonValue option \<Rightarrow> string list" where
  "tool_written_paths jx name arguments =
    (case argument_object jx arguments of
       None \<Rightarrow> []
     | Some object \<Rightarrow>
         if (case name of Some n \<Rightarrow> is_file_write_tool n | None \<Rightarrow> False) \<or> list_ex (is_written_content_argument_key \<circ> fst) object
         then string_arguments object is_file_argument_key else [])"

definition joined_field :: "text_env \<Rightarrow> SelectorId \<Rightarrow> string list \<Rightarrow> CapabilityId option \<Rightarrow> SelectorResolution" where
  "joined_field tx selector texts capability =
    (if texts = [] then absent selector capability
     else derived_field selector (json_string tx (join [char_of (10 :: nat)] texts)) capability)"

definition resolve_compat :: "json_env \<Rightarrow> SelectorId \<Rightarrow> observation \<Rightarrow> CapabilityId option \<Rightarrow> SelectorResolution" where
  "resolve_compat jx selector ob capability =
    (let tx = jx_text jx in
     case selector of
       CompatArguments \<Rightarrow> tool_text tx selector ob True capability
     | CompatToolResult \<Rightarrow> tool_text tx selector ob False capability
     | CompatToolName \<Rightarrow> (resolve_native tx ToolName ob capability)\<lparr>sr_selector := selector\<rparr>
     | CompatCommand \<Rightarrow> (resolve_native tx CommandText ob capability)\<lparr>sr_selector := selector\<rparr>
     | CompatFilePath \<Rightarrow> (resolve_native tx ResourcePath ob capability)\<lparr>sr_selector := selector\<rparr>
     | CompatUrl \<Rightarrow>
         (case ob_body ob of
            ToolBody b \<Rightarrow> joined_field tx selector (tool_argument_urls jx (to_arguments b)) capability
          | _ \<Rightarrow> absent selector capability)
     | CompatWrittenPath \<Rightarrow>
         (case ob_body ob of
            ToolBody b \<Rightarrow> joined_field tx selector (tool_written_paths jx (to_name b) (to_arguments b)) capability
          | _ \<Rightarrow> absent selector capability)
     | _ \<Rightarrow> absent selector capability)"

definition is_compat :: "SelectorId \<Rightarrow> bool" where
  "is_compat selector \<longleftrightarrow> selector \<in> {CompatArguments, CompatAssistantContext, CompatCommand, CompatFilePath, CompatToolName,
     CompatToolResult, CompatUrl, CompatUserContext, CompatWrittenPath}"

definition resolve_value :: "json_env \<Rightarrow> SelectorId \<Rightarrow> observation \<Rightarrow> SelectorResolution" where
  "resolve_value jx selector ob =
    (let capability = required_capability selector in
     if parse_selector (selector_as_str selector) \<noteq> Inr selector then absent selector capability
     else if is_compat selector then resolve_compat jx selector ob capability
     else resolve_native (jx_text jx) selector ob capability)"

section \<open>Charged resolution\<close>

definition charge_fingerprint :: "KeyedFingerprint \<Rightarrow> unit charged" where
  "charge_fingerprint fp = charge (usize_saturating_add (usize_saturating_add (usize_saturating_add
     (length (kf_location fp)) (length (kf_key_epoch_ref fp))) (length (kf_algorithm fp))) (length (kf_digest fp)))"

definition charge_metadata :: "observation \<Rightarrow> unit charged" where
  "charge_metadata ob = cfold (\<lambda>_ (path, metadata).
     cbind (charge (length path)) (\<lambda>_. cfold (\<lambda>_ fp. charge_fingerprint fp) () (fm_keyed_fingerprints metadata))) () (ob_fact_metadata ob)"

definition part_text :: "ContentPart \<Rightarrow> string option" where
  "part_text part = (case (cp_kind part, cp_value part) of (PartText, String s) \<Rightarrow> Some s | _ \<Rightarrow> None)"

definition message_metadata :: "observation \<Rightarrow> FactMetadata option" where
  "message_metadata ob =
    map_option (\<lambda>metadata. \<lparr>fm_provenance = Derived, fm_fidelity_override = fm_fidelity_override metadata,
      fm_sensitivity = fm_sensitivity metadata, fm_keyed_fingerprints = []\<rparr>) (bt_get ''message.content_parts'' (ob_fact_metadata ob))"

definition message_text :: "SelectorId \<Rightarrow> observation \<Rightarrow> SelectorResolution charged" where
  "message_text selector ob =
    (let capability = required_capability selector in
     case ob_body ob of
       MessageBody b \<Rightarrow>
         if (selector = CompatAssistantContext \<and> mo_role b \<noteq> Some RoleAssistant) \<or> (selector = CompatUserContext \<and> mo_role b \<noteq> Some RoleUser)
         then ret (absent selector capability)
         else (case mo_content b of
             Some (String s) \<Rightarrow>
               cbind (charge (length s)) (\<lambda>_. ret (field_of selector ob ''message.content'' (String s) capability))
           | _ \<Rightarrow>
               let texts = List.map_filter part_text (mo_content_parts b);
                   joined = join [char_of (10 :: nat)] texts
               in cbind (cfold (\<lambda>_ _. charge 1) () (mo_content_parts b)) (\<lambda>_.
                 if texts = [] then ret (absent selector capability)
                 else cbind (charge (length joined)) (\<lambda>_.
                   cbind (cfold (\<lambda>_ _. charge 1) () (mo_content_parts b)) (\<lambda>_.
                   ret \<lparr>sr_selector = selector, sr_presence = (if message_metadata ob = None then MetadataMissing else Present),
                     sr_value = Some (String joined), sr_metadata = message_metadata ob, sr_required_capability = capability\<rparr>))))
     | _ \<Rightarrow> ret (absent selector capability))"

definition direct_result :: "SelectorId \<Rightarrow> observation \<Rightarrow> string option" where
  "direct_result selector ob =
    (if selector \<in> {ToolResult, CompatToolResult, GovernedFacet ''tool.result.text''}
     then on_tool ob (\<lambda>b. if selector = ToolResult \<or> to_searchable_result b = None
       then (case to_result b of Some (String s) \<Rightarrow> Some s | _ \<Rightarrow> None) else None)
     else None)"

definition control_bytes :: "SelectorId \<Rightarrow> observation \<Rightarrow> nat option" where
  "control_bytes selector ob =
    (if selector \<in> {ToolName, CompatToolName}
     then Some (case on_tool ob to_name of Some s \<Rightarrow> length s | None \<Rightarrow> 0)
     else if selector \<in> {CommandText, CompatCommand, ResourcePath, CompatFilePath}
     then (case bt_get (if selector \<in> {CommandText, CompatCommand} then ''command.text'' else ''resource.path'') (ob_facets ob) of
         Some (String s) \<Rightarrow> Some (length s)
       | None \<Rightarrow> Some 0
       | _ \<Rightarrow> None)
     else None)"

definition unrelated_result_bytes :: "SelectorId \<Rightarrow> observation \<Rightarrow> nat" where
  "unrelated_result_bytes selector ob =
    (if selector \<in> {SessionId, SelectorId.MessageRole, MessageContent, ToolName, ToolArguments, ToolSearchableArguments, ToolReportedStatus,
       ToolIsError, ToolExitCode, CommandText, ResourcePath, CompatArguments, CompatCommand, CompatFilePath, CompatToolName, CompatUrl,
       CompatWrittenPath}
     then (case on_tool ob to_result of Some (String s) \<Rightarrow> length s | _ \<Rightarrow> 0) else 0)"

definition try_resolve :: "json_env \<Rightarrow> SelectorId \<Rightarrow> observation \<Rightarrow> SelectorResolution charged" where
  "try_resolve jx selector ob =
    cbind (charge 1) (\<lambda>_.
    cbind (charge_metadata ob) (\<lambda>_.
    if selector \<in> {GovernedFacet ''message.text'', CompatAssistantContext, CompatUserContext} then message_text selector ob
    else case direct_result selector ob of
      Some s \<Rightarrow> cbind (charge (length s)) (\<lambda>_. ret (field_of selector ob ''tool.result'' (String s) (required_capability selector)))
    | None \<Rightarrow>
        (case control_bytes selector ob of
           Some n \<Rightarrow> cbind (charge (usize_saturating_mul n 2)) (\<lambda>_. ret (resolve_value jx selector ob))
         | None \<Rightarrow>
             cbind (charge (usize_saturating_mul (ob_retained_bytes ob - unrelated_result_bytes selector ob) 2)) (\<lambda>_.
             ret (resolve_value jx selector ob)))))"

definition borrow_tool_result_text :: "observation \<Rightarrow> (string \<times> SelectorPresence) option charged" where
  "borrow_tool_result_text ob =
    cbind (charge 1) (\<lambda>_.
      case on_tool ob (\<lambda>b. if to_searchable_result b = None then (case to_result b of Some (String s) \<Rightarrow> Some s | _ \<Rightarrow> None) else None) of
        None \<Rightarrow> ret None
      | Some s \<Rightarrow> cbind (charge (usize_saturating_mul (length ''tool.result'') (length (ob_fact_metadata ob)))) (\<lambda>_.
          ret (Some (s, if bt_get ''tool.result'' (ob_fact_metadata ob) \<noteq> None then Present else MetadataMissing))))"

section \<open>Metered computations\<close>

text \<open>
  \<open>meters c v\<close>: the computation has a fixed cost. Where the budget covers it, it returns \<open>v\<close> and the budget
  has paid exactly that cost; where not, it reports \<open>Bounds\<close> and leaves the budget exhausted.
\<close>

definition metered :: "'a charged \<Rightarrow> 'a \<Rightarrow> nat \<Rightarrow> bool" where
  "metered c v n \<longleftrightarrow> (\<forall>b. \<not> is_exhausted b \<and> sb_work (rb_bounds b) \<le> USIZE_MAX \<longrightarrow>
     c b = (if rb_work_bytes b + n \<le> sb_work (rb_bounds b) then (Inr v, b\<lparr>rb_work_bytes := rb_work_bytes b + n\<rparr>)
            else (Inl Bounds, b\<lparr>rb_work_bytes := usize_saturating_add (sb_work (rb_bounds b)) 1\<rparr>)))"

definition meters :: "'a charged \<Rightarrow> 'a \<Rightarrow> bool" where
  "meters c v \<longleftrightarrow> (\<exists>n. metered c v n)"

named_theorems meters_intros \<open>how metered computations compose\<close>

lemma metered_ret: "metered (ret v) v 0"
  by (simp add: metered_def ret_def is_exhausted_def)

lemma metered_charge: "metered (charge k) () (max k 1)"
  by (auto simp: metered_def charge_def usize_checked_add_def)

lemma metered_bind:
  assumes "metered m x i" and "metered (f x) y j"
  shows "metered (cbind m f) y (i + j)"
  unfolding metered_def
proof (intro allI impI)
  fix b
  assume b: "\<not> is_exhausted b \<and> sb_work (rb_bounds b) \<le> USIZE_MAX"
  show "cbind m f b = (if rb_work_bytes b + (i + j) \<le> sb_work (rb_bounds b) then (Inr y, b\<lparr>rb_work_bytes := rb_work_bytes b + (i + j)\<rparr>)
            else (Inl Bounds, b\<lparr>rb_work_bytes := usize_saturating_add (sb_work (rb_bounds b)) 1\<rparr>))"
  proof (cases "rb_work_bytes b + i \<le> sb_work (rb_bounds b)")
    case True
    let ?b = "b\<lparr>rb_work_bytes := rb_work_bytes b + i\<rparr>"
    have "m b = (Inr x, ?b)" using assms(1) b True by (simp add: metered_def)
    moreover have "\<not> is_exhausted ?b \<and> sb_work (rb_bounds ?b) \<le> USIZE_MAX" using b True by (simp add: is_exhausted_def)
    then have "f x ?b = (if rb_work_bytes b + i + j \<le> sb_work (rb_bounds b) then (Inr y, b\<lparr>rb_work_bytes := rb_work_bytes b + i + j\<rparr>)
            else (Inl Bounds, b\<lparr>rb_work_bytes := usize_saturating_add (sb_work (rb_bounds b)) 1\<rparr>))"
      using assms(2) unfolding metered_def by (metis (no_types, lifting) RetentionBudget.select_convs(3,4) RetentionBudget.surjective
        RetentionBudget.update_convs(3))
    ultimately show ?thesis by (simp add: cbind_def add.assoc)
  next
    case False
    then show ?thesis using assms(1) b by (simp add: metered_def cbind_def)
  qed
qed

lemma meters_ret [meters_intros]: "meters (ret v) v"
  unfolding meters_def by (rule exI, rule metered_ret)

lemma meters_charge [meters_intros]: "meters (charge k) ()"
  unfolding meters_def by (rule exI, rule metered_charge)

lemma meters_bind: "meters m x \<Longrightarrow> meters (f x) y \<Longrightarrow> meters (cbind m f) y"
  unfolding meters_def by (elim exE, rule exI, rule metered_bind)

lemma meters_charge_bind [meters_intros]: "meters (f ()) y \<Longrightarrow> meters (cbind (charge k) f) y"
  by (rule meters_bind [OF meters_charge])

lemma meters_if [meters_intros]: "(q \<Longrightarrow> meters c x) \<Longrightarrow> (\<not> q \<Longrightarrow> meters d y) \<Longrightarrow> meters (if q then c else d) (if q then x else y)"
  by simp

lemma meters_option [meters_intros]:
  "(a = None \<Longrightarrow> meters c x) \<Longrightarrow> (\<And>z. a = Some z \<Longrightarrow> meters (d z) (y z))
    \<Longrightarrow> meters (case a of None \<Rightarrow> c | Some z \<Rightarrow> d z) (case a of None \<Rightarrow> x | Some z \<Rightarrow> y z)"
  by (cases a) simp_all

lemma meters_string:
  "(\<And>s. meters (f s) (g s)) \<Longrightarrow> meters d y
    \<Longrightarrow> meters (case v of Some (String s) \<Rightarrow> f s | _ \<Rightarrow> d) (case v of Some (String s) \<Rightarrow> g s | _ \<Rightarrow> y)"
  by (simp split: option.splits JsonValue.splits)

lemma meters_each [meters_intros]: "(\<And>x. x \<in> set xs \<Longrightarrow> meters (f x) ()) \<Longrightarrow> meters (cfold (\<lambda>_. f) () xs) ()"
  by (induction xs) (auto intro: meters_intros meters_bind)

text \<open>What \<open>meters\<close> says of one run.\<close>

lemma meters_run:
  assumes "meters c v"
  shows "\<exists>n. \<forall>b. \<not> is_exhausted b \<and> sb_work (rb_bounds b) \<le> USIZE_MAX \<longrightarrow>
    c b = (if rb_work_bytes b + n \<le> sb_work (rb_bounds b) then (Inr v, b\<lparr>rb_work_bytes := rb_work_bytes b + n\<rparr>)
           else (Inl Bounds, b\<lparr>rb_work_bytes := usize_saturating_add (sb_work (rb_bounds b)) 1\<rparr>))"
  using assms unfolding meters_def metered_def .

lemma scale_apply_usize: "scale_apply scale flr \<le> USIZE_MAX"
  by (simp add: scale_apply_def Let_def)

lemma source_bounds_usize [simp]: "sb_work (source_bounds scale) \<le> USIZE_MAX"
  by (simp add: source_bounds_def scale_apply_usize)

section \<open>Resolution without a budget\<close>

text \<open>The text of a message and the value of a selector, as plain functions of the observation.\<close>

definition message_resolution :: "SelectorId \<Rightarrow> observation \<Rightarrow> SelectorResolution" where
  "message_resolution selector ob =
    (let capability = required_capability selector in
     case ob_body ob of
       MessageBody b \<Rightarrow>
         if (selector = CompatAssistantContext \<and> mo_role b \<noteq> Some RoleAssistant) \<or> (selector = CompatUserContext \<and> mo_role b \<noteq> Some RoleUser)
         then absent selector capability
         else (case mo_content b of
             Some (String s) \<Rightarrow> field_of selector ob ''message.content'' (String s) capability
           | _ \<Rightarrow>
               let texts = List.map_filter part_text (mo_content_parts b) in
               if texts = [] then absent selector capability
               else \<lparr>sr_selector = selector, sr_presence = (if message_metadata ob = None then MetadataMissing else Present),
                     sr_value = Some (String (join [char_of (10 :: nat)] texts)), sr_metadata = message_metadata ob,
                     sr_required_capability = capability\<rparr>)
     | _ \<Rightarrow> absent selector capability)"

definition is_message_selector :: "SelectorId \<Rightarrow> bool" where
  "is_message_selector selector \<longleftrightarrow> selector \<in> {GovernedFacet ''message.text'', CompatAssistantContext, CompatUserContext}"

definition resolution :: "json_env \<Rightarrow> SelectorId \<Rightarrow> observation \<Rightarrow> SelectorResolution" where
  "resolution jx selector ob =
    (if is_message_selector selector then message_resolution selector ob
     else case direct_result selector ob of
       Some s \<Rightarrow> field_of selector ob ''tool.result'' (String s) (required_capability selector)
     | None \<Rightarrow> resolve_value jx selector ob)"

lemma meters_message_text: "meters (message_text selector ob) (message_resolution selector ob)"
proof (cases "\<exists>b. ob_body ob = MessageBody b")
  case True
  then obtain b where b: "ob_body ob = MessageBody b" by blast
  have other: "meters (let texts = List.map_filter part_text (mo_content_parts b); joined = join [char_of (10 :: nat)] texts
      in cbind (cfold (\<lambda>_ _. charge 1) () (mo_content_parts b)) (\<lambda>_.
         if texts = [] then ret r
         else cbind (charge (length joined)) (\<lambda>_. cbind (cfold (\<lambda>_ _. charge 1) () (mo_content_parts b)) (\<lambda>_. ret (q joined)))))
      (let texts = List.map_filter part_text (mo_content_parts b) in if texts = [] then r else q (join [char_of (10 :: nat)] texts))" for r q
    unfolding Let_def by (intro meters_bind [OF meters_each] meters_intros)
  have one: "meters (cbind (charge (length s)) (\<lambda>_. ret r)) r" for s :: string and r :: SelectorResolution
    by (intro meters_intros)
  show ?thesis
    unfolding message_text_def message_resolution_def Let_def [of "required_capability selector"] b ObservationBody.case
    by (intro meters_if meters_ret meters_string one other)
next
  case False
  then show ?thesis by (cases "ob_body ob") (simp_all add: message_text_def message_resolution_def meters_ret)
qed

lemma meters_charge_metadata [meters_intros]: "meters (charge_metadata ob) ()"
  unfolding charge_metadata_def charge_fingerprint_def by (intro meters_intros) (auto intro!: meters_intros)

lemma meters_try_resolve: "meters (try_resolve jx selector ob) (resolution jx selector ob)"
proof -
  have "meters (case control_bytes selector ob of
           Some n \<Rightarrow> cbind (charge (usize_saturating_mul n 2)) (\<lambda>_. ret (resolve_value jx selector ob))
         | None \<Rightarrow> cbind (charge (usize_saturating_mul (ob_retained_bytes ob - unrelated_result_bytes selector ob) 2)) (\<lambda>_.
             ret (resolve_value jx selector ob))) (resolve_value jx selector ob)"
    by (cases "control_bytes selector ob") (simp_all add: meters_intros)
  then show ?thesis
    unfolding try_resolve_def resolution_def is_message_selector_def
    by (intro meters_charge_bind meters_bind [OF meters_charge_metadata] meters_if meters_message_text)
      (auto intro!: meters_intros split: option.splits)
qed

section \<open>Names\<close>

lemma named_as_str: "map_of NAMED_SELECTORS s = Some selector \<Longrightarrow> selector_as_str selector = s"
proof -
  have "\<forall>(s, selector) \<in> List.set NAMED_SELECTORS. selector_as_str selector = s" by (simp add: NAMED_SELECTORS_def)
  moreover assume "map_of NAMED_SELECTORS s = Some selector"
  ultimately show ?thesis using map_of_SomeD by fastforce
qed

lemma named_selectors: "List.set (map fst NAMED_SELECTORS) \<subseteq> List.set SELECTORS"
  by (simp add: NAMED_SELECTORS_def SELECTORS_def)

lemma backed_selectors: "map fst SELECTOR_BACKING = SELECTORS"
  by (simp add: SELECTOR_BACKING_def SELECTORS_def)

lemma distinct_selectors: "distinct SELECTORS"
  by (simp add: SELECTORS_def)

lemma parse_selector_iff: "(\<exists>selector. parse_selector s = Inr selector) \<longleftrightarrow> s \<in> List.set SELECTORS"
proof (cases "map_of NAMED_SELECTORS s")
  case None
  then show ?thesis by (simp add: parse_selector_def)
next
  case (Some selector)
  then have "s \<in> List.set (map fst NAMED_SELECTORS)" by (force dest: map_of_SomeD)
  with Some named_selectors show ?thesis by (auto simp: parse_selector_def)
qed

lemma parse_selector_as_str: "parse_selector s = Inr selector \<Longrightarrow> selector_as_str selector = s"
  by (auto simp: parse_selector_def named_as_str split: option.splits if_splits)

lemma parse_as_str_named: "(\<forall>s. selector \<noteq> GovernedFacet s) \<Longrightarrow> parse_selector (selector_as_str selector) = Inr selector"
  by (cases selector) (simp_all add: parse_selector_def NAMED_SELECTORS_def)

lemma parse_selector_backing: "parse_selector s = Inr selector \<Longrightarrow> backing selector \<noteq> None"
  using parse_selector_iff [of s] parse_selector_as_str [of s selector] backed_selectors
  by (auto simp: backing_def map_of_eq_None_iff simp flip: list.set_map)

lemma parse_selector_stable: "parse_selector s = Inr selector \<Longrightarrow> parse_selector (selector_as_str selector) = Inr selector"
  using parse_selector_as_str by simp

section \<open>Direct results\<close>

text \<open>The strings that a canonical observation holds are normalised.\<close>

definition normalised_results :: "text_env \<Rightarrow> observation \<Rightarrow> bool" where
  "normalised_results tx ob \<longleftrightarrow> (case on_tool ob to_result of Some (String s) \<Rightarrow> tx_nfc tx s = s | _ \<Rightarrow> True)"

lemma direct_result_value:
  assumes "direct_result selector ob = Some s" and "normalised_results (jx_text jx) ob"
  shows "resolve_value jx selector ob = field_of selector ob ''tool.result'' (String s) (required_capability selector)"
proof -
  obtain b where b: "ob_body ob = ToolBody b" and s: "to_result b = Some (String s)"
    and sel: "selector = ToolResult \<or> (to_searchable_result b = None \<and> (selector = CompatToolResult \<or> selector = GovernedFacet ''tool.result.text''))"
    using assms(1) by (auto simp: direct_result_def on_tool_def split: if_splits ObservationBody.splits option.splits JsonValue.splits)
  have n: "tx_nfc (jx_text jx) s = s" using assms(2) b s by (simp add: normalised_results_def on_tool_def)
  have facets: "parse_selector ''tool.result.text'' = Inr (GovernedFacet ''tool.result.text'')"
    by (simp add: parse_selector_def NAMED_SELECTORS_def SELECTORS_def)
  from sel consider "selector = ToolResult" | "selector = CompatToolResult" "to_searchable_result b = None"
    | "selector = GovernedFacet ''tool.result.text''" "to_searchable_result b = None" by metis
  then show ?thesis
  proof cases
    case 1
    then show ?thesis using parse_as_str_named [of selector] b s
      by (simp add: resolve_value_def is_compat_def resolve_native_def typed_body_value_def tool_value_def)
  next
    case 2
    then show ?thesis using parse_as_str_named [of selector] b s n
      by (simp add: resolve_value_def is_compat_def resolve_compat_def tool_text_def text_or_string_def json_string_def)
  next
    case 3
    then show ?thesis using facets b s n
      by (simp add: resolve_value_def is_compat_def resolve_native_def typed_body_value_def text_or_string_def json_string_def)
  qed
qed

lemma resolution_value:
  assumes "\<not> is_message_selector selector" and "normalised_results (jx_text jx) ob"
  shows "resolution jx selector ob = resolve_value jx selector ob"
  using assms direct_result_value by (auto simp: resolution_def split: option.splits)

section \<open>Properties\<close>

text \<open>C37. Selector names round-trip. The parser accepts exactly the registered names, which are distinct; a parsed selector
  prints as the name it came from and parses back to itself; every selector variant with a name of its own is
  reached by the parser; and every parsed selector has an entry in the backing table, so that the lookup that
  expects one never panics.\<close>

theorem selector_names_round_trip:
  "distinct SELECTORS
    \<and> (\<forall>s. (\<exists>selector. parse_selector s = Inr selector) \<longleftrightarrow> s \<in> List.set SELECTORS)
    \<and> (\<forall>s selector. parse_selector s = Inr selector \<longrightarrow> selector_as_str selector = s \<and> backing selector \<noteq> None)
    \<and> (\<forall>selector. (\<forall>s. selector \<noteq> GovernedFacet s) \<longrightarrow> parse_selector (selector_as_str selector) = Inr selector)"
  using distinct_selectors parse_selector_iff parse_selector_as_str parse_selector_backing parse_as_str_named by blast

theorem selector_names_round_trip_witness:
  "selector_as_str (GovernedFacet ''network.port'') = ''network.port'' \<and> backing (GovernedFacet ''network.port'') \<noteq> None
    \<and> parse_selector (selector_as_str CompatUrl) = Inr CompatUrl"
proof -
  have "parse_selector ''network.port'' = Inr (GovernedFacet ''network.port'')"
    by (simp add: parse_selector_def NAMED_SELECTORS_def SELECTORS_def)
  then show ?thesis using selector_names_round_trip by blast
qed

text \<open>C38. Charged resolution is plain resolution at a fixed price. For every selector there is a cost, the same for
  every budget: a budget that covers it gets the value of the uncharged resolver, whichever of the direct, the
  control-field and the general path was taken, and has paid that cost; a budget that does not cover it gets
  \<open>Bounds\<close> and is exhausted. The observation's result text is in normal form, as its builder leaves it.\<close>

theorem try_resolve_meters_resolve:
  assumes "\<not> is_message_selector selector" and "normalised_results (jx_text jx) ob"
  shows "\<exists>n. \<forall>b. \<not> is_exhausted b \<and> sb_work (rb_bounds b) \<le> USIZE_MAX \<longrightarrow>
    try_resolve jx selector ob b =
      (if rb_work_bytes b + n \<le> sb_work (rb_bounds b) then (Inr (resolve_value jx selector ob), b\<lparr>rb_work_bytes := rb_work_bytes b + n\<rparr>)
       else (Inl Bounds, b\<lparr>rb_work_bytes := usize_saturating_add (sb_work (rb_bounds b)) 1\<rparr>))"
  using meters_run [OF meters_try_resolve] resolution_value [OF assms] by metis

definition sample_tool_result :: observation where
  "sample_tool_result =
    \<lparr>ob_retained_bytes = 10,
     ob_body = ToolBody \<lparr>to_name = Some ''Bash'', to_arguments = None, to_searchable_arguments = None, to_result = Some (String ''ok''),
       to_searchable_result = None, to_reported_status = None, to_is_error = None, to_exit_code = Some 3\<rparr>,
     ob_stage = ToolResultReturned, ob_session_id = None, ob_call_id = None, ob_capability_context = Some [(ToolCall, Supported)],
     ob_facets = [],
     ob_fact_metadata = [(''tool.exit_code'', \<lparr>fm_provenance = Reported, fm_fidelity_override = None, fm_sensitivity = Normal,
       fm_keyed_fingerprints = []\<rparr>)]\<rparr>"

definition sample_json :: json_env where
  "sample_json = \<lparr>jx_text = sample_text, jx_raw_members = \<lambda>s. None, jx_from_str = \<lambda>s. None\<rparr>"

lemma sample_normalised: "normalised_results (jx_text sample_json) sample_tool_result"
  by (simp add: normalised_results_def sample_tool_result_def on_tool_def sample_json_def sample_text_def)

lemma charge_covered:
  "w + max k 1 \<le> 268435456 \<Longrightarrow> charge k (retention_budget w 0) = (Inr (), retention_budget (w + max k 1) 0)"
  by (simp add: charge_def usize_checked_add_def retention_budget_def source_bounds_def scale_apply_def SOURCE_SCALE_UNIT_BYTES_def
      MAX_EVALUATION_BYTE_VISITS_def USIZE_MAX_def)

lemma sample_resolution:
  "resolve_value sample_json ToolExitCode sample_tool_result = \<lparr>sr_selector = ToolExitCode, sr_presence = Present, sr_value = Some (Integer 3),
     sr_metadata = Some \<lparr>fm_provenance = Reported, fm_fidelity_override = None, fm_sensitivity = Normal, fm_keyed_fingerprints = []\<rparr>,
     sr_required_capability = Some ToolCall\<rparr>"
  using parse_as_str_named [of ToolExitCode]
  by (simp add: resolve_value_def is_compat_def resolve_native_def typed_body_value_def body_field_def on_tool_def sample_tool_result_def field_of_def
      metadata_for_path_def bt_get_def)

lemma sample_parts:
  "ob_retained_bytes sample_tool_result = 10" "ob_capability_context sample_tool_result = Some [(ToolCall, Supported)]"
  "on_tool sample_tool_result to_result = Some (String ''ok'')"
  "on_tool sample_tool_result (\<lambda>b. if to_searchable_result b = None then case to_result b of Some (String s) \<Rightarrow> Some s | _ \<Rightarrow> None else None) = Some ''ok''"
  "on_tool sample_tool_result (\<lambda>b. case to_result b of Some (String s) \<Rightarrow> Some s | _ \<Rightarrow> None) = Some ''ok''"
  by (simp_all add: sample_tool_result_def on_tool_def)

lemma sample_charge_metadata: "charge_metadata sample_tool_result (retention_budget w 0) = charge 14 (retention_budget w 0)"
  by (simp add: charge_metadata_def sample_tool_result_def cbind_def ret_def numeral_eq_Suc split: prod.splits sum.splits)

lemma sample_try_resolve:
  "w \<le> 1000 \<Longrightarrow> try_resolve sample_json ToolExitCode sample_tool_result (retention_budget w 0)
     = (Inr (resolve_value sample_json ToolExitCode sample_tool_result), retention_budget (w + 31) 0)"
  "w \<le> 1000 \<Longrightarrow> try_resolve sample_json ToolResult sample_tool_result (retention_budget w 0)
     = (Inr (field_of ToolResult sample_tool_result ''tool.result'' (String ''ok'') (Some ToolCall)), retention_budget (w + 17) 0)"
  by (simp_all add: try_resolve_def cbind_def charge_covered sample_charge_metadata direct_result_def control_bytes_def unrelated_result_bytes_def
      sample_parts usize_saturating_mul_def USIZE_MAX_def ret_def add.commute)

lemma sample_field:
  "field_of ToolResult sample_tool_result ''tool.result'' (String ''ok'') (Some ToolCall) = \<lparr>sr_selector = ToolResult, sr_presence = MetadataMissing,
     sr_value = Some (String ''ok''), sr_metadata = None, sr_required_capability = Some ToolCall\<rparr>"
  by (simp add: field_of_def metadata_for_path_def bt_get_def sample_tool_result_def)

theorem try_resolve_meters_resolve_witness:
  "\<exists>n. try_resolve sample_json ToolExitCode sample_tool_result (retention_budget 0 0)
    = (Inr (resolve_value sample_json ToolExitCode sample_tool_result), retention_budget n 0)
    \<and> sr_value (resolve_value sample_json ToolExitCode sample_tool_result) = Some (Integer 3)"
proof -
  have b: "\<not> is_exhausted (retention_budget 0 0) \<and> sb_work (rb_bounds (retention_budget 0 0)) \<le> USIZE_MAX"
    by (simp add: is_exhausted_def retention_budget_def)
  have m: "\<not> is_message_selector ToolExitCode" by (simp add: is_message_selector_def)
  obtain n where "try_resolve sample_json ToolExitCode sample_tool_result (retention_budget 0 0) =
      (if rb_work_bytes (retention_budget 0 0) + n \<le> sb_work (rb_bounds (retention_budget 0 0))
       then (Inr (resolve_value sample_json ToolExitCode sample_tool_result), (retention_budget 0 0)\<lparr>rb_work_bytes := rb_work_bytes (retention_budget 0 0) + n\<rparr>)
       else (Inl Bounds, (retention_budget 0 0)\<lparr>rb_work_bytes := usize_saturating_add (sb_work (rb_bounds (retention_budget 0 0))) 1\<rparr>))"
    using try_resolve_meters_resolve [OF m sample_normalised] b by blast
  then have "try_resolve sample_json ToolExitCode sample_tool_result (retention_budget 0 0)
      = (Inr (resolve_value sample_json ToolExitCode sample_tool_result), retention_budget n 0)"
    using sample_try_resolve(1) [of 0] by (auto simp: retention_budget_def split: if_splits)
  then show ?thesis by (auto simp: sample_resolution)
qed

end
