(* ===== verification/Matcher.thy ===== *)
theory Matcher
  imports Selector Process_Chain_Rules Complex_Main
begin

text \<open>
  The bounded matcher, \<open>crates/telltale-detect/src/v2/matcher.rs\<close>: compilation of a matcher specification and its
  charged evaluation on an observation, with results that distinguish no match from not evaluated. The regex
  crate is the parameter \<open>mx_regex\<close>, with \<open>regex::escape\<close> of a character beside it.
\<close>

section \<open>Specifications\<close>

definition MAX_MATCHER_DEPTH :: nat where "MAX_MATCHER_DEPTH = 8"
definition MAX_MATCHER_BRANCHES :: nat where "MAX_MATCHER_BRANCHES = 64"
definition MAX_PATTERN_BYTES :: nat where "MAX_PATTERN_BYTES = 1024"

datatype MatcherOperator = Equals | NotEquals | Contains | Regex | Glob | Exists | NotExists | In | NotIn | StartsWith | EndsWith
  | Gt | Gte | Lt | Lte

fun operator_as_str :: "MatcherOperator \<Rightarrow> string" where
  "operator_as_str Equals = ''equals''"
| "operator_as_str NotEquals = ''not_equals''"
| "operator_as_str Contains = ''contains''"
| "operator_as_str Regex = ''regex''"
| "operator_as_str Glob = ''glob''"
| "operator_as_str Exists = ''exists''"
| "operator_as_str NotExists = ''not_exists''"
| "operator_as_str In = ''in''"
| "operator_as_str NotIn = ''not_in''"
| "operator_as_str StartsWith = ''starts_with''"
| "operator_as_str EndsWith = ''ends_with''"
| "operator_as_str Gt = ''gt''"
| "operator_as_str Gte = ''gte''"
| "operator_as_str Lt = ''lt''"
| "operator_as_str Lte = ''lte''"

definition parse_operator :: "string \<Rightarrow> (DetectionError, MatcherOperator) result" where
  "parse_operator s =
    ok_or (map_of [(''equals'', Equals), (''not_equals'', NotEquals), (''contains'', Contains), (''regex'', Regex), (''glob'', Glob),
      (''exists'', Exists), (''not_exists'', NotExists), (''in'', In), (''not_in'', NotIn), (''starts_with'', StartsWith),
      (''ends_with'', EndsWith), (''gt'', Gt), (''gte'', Gte), (''lt'', Lt), (''lte'', Lte)] s) InvalidOperator"

definition is_presence :: "MatcherOperator \<Rightarrow> bool" where
  "is_presence operator \<longleftrightarrow> operator = Exists \<or> operator = NotExists"

record PredicateSpec =
  ps_selector :: string
  ps_operator :: MatcherOperator
  ps_value :: "JsonValue option"
  ps_require_provenance :: "FactProvenance option"
  ps_require_capability :: "CapabilityId option"

datatype MatcherSpec = PredicateNode PredicateSpec | AllOf "MatcherSpec list" | AnyOf "MatcherSpec list" | NotOf MatcherSpec

record 'r CompiledPredicate =
  pr_selector :: SelectorId
  pr_operator :: MatcherOperator
  pr_value :: "JsonValue option"
  pr_expected_bytes :: nat
  pr_require_provenance :: "FactProvenance option"
  pr_require_capability :: "CapabilityId option"
  pr_pattern :: "'r option"

datatype 'r CompiledMatcherNode = Predicate "'r CompiledPredicate" | All "'r CompiledMatcherNode list" | Any "'r CompiledMatcherNode list"
  | Not "'r CompiledMatcherNode"

record 'r CompiledMatcher =
  cm_node :: "'r CompiledMatcherNode"
  cm_required_capabilities :: "CapabilityId list"

record 'r matcher_env =
  mx_json :: json_env
  mx_regex :: "'r regex_engine"
  mx_escape :: "char \<Rightarrow> string"

section \<open>Compilation\<close>

text \<open>The characters of a class up to the closing bracket, with backslashes doubled, and what follows.\<close>

fun glob_class :: "string \<Rightarrow> string \<Rightarrow> (string \<times> string) option" where
  "glob_class acc [] = None"
| "glob_class acc (c # cs) =
    (if c = CHR '']'' then Some (acc, cs)
     else glob_class (acc @ (if c = CHR 0x5C then [CHR 0x5C, CHR 0x5C] else [c])) cs)"

lemma glob_class_shorter: "glob_class acc cs = Some (acc', rest) \<Longrightarrow> length rest < length cs"
  by (induction acc cs rule: glob_class.induct) (auto split: if_splits)

function glob_expression :: "(char \<Rightarrow> string) \<Rightarrow> string \<Rightarrow> string \<Rightarrow> (DetectionError, string) result" where
  "glob_expression esc acc [] = Inr acc"
| "glob_expression esc acc (c # cs) =
    (let long = (\<lambda>expression k. if MAX_PATTERN_BYTES * 2 < length expression then Inl PatternTooLong else k expression) in
     if c = CHR ''*'' then long (acc @ ''.*'') (\<lambda>e. glob_expression esc e cs)
     else if c = CHR ''?'' then long (acc @ ''.'') (\<lambda>e. glob_expression esc e cs)
     else if c = CHR ''['' then
       (case glob_class (acc @ ''['') cs of
          None \<Rightarrow> Inl InvalidPattern
        | Some (acc', rest) \<Rightarrow> long (acc' @ '']'') (\<lambda>e. glob_expression esc e rest))
     else long (acc @ esc c) (\<lambda>e. glob_expression esc e cs))"
  by pat_completeness auto
termination
  by (relation "measure (\<lambda>(esc, acc, cs). length cs)") (auto dest: glob_class_shorter)

definition compile_glob :: "'r matcher_env \<Rightarrow> string \<Rightarrow> (DetectionError, 'r) result" where
  "compile_glob mx pattern =
    result_bind (glob_expression (mx_escape mx) ''^'' pattern) (\<lambda>expression.
      case regex_new (mx_regex mx) (expression @ ''$'') of Inl _ \<Rightarrow> Inl InvalidPattern | Inr r \<Rightarrow> Inr r)"

definition compile_pattern :: "'r matcher_env \<Rightarrow> MatcherOperator \<Rightarrow> JsonValue option \<Rightarrow> (DetectionError, 'r option) result" where
  "compile_pattern mx operator v =
    (if operator = Regex \<or> operator = Glob
     then (case v of
         Some (String pattern) \<Rightarrow>
           if MAX_PATTERN_BYTES < length pattern then Inl PatternTooLong
           else if operator = Regex
           then (case regex_new (mx_regex mx) pattern of Inl _ \<Rightarrow> Inl InvalidPattern | Inr r \<Rightarrow> Inr (Some r))
           else result_bind (compile_glob mx pattern) (\<lambda>r. Inr (Some r))
       | _ \<Rightarrow> Inl InvalidValue)
     else Inr None)"

definition capability_rank :: "CapabilityId \<Rightarrow> nat" where
  "capability_rank c = (case c of ToolCall \<Rightarrow> 0 | ToolExecution \<Rightarrow> 1 | UserContext \<Rightarrow> 2)"

text \<open>The set of required capabilities, a \<open>BTreeSet\<close>.\<close>

definition insert_capability :: "CapabilityId option \<Rightarrow> CapabilityId list \<Rightarrow> CapabilityId list" where
  "insert_capability c caps =
    (case c of None \<Rightarrow> caps | Some x \<Rightarrow> if x \<in> List.set caps then caps else insort_key capability_rank x caps)"

definition compile_predicate ::
  "'r matcher_env \<Rightarrow> PredicateSpec \<Rightarrow> CapabilityId list \<Rightarrow> (DetectionError, 'r CompiledPredicate \<times> CapabilityId list) result" where
  "compile_predicate mx p caps =
    result_bind (parse_selector (ps_selector p)) (\<lambda>selector.
      if is_presence (ps_operator p) \<noteq> (ps_value p = None) then Inl InvalidValue
      else result_bind (compile_pattern mx (ps_operator p) (ps_value p)) (\<lambda>pattern.
        Inr (\<lparr>pr_selector = selector, pr_operator = ps_operator p, pr_value = ps_value p,
            pr_expected_bytes = (case ps_value p of None \<Rightarrow> 0
              | Some v \<Rightarrow> (case encoded_byte_len (jx_text (mx_json mx)) v of Inr n \<Rightarrow> n | Inl _ \<Rightarrow> 1)),
            pr_require_provenance = ps_require_provenance p, pr_require_capability = ps_require_capability p, pr_pattern = pattern\<rparr>,
          insert_capability (ps_require_capability p) (insert_capability (required_capability selector) caps))))"

definition validate_branches :: "'a list \<Rightarrow> (DetectionError, unit) result" where
  "validate_branches branches =
    (if branches = [] then Inl EmptyBooleanGroup
     else if MAX_MATCHER_BRANCHES < length branches then Inl BooleanBranchLimit else Inr ())"

definition count_branches :: "nat \<Rightarrow> nat \<Rightarrow> (DetectionError, nat) result" where
  "count_branches branch_count n =
    result_bind (ok_or (usize_checked_add branch_count n) BooleanBranchLimit) (\<lambda>branch_count.
      if MAX_MATCHER_BRANCHES < branch_count then Inl BooleanBranchLimit else Inr branch_count)"

text \<open>The capabilities and the number of branches are the mutable state of the compiler.\<close>

fun compile_node ::
  "'r matcher_env \<Rightarrow> MatcherSpec \<Rightarrow> nat \<Rightarrow> CapabilityId list \<times> nat \<Rightarrow> (DetectionError, 'r CompiledMatcherNode \<times> CapabilityId list \<times> nat) result"
and compile_nodes ::
  "'r matcher_env \<Rightarrow> MatcherSpec list \<Rightarrow> nat \<Rightarrow> CapabilityId list \<times> nat \<Rightarrow> (DetectionError, 'r CompiledMatcherNode list \<times> CapabilityId list \<times> nat) result"
where
  "compile_node mx (PredicateNode p) depth (caps, branch_count) =
    (if MAX_MATCHER_DEPTH < depth then Inl BooleanDepthExceeded
     else result_bind (compile_predicate mx p caps) (\<lambda>(predicate, caps). Inr (Predicate predicate, caps, branch_count)))"
| "compile_node mx (AllOf branches) depth (caps, branch_count) =
    (if MAX_MATCHER_DEPTH < depth then Inl BooleanDepthExceeded
     else result_bind (validate_branches branches) (\<lambda>_.
       result_bind (count_branches branch_count (length branches)) (\<lambda>branch_count.
       result_bind (compile_nodes mx branches (depth + 1) (caps, branch_count)) (\<lambda>(nodes, st). Inr (All nodes, st)))))"
| "compile_node mx (AnyOf branches) depth (caps, branch_count) =
    (if MAX_MATCHER_DEPTH < depth then Inl BooleanDepthExceeded
     else result_bind (validate_branches branches) (\<lambda>_.
       result_bind (count_branches branch_count (length branches)) (\<lambda>branch_count.
       result_bind (compile_nodes mx branches (depth + 1) (caps, branch_count)) (\<lambda>(nodes, st). Inr (Any nodes, st)))))"
| "compile_node mx (NotOf branch) depth (caps, branch_count) =
    (if MAX_MATCHER_DEPTH < depth then Inl BooleanDepthExceeded
     else result_bind (count_branches branch_count 1) (\<lambda>branch_count.
       result_bind (compile_node mx branch (depth + 1) (caps, branch_count)) (\<lambda>(node, st). Inr (Not node, st))))"
| "compile_nodes mx [] depth st = Inr ([], st)"
| "compile_nodes mx (s # ss) depth st =
    result_bind (compile_node mx s depth st) (\<lambda>(node, st).
    result_bind (compile_nodes mx ss depth st) (\<lambda>(nodes, st). Inr (node # nodes, st)))"

definition compile :: "'r matcher_env \<Rightarrow> MatcherSpec \<Rightarrow> (DetectionError, 'r CompiledMatcher) result" where
  "compile mx spec =
    result_bind (compile_node mx spec 0 ([], 0)) (\<lambda>(node, caps, branch_count).
      Inr \<lparr>cm_node = node, cm_required_capabilities = caps\<rparr>)"

section \<open>Comparison of values\<close>

datatype ordering = Less | Equal | Greater

fun reverse_ordering :: "ordering \<Rightarrow> ordering" where
  "reverse_ordering Less = Greater"
| "reverse_ordering Equal = Equal"
| "reverse_ordering Greater = Less"

definition cmp :: "'a::linorder \<Rightarrow> 'a \<Rightarrow> ordering" where
  "cmp a b = (if a < b then Less else if a = b then Equal else Greater)"

text \<open>\<open>f64::partial_cmp\<close> compares the mantissas at the smaller exponent; a NaN compares with nothing.\<close>

definition signed_mantissa :: "bool \<Rightarrow> nat \<Rightarrow> int" where
  "signed_mantissa negative m = (if negative then - int m else int m)"

fun partial_cmp :: "f64 \<Rightarrow> f64 \<Rightarrow> ordering option" where
  "partial_cmp (Finite s m e) (Finite s' m' e') =
    (let k = min e e' in Some (cmp (signed_mantissa s m * 2 ^ nat (e - k)) (signed_mantissa s' m' * 2 ^ nat (e' - k))))"
| "partial_cmp (Infinite s) (Infinite s') = Some (if s = s' then Equal else if s then Less else Greater)"
| "partial_cmp (Infinite s) (Finite _ _ _) = Some (if s then Less else Greater)"
| "partial_cmp (Finite _ _ _) (Infinite s) = Some (if s then Greater else Less)"
| "partial_cmp _ _ = None"

text \<open>The cast of a double to \<open>i128\<close> truncates and saturates.\<close>

definition clamp_i128 :: "int \<Rightarrow> int" where
  "clamp_i128 i = max (- (2 ^ 127)) (min (2 ^ 127 - 1) i)"

fun f64_as_i128 :: "f64 \<Rightarrow> int" where
  "f64_as_i128 NaN = 0"
| "f64_as_i128 (Infinite s) = (if s then - (2 ^ 127) else 2 ^ 127 - 1)"
| "f64_as_i128 (Finite s m e) =
    clamp_i128 (signed_mantissa s (if 0 \<le> e then m * 2 ^ nat e else m div 2 ^ nat (- e)))"

text \<open>The derived equality of values: structural, with the comparison of doubles at the leaves.\<close>

fun json_eq :: "JsonValue \<Rightarrow> JsonValue \<Rightarrow> bool"
and json_list_eq :: "JsonValue list \<Rightarrow> JsonValue list \<Rightarrow> bool"
and json_members_eq :: "(string \<times> JsonValue) list \<Rightarrow> (string \<times> JsonValue) list \<Rightarrow> bool" where
  "json_eq Null Null = True"
| "json_eq (Bool a) (Bool b) = (a = b)"
| "json_eq (Integer a) (Integer b) = (a = b)"
| "json_eq (Unsigned a) (Unsigned b) = (a = b)"
| "json_eq (Number a) (Number b) = (partial_cmp a b = Some Equal)"
| "json_eq (String a) (String b) = (a = b)"
| "json_eq (Array xs) (Array ys) = json_list_eq xs ys"
| "json_eq (Object ms) (Object ns) = json_members_eq ms ns"
| "json_eq _ _ = False"
| "json_list_eq [] [] = True"
| "json_list_eq (x # xs) (y # ys) = (json_eq x y \<and> json_list_eq xs ys)"
| "json_list_eq _ _ = False"
| "json_members_eq [] [] = True"
| "json_members_eq ((k, x) # ms) ((l, y) # ns) = (k = l \<and> json_eq x y \<and> json_members_eq ms ns)"
| "json_members_eq _ _ = False"

datatype NonEvaluationReason = RequiredCapabilityUnsupported | RequiredCapabilityUnknown | InsufficientVisibility | MissingOrderingField
  | MissingCorrelationKey | TypeMismatch | IneligibleInput

fun is_numeric :: "JsonValue \<Rightarrow> bool" where
  "is_numeric (Integer _) = True"
| "is_numeric (Unsigned _) = True"
| "is_numeric (Number f) = is_finite f"
| "is_numeric _ = False"

fun string_pair :: "JsonValue \<Rightarrow> JsonValue \<Rightarrow> (NonEvaluationReason, string \<times> string) result" where
  "string_pair (String actual) (String expected) = Inr (actual, expected)"
| "string_pair _ _ = Inl TypeMismatch"

definition signed_float_order :: "int \<Rightarrow> f64 \<Rightarrow> (NonEvaluationReason, ordering) result" where
  "signed_float_order integer float =
    (if \<not> is_finite float then Inl TypeMismatch
     else let integer_as_float = f64_of_int integer in
       if f64_as_i128 integer_as_float \<noteq> integer then Inl TypeMismatch
       else ok_or (partial_cmp integer_as_float float) TypeMismatch)"

definition unsigned_float_order :: "u64 \<Rightarrow> f64 \<Rightarrow> (NonEvaluationReason, ordering) result" where
  "unsigned_float_order integer float =
    (if \<not> is_finite float then Inl TypeMismatch
     else let integer_as_float = f64_of_int (int (unat integer)) in
       if f64_as_i128 integer_as_float \<noteq> int (unat integer) then Inl TypeMismatch
       else ok_or (partial_cmp integer_as_float float) TypeMismatch)"

definition reversed :: "(NonEvaluationReason, ordering) result \<Rightarrow> (NonEvaluationReason, ordering) result" where
  "reversed r = result_bind r (\<lambda>ord. Inr (reverse_ordering ord))"

fun numeric_order :: "JsonValue \<Rightarrow> JsonValue \<Rightarrow> (NonEvaluationReason, ordering) result" where
  "numeric_order (Integer left) (Integer right) = Inr (cmp left right)"
| "numeric_order (Unsigned left) (Unsigned right) = Inr (cmp left right)"
| "numeric_order (Integer left) (Unsigned right) =
    (if left < 0 then Inr Less else Inr (cmp (word_of_int left :: u64) right))"
| "numeric_order (Unsigned left) (Integer right) =
    (if right < 0 then Inr Greater else Inr (cmp left (word_of_int right :: u64)))"
| "numeric_order (Number left) (Number right) =
    (if is_finite left \<and> is_finite right then ok_or (partial_cmp left right) TypeMismatch else Inl TypeMismatch)"
| "numeric_order (Integer left) (Number right) = signed_float_order left right"
| "numeric_order (Unsigned left) (Number right) = unsigned_float_order left right"
| "numeric_order (Number left) (Integer right) = reversed (signed_float_order right left)"
| "numeric_order (Number left) (Unsigned right) = reversed (unsigned_float_order right left)"
| "numeric_order _ _ = Inl TypeMismatch"

definition compatible_equals :: "JsonValue \<Rightarrow> JsonValue \<Rightarrow> (NonEvaluationReason, bool) result" where
  "compatible_equals actual expected =
    (case (actual, expected) of
       (String left, String right) \<Rightarrow> Inr (left = right)
     | (Bool left, Bool right) \<Rightarrow> Inr (left = right)
     | _ \<Rightarrow>
         if is_numeric actual \<and> is_numeric expected
         then result_bind (numeric_order actual expected) (\<lambda>ord. Inr (ord = Equal))
         else (case (actual, expected) of
             (Null, Null) \<Rightarrow> Inr True
           | (Array left, Array right) \<Rightarrow> Inr (json_list_eq left right)
           | (Object left, Object right) \<Rightarrow> Inr (json_members_eq left right)
           | _ \<Rightarrow> Inl TypeMismatch))"

section \<open>Evaluation\<close>

datatype MatchState = Match | NoMatch | NotEvaluated NonEvaluationReason

record MatcherEvaluation =
  me_state :: MatchState
  me_matched_selector_paths :: "string list"

fun reason_rank :: "NonEvaluationReason \<Rightarrow> nat" where
  "reason_rank RequiredCapabilityUnsupported = 0"
| "reason_rank RequiredCapabilityUnknown = 1"
| "reason_rank InsufficientVisibility = 2"
| "reason_rank MissingOrderingField = 3"
| "reason_rank MissingCorrelationKey = 4"
| "reason_rank TypeMismatch = 5"
| "reason_rank IneligibleInput = 6"

instantiation NonEvaluationReason :: linorder
begin

definition less_eq_NonEvaluationReason :: "NonEvaluationReason \<Rightarrow> NonEvaluationReason \<Rightarrow> bool" where
  "less_eq_NonEvaluationReason a b = (reason_rank a \<le> reason_rank b)"

definition less_NonEvaluationReason :: "NonEvaluationReason \<Rightarrow> NonEvaluationReason \<Rightarrow> bool" where
  "less_NonEvaluationReason a b = (reason_rank a < reason_rank b)"

lemma reason_rank_inj: "reason_rank a = reason_rank b \<Longrightarrow> a = b"
  by (cases a; cases b) simp_all

instance
  by standard (auto simp: less_eq_NonEvaluationReason_def less_NonEvaluationReason_def dest: reason_rank_inj)

end

text \<open>Substring search.\<close>

fun str_contains :: "string \<Rightarrow> string \<Rightarrow> bool" where
  "str_contains [] needle = (needle = [])"
| "str_contains (c # cs) needle = (prefix needle (c # cs) \<or> str_contains cs needle)"

text \<open>\<open>apply_operator\<close>; the operators that its caller handles are \<open>unreachable!\<close>, the value \<open>None\<close>.\<close>

definition apply_operator ::
  "'r matcher_env \<Rightarrow> 'r CompiledPredicate \<Rightarrow> JsonValue \<Rightarrow> JsonValue \<Rightarrow> (NonEvaluationReason, bool) result option" where
  "apply_operator mx p actual expected =
    (let strings = (\<lambda>test. Some (result_bind (string_pair actual expected) (\<lambda>(left, right). Inr (test left right))));
         pattern = (case actual of
           String v \<Rightarrow> Some (Inr (case pr_pattern p of Some r \<Rightarrow> regex_is_match (mx_regex mx) r v | None \<Rightarrow> False))
         | _ \<Rightarrow> Some (Inl TypeMismatch));
         order = (\<lambda>test. Some (result_bind (numeric_order actual expected) (\<lambda>ord. Inr (test ord))))
     in case pr_operator p of
       Equals \<Rightarrow> Some (compatible_equals actual expected)
     | NotEquals \<Rightarrow> Some (result_bind (compatible_equals actual expected) (\<lambda>b. Inr (\<not> b)))
     | Contains \<Rightarrow> strings str_contains
     | StartsWith \<Rightarrow> strings (\<lambda>left right. prefix right left)
     | EndsWith \<Rightarrow> strings (\<lambda>left right. suffix right left)
     | Regex \<Rightarrow> pattern
     | Glob \<Rightarrow> pattern
     | Gt \<Rightarrow> order (\<lambda>ord. ord = Greater)
     | Gte \<Rightarrow> order (\<lambda>ord. ord \<noteq> Less)
     | Lt \<Rightarrow> order (\<lambda>ord. ord = Less)
     | Lte \<Rightarrow> order (\<lambda>ord. ord \<noteq> Greater)
     | In \<Rightarrow> None
     | NotIn \<Rightarrow> None
     | Exists \<Rightarrow> None
     | NotExists \<Rightarrow> None)"

text \<open>The two loops of \<open>charged_membership\<close>.\<close>

fun check_strings :: "JsonValue list \<Rightarrow> (NonEvaluationReason, unit) result charged" where
  "check_strings [] = ret (Inr ())"
| "check_strings (v # vs) = cbind (charge 1) (\<lambda>_. case v of String _ \<Rightarrow> check_strings vs | _ \<Rightarrow> ret (Inl TypeMismatch))"

fun member_loop :: "string \<Rightarrow> JsonValue list \<Rightarrow> bool charged" where
  "member_loop actual [] = ret False"
| "member_loop actual (v # vs) =
    (case v of
       String expected \<Rightarrow>
         cbind (charge (usize_saturating_add (length actual) (length expected))) (\<lambda>_.
           if actual = expected then ret True else member_loop actual vs)
     | _ \<Rightarrow> member_loop actual vs)"

definition charged_membership :: "JsonValue \<Rightarrow> JsonValue \<Rightarrow> (NonEvaluationReason, bool) result charged" where
  "charged_membership actual expected =
    (let go = (\<lambda>values. cbind (check_strings values) (\<lambda>checked.
       case checked of
         Inl reason \<Rightarrow> ret (Inl reason)
       | Inr _ \<Rightarrow> (case actual of
           String a \<Rightarrow> cbind (member_loop a values) (\<lambda>found. ret (Inr found))
         | _ \<Rightarrow> ret (Inl TypeMismatch))))
     in case expected of String _ \<Rightarrow> go [expected] | Array values \<Rightarrow> go values | _ \<Rightarrow> ret (Inl TypeMismatch))"

definition context_resolve :: "CapabilityContext option \<Rightarrow> CapabilityId \<Rightarrow> CapabilityAvailability" where
  "context_resolve context capability =
    (case context of Some c \<Rightarrow> resolve_capability c capability | None \<Rightarrow> UnknownAvailability)"

definition preflight_capability :: "CapabilityId \<Rightarrow> CapabilityContext option \<Rightarrow> NonEvaluationReason option" where
  "preflight_capability capability context =
    (case context_resolve context capability of
       Supported \<Rightarrow> None
     | Unsupported \<Rightarrow> Some RequiredCapabilityUnsupported
     | UnknownAvailability \<Rightarrow> Some RequiredCapabilityUnknown)"

definition preflight_capabilities :: "CapabilityId list \<Rightarrow> CapabilityContext option \<Rightarrow> NonEvaluationReason option" where
  "preflight_capabilities capabilities context =
    (let availability = map (context_resolve context) capabilities in
     if Unsupported \<in> List.set availability then Some RequiredCapabilityUnsupported
     else if UnknownAvailability \<in> List.set availability then Some RequiredCapabilityUnknown
     else None)"

definition strongest_reason :: "NonEvaluationReason list \<Rightarrow> NonEvaluationReason option" where
  "strongest_reason reasons = (case reasons of [] \<Rightarrow> None | r # rs \<Rightarrow> Some (fold min rs r))"

definition normalize_paths :: "string list \<Rightarrow> string list" where
  "normalize_paths paths = sort_dedup paths"

text \<open>The outcome of an operator; the value \<open>None\<close> is the \<open>unreachable!\<close> of \<open>apply_operator\<close>.\<close>

definition operator_outcome ::
  "'r CompiledPredicate \<Rightarrow> (NonEvaluationReason, bool) result \<Rightarrow> MatchState \<times> string list" where
  "operator_outcome p r =
    (case r of
       Inr b \<Rightarrow> if b then (Match, [selector_as_str (pr_selector p)]) else (NoMatch, [])
     | Inl reason \<Rightarrow> (NotEvaluated reason, []))"

definition provenance_ineligible :: "'r CompiledPredicate \<Rightarrow> SelectorResolution \<Rightarrow> bool" where
  "provenance_ineligible p resolved \<longleftrightarrow>
    (case pr_require_provenance p of
       None \<Rightarrow> False
     | Some required \<Rightarrow> sr_presence resolved \<noteq> Absent
         \<and> \<not> (case sr_metadata resolved of Some metadata \<Rightarrow> fm_provenance metadata = required | None \<Rightarrow> False))"

definition evaluate_resolved_predicate ::
  "'r matcher_env \<Rightarrow> 'r CompiledPredicate \<Rightarrow> observation \<Rightarrow> SelectorResolution \<Rightarrow> (MatchState \<times> string list) option charged" where
  "evaluate_resolved_predicate mx p ob resolved =
    (let finish = (\<lambda>state. ret (Some (state, []))); matched = ret (Some (Match, [selector_as_str (pr_selector p)])) in
     cbind (charge 1) (\<lambda>_.
       case Option.bind (pr_require_capability p) (\<lambda>c. preflight_capability c (ob_capability_context ob)) of
         Some reason \<Rightarrow> finish (NotEvaluated reason)
       | None \<Rightarrow>
         if sr_presence resolved = UnavailableVisibility then finish (NotEvaluated InsufficientVisibility)
         else if sr_presence resolved = MetadataMissing then finish (NotEvaluated IneligibleInput)
         else if provenance_ineligible p resolved then finish (NotEvaluated IneligibleInput)
         else if \<not> is_present resolved
         then (if pr_operator p = NotExists then matched
               else if pr_operator p = NotEquals \<or> pr_operator p = NotIn then finish (NotEvaluated IneligibleInput)
               else finish NoMatch)
         else if pr_operator p = NotExists then finish NoMatch
         else if pr_operator p = Exists then matched
         else (case sr_value resolved of
             None \<Rightarrow> finish (NotEvaluated IneligibleInput)
           | Some actual \<Rightarrow> (case pr_value p of
               None \<Rightarrow> finish (NotEvaluated TypeMismatch)
             | Some expected \<Rightarrow>
                 if pr_operator p = In \<or> pr_operator p = NotIn
                 then cbind (charged_membership actual expected) (\<lambda>r.
                   ret (Some (operator_outcome p (result_bind r (\<lambda>found. Inr (if pr_operator p = NotIn then \<not> found else found))))))
                 else cbind (charge (ob_retained_bytes ob)) (\<lambda>_.
                   cbind (charge (usize_saturating_add
                       (case encoded_byte_len (jx_text (mx_json mx)) actual of Inr n \<Rightarrow> n | Inl _ \<Rightarrow> 1) (pr_expected_bytes p))) (\<lambda>_.
                   ret (map_option (operator_outcome p) (apply_operator mx p actual expected))))))))"

definition evaluate_predicate ::
  "'r matcher_env \<Rightarrow> 'r CompiledPredicate \<Rightarrow> observation \<Rightarrow> (MatchState \<times> string list) option charged" where
  "evaluate_predicate mx p ob =
    cbind (try_resolve (mx_json mx) (pr_selector p) ob) (evaluate_resolved_predicate mx p ob)"

definition unevaluated :: "(MatchState \<times> string list) list \<Rightarrow> NonEvaluationReason list" where
  "unevaluated evaluations = List.map_filter (\<lambda>(state, _). case state of NotEvaluated reason \<Rightarrow> Some reason | _ \<Rightarrow> None) evaluations"

definition matched_paths :: "(MatchState \<times> string list) list \<Rightarrow> string list" where
  "matched_paths evaluations = concat (map snd (filter (\<lambda>(state, _). state = Match) evaluations))"

definition combine_all :: "(MatchState \<times> string list) list \<Rightarrow> MatchState \<times> string list" where
  "combine_all evaluations =
    (if NoMatch \<in> List.set (map fst evaluations) then (NoMatch, [])
     else case strongest_reason (unevaluated evaluations) of
       Some reason \<Rightarrow> (NotEvaluated reason, [])
     | None \<Rightarrow> (Match, matched_paths evaluations))"

definition combine_any :: "(MatchState \<times> string list) list \<Rightarrow> MatchState \<times> string list" where
  "combine_any evaluations =
    (if Match \<in> List.set (map fst evaluations) then (Match, matched_paths evaluations)
     else case strongest_reason (unevaluated evaluations) of
       Some reason \<Rightarrow> (NotEvaluated reason, [])
     | None \<Rightarrow> (NoMatch, []))"

fun combine_not :: "MatchState \<times> string list \<Rightarrow> MatchState \<times> string list" where
  "combine_not (Match, paths) = (NoMatch, [])"
| "combine_not (NoMatch, paths) = (Match, paths)"
| "combine_not (NotEvaluated reason, paths) = (NotEvaluated reason, [])"

text \<open>Every branch is evaluated before the results are combined; a panic of a branch is one of the node.\<close>

fun evaluate_node :: "'r matcher_env \<Rightarrow> observation \<Rightarrow> 'r CompiledMatcherNode \<Rightarrow> (MatchState \<times> string list) option charged"
and evaluate_nodes :: "'r matcher_env \<Rightarrow> observation \<Rightarrow> 'r CompiledMatcherNode list \<Rightarrow> (MatchState \<times> string list) list option charged"
where
  "evaluate_node mx ob (Predicate p) = cbind (charge 1) (\<lambda>_. evaluate_predicate mx p ob)"
| "evaluate_node mx ob (All branches) =
    cbind (charge 1) (\<lambda>_. cbind (evaluate_nodes mx ob branches) (\<lambda>evaluations. ret (map_option combine_all evaluations)))"
| "evaluate_node mx ob (Any branches) =
    cbind (charge 1) (\<lambda>_. cbind (evaluate_nodes mx ob branches) (\<lambda>evaluations. ret (map_option combine_any evaluations)))"
| "evaluate_node mx ob (Not branch) =
    cbind (charge 1) (\<lambda>_. cbind (evaluate_node mx ob branch) (\<lambda>evaluation. ret (map_option combine_not evaluation)))"
| "evaluate_nodes mx ob [] = ret (Some [])"
| "evaluate_nodes mx ob (node # nodes) =
    cbind (evaluate_node mx ob node) (\<lambda>evaluation.
      case evaluation of
        None \<Rightarrow> ret None
      | Some x \<Rightarrow> cbind (evaluate_nodes mx ob nodes) (\<lambda>xs. ret (map_option ((#) x) xs)))"

definition try_evaluate :: "'r matcher_env \<Rightarrow> 'r CompiledMatcher \<Rightarrow> observation \<Rightarrow> MatcherEvaluation option charged" where
  "try_evaluate mx m ob =
    cbind (charge 1) (\<lambda>_.
      case preflight_capabilities (cm_required_capabilities m) (ob_capability_context ob) of
        Some reason \<Rightarrow> ret (Some \<lparr>me_state = NotEvaluated reason, me_matched_selector_paths = []\<rparr>)
      | None \<Rightarrow> cbind (evaluate_node mx ob (cm_node m)) (\<lambda>evaluation.
          ret (map_option (\<lambda>(state, paths). \<lparr>me_state = state, me_matched_selector_paths = normalize_paths paths\<rparr>) evaluation)))"

definition evaluate :: "'r matcher_env \<Rightarrow> 'r CompiledMatcher \<Rightarrow> observation \<Rightarrow> (ProcessingError, MatcherEvaluation option) result" where
  "evaluate mx m ob = fst (try_evaluate mx m ob (retention_budget 0 0))"

section \<open>Matching without a budget\<close>

definition membership :: "JsonValue \<Rightarrow> JsonValue \<Rightarrow> (NonEvaluationReason, bool) result" where
  "membership actual expected =
    (let go = (\<lambda>vs. if list_all (\<lambda>v. \<exists>s. v = String s) vs \<and> (\<exists>s. actual = String s)
       then Inr (actual \<in> List.set vs) else Inl TypeMismatch)
     in case expected of String _ \<Rightarrow> go [expected] | Array vs \<Rightarrow> go vs | _ \<Rightarrow> Inl TypeMismatch)"

text \<open>What a predicate says of a resolved selector.\<close>

definition resolved_outcome :: "'r matcher_env \<Rightarrow> 'r CompiledPredicate \<Rightarrow> observation \<Rightarrow> SelectorResolution \<Rightarrow> MatchState \<times> string list" where
  "resolved_outcome mx p ob resolved =
    (case Option.bind (pr_require_capability p) (\<lambda>c. preflight_capability c (ob_capability_context ob)) of
       Some reason \<Rightarrow> (NotEvaluated reason, [])
     | None \<Rightarrow>
       if sr_presence resolved = UnavailableVisibility then (NotEvaluated InsufficientVisibility, [])
       else if sr_presence resolved = MetadataMissing then (NotEvaluated IneligibleInput, [])
       else if provenance_ineligible p resolved then (NotEvaluated IneligibleInput, [])
       else if \<not> is_present resolved
       then (if pr_operator p = NotExists then (Match, [selector_as_str (pr_selector p)])
             else if pr_operator p = NotEquals \<or> pr_operator p = NotIn then (NotEvaluated IneligibleInput, [])
             else (NoMatch, []))
       else if pr_operator p = NotExists then (NoMatch, [])
       else if pr_operator p = Exists then (Match, [selector_as_str (pr_selector p)])
       else (case sr_value resolved of
           None \<Rightarrow> (NotEvaluated IneligibleInput, [])
         | Some actual \<Rightarrow> (case pr_value p of
             None \<Rightarrow> (NotEvaluated TypeMismatch, [])
           | Some expected \<Rightarrow> operator_outcome p
               (if pr_operator p = In then membership actual expected
                else if pr_operator p = NotIn then result_bind (membership actual expected) (\<lambda>found. Inr (\<not> found))
                else the (apply_operator mx p actual expected)))))"

definition predicate_outcome :: "'r matcher_env \<Rightarrow> observation \<Rightarrow> 'r CompiledPredicate \<Rightarrow> MatchState \<times> string list" where
  "predicate_outcome mx ob p = resolved_outcome mx p ob (resolution (mx_json mx) (pr_selector p) ob)"

fun node_outcome :: "'r matcher_env \<Rightarrow> observation \<Rightarrow> 'r CompiledMatcherNode \<Rightarrow> MatchState \<times> string list" where
  "node_outcome mx ob (Predicate p) = predicate_outcome mx ob p"
| "node_outcome mx ob (All branches) = combine_all (map (node_outcome mx ob) branches)"
| "node_outcome mx ob (Any branches) = combine_any (map (node_outcome mx ob) branches)"
| "node_outcome mx ob (Not branch) = combine_not (node_outcome mx ob branch)"

lemma meters_check_strings:
  "meters (check_strings vs) (if list_all (\<lambda>v. \<exists>s. v = String s) vs then Inr () else Inl TypeMismatch)"
proof (induction vs)
  case Nil
  show ?case by (simp add: meters_ret)
next
  case (Cons v vs)
  then show ?case by (cases v) (auto intro: meters_intros)
qed

lemma meters_member_loop: "list_all (\<lambda>v. \<exists>s. v = String s) vs \<Longrightarrow> meters (member_loop a vs) (String a \<in> List.set vs)"
proof (induction vs)
  case Nil
  show ?case by (simp add: meters_ret)
next
  case (Cons v vs)
  then obtain s where v: "v = String s" by auto
  show ?case using Cons by (cases "a = s") (auto simp: v intro!: meters_intros)
qed

lemma meters_listed:
  "meters (cbind (check_strings vs) (\<lambda>checked. case checked of
         Inl reason \<Rightarrow> ret (Inl reason)
       | Inr _ \<Rightarrow> (case actual of
           String a \<Rightarrow> cbind (member_loop a vs) (\<lambda>found. ret (Inr found))
         | _ \<Rightarrow> ret (Inl TypeMismatch))))
     (if list_all (\<lambda>v. \<exists>s. v = String s) vs \<and> (\<exists>s. actual = String s) then Inr (actual \<in> List.set vs) else Inl TypeMismatch)"
proof (cases "list_all (\<lambda>v. \<exists>s. v = String s) vs")
  case True
  then have "meters (cbind (member_loop a vs) (\<lambda>found. ret (Inr found))) (Inr (String a \<in> List.set vs) :: (NonEvaluationReason, bool) result)" for a
    by (intro meters_bind [OF meters_member_loop] meters_ret)
  with True show ?thesis by (intro meters_bind [OF meters_check_strings]) (cases actual; simp add: meters_ret)
next
  case False
  then show ?thesis by (intro meters_bind [OF meters_check_strings]) (simp add: meters_ret)
qed

lemma meters_membership: "meters (charged_membership actual expected) (membership actual expected)"
  unfolding charged_membership_def membership_def Let_def
  by (cases expected; simp only: JsonValue.case; rule meters_listed meters_ret)

lemma apply_operator_defined: "apply_operator mx p actual expected = None \<longleftrightarrow> pr_operator p \<in> {In, NotIn, Exists, NotExists}"
  by (cases "pr_operator p") (simp_all add: apply_operator_def split: JsonValue.splits)

lemma meters_resolved: "meters (evaluate_resolved_predicate mx p ob resolved) (Some (resolved_outcome mx p ob resolved))"
proof -
  have bind: "result_bind r Inr = r" for r :: "(NonEvaluationReason, bool) result" by (cases r) simp_all
  have isin: "meters (cbind (charged_membership actual expected) (\<lambda>r. ret (Some (operator_outcome p (result_bind r Inr)))))
      (Some (operator_outcome p (membership actual expected)))" for actual expected
    by (rule meters_bind [OF meters_membership]) (simp add: bind meters_ret)
  have notin: "meters (cbind (charged_membership actual expected) (\<lambda>r. ret (Some (operator_outcome p (result_bind r (\<lambda>found. Inr (\<not> found)))))))
      (Some (operator_outcome p (result_bind (membership actual expected) (\<lambda>found. Inr (\<not> found)))))" for actual expected
    by (rule meters_bind [OF meters_membership]) (rule meters_ret)
  have op: "meters (cbind (charge i) (\<lambda>_. cbind (charge j) (\<lambda>_. ret (map_option (operator_outcome p) (apply_operator mx p actual expected)))))
      (Some (operator_outcome p (the (apply_operator mx p actual expected))))" if "pr_operator p \<notin> {In, NotIn, Exists, NotExists}" for actual expected i j
  proof -
    have "apply_operator mx p actual expected \<noteq> None" using that apply_operator_defined [of mx p actual expected] by blast
    then show ?thesis by (auto intro!: meters_intros)
  qed
  show ?thesis
    unfolding evaluate_resolved_predicate_def resolved_outcome_def Let_def
    by (rule meters_charge_bind) (auto split: option.splits intro!: meters_ret isin notin op)
qed

text \<open>What a predicate needs of the registry: a resolver whose value does not depend on the budget.\<close>

locale metered_resolver =
  fixes charged_resolve :: "SelectorId \<Rightarrow> observation \<Rightarrow> SelectorResolution charged"
    and plain_resolve :: "SelectorId \<Rightarrow> observation \<Rightarrow> SelectorResolution"
  assumes resolves: "meters (charged_resolve selector ob) (plain_resolve selector ob)"
begin

lemma predicate_meters:
  "meters (cbind (charged_resolve (pr_selector p) ob) (evaluate_resolved_predicate mx p ob))
    (Some (resolved_outcome mx p ob (plain_resolve (pr_selector p) ob)))"
  by (rule meters_bind [OF resolves meters_resolved])

end

interpretation registry: metered_resolver "try_resolve jx" "resolution jx" for jx
  by unfold_locales (rule meters_try_resolve)

lemma meters_predicate: "meters (evaluate_predicate mx p ob) (Some (predicate_outcome mx ob p))"
  unfolding evaluate_predicate_def predicate_outcome_def by (rule registry.predicate_meters)

lemma meters_node:
  "meters (evaluate_node mx ob node) (Some (node_outcome mx ob node))"
  "meters (evaluate_nodes mx ob nodes) (Some (map (node_outcome mx ob) nodes))"
proof (induction mx ob node and mx ob nodes rule: evaluate_node_evaluate_nodes.induct)
  case (1 mx ob p)
  show ?case by (simp add: meters_charge_bind meters_predicate)
next
  case (2 mx ob branches)
  then show ?case by (auto intro!: meters_charge_bind meters_bind meters_ret)
next
  case (3 mx ob branches)
  then show ?case by (auto intro!: meters_charge_bind meters_bind meters_ret)
next
  case (4 mx ob branch)
  then show ?case by (auto intro!: meters_charge_bind meters_bind meters_ret)
next
  case (5 mx ob)
  show ?case by (simp add: meters_ret)
next
  case (6 mx ob node nodes)
  then show ?case by (auto intro!: meters_bind meters_ret)
qed

text \<open>The outcome of a whole matcher.\<close>

definition matcher_outcome :: "'r matcher_env \<Rightarrow> 'r CompiledMatcher \<Rightarrow> observation \<Rightarrow> MatcherEvaluation" where
  "matcher_outcome mx m ob =
    (case preflight_capabilities (cm_required_capabilities m) (ob_capability_context ob) of
       Some reason \<Rightarrow> \<lparr>me_state = NotEvaluated reason, me_matched_selector_paths = []\<rparr>
     | None \<Rightarrow> (case node_outcome mx ob (cm_node m) of (state, paths) \<Rightarrow>
         \<lparr>me_state = state, me_matched_selector_paths = normalize_paths paths\<rparr>))"

lemma meters_try_evaluate: "meters (try_evaluate mx m ob) (Some (matcher_outcome mx m ob))"
proof -
  have "meters (cbind (evaluate_node mx ob (cm_node m)) (\<lambda>evaluation.
      ret (map_option (\<lambda>(state, paths). \<lparr>me_state = state, me_matched_selector_paths = normalize_paths paths\<rparr>) evaluation)))
    (Some (case node_outcome mx ob (cm_node m) of (state, paths) \<Rightarrow> \<lparr>me_state = state, me_matched_selector_paths = normalize_paths paths\<rparr>))"
    by (rule meters_bind [OF meters_node(1)]) (simp add: meters_ret)
  then show ?thesis
    unfolding try_evaluate_def matcher_outcome_def
    by (intro meters_charge_bind) (auto split: option.splits intro: meters_ret)
qed

section \<open>Three-valued logic\<close>

lemma strongest_reason_None [simp]: "strongest_reason rs = None \<longleftrightarrow> rs = []"
  by (cases rs) (simp_all add: strongest_reason_def)

lemma strongest_reason_Min: "rs \<noteq> [] \<Longrightarrow> strongest_reason rs = Some (Min (List.set rs))"
  by (cases rs) (simp_all add: strongest_reason_def Min.set_eq_fold [symmetric])

lemma unevaluated_set: "List.set (unevaluated es) = {r. NotEvaluated r \<in> List.set (map fst es)}"
  by (force simp: unevaluated_def List.map_filter_def split: MatchState.splits)

lemma unevaluated_Nil: "unevaluated es = [] \<longleftrightarrow> (\<forall>r. NotEvaluated r \<notin> List.set (map fst es))"
  using unevaluated_set [of es] by (metis (no_types, lifting) Collect_empty_eq List.set_empty)

lemma combine_all_state:
  "fst (combine_all es) =
    (if NoMatch \<in> List.set (map fst es) then NoMatch
     else if \<exists>r. NotEvaluated r \<in> List.set (map fst es) then NotEvaluated (Min {r. NotEvaluated r \<in> List.set (map fst es)})
     else Match)"
proof (cases "unevaluated es = []")
  case True
  then have "\<not> (\<exists>r. NotEvaluated r \<in> List.set (map fst es))" by (simp only: unevaluated_Nil) blast
  with True show ?thesis unfolding combine_all_def by (simp add: strongest_reason_def)
next
  case False
  then show ?thesis using unevaluated_Nil [of es] strongest_reason_Min [OF False] by (simp add: combine_all_def unevaluated_set)
qed

lemma combine_any_state:
  "fst (combine_any es) =
    (if Match \<in> List.set (map fst es) then Match
     else if \<exists>r. NotEvaluated r \<in> List.set (map fst es) then NotEvaluated (Min {r. NotEvaluated r \<in> List.set (map fst es)})
     else NoMatch)"
proof (cases "unevaluated es = []")
  case True
  then have "\<not> (\<exists>r. NotEvaluated r \<in> List.set (map fst es))" by (simp only: unevaluated_Nil) blast
  with True show ?thesis unfolding combine_any_def by (simp add: strongest_reason_def)
next
  case False
  then show ?thesis using unevaluated_Nil [of es] strongest_reason_Min [OF False] by (simp add: combine_any_def unevaluated_set)
qed

lemma combine_not_state: "fst (combine_not e) = (case fst e of Match \<Rightarrow> NoMatch | NoMatch \<Rightarrow> Match | s \<Rightarrow> s)"
  by (cases e rule: combine_not.cases) simp_all

text \<open>One state is the other, or was not evaluated yet.\<close>

definition refines :: "MatchState \<Rightarrow> MatchState \<Rightarrow> bool" where
  "refines s t \<longleftrightarrow> s = t \<or> (\<exists>r. s = NotEvaluated r)"

fun node_predicates :: "'r CompiledMatcherNode \<Rightarrow> 'r CompiledPredicate list" where
  "node_predicates (Predicate p) = [p]"
| "node_predicates (All branches) = concat (map node_predicates branches)"
| "node_predicates (Any branches) = concat (map node_predicates branches)"
| "node_predicates (Not branch) = node_predicates branch"

lemma refines_definite:
  "list_all2 refines ss ts \<Longrightarrow> s \<in> List.set ss \<Longrightarrow> (\<forall>r. s \<noteq> NotEvaluated r) \<Longrightarrow> s \<in> List.set ts"
  by (induction ss ts rule: list_all2_induct) (auto simp: refines_def)

lemma refines_evaluated: "list_all2 refines ss ts \<Longrightarrow> (\<forall>r. NotEvaluated r \<notin> List.set ss) \<Longrightarrow> ss = ts"
  by (induction ss ts rule: list_all2_induct) (auto simp: refines_def)

lemma refines_combine:
  assumes "list_all2 refines (map fst es) (map fst fs)"
  shows "refines (fst (combine_all es)) (fst (combine_all fs))" "refines (fst (combine_any es)) (fst (combine_any fs))"
proof -
  note definite = refines_definite [OF assms, of NoMatch] refines_definite [OF assms, of Match]
  show "refines (fst (combine_all es)) (fst (combine_all fs))"
  proof (cases "\<exists>r. NotEvaluated r \<in> List.set (map fst es)")
    case True
    then show ?thesis using definite(1) unfolding combine_all_state refines_def by auto
  next
    case False
    then have "map fst es = map fst fs" by (intro refines_evaluated [OF assms]) blast
    then show ?thesis unfolding combine_all_state refines_def by (simp only:) simp
  qed
  show "refines (fst (combine_any es)) (fst (combine_any fs))"
  proof (cases "\<exists>r. NotEvaluated r \<in> List.set (map fst es)")
    case True
    then show ?thesis using definite(2) unfolding combine_any_state refines_def by auto
  next
    case False
    then have "map fst es = map fst fs" by (intro refines_evaluated [OF assms]) blast
    then show ?thesis unfolding combine_any_state refines_def by (simp only:) simp
  qed
qed

lemma refines_not: "refines (fst e) (fst f) \<Longrightarrow> refines (fst (combine_not e)) (fst (combine_not f))"
  unfolding combine_not_state refines_def by auto

lemma node_refines:
  "(\<forall>p \<in> List.set (node_predicates node). refines (fst (predicate_outcome mx ob p)) (fst (predicate_outcome mx ob' p)))
    \<Longrightarrow> refines (fst (node_outcome mx ob node)) (fst (node_outcome mx ob' node))"
proof (induction node)
  case (All branches)
  then show ?case by (auto intro!: refines_combine simp: list_all2_conv_all_nth)
next
  case (Any branches)
  then show ?case by (auto intro!: refines_combine simp: list_all2_conv_all_nth)
qed (simp_all add: refines_not)

text \<open>Where every predicate is evaluated, the matcher is the Boolean formula of its predicates.\<close>

fun formula :: "('r CompiledPredicate \<Rightarrow> bool) \<Rightarrow> 'r CompiledMatcherNode \<Rightarrow> bool" where
  "formula h (Predicate p) = h p"
| "formula h (All branches) = list_all (formula h) branches"
| "formula h (Any branches) = list_ex (formula h) branches"
| "formula h (Not branch) = (\<not> formula h branch)"

lemma node_formula:
  "(\<forall>p \<in> List.set (node_predicates node). fst (predicate_outcome mx ob p) = (if h p then Match else NoMatch))
    \<Longrightarrow> fst (node_outcome mx ob node) = (if formula h node then Match else NoMatch)"
proof (induction node)
  case (All branches)
  then have "\<forall>b \<in> List.set branches. fst (node_outcome mx ob b) = (if formula h b then Match else NoMatch)" by auto
  then show ?case by (force simp: combine_all_state list_all_iff)
next
  case (Any branches)
  then have "\<forall>b \<in> List.set branches. fst (node_outcome mx ob b) = (if formula h b then Match else NoMatch)" by auto
  then show ?case by (force simp: combine_any_state list_ex_iff)
qed (simp_all add: combine_not_state)

text \<open>Sound three-valued verdicts: a definite one is the value of the formula for every completion of the unevaluated predicates.\<close>

definition completion :: "'r matcher_env \<Rightarrow> observation \<Rightarrow> ('r CompiledPredicate \<Rightarrow> bool) \<Rightarrow> 'r CompiledPredicate \<Rightarrow> bool" where
  "completion mx ob h p \<longleftrightarrow> refines (fst (predicate_outcome mx ob p)) (if h p then Match else NoMatch)"

lemma node_definite:
  "(\<forall>p \<in> List.set (node_predicates node). completion mx ob h p)
    \<Longrightarrow> refines (fst (node_outcome mx ob node)) (if formula h node then Match else NoMatch)"
proof (induction node)
  case (All branches)
  let ?v = "\<lambda>b. (if formula h b then Match else NoMatch, [] :: string list)"
  have "refines (fst (combine_all (map (node_outcome mx ob) branches))) (fst (combine_all (map ?v branches)))"
    using All by (intro refines_combine) (auto simp: list_all2_conv_all_nth)
  moreover have "fst (combine_all (map ?v branches)) = (if formula h (All branches) then Match else NoMatch)"
    by (force simp: combine_all_state list_all_iff)
  ultimately show ?case by simp
next
  case (Any branches)
  let ?v = "\<lambda>b. (if formula h b then Match else NoMatch, [] :: string list)"
  have "refines (fst (combine_any (map (node_outcome mx ob) branches))) (fst (combine_any (map ?v branches)))"
    using Any by (intro refines_combine) (auto simp: list_all2_conv_all_nth)
  moreover have "fst (combine_any (map ?v branches)) = (if formula h (Any branches) then Match else NoMatch)"
    by (force simp: combine_any_state list_ex_iff)
  ultimately show ?case by simp
next
  case (Not branch)
  then show ?case by (auto simp: combine_not_state refines_def)
qed (simp add: completion_def)

text \<open>Reported paths are selectors of predicates that matched, and only a match reports any.\<close>

lemma operator_outcome_paths: "snd (operator_outcome p r) = (if fst (operator_outcome p r) = Match then [selector_as_str (pr_selector p)] else [])"
  by (auto simp: operator_outcome_def split: sum.splits)

lemma predicate_paths:
  "snd (predicate_outcome mx ob p) = (if fst (predicate_outcome mx ob p) = Match then [selector_as_str (pr_selector p)] else [])"
  unfolding predicate_outcome_def resolved_outcome_def
  by (simp add: operator_outcome_paths split: option.splits)

lemma branch_paths:
  assumes "\<And>node. node \<in> List.set branches \<Longrightarrow> (fst (node_outcome mx ob node) \<noteq> Match \<longrightarrow> snd (node_outcome mx ob node) = [])
      \<and> List.set (snd (node_outcome mx ob node)) \<subseteq> h ` {p \<in> List.set (node_predicates node). P p}"
    and "ps = concat (map node_predicates branches)"
  shows "List.set (matched_paths (map (node_outcome mx ob) branches)) \<subseteq> h ` {p \<in> List.set ps. P p}"
proof
  fix x assume "x \<in> List.set (matched_paths (map (node_outcome mx ob) branches))"
  then obtain node where n: "node \<in> List.set branches" and "x \<in> List.set (snd (node_outcome mx ob node))"
    by (auto simp: matched_paths_def)
  with assms(1) [OF n] obtain p where "x = h p" "p \<in> List.set (node_predicates node)" "P p" by blast
  with n assms(2) show "x \<in> h ` {p \<in> List.set ps. P p}" by auto
qed

lemma node_paths:
  "(fst (node_outcome mx ob node) \<noteq> Match \<longrightarrow> snd (node_outcome mx ob node) = [])
    \<and> List.set (snd (node_outcome mx ob node))
        \<subseteq> (selector_as_str \<circ> pr_selector) ` {p \<in> List.set (node_predicates node). fst (predicate_outcome mx ob p) = Match}"
proof (induction node)
  case (Predicate p)
  show ?case by (auto simp: predicate_paths)
next
  case (All branches)
  have "List.set (matched_paths (map (node_outcome mx ob) branches))
      \<subseteq> (selector_as_str \<circ> pr_selector) ` {p \<in> List.set (node_predicates (All branches)). fst (predicate_outcome mx ob p) = Match}"
    using All by (rule branch_paths) simp_all
  then show ?case by (simp add: combine_all_def split: option.splits)
next
  case (Any branches)
  have "List.set (matched_paths (map (node_outcome mx ob) branches))
      \<subseteq> (selector_as_str \<circ> pr_selector) ` {p \<in> List.set (node_predicates (Any branches)). fst (predicate_outcome mx ob p) = Match}"
    using Any by (rule branch_paths) simp_all
  then show ?case by (simp add: combine_any_def split: option.splits)
next
  case (Not branch)
  then show ?case by (cases "node_outcome mx ob branch" rule: combine_not.cases) auto
qed

section \<open>Exact comparison of numbers\<close>

definition f64_value :: "f64 \<Rightarrow> real" where
  "f64_value f = (case f of Finite s m e \<Rightarrow> of_int (signed_mantissa s m) * 2 powi e | _ \<Rightarrow> 0)"

definition number_value :: "JsonValue \<Rightarrow> real" where
  "number_value v = (case v of Integer i \<Rightarrow> of_int i | Unsigned n \<Rightarrow> of_nat (unat n) | Number f \<Rightarrow> f64_value f | _ \<Rightarrow> 0)"

text \<open>An integer that a double represents: at most 53 significant bits.\<close>

definition exact_double :: "int \<Rightarrow> bool" where
  "exact_double i \<longleftrightarrow> (\<exists>m k. m < 2 ^ 53 \<and> nat \<bar>i\<bar> = m * 2 ^ k)"

definition comparable :: "JsonValue \<Rightarrow> JsonValue \<Rightarrow> bool" where
  "comparable a b \<longleftrightarrow>
    (case (a, b) of
       (Integer i, Number _) \<Rightarrow> exact_double i
     | (Number _, Integer i) \<Rightarrow> exact_double i
     | (Unsigned n, Number _) \<Rightarrow> exact_double (int (unat n))
     | (Number _, Unsigned n) \<Rightarrow> exact_double (int (unat n))
     | _ \<Rightarrow> True)"

text \<open>An \<open>Integer\<close> holds an \<open>i64\<close>.\<close>

definition i64_value :: "JsonValue \<Rightarrow> bool" where
  "i64_value v \<longleftrightarrow> (case v of Integer i \<Rightarrow> - (2 ^ 63) \<le> i \<and> i < 2 ^ 63 | _ \<Rightarrow> True)"

lemma excess_bits_bound: "n div 2 ^ excess_bits n < 2 ^ 53"
proof (induction n rule: excess_bits.induct)
  case (1 n)
  show ?case
  proof (cases "n < 2 ^ 53")
    case True
    then show ?thesis by (subst excess_bits.simps) simp
  next
    case False
    then have "excess_bits n = Suc (excess_bits (n div 2))" by (subst excess_bits.simps) simp
    then show ?thesis using 1 [OF False] by (simp add: div_mult2_eq)
  qed
qed

lemma excess_bits_le: "n < 2 ^ 53 * 2 ^ k \<Longrightarrow> excess_bits n \<le> k"
proof (induction k arbitrary: n)
  case 0
  then show ?case by (subst excess_bits.simps) simp
next
  case (Suc k)
  show ?case
  proof (cases "n < 2 ^ 53")
    case True
    then show ?thesis by (subst excess_bits.simps) simp
  next
    case False
    then have "excess_bits n = Suc (excess_bits (n div 2))" by (subst excess_bits.simps) simp
    moreover have "n div 2 < 2 ^ 53 * 2 ^ k" using Suc.prems by simp
    ultimately show ?thesis using Suc.IH by simp
  qed
qed

lemma round_exact: "round_half_even n k * 2 ^ k = n \<longleftrightarrow> 2 ^ k dvd n"
proof
  show "2 ^ k dvd n" if "round_half_even n k * 2 ^ k = n" using that by (metis dvd_triv_right)
  show "round_half_even n k * 2 ^ k = n" if "2 ^ k dvd n" using that by (simp add: round_half_even_def dvd_imp_mod_0 Let_def)
qed

lemma exact_double_iff: "exact_double i \<longleftrightarrow> 2 ^ excess_bits (nat \<bar>i\<bar>) dvd nat \<bar>i\<bar>"
proof
  let ?n = "nat \<bar>i\<bar>" and ?k = "excess_bits (nat \<bar>i\<bar>)"
  show "2 ^ ?k dvd ?n" if ex: "exact_double i"
  proof -
    obtain m k where m: "m < 2 ^ 53" "?n = m * 2 ^ k" using ex unfolding exact_double_def by blast
    then have "?n < 2 ^ 53 * 2 ^ k" by (metis mult_less_mono1 zero_less_numeral zero_less_power)
    then have "(2 :: nat) ^ ?k dvd 2 ^ k" using excess_bits_le le_imp_power_dvd by blast
    then show ?thesis using m(2) by (metis dvd_mult)
  qed
  show "exact_double i" if "2 ^ ?k dvd ?n"
    unfolding exact_double_def using that excess_bits_bound [of ?n] by (intro exI [of _ "?n div 2 ^ ?k"] exI [of _ ?k]) simp
qed

text \<open>The cast back to an integer detects exactly the conversions that lost bits.\<close>

lemma f64_of_int_parts:
  "f64_of_int i = Finite (i < 0) (round_half_even (nat \<bar>i\<bar>) (excess_bits (nat \<bar>i\<bar>))) (int (excess_bits (nat \<bar>i\<bar>)))"
  by (simp add: f64_of_int_def Let_def)

lemma clamp_inside: "\<bar>i\<bar> \<le> 2 ^ 64 \<Longrightarrow> clamp_i128 x = i \<longleftrightarrow> x = i"
  by (auto simp: clamp_i128_def max_def min_def)

lemma signed_mantissa_abs: "signed_mantissa (i < 0) m = i \<longleftrightarrow> m = nat \<bar>i\<bar>"
  by (auto simp: signed_mantissa_def)

lemma round_trip_iff: "\<bar>i\<bar> \<le> 2 ^ 64 \<Longrightarrow> f64_as_i128 (f64_of_int i) = i \<longleftrightarrow> exact_double i"
  by (simp add: f64_of_int_parts clamp_inside signed_mantissa_abs round_exact exact_double_iff)

lemma f64_of_int_value: "exact_double i \<Longrightarrow> f64_value (f64_of_int i) = of_int i"
proof -
  let ?n = "nat \<bar>i\<bar>" and ?k = "excess_bits (nat \<bar>i\<bar>)"
  assume "exact_double i"
  then have "round_half_even ?n ?k * 2 ^ ?k = ?n" unfolding round_exact exact_double_iff .
  then have "signed_mantissa (i < 0) (round_half_even ?n ?k * 2 ^ ?k) = i" by (simp add: signed_mantissa_def)
  then have "real_of_int (signed_mantissa (i < 0) (round_half_even ?n ?k * 2 ^ ?k)) = of_int i" by simp
  moreover have "signed_mantissa s (m * 2 ^ k) = signed_mantissa s m * 2 ^ k" for s m k by (simp add: signed_mantissa_def)
  ultimately show ?thesis by (simp add: f64_of_int_parts f64_value_def)
qed

lemma cmp_scaled: "0 < (c :: real) \<Longrightarrow> cmp (x * c) (y * c) = cmp x y"
  by (simp add: cmp_def)

lemma cmp_real_of_int: "cmp (real_of_int x) (real_of_int y) = cmp x y"
  by (simp add: cmp_def)

lemma powi_split: "k \<le> e \<Longrightarrow> (2 :: real) powi e = 2 ^ nat (e - k) * 2 powi k"
  using power_int_add [of "2 :: real" "e - k" k] by (simp add: power_int_def)

lemma partial_cmp_value: "is_finite f \<Longrightarrow> is_finite g \<Longrightarrow> partial_cmp f g = Some (cmp (f64_value f) (f64_value g))"
proof (cases f; cases g)
  fix s m e s' m' e'
  assume f: "f = Finite s m e" and g: "g = Finite s' m' e'"
  let ?k = "min e e'"
  have "cmp (f64_value f) (f64_value g) = cmp (real_of_int (signed_mantissa s m * 2 ^ nat (e - ?k)) * 2 powi ?k)
      (real_of_int (signed_mantissa s' m' * 2 ^ nat (e' - ?k)) * 2 powi ?k)"
    by (simp add: f g f64_value_def powi_split [of ?k e] powi_split [of ?k e'] mult.assoc)
  also have "\<dots> = cmp (signed_mantissa s m * 2 ^ nat (e - ?k)) (signed_mantissa s' m' * 2 ^ nat (e' - ?k))"
    by (simp only: cmp_scaled cmp_real_of_int zero_less_power_int zero_less_numeral)
  finally show ?thesis by (simp add: f g Let_def)
qed simp_all

lemma cmp_reverse: "reverse_ordering (cmp x y) = cmp y x"
  by (auto simp: cmp_def)

lemma signed_float_order_value:
  assumes "\<bar>i\<bar> \<le> 2 ^ 64"
  shows "signed_float_order i f = (if is_finite f \<and> exact_double i then Inr (cmp (of_int i) (f64_value f)) else Inl TypeMismatch)"
proof -
  have "is_finite (f64_of_int i)" by (simp add: f64_of_int_parts)
  then show ?thesis
    by (auto simp: signed_float_order_def Let_def round_trip_iff [OF assms] partial_cmp_value f64_of_int_value)
qed

lemma unsigned_float_order_value:
  "unsigned_float_order n f = (if is_finite f \<and> exact_double (int (unat n)) then Inr (cmp (of_nat (unat n)) (f64_value f)) else Inl TypeMismatch)"
proof -
  have "\<bar>int (unat n)\<bar> \<le> 2 ^ 64" using unsigned_less [of n, where ?'a = int] by simp
  moreover have "unsigned_float_order n f = signed_float_order (int (unat n)) f"
    by (simp add: unsigned_float_order_def signed_float_order_def)
  ultimately show ?thesis by (simp add: signed_float_order_value)
qed

lemma cmp_words: "cmp (v :: u64) w = cmp (real (unat v)) (real (unat w))"
  by (simp only: cmp_def word_less_nat_alt of_nat_less_iff of_nat_eq_iff unsigned_word_eqI word_unat_eq_iff)

lemma unat_word_of_int: "0 \<le> i \<Longrightarrow> i < 2 ^ 63 \<Longrightarrow> real (unat (word_of_int i :: u64)) = of_int i"
  by (simp add: unat_eq_nat_uint uint_word_of_int take_bit_int_eq_self)

lemma signed_unsigned_order:
  assumes "i64_value (Integer i)"
  shows "numeric_order (Integer i) (Unsigned n) = Inr (cmp (of_int i) (real (unat n)))"
    "numeric_order (Unsigned n) (Integer i) = Inr (cmp (real (unat n)) (of_int i))"
proof -
  consider "i < 0" | "0 \<le> i" by linarith
  then have "numeric_order (Integer i) (Unsigned n) = Inr (cmp (of_int i) (real (unat n)))
      \<and> numeric_order (Unsigned n) (Integer i) = Inr (cmp (real (unat n)) (of_int i))"
  proof cases
    case 1
    then have "real_of_int i < real (unat n)" by (smt (verit) of_int_less_0_iff of_nat_0_le_iff)
    then have "cmp (of_int i) (real (unat n)) = Less" "cmp (real (unat n)) (of_int i) = Greater" by (simp_all only: cmp_def) simp_all
    with 1 show ?thesis by (simp only: numeric_order.simps if_True)
  next
    case 2
    have "real (unat (word_of_int i :: u64)) = of_int i" using assms 2 by (intro unat_word_of_int) (simp_all add: i64_value_def)
    with 2 show ?thesis by (simp only: numeric_order.simps cmp_words not_less [symmetric] if_False)
  qed
  then show "numeric_order (Integer i) (Unsigned n) = Inr (cmp (of_int i) (real (unat n)))"
    "numeric_order (Unsigned n) (Integer i) = Inr (cmp (real (unat n)) (of_int i))" by blast+
qed

lemma numeric_order_value:
  assumes "i64_value a" and "i64_value b"
  shows "numeric_order a b = (if is_numeric a \<and> is_numeric b \<and> comparable a b then Inr (cmp (number_value a) (number_value b)) else Inl TypeMismatch)"
proof -
  have int: "\<bar>i\<bar> \<le> 2 ^ 64" if "i64_value (Integer i)" for i using that by (auto simp: i64_value_def)
  note numbers = number_value_def comparable_def reversed_def cmp_real_of_int cmp_reverse signed_float_order_value [OF int] unsigned_float_order_value
  show ?thesis
  proof (cases a)
    case (Integer i)
    with assms show ?thesis
      by (cases b) (auto simp: numbers signed_unsigned_order simp del: numeric_order.simps(3,4))
  next
    case (Unsigned n)
    with assms show ?thesis
      by (cases b) (auto simp: numbers cmp_words signed_unsigned_order simp del: numeric_order.simps(3,4))
  next
    case (Number f)
    with assms show ?thesis by (cases b) (auto simp: numbers partial_cmp_value)
  qed simp_all
qed

section \<open>What compiles\<close>

fun spec_depth :: "MatcherSpec \<Rightarrow> nat" where
  "spec_depth (PredicateNode p) = 0"
| "spec_depth (AllOf branches) = Suc (foldr max (map spec_depth branches) 0)"
| "spec_depth (AnyOf branches) = Suc (foldr max (map spec_depth branches) 0)"
| "spec_depth (NotOf branch) = Suc (spec_depth branch)"

fun spec_branches :: "MatcherSpec \<Rightarrow> nat" where
  "spec_branches (PredicateNode p) = 0"
| "spec_branches (AllOf branches) = length branches + sum_list (map spec_branches branches)"
| "spec_branches (AnyOf branches) = length branches + sum_list (map spec_branches branches)"
| "spec_branches (NotOf branch) = Suc (spec_branches branch)"

fun groups_filled :: "MatcherSpec \<Rightarrow> bool" where
  "groups_filled (PredicateNode p) = True"
| "groups_filled (AllOf branches) = (branches \<noteq> [] \<and> list_all groups_filled branches)"
| "groups_filled (AnyOf branches) = (branches \<noteq> [] \<and> list_all groups_filled branches)"
| "groups_filled (NotOf branch) = groups_filled branch"

fun spec_predicates :: "MatcherSpec \<Rightarrow> PredicateSpec list" where
  "spec_predicates (PredicateNode p) = [p]"
| "spec_predicates (AllOf branches) = concat (map spec_predicates branches)"
| "spec_predicates (AnyOf branches) = concat (map spec_predicates branches)"
| "spec_predicates (NotOf branch) = spec_predicates branch"

text \<open>A predicate that compiles: a known selector, a value exactly where the operator takes one, a valid pattern.\<close>

definition predicate_compiles :: "'r matcher_env \<Rightarrow> PredicateSpec \<Rightarrow> bool" where
  "predicate_compiles mx p \<longleftrightarrow> ps_selector p \<in> List.set SELECTORS \<and> (is_presence (ps_operator p) \<longleftrightarrow> ps_value p = None)
    \<and> (\<exists>r. compile_pattern mx (ps_operator p) (ps_value p) = Inr r)"

definition predicate_capabilities :: "PredicateSpec \<Rightarrow> CapabilityId set" where
  "predicate_capabilities p = set_option (ps_require_capability p)
    \<union> (case parse_selector (ps_selector p) of Inr selector \<Rightarrow> set_option (required_capability selector) | Inl _ \<Rightarrow> {})"

definition capability_set :: "CapabilityId list \<Rightarrow> bool" where
  "capability_set caps \<longleftrightarrow> sorted_wrt (<) (map capability_rank caps)"

lemma insert_capability:
  assumes "capability_set caps"
  shows "capability_set (insert_capability c caps) \<and> List.set (insert_capability c caps) = set_option c \<union> List.set caps"
proof (cases c)
  case None
  then show ?thesis using assms by (simp add: insert_capability_def)
next
  case (Some x)
  have inj: "capability_rank a = capability_rank b \<longleftrightarrow> a = b" for a b by (cases a; cases b) (simp_all add: capability_rank_def)
  have s: "sorted (map capability_rank caps)" "distinct (map capability_rank caps)"
    using assms by (simp_all add: capability_set_def strict_sorted_iff)
  have "capability_set (insort_key capability_rank x caps)" if "x \<notin> List.set caps"
    using s that by (auto simp: capability_set_def strict_sorted_iff sorted_insort_key distinct_map inj inj_on_def distinct_insort)
  then show ?thesis using assms Some by (auto simp: insert_capability_def set_insort_key)
qed

lemma compile_predicate_result:
  "(\<exists>r. compile_predicate mx p caps = Inr r) \<longleftrightarrow> predicate_compiles mx p"
  "compile_predicate mx p caps = Inr (q, caps') \<Longrightarrow> capability_set caps
    \<Longrightarrow> capability_set caps' \<and> List.set caps' = predicate_capabilities p \<union> List.set caps"
proof -
  show "(\<exists>r. compile_predicate mx p caps = Inr r) \<longleftrightarrow> predicate_compiles mx p"
    using parse_selector_iff [of "ps_selector p"]
    by (auto simp: compile_predicate_def predicate_compiles_def result_bind_eq_Inr_iff split: if_splits)
  assume c: "compile_predicate mx p caps = Inr (q, caps')" and caps: "capability_set caps"
  then obtain selector where "parse_selector (ps_selector p) = Inr selector"
    and "caps' = insert_capability (ps_require_capability p) (insert_capability (required_capability selector) caps)"
    by (auto simp: compile_predicate_def result_bind_eq_Inr_iff split: if_splits)
  then show "capability_set caps' \<and> List.set caps' = predicate_capabilities p \<union> List.set caps"
    using insert_capability [OF caps, of "required_capability selector"]
      insert_capability [of "insert_capability (required_capability selector) caps" "ps_require_capability p"]
    by (auto simp: predicate_capabilities_def)
qed

lemma count_branches_eq:
  "count_branches n k = (if n + k \<le> MAX_MATCHER_BRANCHES then Inr (n + k) else Inl BooleanBranchLimit)"
  by (simp add: count_branches_def usize_checked_add_def USIZE_MAX_def MAX_MATCHER_BRANCHES_def)

lemma max_depth: "foldr max xs (0 :: nat) \<le> n \<longleftrightarrow> (\<forall>x \<in> List.set xs. x \<le> n)"
  by (induction xs) auto

definition spec_fits :: "'r matcher_env \<Rightarrow> MatcherSpec \<Rightarrow> bool" where
  "spec_fits mx spec \<longleftrightarrow> groups_filled spec \<and> (\<forall>p \<in> List.set (spec_predicates spec). predicate_compiles mx p)"

text \<open>A compiled node: its specification was within the limits, and the state of the compiler has grown by what it counts.\<close>

definition compiled :: "'r matcher_env \<Rightarrow> MatcherSpec list \<Rightarrow> nat \<Rightarrow> CapabilityId list \<times> nat \<Rightarrow> CapabilityId list \<times> nat \<Rightarrow> bool" where
  "compiled mx specs d st st' \<longleftrightarrow>
    (\<forall>s \<in> List.set specs. d + spec_depth s \<le> MAX_MATCHER_DEPTH \<and> spec_fits mx s)
    \<and> snd st' = snd st + sum_list (map spec_branches specs)
    \<and> (snd st \<le> MAX_MATCHER_BRANCHES \<longrightarrow> snd st' \<le> MAX_MATCHER_BRANCHES)
    \<and> (capability_set (fst st) \<longrightarrow> capability_set (fst st')
        \<and> List.set (fst st') = (\<Union>p \<in> List.set (concat (map spec_predicates specs)). predicate_capabilities p) \<union> List.set (fst st))"

lemma compiled_group:
  assumes "compiled mx branches (Suc depth) (caps, n + length branches) st'" and "branches \<noteq> []" and "n + length branches \<le> MAX_MATCHER_BRANCHES"
    and "spec = AllOf branches \<or> spec = AnyOf branches"
  shows "compiled mx [spec] depth (caps, n) st'"
proof -
  obtain b where b: "b \<in> List.set branches" using assms(2) by (cases branches) auto
  have d: "spec_depth spec = Suc (foldr max (map spec_depth branches) 0)"
    and p: "spec_branches spec = length branches + sum_list (map spec_branches branches)"
      "spec_predicates spec = concat (map spec_predicates branches)" "groups_filled spec \<longleftrightarrow> branches \<noteq> [] \<and> list_all groups_filled branches"
    using assms(4) by auto
  have each: "\<forall>s \<in> List.set branches. Suc depth + spec_depth s \<le> MAX_MATCHER_DEPTH \<and> spec_fits mx s" using assms(1) by (simp add: compiled_def)
  then have "foldr max (map spec_depth branches) 0 \<le> MAX_MATCHER_DEPTH - Suc depth" by (auto simp: max_depth)
  then have "depth + spec_depth spec \<le> MAX_MATCHER_DEPTH" using d each b by fastforce
  moreover have "spec_fits mx spec" using each assms(2) p by (auto simp: spec_fits_def list_all_iff)
  ultimately show ?thesis using assms(1,3) p by (auto simp: compiled_def)
qed

lemma compiled_append: "compiled mx [s] d st st1 \<Longrightarrow> compiled mx ss d st1 st2 \<Longrightarrow> compiled mx (s # ss) d st st2"
  by (auto simp: compiled_def)

lemma compile_node_Inr:
  "compile_node mx spec d st = Inr (node, st') \<Longrightarrow> compiled mx [spec] d st st'"
  "compile_nodes mx specs d st = Inr (nodes, st') \<Longrightarrow> compiled mx specs d st st'"
proof (induction mx spec d st and mx specs d st arbitrary: node st' and nodes st' rule: compile_node_compile_nodes.induct)
  case (1 mx p depth caps branch_count)
  then obtain q caps' where q: "compile_predicate mx p caps = Inr (q, caps')" and st': "st' = (caps', branch_count)" and d: "depth \<le> MAX_MATCHER_DEPTH"
    by (auto simp: result_bind_eq_Inr_iff split: if_splits)
  moreover have "predicate_compiles mx p" using q compile_predicate_result(1) by blast
  ultimately show ?case using compile_predicate_result(2) [OF q] by (auto simp: compiled_def spec_fits_def)
next
  case (2 mx branches depth caps branch_count)
  then obtain nodes where d: "\<not> MAX_MATCHER_DEPTH < depth" "branches \<noteq> []" "branch_count + length branches \<le> MAX_MATCHER_BRANCHES"
    and n: "compile_nodes mx branches (depth + 1) (caps, branch_count + length branches) = Inr (nodes, st')"
    by (auto simp: result_bind_eq_Inr_iff count_branches_eq validate_branches_def split: if_splits)
  then show ?case using 2(1) [OF d(1) n] by (intro compiled_group) simp_all
next
  case (3 mx branches depth caps branch_count)
  then obtain nodes where d: "\<not> MAX_MATCHER_DEPTH < depth" "branches \<noteq> []" "branch_count + length branches \<le> MAX_MATCHER_BRANCHES"
    and n: "compile_nodes mx branches (depth + 1) (caps, branch_count + length branches) = Inr (nodes, st')"
    by (auto simp: result_bind_eq_Inr_iff count_branches_eq validate_branches_def split: if_splits)
  then show ?case using 3(1) [OF d(1) n] by (intro compiled_group) simp_all
next
  case (4 mx branch depth caps branch_count)
  then obtain inner where d: "\<not> MAX_MATCHER_DEPTH < depth" "branch_count + 1 \<le> MAX_MATCHER_BRANCHES"
    and n: "compile_node mx branch (depth + 1) (caps, branch_count + 1) = Inr (inner, st')"
    by (auto simp: result_bind_eq_Inr_iff count_branches_eq split: if_splits)
  then show ?case using 4(1) [OF d(1) n] by (auto simp: compiled_def spec_fits_def)
next
  case (5 mx depth st)
  then show ?case by (simp add: compiled_def)
next
  case (6 mx s ss depth st)
  then obtain n1 st1 ns where n: "compile_node mx s depth st = Inr (n1, st1)" "compile_nodes mx ss depth st1 = Inr (ns, st')"
    by (auto simp: result_bind_eq_Inr_iff)
  show ?case by (rule compiled_append [OF 6(1) [OF n(1)] 6(2) [OF n(2)]])
qed

lemma compile_node_defined:
  "d + spec_depth spec \<le> MAX_MATCHER_DEPTH \<Longrightarrow> spec_fits mx spec \<Longrightarrow> snd st + spec_branches spec \<le> MAX_MATCHER_BRANCHES
    \<Longrightarrow> \<exists>r. compile_node mx spec d st = Inr r"
  "\<forall>s \<in> List.set specs. d + spec_depth s \<le> MAX_MATCHER_DEPTH \<and> spec_fits mx s
    \<Longrightarrow> snd st + sum_list (map spec_branches specs) \<le> MAX_MATCHER_BRANCHES \<Longrightarrow> \<exists>r. compile_nodes mx specs d st = Inr r"
proof (induction mx spec d st and mx specs d st rule: compile_node_compile_nodes.induct)
  case (1 mx p depth caps branch_count)
  then obtain q caps' where "compile_predicate mx p caps = Inr (q, caps')"
    using compile_predicate_result(1) [of mx p caps] by (auto simp: spec_fits_def)
  then show ?case using 1 by simp
next
  case (2 mx branches depth caps branch_count)
  have each: "\<forall>s \<in> List.set branches. Suc depth + spec_depth s \<le> MAX_MATCHER_DEPTH"
    using 2(2) max_depth [of "map spec_depth branches" "foldr max (map spec_depth branches) 0"] by fastforce
  have "\<exists>r. compile_nodes mx branches (depth + 1) (caps, branch_count + length branches) = Inr r"
    using 2 each by (intro 2(1)) (auto simp: spec_fits_def list_all_iff)
  then show ?case using 2(2-4) by (auto simp: validate_branches_def count_branches_eq spec_fits_def)
next
  case (3 mx branches depth caps branch_count)
  have each: "\<forall>s \<in> List.set branches. Suc depth + spec_depth s \<le> MAX_MATCHER_DEPTH"
    using 3(2) max_depth [of "map spec_depth branches" "foldr max (map spec_depth branches) 0"] by fastforce
  have "\<exists>r. compile_nodes mx branches (depth + 1) (caps, branch_count + length branches) = Inr r"
    using 3 each by (intro 3(1)) (auto simp: spec_fits_def list_all_iff)
  then show ?case using 3(2-4) by (auto simp: validate_branches_def count_branches_eq spec_fits_def)
next
  case (4 mx branch depth caps branch_count)
  have "\<exists>r. compile_node mx branch (depth + 1) (caps, branch_count + 1) = Inr r"
    using 4 by (intro 4(1)) (auto simp: spec_fits_def)
  then show ?case using 4(2-4) by (auto simp: count_branches_eq)
next
  case (5 mx depth st)
  then show ?case by simp
next
  case (6 mx s ss depth st)
  then obtain n1 st1 where n: "compile_node mx s depth st = Inr (n1, st1)" by fastforce
  have "snd st1 = snd st + spec_branches s" using compile_node_Inr(1) [OF n] by (simp add: compiled_def)
  then have "\<exists>r. compile_nodes mx ss depth st1 = Inr r" using 6 by (intro 6(2) [of st1]) auto
  with n show ?case by auto
qed

lemma compile_defined: "(\<exists>m. compile mx spec = Inr m) \<longleftrightarrow>
    spec_depth spec \<le> MAX_MATCHER_DEPTH \<and> spec_branches spec \<le> MAX_MATCHER_BRANCHES \<and> spec_fits mx spec"
proof
  assume "\<exists>m. compile mx spec = Inr m"
  then obtain node st where "compile_node mx spec 0 ([], 0) = Inr (node, st)" by (auto simp: compile_def result_bind_eq_Inr_iff)
  from compile_node_Inr(1) [OF this] show "spec_depth spec \<le> MAX_MATCHER_DEPTH \<and> spec_branches spec \<le> MAX_MATCHER_BRANCHES \<and> spec_fits mx spec"
    by (auto simp: compiled_def)
next
  assume "spec_depth spec \<le> MAX_MATCHER_DEPTH \<and> spec_branches spec \<le> MAX_MATCHER_BRANCHES \<and> spec_fits mx spec"
  then obtain r where "compile_node mx spec 0 ([], 0) = Inr r" using compile_node_defined(1) [of 0 spec mx "([], 0)"] by auto
  then show "\<exists>m. compile mx spec = Inr m" by (cases r) (auto simp: compile_def)
qed

lemma compile_capabilities:
  assumes "compile mx spec = Inr m"
  shows "capability_set (cm_required_capabilities m)
    \<and> List.set (cm_required_capabilities m) = (\<Union>p \<in> List.set (spec_predicates spec). predicate_capabilities p)"
proof -
  obtain node caps n where c: "compile_node mx spec 0 ([], 0) = Inr (node, caps, n)" and "cm_required_capabilities m = caps"
    using assms by (auto simp: compile_def result_bind_eq_Inr_iff)
  then show ?thesis using compile_node_Inr(1) [OF c] by (simp add: compiled_def capability_set_def)
qed

section \<open>Properties\<close>

lemma evaluate_Inr: "evaluate mx m ob = Inr r \<Longrightarrow> r = Some (matcher_outcome mx m ob)"
proof -
  let ?b = "retention_budget 0 0"
  assume "evaluate mx m ob = Inr r"
  moreover have b: "\<not> is_exhausted ?b \<and> sb_work (rb_bounds ?b) \<le> USIZE_MAX"
    by (simp add: is_exhausted_def retention_budget_def)
  ultimately show ?thesis using meters_run [OF meters_try_evaluate [of mx m ob]] by (auto simp: evaluate_def split: if_splits)
qed

text \<open>C8. Charged evaluation implements matching. Every matcher has, for an observation, a fixed cost: a budget that
  covers it gets the outcome of the uncharged semantics, with the three-valued result of every branch combined
  and the selectors that matched, and pays exactly that cost; any other budget gets \<open>Bounds\<close> and is exhausted.
  No run reaches the operators that the code declares unreachable.\<close>

theorem evaluation_meters_matching:
  "\<exists>n. \<forall>b. \<not> is_exhausted b \<and> sb_work (rb_bounds b) \<le> USIZE_MAX \<longrightarrow>
    try_evaluate mx m ob b =
      (if rb_work_bytes b + n \<le> sb_work (rb_bounds b)
       then (Inr (Some (matcher_outcome mx m ob)), b\<lparr>rb_work_bytes := rb_work_bytes b + n\<rparr>)
       else (Inl Bounds, b\<lparr>rb_work_bytes := usize_saturating_add (sb_work (rb_bounds b)) 1\<rparr>))"
  by (rule meters_run [OF meters_try_evaluate])

text \<open>C6. Definite verdicts are sound. If evaluation says match or no match, the Boolean formula of the matcher has that
  value whatever the predicates that could not be evaluated turn out to be; the reported selectors belong to
  predicates that matched, and only a match reports any.\<close>

theorem verdicts_survive_completion:
  assumes "evaluate mx m ob = Inr (Some e)"
    and "\<forall>p \<in> List.set (node_predicates (cm_node m)). completion mx ob h p"
    and "me_state e = Match \<or> me_state e = NoMatch"
  shows "me_state e = (if formula h (cm_node m) then Match else NoMatch)
    \<and> (me_state e = NoMatch \<longrightarrow> me_matched_selector_paths e = [])
    \<and> List.set (me_matched_selector_paths e)
        \<subseteq> (selector_as_str \<circ> pr_selector) ` {p \<in> List.set (node_predicates (cm_node m)). fst (predicate_outcome mx ob p) = Match}"
proof -
  have e: "e = matcher_outcome mx m ob" using evaluate_Inr [OF assms(1)] by simp
  then have p: "preflight_capabilities (cm_required_capabilities m) (ob_capability_context ob) = None"
    using assms(3) by (auto simp: matcher_outcome_def split: option.splits)
  then have s: "me_state e = fst (node_outcome mx ob (cm_node m))"
    and q: "me_matched_selector_paths e = normalize_paths (snd (node_outcome mx ob (cm_node m)))"
    by (simp_all add: e matcher_outcome_def split: prod.splits)
  have "me_state e = (if formula h (cm_node m) then Match else NoMatch)"
    using node_definite [OF assms(2)] assms(3) s by (auto simp: refines_def)
  then show ?thesis using node_paths [of mx ob "cm_node m"] s q by (auto simp: normalize_paths_def sort_dedup_def)
qed

text \<open>C39. What the compiler accepts. A specification compiles exactly when it is nested at most eight deep, has at most
  64 branches in all, no empty group, and only predicates with a known selector, a value exactly where the
  operator takes one and a pattern that compiles; and the capabilities recorded for the preflight check are
  those that its selectors and predicates require.\<close>

theorem compile_accepts:
  "((\<exists>m. compile mx spec = Inr m) \<longleftrightarrow>
      spec_depth spec \<le> MAX_MATCHER_DEPTH \<and> spec_branches spec \<le> MAX_MATCHER_BRANCHES \<and> groups_filled spec
      \<and> list_all (predicate_compiles mx) (spec_predicates spec))
    \<and> (\<forall>m. compile mx spec = Inr m \<longrightarrow>
        List.set (cm_required_capabilities m) = (\<Union>p \<in> List.set (spec_predicates spec). predicate_capabilities p))"
  using compile_defined [of mx spec] compile_capabilities [of mx spec] by (auto simp: spec_fits_def list_all_iff)

text \<open>C40. Numbers compare by their value. Signed, unsigned and floating values are ordered as the real numbers they
  stand for; a comparison is refused only for a value that is not a finite number, or for an integer of more
  than 53 significant bits against a double, which no double equals.\<close>

theorem numeric_order_exact:
  assumes "i64_value a" and "i64_value b"
  shows "numeric_order a b =
    (if is_numeric a \<and> is_numeric b \<and> comparable a b then Inr (cmp (number_value a) (number_value b)) else Inl TypeMismatch)"
  by (rule numeric_order_value [OF assms])

theorem numeric_order_exact_witness:
  "numeric_order (Integer 3) (Number (Finite False 5 (-1))) = Inr Greater
    \<and> numeric_order (Integer (2 ^ 53 + 1)) (Number (Finite False 1 53)) = Inl TypeMismatch"
proof -
  have v: "i64_value (Integer 3)" "i64_value (Integer (2 ^ 53 + 1))" "i64_value (Number f)" for f by (simp_all add: i64_value_def)
  have "exact_double 3" unfolding exact_double_def by (intro exI [of _ 3] exI [of _ 0]) simp
  then have "numeric_order (Integer 3) (Number (Finite False 5 (-1))) = Inr Greater"
    using numeric_order_exact [OF v(1) v(3), of "Finite False 5 (-1)"]
    by (simp add: comparable_def number_value_def f64_value_def signed_mantissa_def cmp_def power_int_def)
  moreover have "excess_bits (2 ^ 53 + 1) = 1" by (simp add: excess_bits.simps)
  then have "\<not> exact_double (2 ^ 53 + 1)" by (simp add: exact_double_iff)
  then have "numeric_order (Integer (2 ^ 53 + 1)) (Number (Finite False 1 53)) = Inl TypeMismatch"
    using numeric_order_exact [OF v(2) v(3), of "Finite False 1 53"] by (simp add: comparable_def)
  ultimately show ?thesis by blast
qed

definition sample_engine :: "string matcher_env" where
  "sample_engine = \<lparr>mx_json = sample_json,
     mx_regex = \<lparr>regex_new = \<lambda>s. if s = ''('' then Inl ''unclosed'' else Inr s, regex_is_match = \<lambda>r s. r = s\<rparr>, mx_escape = \<lambda>c. [c]\<rparr>"

definition sample_spec :: MatcherSpec where
  "sample_spec = AnyOf
    [PredicateNode \<lparr>ps_selector = ''tool.exit_code'', ps_operator = Gt, ps_value = Some (Integer 2), ps_require_provenance = None, ps_require_capability = None\<rparr>,
     NotOf (PredicateNode \<lparr>ps_selector = ''tool.result'', ps_operator = Exists, ps_value = None, ps_require_provenance = None, ps_require_capability = None\<rparr>)]"

definition sample_matcher :: "string CompiledMatcher" where
  "sample_matcher = \<lparr>cm_node = Any
      [Predicate \<lparr>pr_selector = ToolExitCode, pr_operator = Gt, pr_value = Some (Integer 2), pr_expected_bytes = 1, pr_require_provenance = None,
         pr_require_capability = None, pr_pattern = None\<rparr>,
       Not (Predicate \<lparr>pr_selector = ToolResult, pr_operator = Exists, pr_value = None, pr_expected_bytes = 0, pr_require_provenance = None,
         pr_require_capability = None, pr_pattern = None\<rparr>)],
    cm_required_capabilities = [ToolCall]\<rparr>"

lemma sample_parses: "parse_selector ''tool.exit_code'' = Inr ToolExitCode" "parse_selector ''tool.result'' = Inr ToolResult"
  using parse_as_str_named [of ToolExitCode] parse_as_str_named [of ToolResult] by simp_all

lemma sample_spec_compiles: "compile sample_engine sample_spec = Inr sample_matcher"
  by (simp add: compile_def sample_spec_def MAX_MATCHER_DEPTH_def validate_branches_def MAX_MATCHER_BRANCHES_def count_branches_eq
      compile_predicate_def sample_parses is_presence_def compile_pattern_def insert_capability_def encoded_byte_len.simps show_int_def show_nat.simps
      sample_matcher_def rust_simps)

theorem compile_accepts_witness:
  "spec_depth sample_spec \<le> MAX_MATCHER_DEPTH \<and> spec_branches sample_spec \<le> MAX_MATCHER_BRANCHES \<and> groups_filled sample_spec
    \<and> List.set (cm_required_capabilities sample_matcher) = (\<Union>p \<in> List.set (spec_predicates sample_spec). predicate_capabilities p)"
  using compile_accepts [of sample_engine sample_spec] sample_spec_compiles by blast

lemma sample_evaluates:
  "evaluate sample_engine sample_matcher sample_tool_result = Inr (Some \<lparr>me_state = Match, me_matched_selector_paths = [''tool.exit_code'']\<rparr>)"
proof -
  have path: "normalize_paths [''tool.exit_code''] = [''tool.exit_code'']" by (simp add: normalize_paths_def sort_dedup_def)
  have env: "mx_json sample_engine = sample_json" by (simp add: sample_engine_def)
  show ?thesis
    by (simp add: evaluate_def try_evaluate_def sample_matcher_def cbind_def charge_covered preflight_capabilities_def context_resolve_def
        resolve_capability_def sample_parts env evaluate_predicate_def evaluate_resolved_predicate_def sample_try_resolve sample_resolution sample_field
        provenance_ineligible_def is_present_def ret_def encoded_byte_len.simps show_int_def show_nat.simps usize_saturating_add_def USIZE_MAX_def
        apply_operator_def operator_outcome_def cmp_def combine_any_def matched_paths_def path rust_simps)
qed

lemma sample_outcome: "matcher_outcome sample_engine sample_matcher sample_tool_result = \<lparr>me_state = Match, me_matched_selector_paths = [''tool.exit_code'']\<rparr>"
  using evaluate_Inr [OF sample_evaluates] by simp

theorem evaluation_meters_matching_witness:
  "\<exists>n. try_evaluate sample_engine sample_matcher sample_tool_result (retention_budget 0 0)
    = (Inr (Some \<lparr>me_state = Match, me_matched_selector_paths = [''tool.exit_code'']\<rparr>), retention_budget n 0)"
proof -
  have b: "\<not> is_exhausted (retention_budget 0 0) \<and> sb_work (rb_bounds (retention_budget 0 0)) \<le> USIZE_MAX"
    by (simp add: is_exhausted_def retention_budget_def)
  obtain n where "try_evaluate sample_engine sample_matcher sample_tool_result (retention_budget 0 0) =
      (if rb_work_bytes (retention_budget 0 0) + n \<le> sb_work (rb_bounds (retention_budget 0 0))
       then (Inr (Some (matcher_outcome sample_engine sample_matcher sample_tool_result)), (retention_budget 0 0)\<lparr>rb_work_bytes := rb_work_bytes (retention_budget 0 0) + n\<rparr>)
       else (Inl Bounds, (retention_budget 0 0)\<lparr>rb_work_bytes := usize_saturating_add (sb_work (rb_bounds (retention_budget 0 0))) 1\<rparr>))"
    using evaluation_meters_matching [of sample_engine sample_matcher sample_tool_result] b by blast
  then have "try_evaluate sample_engine sample_matcher sample_tool_result (retention_budget 0 0)
      = (Inr (Some \<lparr>me_state = Match, me_matched_selector_paths = [''tool.exit_code'']\<rparr>), retention_budget n 0)"
    using sample_evaluates unfolding sample_outcome by (auto simp: evaluate_def retention_budget_def split: if_splits)
  then show ?thesis by blast
qed

text \<open>The result text has no metadata, so the negated predicate is not evaluated; the match holds whatever it would say.\<close>

lemma sample_completions:
  assumes "h = (\<lambda>p. pr_selector p = ToolExitCode) \<or> h = (\<lambda>p. True)"
  shows "\<forall>p \<in> List.set (node_predicates (cm_node sample_matcher)). completion sample_engine sample_tool_result h p"
proof -
  have env: "mx_json sample_engine = sample_json" by (simp add: sample_engine_def)
  have code: "resolution sample_json ToolExitCode sample_tool_result = resolve_value sample_json ToolExitCode sample_tool_result"
    "resolution sample_json ToolResult sample_tool_result = field_of ToolResult sample_tool_result ''tool.result'' (String ''ok'') (Some ToolCall)"
    by (simp_all add: resolution_def is_message_selector_def direct_result_def sample_parts)
  show ?thesis using assms
    by (auto simp: sample_matcher_def completion_def predicate_outcome_def resolved_outcome_def env code sample_resolution sample_field
        provenance_ineligible_def is_present_def apply_operator_def operator_outcome_def cmp_def refines_def)
qed

theorem verdicts_survive_completion_witness:
  "formula (\<lambda>p. pr_selector p = ToolExitCode) (cm_node sample_matcher) \<and> formula (\<lambda>p. True) (cm_node sample_matcher)"
  using verdicts_survive_completion [OF sample_evaluates sample_completions [of "\<lambda>p. pr_selector p = ToolExitCode"]]
    verdicts_survive_completion [OF sample_evaluates sample_completions [of "\<lambda>p. True"]] by (simp split: if_splits)

end
