(* ===== verification/Spec2Isabelle.thy ===== *)
theory Spec2Isabelle
  imports Scoring Segment Process_Chain_Rules Process_Chain_Session Events Correlation Durable_Runs Matcher
begin

text \<open>
  Telltale reads the session records of AI coding agents, evaluates detection rules on them, scores
  what it finds, and delivers events to local and remote sinks. This development models the parts that
  carry the program's own logic and proves what they promise. Paths below are relative to \<open>src/\<close>; the
  crates are under \<open>crates/\<close>, the binary with its sinks under \<open>src/\<close>.

  \<^bold>\<open>How the parts interact.\<close> Source adapters turn records into observations, whose values are bounded JSON
  (\<open>Values\<close>). Matchers select fields of an observation (\<open>Selector\<close>) and evaluate conditions on them under a
  work budget (\<open>Matcher\<close>). Process-chain rules look at a parent and a child process
  (\<open>Process_Chain_Rules\<close>), split shell text into segments (\<open>Segment\<close>), and are combined over a session
  (\<open>Process_Chain_Session\<close>). What matched carries risk contributions (\<open>Scoring\<close>), which the constructors of
  events account for (\<open>Events\<close>). Events of different sessions are correlated (\<open>Correlation\<close>). Events go
  to the local log, which rotates (\<open>Rotation\<close>). With durable delivery the log is the journal: its records
  are reconciled into an outbox (\<open>Outbox\<close>, \<open>Outbox_Journal\<close>, \<open>Journal_Capacity\<close>), from which a dispatcher
  sends them (\<open>Delivery\<close>). The sink set composes all of it (\<open>Durable\<close>, \<open>Durable_Runs\<close>).

  \<^bold>\<open>Conventions.\<close> A Rust string is the list of its UTF-8 bytes. A \<open>u64\<close>, \<open>u32\<close> or \<open>u16\<close> is a word of that
  width, with checked addition where the code checks and wrap-around where it wraps; a \<open>usize\<close> is a natural number,
  bounded by \<open>USIZE_MAX\<close> where the code relies on it. A \<open>BTreeMap\<close> is a sorted association list, with the
  locales \<open>ordered_map\<close> and \<open>grouping_map\<close> of the prelude as its interface. A fallible function returns a
  sum whose left part is the error of the source; a panic is such an error too, where the code can reach
  one. Charged and stateful code is written with \<open>cbind\<close> and \<open>ret\<close>: a computation takes the state and returns
  the result together with the state that it has reached, also when it fails.

  \<^bold>\<open>Theories.\<close>
  \<^item> \<open>Telltale_Prelude\<close>: results, computations, checked arithmetic, sorted maps, the used part of \<open>str\<close>,
    and the shared lemmas and collections of rules.
  \<^item> \<open>Scoring\<close>, for \<open>crates/telltale-schema/src/scoring.rs\<close>: rationales, contributions, their canonical order
    and checked sum, thresholds. Canonicalisation is order independent and idempotent, and succeeds
    exactly when contributions are valid, free of conflicts and their sum fits.
  \<^item> \<open>Events\<close>, for \<open>crates/telltale-schema/src/event/\<close> (\<open>mod.rs\<close>, \<open>time.rs\<close>, \<open>inventory.rs\<close>): inputs, their checks, and the nine
    constructors with the builder. The locale \<open>scored_constructor\<close> is the contract of the four
    constructors that score; it is interpreted on each of them. The lemmas give the account an
    event carries and, for every input, whether a constructor succeeds, rejects or panics: \<open>time.rs\<close> panics
    on instants outside the dates of the \<open>time\<close> crate, and \<open>datable\<close> says when that happens.
  \<^item> \<open>Correlation\<close>, for \<open>crates/telltale-detect/src/correlation.rs\<close>: grouping, the two-pointer window, merging, and the
    events made of the result. The window is the longest run, every reported correlation is backed by
    detections, and the constructor of correlation events accepts one exactly when the maximum agrees.
  \<^item> \<open>Segment\<close>, for \<open>crates/telltale-rules/src/segment.rs\<close>: the index-based scanner equals a structural splitter.
  \<^item> \<open>Process_Chain_Rules\<close>, for \<open>crates/telltale-rules/src/process_chain.rs\<close>: compilation of packs, evaluation, deduplication and the
    controls of the deployment, with the independence of the charge and the graded scores.
  \<^item> \<open>Process_Chain_Session\<close>, for \<open>crates/telltale-detect/src/process_chain_session.rs\<close>: suppression, sound and complete correlation, and
    the anchored search with the work it debits.
  \<^item> \<open>Values\<close>, for \<open>crates/telltale-schema/src/observation/value.rs\<close>: admission, canonical form and bounds. What is admitted
    is canonical and passes the check of the builder. Sizes are stated for a spelling of floats, as the bound check
    and the encoding use different ones.
  \<^item> \<open>Selector\<close>, for \<open>crates/telltale-detect/src/v2/selector.rs\<close> and the budget of \<open>v2/session.rs\<close>: the registry, resolution on every
    kind of body, and charged resolution, whose direct paths give the value of the general resolver.
  \<^item> \<open>Matcher\<close>, for \<open>crates/telltale-detect/src/v2/matcher.rs\<close>: compilation, three-valued evaluation, comparison of numbers. A definite
    verdict holds for every completion of what could not be evaluated. The locale \<open>metered_resolver\<close> is what the
    matcher needs of the selectors, interpreted on \<open>try_resolve\<close>.
  \<^item> \<open>Outbox\<close>, for the tables of \<open>src/sink/outbox.rs\<close>: rows with the column types of SQLite, their decoding, and the state of a delivery as a
    step relation. The locale \<open>durable_operation\<close> is the contract of the operations on the outbox
    (the invariant, stored bytes, the life of a row), interpreted on release, reconciliation and dispatch.
  \<^item> \<open>Outbox_Journal\<close> and \<open>Journal_Capacity\<close>, for the journal half of \<open>src/sink/outbox.rs\<close>: reconciliation refines a write-once store, pruning deletes
    only what is stored, the chunked capacity scan is an accounting of lines, and an admitted batch
    keeps the pending, the unread and the new events within the limits.
  \<^item> \<open>Rotation\<close>, for \<open>src/sink/jsonl.rs\<close>, \<open>crates/telltale-sources/src/journal.rs\<close> and the part of \<open>src/file_lock.rs\<close> they use: the calendar, rotated names, discovery, cleanup,
    the sidecar lock, and an emission with all its refusals.
  \<^item> \<open>Delivery\<close>, \<open>Durable\<close> and \<open>Durable_Runs\<close>, for \<open>src/sink/mod.rs\<close>: dispatch, the registration of sinks, the durable path, and runs of whole
    deliveries interrupted by crashes and torn writes. The locale \<open>graded_state\<close> carries the relation \<open>lossless\<close>
    through a computation.

  \<^bold>\<open>Properties across components\<close> are in \<open>Durable_Runs\<close>: along every run a record that the journal or the outbox
  holds stays in one of them, and a persistence that succeeds has stored every event with its delivery rows.

  \<^bold>\<open>Bounds and fuel.\<close> Loops that the code bounds keep its bounds: sixteen rows for each sink in a dispatch,
  64 MiB and chunks of 64 KiB in the capacity scan, depth eight and sixty-four branches of a matcher.
  Only the search for a free rotated name takes fuel, one more than the number of directory
  entries; as names with different counters differ, one of them is free, so the fuel is never used up.
  Every other loop is a recursion with a termination proof.

  \<^bold>\<open>Parameters.\<close> Code outside the repository is an argument: the clock, UUIDs, SHA-256, the \<open>time\<close> crate and the dates it supports
  (\<open>runtime\<close>); the regex crate (\<open>regex_engine\<close>, \<open>mx_regex\<close>) and the expressions of \<open>event/redaction.rs\<close>
  (\<open>privacy_filters\<close>); Unicode normalisation and the spelling of floats (\<open>text_env\<close>); the JSON parser (\<open>codec\<close>); remote sinks (\<open>transport\<close>);
  and the serialisation of an event (\<open>env_serialize\<close>). What a theorem needs of them is a hypothesis of its statement and
  documented behaviour: normalisation is idempotent, RFC 3339 formatting parses back, compact JSON has no newline.

  \<^bold>\<open>Not modelled\<close> are reading of client files, redaction, serialisation, the session evaluation above the
  matcher, Event 4, remote sinks, opening and migration of the database, the command line and the console:
  input and output, generated code, third-party formats, or components that the modelled ones do not call.
  Failures of the operating system end an operation with an error; a process that ignores the locks is not
  considered.
\<close>

end
